(* ===== verification/Prelude.thy ===== *)
theory Prelude
  imports Main "HOL-Library.Word" "HOL-Library.Monad_Syntax"
begin

text \<open>
  Shared ground of the development: the types that stand for the machine integers of the C
  sources (an LP64 little-endian host: \<open>uint8_t\<close> to \<open>uint64_t\<close> and \<open>size_t\<close> as words), the
  collections of rewrite rules the components fill, and the generic facts on lists, options and
  words that several components use.
\<close>

unbundle bit_operations_syntax

named_theorems mem_simps \<open>reads over writes in byte buffers\<close>
named_theorems layout_simps \<open>evaluated member offsets and structure sizes\<close>
named_theorems wire_simps \<open>constants and conversions of the wire format\<close>

type_synonym u8 = "8 word"
type_synonym u16 = "16 word"
type_synonym u32 = "32 word"
type_synonym u64 = "64 word"
type_synonym size_t = "64 word"
type_synonym bytes = "8 word list"

section \<open>Lists and options\<close>

lemma bind_Some_iff [simp]: "Option.bind m f = Some b \<longleftrightarrow> (\<exists>a. m = Some a \<and> f a = Some b)"
  by (cases m) auto

lemma list_eq_iff_nth: "xs = ys \<longleftrightarrow> length xs = length ys \<and> (\<forall>i < length xs. xs ! i = ys ! i)"
  by (simp add: list_eq_iff_nth_eq)

lemma length_2_conv: "length xs = 2 \<longleftrightarrow> (\<exists>a b. xs = [a, b])"
  by (auto simp: length_Suc_conv eval_nat_numeral)

lemma length_4_conv: "length xs = 4 \<longleftrightarrow> (\<exists>a b c d. xs = [a, b, c, d])"
  by (auto simp: length_Suc_conv eval_nat_numeral)

lemma length_8_conv: "length xs = 8 \<longleftrightarrow> (\<exists>a b c d e f g h. xs = [a, b, c, d, e, f, g, h])"
  by (auto simp: length_Suc_conv eval_nat_numeral)

section \<open>Words\<close>

lemma unat_of_nat_small: "n < 2 ^ LENGTH('a) \<Longrightarrow> unat (of_nat n :: 'a::len word) = n"
  by (simp add: unat_of_nat take_bit_nat_eq_self)

lemma unat_of_nat64 [simp]: "n < 2 ^ 64 \<Longrightarrow> unat (of_nat n :: u64) = n"
  by (simp add: unat_of_nat take_bit_nat_eq_self)

end
