(* ===== verification/CMem.thy ===== *)
theory CMem
  imports Prelude
begin

text \<open>
  Byte buffers as the C code sees them. A buffer is a list of bytes; a load, a store or a
  \<open>memcpy\<close> at an offset yields \<open>None\<close> when it leaves the buffer, which stands for the undefined
  behaviour of the C program. \<open>malloc\<close> takes its result from a parameter: for each size either
  \<open>None\<close> (the null pointer) or the bytes the block happens to hold, which the program has not
  initialised. Scalars are stored in the byte order of the (little-endian) host; \<open>htons\<close> and
  \<open>htonl\<close> are the byte swaps of the C library on such a host. The locale \<open>scalar\<close> is the interface
  the codecs use: a fixed-width encoding and its inverse.
\<close>

section \<open>Reading and writing\<close>

definition upd :: "nat \<Rightarrow> 'a list \<Rightarrow> 'a list \<Rightarrow> 'a list" where
  "upd off xs bs =
     map (\<lambda>i. if off \<le> i \<and> i < off + length xs then xs ! (i - off) else bs ! i) [0..<length bs]"

definition slice :: "nat \<Rightarrow> nat \<Rightarrow> 'a list \<Rightarrow> 'a list" where
  "slice off n bs = take n (drop off bs)"

definition put_bytes :: "nat \<Rightarrow> bytes \<Rightarrow> bytes \<Rightarrow> bytes option" where
  "put_bytes off xs bs = (if off + length xs \<le> length bs then Some (upd off xs bs) else None)"

definition get_bytes :: "nat \<Rightarrow> nat \<Rightarrow> bytes \<Rightarrow> bytes option" where
  "get_bytes off n bs = (if off + n \<le> length bs then Some (slice off n bs) else None)"

type_synonym heap = "size_t \<Rightarrow> (nat \<Rightarrow> u8) option"

definition malloc :: "heap \<Rightarrow> size_t \<Rightarrow> bytes option" where
  "malloc h n = map_option (\<lambda>junk. map junk [0..<unat n]) (h n)"

definition memset :: "nat \<Rightarrow> u8 \<Rightarrow> nat \<Rightarrow> bytes \<Rightarrow> bytes option" where
  "memset off c n bs = put_bytes off (replicate n c) bs"

lemma length_upd [simp]: "length (upd off xs bs) = length bs"
  by (simp add: upd_def)

lemma nth_upd [simp]:
  "i < length bs \<Longrightarrow>
     upd off xs bs ! i = (if off \<le> i \<and> i < off + length xs then xs ! (i - off) else bs ! i)"
  by (simp add: upd_def)

lemma upd_Nil [simp]: "upd off [] bs = bs"
  by (rule nth_equalityI) auto

lemma length_slice [simp]: "off + n \<le> length bs \<Longrightarrow> length (slice off n bs) = n"
  by (simp add: slice_def)

lemma nth_slice [simp]: "i < n \<Longrightarrow> off + n \<le> length bs \<Longrightarrow> slice off n bs ! i = bs ! (off + i)"
  by (simp add: slice_def)

lemma slice_all [simp]: "n = length bs \<Longrightarrow> slice 0 n bs = bs"
  by (simp add: slice_def)

lemma slice_zero [simp]: "slice off 0 bs = []"
  by (simp add: slice_def)

lemma slice_upd_same [mem_simps]:
  "n = length xs \<Longrightarrow> off + n \<le> length bs \<Longrightarrow> slice off n (upd off xs bs) = xs"
  by (rule nth_equalityI) auto

lemma slice_upd_other [mem_simps]:
  "off + n \<le> o' \<or> o' + length xs \<le> off \<Longrightarrow> off + n \<le> length bs \<Longrightarrow>
     slice off n (upd o' xs bs) = slice off n bs"
  by (rule nth_equalityI) auto

lemma slice_upd_inside [mem_simps]:
  "o' \<le> off \<Longrightarrow> off + n \<le> o' + length xs \<Longrightarrow> off + n \<le> length bs \<Longrightarrow>
     slice off n (upd o' xs bs) = slice (off - o') n xs"
  by (rule nth_equalityI) auto

lemma slice_replicate [mem_simps]:
  "off + n \<le> m \<Longrightarrow> slice off n (replicate m x) = replicate n x"
  by (rule nth_equalityI) auto

lemma put_bytes_Some [mem_simps]:
  "off + length xs \<le> length bs \<Longrightarrow> put_bytes off xs bs = Some (upd off xs bs)"
  by (simp add: put_bytes_def)

lemma put_bytes_None [mem_simps]: "length bs < off + length xs \<Longrightarrow> put_bytes off xs bs = None"
  by (simp add: put_bytes_def)

lemma put_bytes_length: "put_bytes off xs bs = Some bs' \<Longrightarrow> length bs' = length bs"
  by (auto simp: put_bytes_def split: if_splits)

lemma get_bytes_Some [mem_simps]: "off + n \<le> length bs \<Longrightarrow> get_bytes off n bs = Some (slice off n bs)"
  by (simp add: get_bytes_def)

lemma get_bytes_None [mem_simps]: "length bs < off + n \<Longrightarrow> get_bytes off n bs = None"
  by (simp add: get_bytes_def)

lemma memset_Some [mem_simps]:
  "off + n \<le> length bs \<Longrightarrow> memset off c n bs = Some (upd off (replicate n c) bs)"
  by (simp add: memset_def put_bytes_def)

lemma malloc_length: "malloc h n = Some bs \<Longrightarrow> length bs = unat n"
  by (auto simp: malloc_def)

lemma upd_append:
  "off + length xs \<le> length bs \<Longrightarrow> upd off xs bs = take off bs @ xs @ drop (off + length xs) bs"
  by (rule nth_equalityI) (auto simp: nth_append)

lemma put_at:
  "k + length xs \<le> length mid \<Longrightarrow>
     put_bytes (length pre + k) xs (pre @ mid @ post) = Some (pre @ upd k xs mid @ post)"
proof -
  assume k: "k + length xs \<le> length mid"
  have "upd (length pre + k) xs (pre @ mid @ post) = pre @ upd k xs mid @ post"
    by (rule nth_equalityI) (use k in \<open>auto simp: nth_append\<close>)
  with k show ?thesis by (simp add: put_bytes_Some)
qed

lemma malloc_eq: "malloc h n = (case h n of None \<Rightarrow> None | Some junk \<Rightarrow> Some (map junk [0..<unat n]))"
  by (simp add: malloc_def split: option.splits)

lemma junk_split:
  assumes "n = a + (b + (c + d))"
  obtains B C D where "map junk [0..<n] = map junk [0..<a] @ B @ C @ D"
    "length B = b" "length C = c" "length D = d"
proof (rule that)
  let ?J = "map junk [0..<n]"
  have "take a ?J = map junk [0..<a]" using assms by (simp add: take_map)
  then show "?J = map junk [0..<a] @ take b (drop a ?J) @ take c (drop (a + b) ?J) @ drop (a + b + c) ?J"
    by (metis append_take_drop_id drop_drop add.commute)
qed (use assms in simp_all)

section \<open>Scalars in host byte order\<close>

definition le_bytes :: "nat \<Rightarrow> 'a::len word \<Rightarrow> bytes" where
  "le_bytes n w = map (\<lambda>i. ucast (drop_bit (8 * i) w)) [0..<n]"

definition le_word :: "bytes \<Rightarrow> 'a::len word" where
  "le_word bs = foldr (\<lambda>b w. push_bit 8 w OR ucast b) bs 0"

lemma length_le_bytes [simp]: "length (le_bytes n w) = n"
  by (simp add: le_bytes_def)

lemma nth_le_bytes [simp]: "i < n \<Longrightarrow> le_bytes n w ! i = ucast (drop_bit (8 * i) w)"
  by (simp add: le_bytes_def)

lemma bit_le_word:
  "bit (le_word bs :: 'a::len word) k \<longleftrightarrow>
     k < LENGTH('a) \<and> k < 8 * length bs \<and> bit (bs ! (k div 8)) (k mod 8)"
proof (induction bs arbitrary: k)
  case Nil
  then show ?case by (simp add: le_word_def)
next
  case (Cons b bs)
  have high: "\<not> bit b k" if "8 \<le> k"
    using that bit_imp_le_length [of b k] by auto
  have step: "bit (le_word (b # bs) :: 'a word) k \<longleftrightarrow>
      k < LENGTH('a) \<and> (8 \<le> k \<and> bit (le_word bs :: 'a word) (k - 8) \<or> bit b k)"
    by (auto simp: le_word_def bit_simps)
  show ?case
  proof (cases "k < 8")
    case True
    then show ?thesis unfolding step by auto
  next
    case False
    then have "k div 8 = Suc ((k - 8) div 8)" "k mod 8 = (k - 8) mod 8"
      by (simp_all add: le_div_geq le_mod_geq)
    with False show ?thesis unfolding step using high Cons.IH [of "k - 8"] by auto
  qed
qed

lemma le_word_le_bytes [simp]:
  "LENGTH('a) \<le> 8 * n \<Longrightarrow> le_word (le_bytes n (w :: 'a::len word)) = w"
  by (rule bit_word_eqI) (auto simp: bit_le_word bit_simps)

lemma le_bytes_le_word [simp]:
  assumes "8 * length bs \<le> LENGTH('a)" and "n = length bs"
  shows "le_bytes n (le_word bs :: 'a::len word) = bs"
proof (rule nth_equalityI)
  fix i assume i: "i < length (le_bytes n (le_word bs :: 'a word))"
  have "bit (ucast (drop_bit (8 * i) (le_word bs :: 'a word)) :: u8) k = bit (bs ! i) k"
    if "k < 8" for k
  proof -
    from that i assms have "8 * i + k < LENGTH('a)" "8 * i + k < 8 * length bs" by auto
    moreover from that have "(8 * i + k) div 8 = i" "(8 * i + k) mod 8 = k" by auto
    ultimately show ?thesis using that by (simp add: bit_simps bit_le_word)
  qed
  then have "ucast (drop_bit (8 * i) (le_word bs :: 'a word)) = bs ! i"
    by (intro bit_word_eqI) simp
  with i show "le_bytes n (le_word bs :: 'a word) ! i = bs ! i" by simp
qed (use assms in simp)

text \<open>The byte swap behind \<open>htons\<close>, \<open>ntohs\<close>, \<open>htonl\<close> and \<open>ntohl\<close> on a little-endian host.\<close>

definition bswap :: "nat \<Rightarrow> 'a::len word \<Rightarrow> 'a word" where
  "bswap n w = le_word (rev (le_bytes n w))"

definition htons :: "u16 \<Rightarrow> u16" where "htons w = bswap 2 w"
definition ntohs :: "u16 \<Rightarrow> u16" where "ntohs w = bswap 2 w"
definition htonl :: "u32 \<Rightarrow> u32" where "htonl w = bswap 4 w"
definition ntohl :: "u32 \<Rightarrow> u32" where "ntohl w = bswap 4 w"

lemma le_bytes_bswap: "8 * n = LENGTH('a) \<Longrightarrow> le_bytes n (bswap n (w :: 'a::len word)) = rev (le_bytes n w)"
  by (simp add: bswap_def)

lemma bswap_bswap: "8 * n = LENGTH('a) \<Longrightarrow> bswap n (bswap n (w :: 'a::len word)) = w"
  by (simp add: bswap_def)

lemma ntohs_htons [simp]: "ntohs (htons w) = w" and htons_ntohs [simp]: "htons (ntohs w) = w"
  by (simp_all add: htons_def ntohs_def bswap_bswap)

lemma ntohl_htonl [simp]: "ntohl (htonl w) = w" and htonl_ntohl [simp]: "htonl (ntohl w) = w"
  by (simp_all add: htonl_def ntohl_def bswap_bswap)

lemma htons_inject [simp]: "htons v = htons w \<longleftrightarrow> v = w"
  by (metis ntohs_htons)

lemma htonl_inject [simp]: "htonl v = htonl w \<longleftrightarrow> v = w"
  by (metis ntohl_htonl)

section \<open>The interface of a scalar in memory\<close>

locale scalar =
  fixes width :: nat
    and enc :: "'w \<Rightarrow> bytes"
    and dec :: "bytes \<Rightarrow> 'w"
  assumes length_enc: "length (enc v) = width"
    and dec_enc: "dec (enc v) = v"
    and enc_dec: "length bs = width \<Longrightarrow> enc (dec bs) = bs"
begin

lemma enc_inject: "enc v = enc w \<longleftrightarrow> v = w"
  by (metis dec_enc)

lemma dec_slice_upd_same:
  "off + width \<le> length bs \<Longrightarrow> dec (slice off width (upd off (enc v) bs)) = v"
  by (simp add: slice_upd_same length_enc dec_enc)

lemma put_Some:
  "off + width \<le> length bs \<Longrightarrow> put_bytes off (enc v) bs = Some (upd off (enc v) bs)"
  by (simp add: put_bytes_Some length_enc)

lemma get_put:
  assumes "put_bytes off (enc v) bs = Some bs'"
  shows "map_option dec (get_bytes off width bs') = Some v"
  using assms
  by (auto simp: put_bytes_def get_bytes_def length_enc slice_upd_same dec_enc split: if_splits)

lemma put_get:
  assumes "get_bytes off width bs = Some xs"
  shows "put_bytes off (enc (dec xs)) bs = Some bs"
proof -
  from assms have len: "off + width \<le> length bs" and xs: "xs = slice off width bs"
    by (auto simp: get_bytes_def split: if_splits)
  then have "enc (dec xs) = slice off width bs" by (simp add: enc_dec)
  moreover from len have "upd off (slice off width bs) bs = bs"
    by (intro nth_equalityI) auto
  ultimately show ?thesis using len by (simp add: put_bytes_Some)
qed

end

interpretation host8: scalar 1 "\<lambda>w :: u8. [w]" hd
  by unfold_locales (auto simp: length_Suc_conv)

interpretation host16: scalar 2 "le_bytes 2 :: u16 \<Rightarrow> bytes" le_word
  by unfold_locales simp_all

interpretation host32: scalar 4 "le_bytes 4 :: u32 \<Rightarrow> bytes" le_word
  by unfold_locales simp_all

interpretation host64: scalar 8 "le_bytes 8 :: u64 \<Rightarrow> bytes" le_word
  by unfold_locales simp_all

section \<open>Loads and stores\<close>

definition put8 :: "nat \<Rightarrow> u8 \<Rightarrow> bytes \<Rightarrow> bytes option" where
  "put8 off v bs = put_bytes off [v] bs"
definition put16 :: "nat \<Rightarrow> u16 \<Rightarrow> bytes \<Rightarrow> bytes option" where
  "put16 off v bs = put_bytes off (le_bytes 2 v) bs"
definition put32 :: "nat \<Rightarrow> u32 \<Rightarrow> bytes \<Rightarrow> bytes option" where
  "put32 off v bs = put_bytes off (le_bytes 4 v) bs"
definition put64 :: "nat \<Rightarrow> u64 \<Rightarrow> bytes \<Rightarrow> bytes option" where
  "put64 off v bs = put_bytes off (le_bytes 8 v) bs"

definition get8 :: "nat \<Rightarrow> bytes \<Rightarrow> u8 option" where
  "get8 off bs = map_option hd (get_bytes off 1 bs)"
definition get16 :: "nat \<Rightarrow> bytes \<Rightarrow> u16 option" where
  "get16 off bs = map_option le_word (get_bytes off 2 bs)"
definition get32 :: "nat \<Rightarrow> bytes \<Rightarrow> u32 option" where
  "get32 off bs = map_option le_word (get_bytes off 4 bs)"
definition get64 :: "nat \<Rightarrow> bytes \<Rightarrow> u64 option" where
  "get64 off bs = map_option le_word (get_bytes off 8 bs)"

lemma put8_Some [mem_simps]: "off + 1 \<le> length bs \<Longrightarrow> put8 off v bs = Some (upd off [v] bs)"
  by (simp add: put8_def put_bytes_Some)
lemma put16_Some [mem_simps]: "off + 2 \<le> length bs \<Longrightarrow> put16 off v bs = Some (upd off (le_bytes 2 v) bs)"
  by (simp add: put16_def host16.put_Some)
lemma put32_Some [mem_simps]: "off + 4 \<le> length bs \<Longrightarrow> put32 off v bs = Some (upd off (le_bytes 4 v) bs)"
  by (simp add: put32_def host32.put_Some)
lemma put64_Some [mem_simps]: "off + 8 \<le> length bs \<Longrightarrow> put64 off v bs = Some (upd off (le_bytes 8 v) bs)"
  by (simp add: put64_def host64.put_Some)

lemma get8_Some [mem_simps]: "off + 1 \<le> length bs \<Longrightarrow> get8 off bs = Some (hd (slice off 1 bs))"
  by (simp add: get8_def get_bytes_Some)
lemma get16_Some [mem_simps]: "off + 2 \<le> length bs \<Longrightarrow> get16 off bs = Some (le_word (slice off 2 bs))"
  by (simp add: get16_def get_bytes_Some)
lemma get32_Some [mem_simps]: "off + 4 \<le> length bs \<Longrightarrow> get32 off bs = Some (le_word (slice off 4 bs))"
  by (simp add: get32_def get_bytes_Some)
lemma get64_Some [mem_simps]: "off + 8 \<le> length bs \<Longrightarrow> get64 off bs = Some (le_word (slice off 8 bs))"
  by (simp add: get64_def get_bytes_Some)

lemma get8_None [mem_simps]: "length bs < off + 1 \<Longrightarrow> get8 off bs = None"
  by (simp add: get8_def get_bytes_None)
lemma get16_None [mem_simps]: "length bs < off + 2 \<Longrightarrow> get16 off bs = None"
  by (simp add: get16_def get_bytes_None)
lemma get32_None [mem_simps]: "length bs < off + 4 \<Longrightarrow> get32 off bs = None"
  by (simp add: get32_def get_bytes_None)
lemma get64_None [mem_simps]: "length bs < off + 8 \<Longrightarrow> get64 off bs = None"
  by (simp add: get64_def get_bytes_None)

text \<open>A chain of stores at offsets known at compile time runs as one total update.\<close>

lemmas store_defs = put8_def put16_def put32_def put64_def memset_def

text \<open>Stores into the middle part of a buffer.\<close>

lemmas stores_at = store_defs put_at put_at [where k = 0, simplified] put_at [where k = 2, simplified]

end
