(* ===== verification/Layout.thy ===== *)
theory Layout
  imports Prelude
begin

text \<open>
  How a C compiler lays out the structures of the protocol header: member offsets, sizes and
  alignments by the rules of the System V ABIs. The alignment of a 64-bit integer is a parameter,
  because it is 8 on x86-64 and 4 inside structures on i386; everything the codecs rely on is
  shown for both.
\<close>

datatype ctype = Uint nat | Arr ctype nat | Struct "(string \<times> ctype) list"

definition align_up :: "nat \<Rightarrow> nat \<Rightarrow> nat" where
  "align_up a n = (if a = 0 then n else (n + (a - 1)) div a * a)"

fun calign :: "nat \<Rightarrow> ctype \<Rightarrow> nat" and calign_members :: "nat \<Rightarrow> (string \<times> ctype) list \<Rightarrow> nat" where
  "calign a64 (Uint n) = (if n = 8 then a64 else n)"
| "calign a64 (Arr t n) = calign a64 t"
| "calign a64 (Struct ms) = calign_members a64 ms"
| "calign_members a64 [] = 1"
| "calign_members a64 ((m, t) # ms) = max (calign a64 t) (calign_members a64 ms)"

text \<open>\<open>cend\<close> is the offset just behind the last member of a structure.\<close>

fun csize :: "nat \<Rightarrow> ctype \<Rightarrow> nat" and cend :: "nat \<Rightarrow> nat \<Rightarrow> (string \<times> ctype) list \<Rightarrow> nat" where
  "csize a64 (Uint n) = n"
| "csize a64 (Arr t n) = n * csize a64 t"
| "csize a64 (Struct ms) = align_up (calign_members a64 ms) (cend a64 0 ms)"
| "cend a64 off [] = off"
| "cend a64 off ((m, t) # ms) = cend a64 (align_up (calign a64 t) off + csize a64 t) ms"

fun member_offset :: "nat \<Rightarrow> nat \<Rightarrow> (string \<times> ctype) list \<Rightarrow> string \<Rightarrow> nat option" where
  "member_offset a64 off [] x = None"
| "member_offset a64 off ((m, t) # ms) x =
     (let here = align_up (calign a64 t) off
      in if m = x then Some here else member_offset a64 (here + csize a64 t) ms x)"

fun coffset :: "nat \<Rightarrow> ctype \<Rightarrow> string \<Rightarrow> nat option" where
  "coffset a64 (Struct ms) x = member_offset a64 0 ms x"
| "coffset a64 _ x = None"

text \<open>The bytes the members themselves occupy, without any padding the compiler inserts.\<close>

fun leaf_bytes :: "ctype \<Rightarrow> nat" and leaf_bytes_members :: "(string \<times> ctype) list \<Rightarrow> nat" where
  "leaf_bytes (Uint n) = n"
| "leaf_bytes (Arr t n) = n * leaf_bytes t"
| "leaf_bytes (Struct ms) = leaf_bytes_members ms"
| "leaf_bytes_members [] = 0"
| "leaf_bytes_members ((m, t) # ms) = leaf_bytes t + leaf_bytes_members ms"

text \<open>
  The model runs with the x86-64 layout: \<open>sizeof\<close> and \<open>offsetof\<close> of the C sources. A member that
  does not exist would be a compile-time error; every offset the model uses is evaluated by a
  lemma of \<open>Openflow13\<close>.
\<close>

definition sizeof :: "ctype \<Rightarrow> nat" where
  "sizeof t = csize 8 t"

definition offsetof :: "ctype \<Rightarrow> string \<Rightarrow> nat" where
  "offsetof t x = the (coffset 8 t x)"

end
