(* ===== verification/Openflow13.thy ===== *)
theory Openflow13
  imports Layout
begin

text \<open>
  The OpenFlow 1.3 protocol header (\<open>include/cc_openflow_13.c\<close>): every structure of the wire
  format as a C structure type, the enumerations the message codecs switch on, and the constants
  they compare with. The \<open>OFP_ASSERT\<close> lines of the header are collected in \<open>ofp_asserts\<close>; the
  offsets the codecs use are evaluated here once and kept in \<open>layout_simps\<close>.
\<close>

section \<open>Constants\<close>

abbreviation "U8 \<equiv> Uint 1"
abbreviation "U16 \<equiv> Uint 2"
abbreviation "U32 \<equiv> Uint 4"
abbreviation "U64 \<equiv> Uint 8"

definition OFP_VERSION :: "u8" where "OFP_VERSION = 4"
definition OFP_ETH_ALEN :: "nat" where "OFP_ETH_ALEN = 6"
definition OFP_MAX_PORT_NAME_LEN :: "nat" where "OFP_MAX_PORT_NAME_LEN = 16"
definition OFP_MAX_TABLE_NAME_LEN :: "nat" where "OFP_MAX_TABLE_NAME_LEN = 32"
definition DESC_STR_LEN :: "nat" where "DESC_STR_LEN = 256"
definition SERIAL_NUM_LEN :: "nat" where "SERIAL_NUM_LEN = 32"
definition OFPP_MAX :: "u32" where "OFPP_MAX = 0xffffff00"
definition OFPP_ANY :: "u32" where "OFPP_ANY = 0xffffffff"
definition OFPG_MAX :: "u32" where "OFPG_MAX = 0xffffff00"
definition OFPG_ALL :: "u32" where "OFPG_ALL = 0xfffffffc"
definition OFPM_MAX :: "u32" where "OFPM_MAX = 0xffff0000"
definition OFPM_ALL :: "u32" where "OFPM_ALL = 0xffffffff"
definition OFPGC_DELETE :: "u16" where "OFPGC_DELETE = 2"
definition OFPGT_FF :: "u16" where "OFPGT_FF = 3"
definition OFPGT_INDIRECT :: "u8" where "OFPGT_INDIRECT = 2"
definition OFPMC_DELETE :: "u16" where "OFPMC_DELETE = 2"

text \<open>Enumerators of the error codes (\<open>enum ofp_*_code\<close>) the parser reports.\<close>

definition OFPHFC_INCOMPATIBLE :: "nat" where "OFPHFC_INCOMPATIBLE = 0"
definition OFPBRC_BAD_TYPE :: "nat" where "OFPBRC_BAD_TYPE = 1"
definition OFPBRC_BAD_MULTIPART :: "nat" where "OFPBRC_BAD_MULTIPART = 2"
definition OFPBRC_BAD_EXPERIMENTER :: "nat" where "OFPBRC_BAD_EXPERIMENTER = 3"
definition OFPBRC_BAD_LEN :: "nat" where "OFPBRC_BAD_LEN = 6"
definition OFPBRC_IS_SLAVE :: "nat" where "OFPBRC_IS_SLAVE = 10"
definition OFPBRC_BAD_PORT :: "nat" where "OFPBRC_BAD_PORT = 11"
definition OFPBAC_BAD_ARGUMENT :: "nat" where "OFPBAC_BAD_ARGUMENT = 5"
definition OFPGMFC_INVALID_GROUP :: "nat" where "OFPGMFC_INVALID_GROUP = 1"
definition OFPGMFC_BAD_TYPE :: "nat" where "OFPGMFC_BAD_TYPE = 10"
definition OFPGMFC_BAD_COMMAND :: "nat" where "OFPGMFC_BAD_COMMAND = 11"
definition OFPMMFC_BAD_COMMAND :: "nat" where "OFPMMFC_BAD_COMMAND = 4"
definition OFPMMFC_BAD_FLAGS :: "nat" where "OFPMMFC_BAD_FLAGS = 5"
definition OFPMMFC_INVALID_METER :: "nat" where "OFPMMFC_INVALID_METER = 2"
definition OFPQOFC_BAD_PORT :: "nat" where "OFPQOFC_BAD_PORT = 0"

lemmas ofp_constant_defs [wire_simps] =
  OFP_VERSION_def
  OFP_ETH_ALEN_def
  OFP_MAX_PORT_NAME_LEN_def
  OFP_MAX_TABLE_NAME_LEN_def
  DESC_STR_LEN_def
  SERIAL_NUM_LEN_def
  OFPP_MAX_def
  OFPP_ANY_def
  OFPG_MAX_def
  OFPG_ALL_def
  OFPM_MAX_def
  OFPM_ALL_def
  OFPGC_DELETE_def
  OFPGT_FF_def
  OFPGT_INDIRECT_def
  OFPMC_DELETE_def
  OFPHFC_INCOMPATIBLE_def
  OFPBRC_BAD_TYPE_def
  OFPBRC_BAD_MULTIPART_def
  OFPBRC_BAD_EXPERIMENTER_def
  OFPBRC_BAD_LEN_def
  OFPBRC_IS_SLAVE_def
  OFPBRC_BAD_PORT_def
  OFPBAC_BAD_ARGUMENT_def
  OFPGMFC_INVALID_GROUP_def
  OFPGMFC_BAD_TYPE_def
  OFPGMFC_BAD_COMMAND_def
  OFPMMFC_BAD_COMMAND_def
  OFPMMFC_BAD_FLAGS_def
  OFPMMFC_INVALID_METER_def
  OFPQOFC_BAD_PORT_def

section \<open>Enumerations\<close>

datatype ofp_type =
    OFPT_HELLO
  | OFPT_ERROR
  | OFPT_ECHO_REQUEST
  | OFPT_ECHO_REPLY
  | OFPT_EXPERIMENTER
  | OFPT_FEATURES_REQUEST
  | OFPT_FEATURES_REPLY
  | OFPT_GET_CONFIG_REQUEST
  | OFPT_GET_CONFIG_REPLY
  | OFPT_SET_CONFIG
  | OFPT_PACKET_IN
  | OFPT_FLOW_REMOVED
  | OFPT_PORT_STATUS
  | OFPT_PACKET_OUT
  | OFPT_FLOW_MOD
  | OFPT_GROUP_MOD
  | OFPT_PORT_MOD
  | OFPT_TABLE_MOD
  | OFPT_MULTIPART_REQUEST
  | OFPT_MULTIPART_REPLY
  | OFPT_BARRIER_REQUEST
  | OFPT_BARRIER_REPLY
  | OFPT_QUEUE_GET_CONFIG_REQUEST
  | OFPT_QUEUE_GET_CONFIG_REPLY
  | OFPT_ROLE_REQUEST
  | OFPT_ROLE_REPLY
  | OFPT_GET_ASYNC_REQUEST
  | OFPT_GET_ASYNC_REPLY
  | OFPT_SET_ASYNC
  | OFPT_METER_MOD

fun ofp_type_code :: "ofp_type \<Rightarrow> nat" where
  "ofp_type_code OFPT_HELLO = 0"
| "ofp_type_code OFPT_ERROR = 1"
| "ofp_type_code OFPT_ECHO_REQUEST = 2"
| "ofp_type_code OFPT_ECHO_REPLY = 3"
| "ofp_type_code OFPT_EXPERIMENTER = 4"
| "ofp_type_code OFPT_FEATURES_REQUEST = 5"
| "ofp_type_code OFPT_FEATURES_REPLY = 6"
| "ofp_type_code OFPT_GET_CONFIG_REQUEST = 7"
| "ofp_type_code OFPT_GET_CONFIG_REPLY = 8"
| "ofp_type_code OFPT_SET_CONFIG = 9"
| "ofp_type_code OFPT_PACKET_IN = 10"
| "ofp_type_code OFPT_FLOW_REMOVED = 11"
| "ofp_type_code OFPT_PORT_STATUS = 12"
| "ofp_type_code OFPT_PACKET_OUT = 13"
| "ofp_type_code OFPT_FLOW_MOD = 14"
| "ofp_type_code OFPT_GROUP_MOD = 15"
| "ofp_type_code OFPT_PORT_MOD = 16"
| "ofp_type_code OFPT_TABLE_MOD = 17"
| "ofp_type_code OFPT_MULTIPART_REQUEST = 18"
| "ofp_type_code OFPT_MULTIPART_REPLY = 19"
| "ofp_type_code OFPT_BARRIER_REQUEST = 20"
| "ofp_type_code OFPT_BARRIER_REPLY = 21"
| "ofp_type_code OFPT_QUEUE_GET_CONFIG_REQUEST = 22"
| "ofp_type_code OFPT_QUEUE_GET_CONFIG_REPLY = 23"
| "ofp_type_code OFPT_ROLE_REQUEST = 24"
| "ofp_type_code OFPT_ROLE_REPLY = 25"
| "ofp_type_code OFPT_GET_ASYNC_REQUEST = 26"
| "ofp_type_code OFPT_GET_ASYNC_REPLY = 27"
| "ofp_type_code OFPT_SET_ASYNC = 28"
| "ofp_type_code OFPT_METER_MOD = 29"

definition ofp_type_list :: "ofp_type list" where
  "ofp_type_list =
    [OFPT_HELLO,
     OFPT_ERROR,
     OFPT_ECHO_REQUEST,
     OFPT_ECHO_REPLY,
     OFPT_EXPERIMENTER,
     OFPT_FEATURES_REQUEST,
     OFPT_FEATURES_REPLY,
     OFPT_GET_CONFIG_REQUEST,
     OFPT_GET_CONFIG_REPLY,
     OFPT_SET_CONFIG,
     OFPT_PACKET_IN,
     OFPT_FLOW_REMOVED,
     OFPT_PORT_STATUS,
     OFPT_PACKET_OUT,
     OFPT_FLOW_MOD,
     OFPT_GROUP_MOD,
     OFPT_PORT_MOD,
     OFPT_TABLE_MOD,
     OFPT_MULTIPART_REQUEST,
     OFPT_MULTIPART_REPLY,
     OFPT_BARRIER_REQUEST,
     OFPT_BARRIER_REPLY,
     OFPT_QUEUE_GET_CONFIG_REQUEST,
     OFPT_QUEUE_GET_CONFIG_REPLY,
     OFPT_ROLE_REQUEST,
     OFPT_ROLE_REPLY,
     OFPT_GET_ASYNC_REQUEST,
     OFPT_GET_ASYNC_REPLY,
     OFPT_SET_ASYNC,
     OFPT_METER_MOD]"

definition ofp_type_of :: "nat \<Rightarrow> ofp_type option" where
  "ofp_type_of n = map_of (map (\<lambda>t. (ofp_type_code t, t)) ofp_type_list) n"

lemma ofp_type_of_simps [wire_simps]:
  "ofp_type_of 0 = Some OFPT_HELLO"
  "ofp_type_of 1 = Some OFPT_ERROR"
  "ofp_type_of 2 = Some OFPT_ECHO_REQUEST"
  "ofp_type_of 3 = Some OFPT_ECHO_REPLY"
  "ofp_type_of 4 = Some OFPT_EXPERIMENTER"
  "ofp_type_of 5 = Some OFPT_FEATURES_REQUEST"
  "ofp_type_of 6 = Some OFPT_FEATURES_REPLY"
  "ofp_type_of 7 = Some OFPT_GET_CONFIG_REQUEST"
  "ofp_type_of 8 = Some OFPT_GET_CONFIG_REPLY"
  "ofp_type_of 9 = Some OFPT_SET_CONFIG"
  "ofp_type_of 10 = Some OFPT_PACKET_IN"
  "ofp_type_of 11 = Some OFPT_FLOW_REMOVED"
  "ofp_type_of 12 = Some OFPT_PORT_STATUS"
  "ofp_type_of 13 = Some OFPT_PACKET_OUT"
  "ofp_type_of 14 = Some OFPT_FLOW_MOD"
  "ofp_type_of 15 = Some OFPT_GROUP_MOD"
  "ofp_type_of 16 = Some OFPT_PORT_MOD"
  "ofp_type_of 17 = Some OFPT_TABLE_MOD"
  "ofp_type_of 18 = Some OFPT_MULTIPART_REQUEST"
  "ofp_type_of 19 = Some OFPT_MULTIPART_REPLY"
  "ofp_type_of 20 = Some OFPT_BARRIER_REQUEST"
  "ofp_type_of 21 = Some OFPT_BARRIER_REPLY"
  "ofp_type_of 22 = Some OFPT_QUEUE_GET_CONFIG_REQUEST"
  "ofp_type_of 23 = Some OFPT_QUEUE_GET_CONFIG_REPLY"
  "ofp_type_of 24 = Some OFPT_ROLE_REQUEST"
  "ofp_type_of 25 = Some OFPT_ROLE_REPLY"
  "ofp_type_of 26 = Some OFPT_GET_ASYNC_REQUEST"
  "ofp_type_of 27 = Some OFPT_GET_ASYNC_REPLY"
  "ofp_type_of 28 = Some OFPT_SET_ASYNC"
  "ofp_type_of 29 = Some OFPT_METER_MOD"
  by (simp_all add: ofp_type_of_def ofp_type_list_def)

lemma ofp_type_of_code [simp]: "ofp_type_of (ofp_type_code t) = Some t"
  by (cases t) (simp_all add: ofp_type_of_def ofp_type_list_def)

lemma ofp_type_code_of: "ofp_type_of n = Some t \<Longrightarrow> ofp_type_code t = n"
  by (auto simp: ofp_type_of_def ofp_type_list_def split: if_splits)

lemma ofp_type_code_inject [simp]: "ofp_type_code s = ofp_type_code t \<longleftrightarrow> s = t"
  by (metis ofp_type_of_code option.inject)

lemma ofp_type_code_less: "ofp_type_code t < 2 ^ 16"
  by (cases t) simp_all

datatype ofp_multipart_types =
    OFPMP_DESC
  | OFPMP_FLOW
  | OFPMP_AGGREGATE
  | OFPMP_TABLE
  | OFPMP_PORT_STATS
  | OFPMP_QUEUE
  | OFPMP_GROUP
  | OFPMP_GROUP_DESC
  | OFPMP_GROUP_FEATURES
  | OFPMP_METER
  | OFPMP_METER_CONFIG
  | OFPMP_METER_FEATURES
  | OFPMP_TABLE_FEATURES
  | OFPMP_PORT_DESC
  | OFPMP_EXPERIMENTER

fun ofp_multipart_types_code :: "ofp_multipart_types \<Rightarrow> nat" where
  "ofp_multipart_types_code OFPMP_DESC = 0"
| "ofp_multipart_types_code OFPMP_FLOW = 1"
| "ofp_multipart_types_code OFPMP_AGGREGATE = 2"
| "ofp_multipart_types_code OFPMP_TABLE = 3"
| "ofp_multipart_types_code OFPMP_PORT_STATS = 4"
| "ofp_multipart_types_code OFPMP_QUEUE = 5"
| "ofp_multipart_types_code OFPMP_GROUP = 6"
| "ofp_multipart_types_code OFPMP_GROUP_DESC = 7"
| "ofp_multipart_types_code OFPMP_GROUP_FEATURES = 8"
| "ofp_multipart_types_code OFPMP_METER = 9"
| "ofp_multipart_types_code OFPMP_METER_CONFIG = 10"
| "ofp_multipart_types_code OFPMP_METER_FEATURES = 11"
| "ofp_multipart_types_code OFPMP_TABLE_FEATURES = 12"
| "ofp_multipart_types_code OFPMP_PORT_DESC = 13"
| "ofp_multipart_types_code OFPMP_EXPERIMENTER = 65535"

definition ofp_multipart_types_list :: "ofp_multipart_types list" where
  "ofp_multipart_types_list =
    [OFPMP_DESC,
     OFPMP_FLOW,
     OFPMP_AGGREGATE,
     OFPMP_TABLE,
     OFPMP_PORT_STATS,
     OFPMP_QUEUE,
     OFPMP_GROUP,
     OFPMP_GROUP_DESC,
     OFPMP_GROUP_FEATURES,
     OFPMP_METER,
     OFPMP_METER_CONFIG,
     OFPMP_METER_FEATURES,
     OFPMP_TABLE_FEATURES,
     OFPMP_PORT_DESC,
     OFPMP_EXPERIMENTER]"

definition ofp_multipart_types_of :: "nat \<Rightarrow> ofp_multipart_types option" where
  "ofp_multipart_types_of n = map_of (map (\<lambda>t. (ofp_multipart_types_code t, t)) ofp_multipart_types_list) n"

lemma ofp_multipart_types_of_simps [wire_simps]:
  "ofp_multipart_types_of 0 = Some OFPMP_DESC"
  "ofp_multipart_types_of 1 = Some OFPMP_FLOW"
  "ofp_multipart_types_of 2 = Some OFPMP_AGGREGATE"
  "ofp_multipart_types_of 3 = Some OFPMP_TABLE"
  "ofp_multipart_types_of 4 = Some OFPMP_PORT_STATS"
  "ofp_multipart_types_of 5 = Some OFPMP_QUEUE"
  "ofp_multipart_types_of 6 = Some OFPMP_GROUP"
  "ofp_multipart_types_of 7 = Some OFPMP_GROUP_DESC"
  "ofp_multipart_types_of 8 = Some OFPMP_GROUP_FEATURES"
  "ofp_multipart_types_of 9 = Some OFPMP_METER"
  "ofp_multipart_types_of 10 = Some OFPMP_METER_CONFIG"
  "ofp_multipart_types_of 11 = Some OFPMP_METER_FEATURES"
  "ofp_multipart_types_of 12 = Some OFPMP_TABLE_FEATURES"
  "ofp_multipart_types_of 13 = Some OFPMP_PORT_DESC"
  "ofp_multipart_types_of 65535 = Some OFPMP_EXPERIMENTER"
  by (simp_all add: ofp_multipart_types_of_def ofp_multipart_types_list_def)

lemma ofp_multipart_types_of_code [simp]: "ofp_multipart_types_of (ofp_multipart_types_code t) = Some t"
  by (cases t) (simp_all add: ofp_multipart_types_of_def ofp_multipart_types_list_def)

lemma ofp_multipart_types_code_of: "ofp_multipart_types_of n = Some t \<Longrightarrow> ofp_multipart_types_code t = n"
  by (auto simp: ofp_multipart_types_of_def ofp_multipart_types_list_def split: if_splits)

lemma ofp_multipart_types_code_inject [simp]: "ofp_multipart_types_code s = ofp_multipart_types_code t \<longleftrightarrow> s = t"
  by (metis ofp_multipart_types_of_code option.inject)

lemma ofp_multipart_types_code_less: "ofp_multipart_types_code t < 2 ^ 16"
  by (cases t) simp_all

datatype ofp_action_type =
    OFPAT_OUTPUT
  | OFPAT_COPY_TTL_OUT
  | OFPAT_COPY_TTL_IN
  | OFPAT_SET_MPLS_TTL
  | OFPAT_DEC_MPLS_TTL
  | OFPAT_PUSH_VLAN
  | OFPAT_POP_VLAN
  | OFPAT_PUSH_MPLS
  | OFPAT_POP_MPLS
  | OFPAT_SET_QUEUE
  | OFPAT_GROUP
  | OFPAT_SET_NW_TTL
  | OFPAT_DEC_NW_TTL
  | OFPAT_SET_FIELD
  | OFPAT_PUSH_PBB
  | OFPAT_POP_PBB
  | OFPAT_EXPERIMENTER

fun ofp_action_type_code :: "ofp_action_type \<Rightarrow> nat" where
  "ofp_action_type_code OFPAT_OUTPUT = 0"
| "ofp_action_type_code OFPAT_COPY_TTL_OUT = 11"
| "ofp_action_type_code OFPAT_COPY_TTL_IN = 12"
| "ofp_action_type_code OFPAT_SET_MPLS_TTL = 15"
| "ofp_action_type_code OFPAT_DEC_MPLS_TTL = 16"
| "ofp_action_type_code OFPAT_PUSH_VLAN = 17"
| "ofp_action_type_code OFPAT_POP_VLAN = 18"
| "ofp_action_type_code OFPAT_PUSH_MPLS = 19"
| "ofp_action_type_code OFPAT_POP_MPLS = 20"
| "ofp_action_type_code OFPAT_SET_QUEUE = 21"
| "ofp_action_type_code OFPAT_GROUP = 22"
| "ofp_action_type_code OFPAT_SET_NW_TTL = 23"
| "ofp_action_type_code OFPAT_DEC_NW_TTL = 24"
| "ofp_action_type_code OFPAT_SET_FIELD = 25"
| "ofp_action_type_code OFPAT_PUSH_PBB = 26"
| "ofp_action_type_code OFPAT_POP_PBB = 27"
| "ofp_action_type_code OFPAT_EXPERIMENTER = 65535"

definition ofp_action_type_list :: "ofp_action_type list" where
  "ofp_action_type_list =
    [OFPAT_OUTPUT,
     OFPAT_COPY_TTL_OUT,
     OFPAT_COPY_TTL_IN,
     OFPAT_SET_MPLS_TTL,
     OFPAT_DEC_MPLS_TTL,
     OFPAT_PUSH_VLAN,
     OFPAT_POP_VLAN,
     OFPAT_PUSH_MPLS,
     OFPAT_POP_MPLS,
     OFPAT_SET_QUEUE,
     OFPAT_GROUP,
     OFPAT_SET_NW_TTL,
     OFPAT_DEC_NW_TTL,
     OFPAT_SET_FIELD,
     OFPAT_PUSH_PBB,
     OFPAT_POP_PBB,
     OFPAT_EXPERIMENTER]"

definition ofp_action_type_of :: "nat \<Rightarrow> ofp_action_type option" where
  "ofp_action_type_of n = map_of (map (\<lambda>t. (ofp_action_type_code t, t)) ofp_action_type_list) n"

lemma ofp_action_type_of_simps [wire_simps]:
  "ofp_action_type_of 0 = Some OFPAT_OUTPUT"
  "ofp_action_type_of 11 = Some OFPAT_COPY_TTL_OUT"
  "ofp_action_type_of 12 = Some OFPAT_COPY_TTL_IN"
  "ofp_action_type_of 15 = Some OFPAT_SET_MPLS_TTL"
  "ofp_action_type_of 16 = Some OFPAT_DEC_MPLS_TTL"
  "ofp_action_type_of 17 = Some OFPAT_PUSH_VLAN"
  "ofp_action_type_of 18 = Some OFPAT_POP_VLAN"
  "ofp_action_type_of 19 = Some OFPAT_PUSH_MPLS"
  "ofp_action_type_of 20 = Some OFPAT_POP_MPLS"
  "ofp_action_type_of 21 = Some OFPAT_SET_QUEUE"
  "ofp_action_type_of 22 = Some OFPAT_GROUP"
  "ofp_action_type_of 23 = Some OFPAT_SET_NW_TTL"
  "ofp_action_type_of 24 = Some OFPAT_DEC_NW_TTL"
  "ofp_action_type_of 25 = Some OFPAT_SET_FIELD"
  "ofp_action_type_of 26 = Some OFPAT_PUSH_PBB"
  "ofp_action_type_of 27 = Some OFPAT_POP_PBB"
  "ofp_action_type_of 65535 = Some OFPAT_EXPERIMENTER"
  by (simp_all add: ofp_action_type_of_def ofp_action_type_list_def)

lemma ofp_action_type_of_code [simp]: "ofp_action_type_of (ofp_action_type_code t) = Some t"
  by (cases t) (simp_all add: ofp_action_type_of_def ofp_action_type_list_def)

lemma ofp_action_type_code_of: "ofp_action_type_of n = Some t \<Longrightarrow> ofp_action_type_code t = n"
  by (auto simp: ofp_action_type_of_def ofp_action_type_list_def split: if_splits)

lemma ofp_action_type_code_inject [simp]: "ofp_action_type_code s = ofp_action_type_code t \<longleftrightarrow> s = t"
  by (metis ofp_action_type_of_code option.inject)

lemma ofp_action_type_code_less: "ofp_action_type_code t < 2 ^ 16"
  by (cases t) simp_all

datatype ofp_error_type =
    OFPET_HELLO_FAILED
  | OFPET_BAD_REQUEST
  | OFPET_BAD_ACTION
  | OFPET_BAD_INSTRUCTION
  | OFPET_BAD_MATCH
  | OFPET_FLOW_MOD_FAILED
  | OFPET_GROUP_MOD_FAILED
  | OFPET_PORT_MOD_FAILED
  | OFPET_TABLE_MOD_FAILED
  | OFPET_QUEUE_OP_FAILED
  | OFPET_SWITCH_CONFIG_FAILED
  | OFPET_ROLE_REQUEST_FAILED
  | OFPET_METER_MOD_FAILED
  | OFPET_TABLE_FEATURES_FAILED
  | OFPET_EXPERIMENTER

fun ofp_error_type_code :: "ofp_error_type \<Rightarrow> nat" where
  "ofp_error_type_code OFPET_HELLO_FAILED = 0"
| "ofp_error_type_code OFPET_BAD_REQUEST = 1"
| "ofp_error_type_code OFPET_BAD_ACTION = 2"
| "ofp_error_type_code OFPET_BAD_INSTRUCTION = 3"
| "ofp_error_type_code OFPET_BAD_MATCH = 4"
| "ofp_error_type_code OFPET_FLOW_MOD_FAILED = 5"
| "ofp_error_type_code OFPET_GROUP_MOD_FAILED = 6"
| "ofp_error_type_code OFPET_PORT_MOD_FAILED = 7"
| "ofp_error_type_code OFPET_TABLE_MOD_FAILED = 8"
| "ofp_error_type_code OFPET_QUEUE_OP_FAILED = 9"
| "ofp_error_type_code OFPET_SWITCH_CONFIG_FAILED = 10"
| "ofp_error_type_code OFPET_ROLE_REQUEST_FAILED = 11"
| "ofp_error_type_code OFPET_METER_MOD_FAILED = 12"
| "ofp_error_type_code OFPET_TABLE_FEATURES_FAILED = 13"
| "ofp_error_type_code OFPET_EXPERIMENTER = 65535"

definition ofp_error_type_list :: "ofp_error_type list" where
  "ofp_error_type_list =
    [OFPET_HELLO_FAILED,
     OFPET_BAD_REQUEST,
     OFPET_BAD_ACTION,
     OFPET_BAD_INSTRUCTION,
     OFPET_BAD_MATCH,
     OFPET_FLOW_MOD_FAILED,
     OFPET_GROUP_MOD_FAILED,
     OFPET_PORT_MOD_FAILED,
     OFPET_TABLE_MOD_FAILED,
     OFPET_QUEUE_OP_FAILED,
     OFPET_SWITCH_CONFIG_FAILED,
     OFPET_ROLE_REQUEST_FAILED,
     OFPET_METER_MOD_FAILED,
     OFPET_TABLE_FEATURES_FAILED,
     OFPET_EXPERIMENTER]"

definition ofp_error_type_of :: "nat \<Rightarrow> ofp_error_type option" where
  "ofp_error_type_of n = map_of (map (\<lambda>t. (ofp_error_type_code t, t)) ofp_error_type_list) n"

lemma ofp_error_type_of_simps [wire_simps]:
  "ofp_error_type_of 0 = Some OFPET_HELLO_FAILED"
  "ofp_error_type_of 1 = Some OFPET_BAD_REQUEST"
  "ofp_error_type_of 2 = Some OFPET_BAD_ACTION"
  "ofp_error_type_of 3 = Some OFPET_BAD_INSTRUCTION"
  "ofp_error_type_of 4 = Some OFPET_BAD_MATCH"
  "ofp_error_type_of 5 = Some OFPET_FLOW_MOD_FAILED"
  "ofp_error_type_of 6 = Some OFPET_GROUP_MOD_FAILED"
  "ofp_error_type_of 7 = Some OFPET_PORT_MOD_FAILED"
  "ofp_error_type_of 8 = Some OFPET_TABLE_MOD_FAILED"
  "ofp_error_type_of 9 = Some OFPET_QUEUE_OP_FAILED"
  "ofp_error_type_of 10 = Some OFPET_SWITCH_CONFIG_FAILED"
  "ofp_error_type_of 11 = Some OFPET_ROLE_REQUEST_FAILED"
  "ofp_error_type_of 12 = Some OFPET_METER_MOD_FAILED"
  "ofp_error_type_of 13 = Some OFPET_TABLE_FEATURES_FAILED"
  "ofp_error_type_of 65535 = Some OFPET_EXPERIMENTER"
  by (simp_all add: ofp_error_type_of_def ofp_error_type_list_def)

lemma ofp_error_type_of_code [simp]: "ofp_error_type_of (ofp_error_type_code t) = Some t"
  by (cases t) (simp_all add: ofp_error_type_of_def ofp_error_type_list_def)

lemma ofp_error_type_code_of: "ofp_error_type_of n = Some t \<Longrightarrow> ofp_error_type_code t = n"
  by (auto simp: ofp_error_type_of_def ofp_error_type_list_def split: if_splits)

lemma ofp_error_type_code_inject [simp]: "ofp_error_type_code s = ofp_error_type_code t \<longleftrightarrow> s = t"
  by (metis ofp_error_type_of_code option.inject)

lemma ofp_error_type_code_less: "ofp_error_type_code t < 2 ^ 16"
  by (cases t) simp_all

section \<open>Wire structures\<close>

definition ofp_header :: ctype where
  "ofp_header = Struct [
     (''version'', U8), (''type'', U8), (''length'', U16), (''xid'', U32)]"

definition ofp_hello :: ctype where
  "ofp_hello = Struct [
     (''header'', ofp_header)]"

definition ofp_port :: ctype where
  "ofp_port = Struct [
     (''port_no'', U32), (''pad'', Arr U8 4), (''hw_addr'', Arr U8 6),
     (''pad2'', Arr U8 2), (''name'', Arr U8 16), (''config'', U32), (''state'', U32),
     (''curr'', U32), (''advertised'', U32), (''supported'', U32), (''peer'', U32),
     (''curr_speed'', U32), (''max_speed'', U32)]"

definition ofp_queue_prop_header :: ctype where
  "ofp_queue_prop_header = Struct [
     (''property'', U16), (''len'', U16), (''pad'', Arr U8 4)]"

definition ofp_packet_queue :: ctype where
  "ofp_packet_queue = Struct [
     (''queue_id'', U32), (''port'', U32), (''len'', U16), (''pad'', Arr U8 6),
     (''properties'', Arr ofp_queue_prop_header 0)]"

definition ofp_queue_prop_min_rate :: ctype where
  "ofp_queue_prop_min_rate = Struct [
     (''prop_header'', ofp_queue_prop_header), (''rate'', U16), (''pad'', Arr U8 6)]"

definition ofp_queue_prop_max_rate :: ctype where
  "ofp_queue_prop_max_rate = Struct [
     (''prop_header'', ofp_queue_prop_header), (''rate'', U16), (''pad'', Arr U8 6)]"

definition ofp_queue_prop_experimenter :: ctype where
  "ofp_queue_prop_experimenter = Struct [
     (''prop_header'', ofp_queue_prop_header), (''experimenter'', U32),
     (''pad'', Arr U8 4), (''data'', Arr U8 0)]"

definition ofp_match :: ctype where
  "ofp_match = Struct [
     (''type'', U16), (''length'', U16), (''oxm_fields'', Arr U8 4)]"

definition ofp_oxm_experimenter_header :: ctype where
  "ofp_oxm_experimenter_header = Struct [
     (''oxm_header'', U32), (''experimenter'', U32)]"

definition ofp_instruction :: ctype where
  "ofp_instruction = Struct [
     (''type'', U16), (''len'', U16), (''pad'', Arr U8 4)]"

definition ofp_instruction_goto_table :: ctype where
  "ofp_instruction_goto_table = Struct [
     (''type'', U16), (''len'', U16), (''table_id'', U8), (''pad'', Arr U8 3)]"

definition ofp_instruction_write_metadata :: ctype where
  "ofp_instruction_write_metadata = Struct [
     (''type'', U16), (''len'', U16), (''pad'', Arr U8 4), (''metadata'', U64),
     (''metadata_mask'', U64)]"

definition ofp_action_header :: ctype where
  "ofp_action_header = Struct [
     (''type'', U16), (''len'', U16), (''pad'', Arr U8 4)]"

definition ofp_instruction_actions :: ctype where
  "ofp_instruction_actions = Struct [
     (''type'', U16), (''len'', U16), (''pad'', Arr U8 4),
     (''actions'', Arr ofp_action_header 0)]"

definition ofp_instruction_meter :: ctype where
  "ofp_instruction_meter = Struct [
     (''type'', U16), (''len'', U16), (''meter_id'', U32)]"

definition ofp_action_output :: ctype where
  "ofp_action_output = Struct [
     (''type'', U16), (''len'', U16), (''port'', U32), (''max_len'', U16),
     (''pad'', Arr U8 6)]"

definition ofp_action_group :: ctype where
  "ofp_action_group = Struct [
     (''type'', U16), (''len'', U16), (''group_id'', U32)]"

definition ofp_action_set_queue :: ctype where
  "ofp_action_set_queue = Struct [
     (''type'', U16), (''len'', U16), (''queue_id'', U32)]"

definition ofp_action_mpls_ttl :: ctype where
  "ofp_action_mpls_ttl = Struct [
     (''type'', U16), (''len'', U16), (''mpls_ttl'', U8), (''pad'', Arr U8 3)]"

definition ofp_action_nw_ttl :: ctype where
  "ofp_action_nw_ttl = Struct [
     (''type'', U16), (''len'', U16), (''nw_ttl'', U8), (''pad'', Arr U8 3)]"

definition ofp_action_push :: ctype where
  "ofp_action_push = Struct [
     (''type'', U16), (''len'', U16), (''ethertype'', U16), (''pad'', Arr U8 2)]"

definition ofp_action_pop_mpls :: ctype where
  "ofp_action_pop_mpls = Struct [
     (''type'', U16), (''len'', U16), (''ethertype'', U16), (''pad'', Arr U8 2)]"

definition ofp_action_set_field :: ctype where
  "ofp_action_set_field = Struct [
     (''type'', U16), (''len'', U16), (''field'', Arr U8 4)]"

definition ofp_action_experimenter_header :: ctype where
  "ofp_action_experimenter_header = Struct [
     (''type'', U16), (''len'', U16), (''experimenter'', U32)]"

definition ofp_switch_features :: ctype where
  "ofp_switch_features = Struct [
     (''header'', ofp_header), (''datapath_id'', U64), (''n_buffers'', U32),
     (''n_tables'', U8), (''auxiliary_id'', U8), (''pad'', Arr U8 2),
     (''capabilities'', U32), (''reserved'', U32)]"

definition ofp_switch_config :: ctype where
  "ofp_switch_config = Struct [
     (''header'', ofp_header), (''flags'', U16), (''miss_send_len'', U16)]"

definition ofp_table_mod :: ctype where
  "ofp_table_mod = Struct [
     (''header'', ofp_header), (''table_id'', U8), (''pad'', Arr U8 3),
     (''config'', U32)]"

definition ofp_flow_mod :: ctype where
  "ofp_flow_mod = Struct [
     (''header'', ofp_header), (''cookie'', U64), (''cookie_mask'', U64),
     (''table_id'', U8), (''command'', U8), (''idle_timeout'', U16),
     (''hard_timeout'', U16), (''priority'', U16), (''buffer_id'', U32),
     (''out_port'', U32), (''out_group'', U32), (''flags'', U16), (''pad'', Arr U8 2),
     (''match'', ofp_match)]"

definition ofp_bucket :: ctype where
  "ofp_bucket = Struct [
     (''len'', U16), (''weight'', U16), (''watch_port'', U32), (''watch_group'', U32),
     (''pad'', Arr U8 4), (''actions'', Arr ofp_action_header 0)]"

definition ofp_group_mod :: ctype where
  "ofp_group_mod = Struct [
     (''header'', ofp_header), (''command'', U16), (''type'', U8), (''pad'', U8),
     (''group_id'', U32), (''buckets'', Arr ofp_bucket 0)]"

definition ofp_port_mod :: ctype where
  "ofp_port_mod = Struct [
     (''header'', ofp_header), (''port_no'', U32), (''pad'', Arr U8 4),
     (''hw_addr'', Arr U8 6), (''pad2'', Arr U8 2), (''config'', U32),
     (''mask'', U32), (''advertise'', U32), (''pad3'', Arr U8 4)]"

definition ofp_meter_band_header :: ctype where
  "ofp_meter_band_header = Struct [
     (''type'', U16), (''len'', U16), (''rate'', U32), (''burst_size'', U32)]"

definition ofp_meter_mod :: ctype where
  "ofp_meter_mod = Struct [
     (''header'', ofp_header), (''command'', U16), (''flags'', U16),
     (''meter_id'', U32), (''bands'', Arr ofp_meter_band_header 0)]"

definition ofp_meter_band_drop :: ctype where
  "ofp_meter_band_drop = Struct [
     (''type'', U16), (''len'', U16), (''rate'', U32), (''burst_size'', U32),
     (''pad'', Arr U8 4)]"

definition ofp_meter_band_dscp_remark :: ctype where
  "ofp_meter_band_dscp_remark = Struct [
     (''type'', U16), (''len'', U16), (''rate'', U32), (''burst_size'', U32),
     (''prec_level'', U8), (''pad'', Arr U8 3)]"

definition ofp_meter_band_experimenter :: ctype where
  "ofp_meter_band_experimenter = Struct [
     (''type'', U16), (''len'', U16), (''rate'', U32), (''burst_size'', U32),
     (''experimenter'', U32)]"

definition ofp_multipart_request :: ctype where
  "ofp_multipart_request = Struct [
     (''header'', ofp_header), (''type'', U16), (''flags'', U16), (''pad'', Arr U8 4),
     (''body'', Arr U8 0)]"

definition ofp_multipart_reply :: ctype where
  "ofp_multipart_reply = Struct [
     (''header'', ofp_header), (''type'', U16), (''flags'', U16), (''pad'', Arr U8 4),
     (''body'', Arr U8 0)]"

definition ofp_desc :: ctype where
  "ofp_desc = Struct [
     (''mfr_desc'', Arr U8 256), (''hw_desc'', Arr U8 256), (''sw_desc'', Arr U8 256),
     (''serial_num'', Arr U8 32), (''dp_desc'', Arr U8 256)]"

definition ofp_flow_stats_request :: ctype where
  "ofp_flow_stats_request = Struct [
     (''table_id'', U8), (''pad'', Arr U8 3), (''out_port'', U32),
     (''out_group'', U32), (''pad2'', Arr U8 4), (''cookie'', U64),
     (''cookie_mask'', U64), (''match'', ofp_match)]"

definition ofp_flow_stats :: ctype where
  "ofp_flow_stats = Struct [
     (''length'', U16), (''table_id'', U8), (''pad'', U8), (''duration_sec'', U32),
     (''duration_nsec'', U32), (''priority'', U16), (''idle_timeout'', U16),
     (''hard_timeout'', U16), (''pad2'', Arr U8 6), (''cookie'', U64),
     (''packet_count'', U64), (''byte_count'', U64), (''match'', ofp_match)]"

definition ofp_aggregate_stats_request :: ctype where
  "ofp_aggregate_stats_request = Struct [
     (''table_id'', U8), (''pad'', Arr U8 3), (''out_port'', U32),
     (''out_group'', U32), (''pad2'', Arr U8 4), (''cookie'', U64),
     (''cookie_mask'', U64), (''match'', ofp_match)]"

definition ofp_aggregate_stats_reply :: ctype where
  "ofp_aggregate_stats_reply = Struct [
     (''packet_count'', U64), (''byte_count'', U64), (''flow_count'', U32),
     (''pad'', Arr U8 4)]"

definition ofp_table_stats :: ctype where
  "ofp_table_stats = Struct [
     (''table_id'', U8), (''pad'', Arr U8 3), (''active_count'', U32),
     (''lookup_count'', U64), (''matched_count'', U64)]"

definition ofp_table_feature_prop_header :: ctype where
  "ofp_table_feature_prop_header = Struct [
     (''type'', U16), (''length'', U16), (''pad'', Arr U8 4)]"

definition ofp_table_features :: ctype where
  "ofp_table_features = Struct [
     (''length'', U16), (''table_id'', U8), (''pad'', Arr U8 5),
     (''name'', Arr U8 32), (''metadata_match'', U64), (''metadata_write'', U64),
     (''config'', U32), (''max_entries'', U32),
     (''properties'', Arr ofp_table_feature_prop_header 0)]"

definition ofp_table_feature_prop_instructions :: ctype where
  "ofp_table_feature_prop_instructions = Struct [
     (''type'', U16), (''length'', U16), (''instruction_ids'', Arr ofp_instruction 0)]"

definition ofp_table_feature_prop_next_tables :: ctype where
  "ofp_table_feature_prop_next_tables = Struct [
     (''type'', U16), (''length'', U16), (''next_table_ids'', Arr U8 0)]"

definition ofp_table_feature_prop_actions :: ctype where
  "ofp_table_feature_prop_actions = Struct [
     (''type'', U16), (''length'', U16), (''action_ids'', Arr ofp_action_header 0)]"

definition ofp_table_feature_prop_oxm :: ctype where
  "ofp_table_feature_prop_oxm = Struct [
     (''type'', U16), (''length'', U16), (''oxm_ids'', Arr U32 0)]"

definition ofp_port_stats_request :: ctype where
  "ofp_port_stats_request = Struct [
     (''port_no'', U32), (''pad'', Arr U8 4)]"

definition ofp_port_stats :: ctype where
  "ofp_port_stats = Struct [
     (''port_no'', U32), (''pad'', Arr U8 4), (''rx_packets'', U64),
     (''tx_packets'', U64), (''rx_bytes'', U64), (''tx_bytes'', U64),
     (''rx_dropped'', U64), (''tx_dropped'', U64), (''rx_errors'', U64),
     (''tx_errors'', U64), (''rx_frame_err'', U64), (''rx_over_err'', U64),
     (''rx_crc_err'', U64), (''collisions'', U64), (''duration_sec'', U32),
     (''duration_nsec'', U32)]"

definition ofp_queue_stats_request :: ctype where
  "ofp_queue_stats_request = Struct [
     (''port_no'', U32), (''queue_id'', U32)]"

definition ofp_queue_stats :: ctype where
  "ofp_queue_stats = Struct [
     (''port_no'', U32), (''queue_id'', U32), (''tx_bytes'', U64),
     (''tx_packets'', U64), (''tx_errors'', U64), (''duration_sec'', U32),
     (''duration_nsec'', U32)]"

definition ofp_group_stats_request :: ctype where
  "ofp_group_stats_request = Struct [
     (''group_id'', U32), (''pad'', Arr U8 4)]"

definition ofp_bucket_counter :: ctype where
  "ofp_bucket_counter = Struct [
     (''packet_count'', U64), (''byte_count'', U64)]"

definition ofp_group_stats :: ctype where
  "ofp_group_stats = Struct [
     (''length'', U16), (''pad'', Arr U8 2), (''group_id'', U32),
     (''ref_count'', U32), (''pad2'', Arr U8 4), (''packet_count'', U64),
     (''byte_count'', U64), (''duration_sec'', U32), (''duration_nsec'', U32),
     (''bucket_stats'', Arr ofp_bucket_counter 0)]"

definition ofp_group_desc_stats :: ctype where
  "ofp_group_desc_stats = Struct [
     (''length'', U16), (''type'', U8), (''pad'', U8), (''group_id'', U32),
     (''buckets'', Arr ofp_bucket 0)]"

definition ofp_group_features_stats :: ctype where
  "ofp_group_features_stats = Struct [
     (''types'', U32), (''capabilities'', U32), (''max_groups'', Arr U32 4),
     (''actions'', Arr U32 4)]"

definition ofp_meter_multipart_request :: ctype where
  "ofp_meter_multipart_request = Struct [
     (''meter_id'', U32), (''pad'', Arr U8 4)]"

definition ofp_meter_band_stats :: ctype where
  "ofp_meter_band_stats = Struct [
     (''packet_band_count'', U64), (''byte_band_count'', U64)]"

definition ofp_meter_stats :: ctype where
  "ofp_meter_stats = Struct [
     (''meter_id'', U32), (''len'', U16), (''pad'', Arr U8 6), (''flow_count'', U32),
     (''packet_in_count'', U64), (''byte_in_count'', U64), (''duration_sec'', U32),
     (''duration_nsec'', U32), (''band_stats'', Arr ofp_meter_band_stats 0)]"

definition ofp_meter_config :: ctype where
  "ofp_meter_config = Struct [
     (''length'', U16), (''flags'', U16), (''meter_id'', U32),
     (''bands'', Arr ofp_meter_band_header 0)]"

definition ofp_meter_features :: ctype where
  "ofp_meter_features = Struct [
     (''max_meter'', U32), (''band_types'', U32), (''capabilities'', U32),
     (''max_bands'', U8), (''max_color'', U8), (''pad'', Arr U8 2)]"

definition ofp_experimenter_stats_header :: ctype where
  "ofp_experimenter_stats_header = Struct [
     (''experimenter'', U32), (''exp_type'', U32)]"

definition ofp_queue_get_config_request :: ctype where
  "ofp_queue_get_config_request = Struct [
     (''header'', ofp_header), (''port'', U32), (''pad'', Arr U8 4)]"

definition ofp_queue_get_config_reply :: ctype where
  "ofp_queue_get_config_reply = Struct [
     (''header'', ofp_header), (''port'', U32), (''pad'', Arr U8 4),
     (''queues'', Arr ofp_packet_queue 0)]"

definition ofp_packet_out :: ctype where
  "ofp_packet_out = Struct [
     (''header'', ofp_header), (''buffer_id'', U32), (''in_port'', U32),
     (''actions_len'', U16), (''pad'', Arr U8 6),
     (''actions'', Arr ofp_action_header 0)]"

definition ofp_role_request :: ctype where
  "ofp_role_request = Struct [
     (''header'', ofp_header), (''role'', U32), (''pad'', Arr U8 4),
     (''generation_id'', U64)]"

definition ofp_async_config :: ctype where
  "ofp_async_config = Struct [
     (''header'', ofp_header), (''packet_in_mask'', Arr U32 2),
     (''port_status_mask'', Arr U32 2), (''flow_removed_mask'', Arr U32 2)]"

definition ofp_packet_in :: ctype where
  "ofp_packet_in = Struct [
     (''header'', ofp_header), (''buffer_id'', U32), (''total_len'', U16),
     (''reason'', U8), (''table_id'', U8), (''cookie'', U64), (''match'', ofp_match)]"

definition ofp_flow_removed :: ctype where
  "ofp_flow_removed = Struct [
     (''header'', ofp_header), (''cookie'', U64), (''priority'', U16),
     (''reason'', U8), (''table_id'', U8), (''duration_sec'', U32),
     (''duration_nsec'', U32), (''idle_timeout'', U16), (''hard_timeout'', U16),
     (''packet_count'', U64), (''byte_count'', U64), (''match'', ofp_match)]"

definition ofp_port_status :: ctype where
  "ofp_port_status = Struct [
     (''header'', ofp_header), (''reason'', U8), (''pad'', Arr U8 7),
     (''desc'', ofp_port)]"

definition ofp_error_msg :: ctype where
  "ofp_error_msg = Struct [
     (''header'', ofp_header), (''type'', U16), (''code'', U16), (''data'', Arr U8 0)]"

definition ofp_error_experimenter_msg :: ctype where
  "ofp_error_experimenter_msg = Struct [
     (''header'', ofp_header), (''type'', U16), (''exp_type'', U16),
     (''experimenter'', U32), (''data'', Arr U8 0)]"

definition ofp_experimenter_header :: ctype where
  "ofp_experimenter_header = Struct [
     (''header'', ofp_header), (''experimenter'', U32), (''exp_type'', U32)]"

lemmas ofp_struct_defs =
  ofp_header_def
  ofp_hello_def
  ofp_port_def
  ofp_queue_prop_header_def
  ofp_packet_queue_def
  ofp_queue_prop_min_rate_def
  ofp_queue_prop_max_rate_def
  ofp_queue_prop_experimenter_def
  ofp_match_def
  ofp_oxm_experimenter_header_def
  ofp_instruction_def
  ofp_instruction_goto_table_def
  ofp_instruction_write_metadata_def
  ofp_action_header_def
  ofp_instruction_actions_def
  ofp_instruction_meter_def
  ofp_action_output_def
  ofp_action_group_def
  ofp_action_set_queue_def
  ofp_action_mpls_ttl_def
  ofp_action_nw_ttl_def
  ofp_action_push_def
  ofp_action_pop_mpls_def
  ofp_action_set_field_def
  ofp_action_experimenter_header_def
  ofp_switch_features_def
  ofp_switch_config_def
  ofp_table_mod_def
  ofp_flow_mod_def
  ofp_bucket_def
  ofp_group_mod_def
  ofp_port_mod_def
  ofp_meter_band_header_def
  ofp_meter_mod_def
  ofp_meter_band_drop_def
  ofp_meter_band_dscp_remark_def
  ofp_meter_band_experimenter_def
  ofp_multipart_request_def
  ofp_multipart_reply_def
  ofp_desc_def
  ofp_flow_stats_request_def
  ofp_flow_stats_def
  ofp_aggregate_stats_request_def
  ofp_aggregate_stats_reply_def
  ofp_table_stats_def
  ofp_table_feature_prop_header_def
  ofp_table_features_def
  ofp_table_feature_prop_instructions_def
  ofp_table_feature_prop_next_tables_def
  ofp_table_feature_prop_actions_def
  ofp_table_feature_prop_oxm_def
  ofp_port_stats_request_def
  ofp_port_stats_def
  ofp_queue_stats_request_def
  ofp_queue_stats_def
  ofp_group_stats_request_def
  ofp_bucket_counter_def
  ofp_group_stats_def
  ofp_group_desc_stats_def
  ofp_group_features_stats_def
  ofp_meter_multipart_request_def
  ofp_meter_band_stats_def
  ofp_meter_stats_def
  ofp_meter_config_def
  ofp_meter_features_def
  ofp_experimenter_stats_header_def
  ofp_queue_get_config_request_def
  ofp_queue_get_config_reply_def
  ofp_packet_out_def
  ofp_role_request_def
  ofp_async_config_def
  ofp_packet_in_def
  ofp_flow_removed_def
  ofp_port_status_def
  ofp_error_msg_def
  ofp_error_experimenter_msg_def
  ofp_experimenter_header_def

text \<open>The \<open>OFP_ASSERT(sizeof(struct ...) == n)\<close> lines of the header, in their order.\<close>

definition ofp_asserts :: "(ctype \<times> nat) list" where
  "ofp_asserts = [
     (ofp_header, 8),
     (ofp_port, 64),
     (ofp_queue_prop_header, 8),
     (ofp_packet_queue, 16),
     (ofp_queue_prop_min_rate, 16),
     (ofp_queue_prop_max_rate, 16),
     (ofp_queue_prop_experimenter, 16),
     (ofp_match, 8),
     (ofp_oxm_experimenter_header, 8),
     (ofp_instruction, 8),
     (ofp_instruction_goto_table, 8),
     (ofp_instruction_write_metadata, 24),
     (ofp_action_header, 8),
     (ofp_instruction_actions, 8),
     (ofp_instruction_meter, 8),
     (ofp_action_output, 16),
     (ofp_action_group, 8),
     (ofp_action_set_queue, 8),
     (ofp_action_mpls_ttl, 8),
     (ofp_action_nw_ttl, 8),
     (ofp_action_push, 8),
     (ofp_action_pop_mpls, 8),
     (ofp_action_set_field, 8),
     (ofp_action_experimenter_header, 8),
     (ofp_switch_features, 32),
     (ofp_switch_config, 12),
     (ofp_table_mod, 16),
     (ofp_flow_mod, 56),
     (ofp_bucket, 16),
     (ofp_group_mod, 16),
     (ofp_port_mod, 40),
     (ofp_meter_band_header, 12),
     (ofp_meter_mod, 16),
     (ofp_meter_band_drop, 16),
     (ofp_meter_band_dscp_remark, 16),
     (ofp_meter_band_experimenter, 16),
     (ofp_multipart_request, 16),
     (ofp_multipart_reply, 16),
     (ofp_desc, 1056),
     (ofp_flow_stats_request, 40),
     (ofp_flow_stats, 56),
     (ofp_aggregate_stats_request, 40),
     (ofp_aggregate_stats_reply, 24),
     (ofp_table_stats, 24),
     (ofp_table_feature_prop_header, 8),
     (ofp_table_features, 64),
     (ofp_table_feature_prop_instructions, 4),
     (ofp_table_feature_prop_next_tables, 4),
     (ofp_table_feature_prop_actions, 4),
     (ofp_table_feature_prop_oxm, 4),
     (ofp_port_stats_request, 8),
     (ofp_port_stats, 112),
     (ofp_queue_stats_request, 8),
     (ofp_queue_stats, 40),
     (ofp_group_stats_request, 8),
     (ofp_bucket_counter, 16),
     (ofp_group_stats, 40),
     (ofp_group_desc_stats, 8),
     (ofp_group_features_stats, 40),
     (ofp_meter_multipart_request, 8),
     (ofp_meter_band_stats, 16),
     (ofp_meter_stats, 40),
     (ofp_meter_config, 8),
     (ofp_meter_features, 16),
     (ofp_experimenter_stats_header, 8),
     (ofp_queue_get_config_request, 16),
     (ofp_queue_get_config_reply, 16),
     (ofp_packet_out, 24),
     (ofp_role_request, 24),
     (ofp_async_config, 32),
     (ofp_packet_in, 32),
     (ofp_flow_removed, 56),
     (ofp_port_status, 80),
     (ofp_error_msg, 12),
     (ofp_error_experimenter_msg, 16),
     (ofp_experimenter_header, 16)]"

section \<open>Evaluated sizes and offsets\<close>

lemmas layout_eval = sizeof_def offsetof_def align_up_def Let_def

lemma sizeof_structs [layout_simps]:
  "sizeof ofp_header = 8"
  "sizeof ofp_port = 64"
  "sizeof ofp_packet_queue = 16"
  "sizeof ofp_match = 8"
  "sizeof ofp_instruction = 8"
  "sizeof ofp_action_header = 8"
  "sizeof ofp_action_output = 16"
  "sizeof ofp_action_group = 8"
  "sizeof ofp_action_set_queue = 8"
  "sizeof ofp_action_mpls_ttl = 8"
  "sizeof ofp_action_nw_ttl = 8"
  "sizeof ofp_action_push = 8"
  "sizeof ofp_action_pop_mpls = 8"
  "sizeof ofp_action_set_field = 8"
  "sizeof ofp_switch_features = 32"
  "sizeof ofp_switch_config = 12"
  "sizeof ofp_table_mod = 16"
  "sizeof ofp_flow_mod = 56"
  "sizeof ofp_bucket = 16"
  "sizeof ofp_group_mod = 16"
  "sizeof ofp_port_mod = 40"
  "sizeof ofp_meter_band_header = 12"
  "sizeof ofp_meter_mod = 16"
  "sizeof ofp_multipart_request = 16"
  "sizeof ofp_multipart_reply = 16"
  "sizeof ofp_desc = 1056"
  "sizeof ofp_flow_stats_request = 40"
  "sizeof ofp_flow_stats = 56"
  "sizeof ofp_aggregate_stats_reply = 24"
  "sizeof ofp_table_stats = 24"
  "sizeof ofp_table_features = 64"
  "sizeof ofp_port_stats_request = 8"
  "sizeof ofp_port_stats = 112"
  "sizeof ofp_queue_stats_request = 8"
  "sizeof ofp_queue_stats = 40"
  "sizeof ofp_group_stats_request = 8"
  "sizeof ofp_group_stats = 40"
  "sizeof ofp_group_desc_stats = 8"
  "sizeof ofp_group_features_stats = 40"
  "sizeof ofp_meter_multipart_request = 8"
  "sizeof ofp_meter_stats = 40"
  "sizeof ofp_meter_config = 8"
  "sizeof ofp_meter_features = 16"
  "sizeof ofp_queue_get_config_request = 16"
  "sizeof ofp_queue_get_config_reply = 16"
  "sizeof ofp_packet_out = 24"
  "sizeof ofp_role_request = 24"
  "sizeof ofp_async_config = 32"
  "sizeof ofp_packet_in = 32"
  "sizeof ofp_flow_removed = 56"
  "sizeof ofp_port_status = 80"
  "sizeof ofp_error_msg = 12"
  by (simp_all add: layout_eval ofp_struct_defs numeral_2_eq_2 [symmetric])

lemma offsetof_ofp_header [layout_simps]:
  "offsetof ofp_header ''version'' = 0"
  "offsetof ofp_header ''type'' = 1"
  "offsetof ofp_header ''length'' = 2"
  "offsetof ofp_header ''xid'' = 4"
  by (simp_all add: layout_eval ofp_struct_defs numeral_2_eq_2 [symmetric])

lemma offsetof_ofp_port [layout_simps]:
  "offsetof ofp_port ''port_no'' = 0"
  "offsetof ofp_port ''pad'' = 4"
  "offsetof ofp_port ''hw_addr'' = 8"
  "offsetof ofp_port ''pad2'' = 14"
  "offsetof ofp_port ''name'' = 16"
  "offsetof ofp_port ''config'' = 32"
  "offsetof ofp_port ''state'' = 36"
  "offsetof ofp_port ''curr'' = 40"
  "offsetof ofp_port ''advertised'' = 44"
  "offsetof ofp_port ''supported'' = 48"
  "offsetof ofp_port ''peer'' = 52"
  "offsetof ofp_port ''curr_speed'' = 56"
  "offsetof ofp_port ''max_speed'' = 60"
  by (simp_all add: layout_eval ofp_struct_defs numeral_2_eq_2 [symmetric])

lemma offsetof_ofp_packet_queue [layout_simps]:
  "offsetof ofp_packet_queue ''queue_id'' = 0"
  "offsetof ofp_packet_queue ''port'' = 4"
  "offsetof ofp_packet_queue ''len'' = 8"
  "offsetof ofp_packet_queue ''pad'' = 10"
  "offsetof ofp_packet_queue ''properties'' = 16"
  by (simp_all add: layout_eval ofp_struct_defs numeral_2_eq_2 [symmetric])

lemma offsetof_ofp_match [layout_simps]:
  "offsetof ofp_match ''type'' = 0"
  "offsetof ofp_match ''length'' = 2"
  "offsetof ofp_match ''oxm_fields'' = 4"
  by (simp_all add: layout_eval ofp_struct_defs numeral_2_eq_2 [symmetric])

lemma offsetof_ofp_instruction [layout_simps]:
  "offsetof ofp_instruction ''type'' = 0"
  "offsetof ofp_instruction ''len'' = 2"
  "offsetof ofp_instruction ''pad'' = 4"
  by (simp_all add: layout_eval ofp_struct_defs numeral_2_eq_2 [symmetric])

lemma offsetof_ofp_action_header [layout_simps]:
  "offsetof ofp_action_header ''type'' = 0"
  "offsetof ofp_action_header ''len'' = 2"
  "offsetof ofp_action_header ''pad'' = 4"
  by (simp_all add: layout_eval ofp_struct_defs numeral_2_eq_2 [symmetric])

lemma offsetof_ofp_action_output [layout_simps]:
  "offsetof ofp_action_output ''type'' = 0"
  "offsetof ofp_action_output ''len'' = 2"
  "offsetof ofp_action_output ''port'' = 4"
  "offsetof ofp_action_output ''max_len'' = 8"
  "offsetof ofp_action_output ''pad'' = 10"
  by (simp_all add: layout_eval ofp_struct_defs numeral_2_eq_2 [symmetric])

lemma offsetof_ofp_action_group [layout_simps]:
  "offsetof ofp_action_group ''type'' = 0"
  "offsetof ofp_action_group ''len'' = 2"
  "offsetof ofp_action_group ''group_id'' = 4"
  by (simp_all add: layout_eval ofp_struct_defs numeral_2_eq_2 [symmetric])

lemma offsetof_ofp_action_set_queue [layout_simps]:
  "offsetof ofp_action_set_queue ''type'' = 0"
  "offsetof ofp_action_set_queue ''len'' = 2"
  "offsetof ofp_action_set_queue ''queue_id'' = 4"
  by (simp_all add: layout_eval ofp_struct_defs numeral_2_eq_2 [symmetric])

lemma offsetof_ofp_action_mpls_ttl [layout_simps]:
  "offsetof ofp_action_mpls_ttl ''type'' = 0"
  "offsetof ofp_action_mpls_ttl ''len'' = 2"
  "offsetof ofp_action_mpls_ttl ''mpls_ttl'' = 4"
  "offsetof ofp_action_mpls_ttl ''pad'' = 5"
  by (simp_all add: layout_eval ofp_struct_defs numeral_2_eq_2 [symmetric])

lemma offsetof_ofp_action_nw_ttl [layout_simps]:
  "offsetof ofp_action_nw_ttl ''type'' = 0"
  "offsetof ofp_action_nw_ttl ''len'' = 2"
  "offsetof ofp_action_nw_ttl ''nw_ttl'' = 4"
  "offsetof ofp_action_nw_ttl ''pad'' = 5"
  by (simp_all add: layout_eval ofp_struct_defs numeral_2_eq_2 [symmetric])

lemma offsetof_ofp_action_push [layout_simps]:
  "offsetof ofp_action_push ''type'' = 0"
  "offsetof ofp_action_push ''len'' = 2"
  "offsetof ofp_action_push ''ethertype'' = 4"
  "offsetof ofp_action_push ''pad'' = 6"
  by (simp_all add: layout_eval ofp_struct_defs numeral_2_eq_2 [symmetric])

lemma offsetof_ofp_action_pop_mpls [layout_simps]:
  "offsetof ofp_action_pop_mpls ''type'' = 0"
  "offsetof ofp_action_pop_mpls ''len'' = 2"
  "offsetof ofp_action_pop_mpls ''ethertype'' = 4"
  "offsetof ofp_action_pop_mpls ''pad'' = 6"
  by (simp_all add: layout_eval ofp_struct_defs numeral_2_eq_2 [symmetric])

lemma offsetof_ofp_action_set_field [layout_simps]:
  "offsetof ofp_action_set_field ''type'' = 0"
  "offsetof ofp_action_set_field ''len'' = 2"
  "offsetof ofp_action_set_field ''field'' = 4"
  by (simp_all add: layout_eval ofp_struct_defs numeral_2_eq_2 [symmetric])

lemma offsetof_ofp_switch_features [layout_simps]:
  "offsetof ofp_switch_features ''header'' = 0"
  "offsetof ofp_switch_features ''datapath_id'' = 8"
  "offsetof ofp_switch_features ''n_buffers'' = 16"
  "offsetof ofp_switch_features ''n_tables'' = 20"
  "offsetof ofp_switch_features ''auxiliary_id'' = 21"
  "offsetof ofp_switch_features ''pad'' = 22"
  "offsetof ofp_switch_features ''capabilities'' = 24"
  "offsetof ofp_switch_features ''reserved'' = 28"
  by (simp_all add: layout_eval ofp_struct_defs numeral_2_eq_2 [symmetric])

lemma offsetof_ofp_switch_config [layout_simps]:
  "offsetof ofp_switch_config ''header'' = 0"
  "offsetof ofp_switch_config ''flags'' = 8"
  "offsetof ofp_switch_config ''miss_send_len'' = 10"
  by (simp_all add: layout_eval ofp_struct_defs numeral_2_eq_2 [symmetric])

lemma offsetof_ofp_table_mod [layout_simps]:
  "offsetof ofp_table_mod ''header'' = 0"
  "offsetof ofp_table_mod ''table_id'' = 8"
  "offsetof ofp_table_mod ''pad'' = 9"
  "offsetof ofp_table_mod ''config'' = 12"
  by (simp_all add: layout_eval ofp_struct_defs numeral_2_eq_2 [symmetric])

lemma offsetof_ofp_flow_mod [layout_simps]:
  "offsetof ofp_flow_mod ''header'' = 0"
  "offsetof ofp_flow_mod ''cookie'' = 8"
  "offsetof ofp_flow_mod ''cookie_mask'' = 16"
  "offsetof ofp_flow_mod ''table_id'' = 24"
  "offsetof ofp_flow_mod ''command'' = 25"
  "offsetof ofp_flow_mod ''idle_timeout'' = 26"
  "offsetof ofp_flow_mod ''hard_timeout'' = 28"
  "offsetof ofp_flow_mod ''priority'' = 30"
  "offsetof ofp_flow_mod ''buffer_id'' = 32"
  "offsetof ofp_flow_mod ''out_port'' = 36"
  "offsetof ofp_flow_mod ''out_group'' = 40"
  "offsetof ofp_flow_mod ''flags'' = 44"
  "offsetof ofp_flow_mod ''pad'' = 46"
  "offsetof ofp_flow_mod ''match'' = 48"
  by (simp_all add: layout_eval ofp_struct_defs numeral_2_eq_2 [symmetric])

lemma offsetof_ofp_bucket [layout_simps]:
  "offsetof ofp_bucket ''len'' = 0"
  "offsetof ofp_bucket ''weight'' = 2"
  "offsetof ofp_bucket ''watch_port'' = 4"
  "offsetof ofp_bucket ''watch_group'' = 8"
  "offsetof ofp_bucket ''pad'' = 12"
  "offsetof ofp_bucket ''actions'' = 16"
  by (simp_all add: layout_eval ofp_struct_defs numeral_2_eq_2 [symmetric])

lemma offsetof_ofp_group_mod [layout_simps]:
  "offsetof ofp_group_mod ''header'' = 0"
  "offsetof ofp_group_mod ''command'' = 8"
  "offsetof ofp_group_mod ''type'' = 10"
  "offsetof ofp_group_mod ''pad'' = 11"
  "offsetof ofp_group_mod ''group_id'' = 12"
  "offsetof ofp_group_mod ''buckets'' = 16"
  by (simp_all add: layout_eval ofp_struct_defs numeral_2_eq_2 [symmetric])

lemma offsetof_ofp_port_mod [layout_simps]:
  "offsetof ofp_port_mod ''header'' = 0"
  "offsetof ofp_port_mod ''port_no'' = 8"
  "offsetof ofp_port_mod ''pad'' = 12"
  "offsetof ofp_port_mod ''hw_addr'' = 16"
  "offsetof ofp_port_mod ''pad2'' = 22"
  "offsetof ofp_port_mod ''config'' = 24"
  "offsetof ofp_port_mod ''mask'' = 28"
  "offsetof ofp_port_mod ''advertise'' = 32"
  "offsetof ofp_port_mod ''pad3'' = 36"
  by (simp_all add: layout_eval ofp_struct_defs numeral_2_eq_2 [symmetric])

lemma offsetof_ofp_meter_band_header [layout_simps]:
  "offsetof ofp_meter_band_header ''type'' = 0"
  "offsetof ofp_meter_band_header ''len'' = 2"
  "offsetof ofp_meter_band_header ''rate'' = 4"
  "offsetof ofp_meter_band_header ''burst_size'' = 8"
  by (simp_all add: layout_eval ofp_struct_defs numeral_2_eq_2 [symmetric])

lemma offsetof_ofp_meter_mod [layout_simps]:
  "offsetof ofp_meter_mod ''header'' = 0"
  "offsetof ofp_meter_mod ''command'' = 8"
  "offsetof ofp_meter_mod ''flags'' = 10"
  "offsetof ofp_meter_mod ''meter_id'' = 12"
  "offsetof ofp_meter_mod ''bands'' = 16"
  by (simp_all add: layout_eval ofp_struct_defs numeral_2_eq_2 [symmetric])

lemma offsetof_ofp_multipart_request [layout_simps]:
  "offsetof ofp_multipart_request ''header'' = 0"
  "offsetof ofp_multipart_request ''type'' = 8"
  "offsetof ofp_multipart_request ''flags'' = 10"
  "offsetof ofp_multipart_request ''pad'' = 12"
  "offsetof ofp_multipart_request ''body'' = 16"
  by (simp_all add: layout_eval ofp_struct_defs numeral_2_eq_2 [symmetric])

lemma offsetof_ofp_multipart_reply [layout_simps]:
  "offsetof ofp_multipart_reply ''header'' = 0"
  "offsetof ofp_multipart_reply ''type'' = 8"
  "offsetof ofp_multipart_reply ''flags'' = 10"
  "offsetof ofp_multipart_reply ''pad'' = 12"
  "offsetof ofp_multipart_reply ''body'' = 16"
  by (simp_all add: layout_eval ofp_struct_defs numeral_2_eq_2 [symmetric])

lemma offsetof_ofp_desc [layout_simps]:
  "offsetof ofp_desc ''mfr_desc'' = 0"
  "offsetof ofp_desc ''hw_desc'' = 256"
  "offsetof ofp_desc ''sw_desc'' = 512"
  "offsetof ofp_desc ''serial_num'' = 768"
  "offsetof ofp_desc ''dp_desc'' = 800"
  by (simp_all add: layout_eval ofp_struct_defs numeral_2_eq_2 [symmetric])

lemma offsetof_ofp_flow_stats_request [layout_simps]:
  "offsetof ofp_flow_stats_request ''table_id'' = 0"
  "offsetof ofp_flow_stats_request ''pad'' = 1"
  "offsetof ofp_flow_stats_request ''out_port'' = 4"
  "offsetof ofp_flow_stats_request ''out_group'' = 8"
  "offsetof ofp_flow_stats_request ''pad2'' = 12"
  "offsetof ofp_flow_stats_request ''cookie'' = 16"
  "offsetof ofp_flow_stats_request ''cookie_mask'' = 24"
  "offsetof ofp_flow_stats_request ''match'' = 32"
  by (simp_all add: layout_eval ofp_struct_defs numeral_2_eq_2 [symmetric])

lemma offsetof_ofp_flow_stats [layout_simps]:
  "offsetof ofp_flow_stats ''length'' = 0"
  "offsetof ofp_flow_stats ''table_id'' = 2"
  "offsetof ofp_flow_stats ''pad'' = 3"
  "offsetof ofp_flow_stats ''duration_sec'' = 4"
  "offsetof ofp_flow_stats ''duration_nsec'' = 8"
  "offsetof ofp_flow_stats ''priority'' = 12"
  "offsetof ofp_flow_stats ''idle_timeout'' = 14"
  "offsetof ofp_flow_stats ''hard_timeout'' = 16"
  "offsetof ofp_flow_stats ''pad2'' = 18"
  "offsetof ofp_flow_stats ''cookie'' = 24"
  "offsetof ofp_flow_stats ''packet_count'' = 32"
  "offsetof ofp_flow_stats ''byte_count'' = 40"
  "offsetof ofp_flow_stats ''match'' = 48"
  by (simp_all add: layout_eval ofp_struct_defs numeral_2_eq_2 [symmetric])

lemma offsetof_ofp_aggregate_stats_reply [layout_simps]:
  "offsetof ofp_aggregate_stats_reply ''packet_count'' = 0"
  "offsetof ofp_aggregate_stats_reply ''byte_count'' = 8"
  "offsetof ofp_aggregate_stats_reply ''flow_count'' = 16"
  "offsetof ofp_aggregate_stats_reply ''pad'' = 20"
  by (simp_all add: layout_eval ofp_struct_defs numeral_2_eq_2 [symmetric])

lemma offsetof_ofp_table_stats [layout_simps]:
  "offsetof ofp_table_stats ''table_id'' = 0"
  "offsetof ofp_table_stats ''pad'' = 1"
  "offsetof ofp_table_stats ''active_count'' = 4"
  "offsetof ofp_table_stats ''lookup_count'' = 8"
  "offsetof ofp_table_stats ''matched_count'' = 16"
  by (simp_all add: layout_eval ofp_struct_defs numeral_2_eq_2 [symmetric])

lemma offsetof_ofp_table_features [layout_simps]:
  "offsetof ofp_table_features ''length'' = 0"
  "offsetof ofp_table_features ''table_id'' = 2"
  "offsetof ofp_table_features ''pad'' = 3"
  "offsetof ofp_table_features ''name'' = 8"
  "offsetof ofp_table_features ''metadata_match'' = 40"
  "offsetof ofp_table_features ''metadata_write'' = 48"
  "offsetof ofp_table_features ''config'' = 56"
  "offsetof ofp_table_features ''max_entries'' = 60"
  "offsetof ofp_table_features ''properties'' = 64"
  by (simp_all add: layout_eval ofp_struct_defs numeral_2_eq_2 [symmetric])

lemma offsetof_ofp_port_stats_request [layout_simps]:
  "offsetof ofp_port_stats_request ''port_no'' = 0"
  "offsetof ofp_port_stats_request ''pad'' = 4"
  by (simp_all add: layout_eval ofp_struct_defs numeral_2_eq_2 [symmetric])

lemma offsetof_ofp_port_stats [layout_simps]:
  "offsetof ofp_port_stats ''port_no'' = 0"
  "offsetof ofp_port_stats ''pad'' = 4"
  "offsetof ofp_port_stats ''rx_packets'' = 8"
  "offsetof ofp_port_stats ''tx_packets'' = 16"
  "offsetof ofp_port_stats ''rx_bytes'' = 24"
  "offsetof ofp_port_stats ''tx_bytes'' = 32"
  "offsetof ofp_port_stats ''rx_dropped'' = 40"
  "offsetof ofp_port_stats ''tx_dropped'' = 48"
  "offsetof ofp_port_stats ''rx_errors'' = 56"
  "offsetof ofp_port_stats ''tx_errors'' = 64"
  "offsetof ofp_port_stats ''rx_frame_err'' = 72"
  "offsetof ofp_port_stats ''rx_over_err'' = 80"
  "offsetof ofp_port_stats ''rx_crc_err'' = 88"
  "offsetof ofp_port_stats ''collisions'' = 96"
  "offsetof ofp_port_stats ''duration_sec'' = 104"
  "offsetof ofp_port_stats ''duration_nsec'' = 108"
  by (simp_all add: layout_eval ofp_struct_defs numeral_2_eq_2 [symmetric])

lemma offsetof_ofp_queue_stats_request [layout_simps]:
  "offsetof ofp_queue_stats_request ''port_no'' = 0"
  "offsetof ofp_queue_stats_request ''queue_id'' = 4"
  by (simp_all add: layout_eval ofp_struct_defs numeral_2_eq_2 [symmetric])

lemma offsetof_ofp_queue_stats [layout_simps]:
  "offsetof ofp_queue_stats ''port_no'' = 0"
  "offsetof ofp_queue_stats ''queue_id'' = 4"
  "offsetof ofp_queue_stats ''tx_bytes'' = 8"
  "offsetof ofp_queue_stats ''tx_packets'' = 16"
  "offsetof ofp_queue_stats ''tx_errors'' = 24"
  "offsetof ofp_queue_stats ''duration_sec'' = 32"
  "offsetof ofp_queue_stats ''duration_nsec'' = 36"
  by (simp_all add: layout_eval ofp_struct_defs numeral_2_eq_2 [symmetric])

lemma offsetof_ofp_group_stats_request [layout_simps]:
  "offsetof ofp_group_stats_request ''group_id'' = 0"
  "offsetof ofp_group_stats_request ''pad'' = 4"
  by (simp_all add: layout_eval ofp_struct_defs numeral_2_eq_2 [symmetric])

lemma offsetof_ofp_group_stats [layout_simps]:
  "offsetof ofp_group_stats ''length'' = 0"
  "offsetof ofp_group_stats ''pad'' = 2"
  "offsetof ofp_group_stats ''group_id'' = 4"
  "offsetof ofp_group_stats ''ref_count'' = 8"
  "offsetof ofp_group_stats ''pad2'' = 12"
  "offsetof ofp_group_stats ''packet_count'' = 16"
  "offsetof ofp_group_stats ''byte_count'' = 24"
  "offsetof ofp_group_stats ''duration_sec'' = 32"
  "offsetof ofp_group_stats ''duration_nsec'' = 36"
  "offsetof ofp_group_stats ''bucket_stats'' = 40"
  by (simp_all add: layout_eval ofp_struct_defs numeral_2_eq_2 [symmetric])

lemma offsetof_ofp_group_desc_stats [layout_simps]:
  "offsetof ofp_group_desc_stats ''length'' = 0"
  "offsetof ofp_group_desc_stats ''type'' = 2"
  "offsetof ofp_group_desc_stats ''pad'' = 3"
  "offsetof ofp_group_desc_stats ''group_id'' = 4"
  "offsetof ofp_group_desc_stats ''buckets'' = 8"
  by (simp_all add: layout_eval ofp_struct_defs numeral_2_eq_2 [symmetric])

lemma offsetof_ofp_group_features_stats [layout_simps]:
  "offsetof ofp_group_features_stats ''types'' = 0"
  "offsetof ofp_group_features_stats ''capabilities'' = 4"
  "offsetof ofp_group_features_stats ''max_groups'' = 8"
  "offsetof ofp_group_features_stats ''actions'' = 24"
  by (simp_all add: layout_eval ofp_struct_defs numeral_2_eq_2 [symmetric])

lemma offsetof_ofp_meter_multipart_request [layout_simps]:
  "offsetof ofp_meter_multipart_request ''meter_id'' = 0"
  "offsetof ofp_meter_multipart_request ''pad'' = 4"
  by (simp_all add: layout_eval ofp_struct_defs numeral_2_eq_2 [symmetric])

lemma offsetof_ofp_meter_stats [layout_simps]:
  "offsetof ofp_meter_stats ''meter_id'' = 0"
  "offsetof ofp_meter_stats ''len'' = 4"
  "offsetof ofp_meter_stats ''pad'' = 6"
  "offsetof ofp_meter_stats ''flow_count'' = 12"
  "offsetof ofp_meter_stats ''packet_in_count'' = 16"
  "offsetof ofp_meter_stats ''byte_in_count'' = 24"
  "offsetof ofp_meter_stats ''duration_sec'' = 32"
  "offsetof ofp_meter_stats ''duration_nsec'' = 36"
  "offsetof ofp_meter_stats ''band_stats'' = 40"
  by (simp_all add: layout_eval ofp_struct_defs numeral_2_eq_2 [symmetric])

lemma offsetof_ofp_meter_config [layout_simps]:
  "offsetof ofp_meter_config ''length'' = 0"
  "offsetof ofp_meter_config ''flags'' = 2"
  "offsetof ofp_meter_config ''meter_id'' = 4"
  "offsetof ofp_meter_config ''bands'' = 8"
  by (simp_all add: layout_eval ofp_struct_defs numeral_2_eq_2 [symmetric])

lemma offsetof_ofp_meter_features [layout_simps]:
  "offsetof ofp_meter_features ''max_meter'' = 0"
  "offsetof ofp_meter_features ''band_types'' = 4"
  "offsetof ofp_meter_features ''capabilities'' = 8"
  "offsetof ofp_meter_features ''max_bands'' = 12"
  "offsetof ofp_meter_features ''max_color'' = 13"
  "offsetof ofp_meter_features ''pad'' = 14"
  by (simp_all add: layout_eval ofp_struct_defs numeral_2_eq_2 [symmetric])

lemma offsetof_ofp_queue_get_config_request [layout_simps]:
  "offsetof ofp_queue_get_config_request ''header'' = 0"
  "offsetof ofp_queue_get_config_request ''port'' = 8"
  "offsetof ofp_queue_get_config_request ''pad'' = 12"
  by (simp_all add: layout_eval ofp_struct_defs numeral_2_eq_2 [symmetric])

lemma offsetof_ofp_queue_get_config_reply [layout_simps]:
  "offsetof ofp_queue_get_config_reply ''header'' = 0"
  "offsetof ofp_queue_get_config_reply ''port'' = 8"
  "offsetof ofp_queue_get_config_reply ''pad'' = 12"
  "offsetof ofp_queue_get_config_reply ''queues'' = 16"
  by (simp_all add: layout_eval ofp_struct_defs numeral_2_eq_2 [symmetric])

lemma offsetof_ofp_packet_out [layout_simps]:
  "offsetof ofp_packet_out ''header'' = 0"
  "offsetof ofp_packet_out ''buffer_id'' = 8"
  "offsetof ofp_packet_out ''in_port'' = 12"
  "offsetof ofp_packet_out ''actions_len'' = 16"
  "offsetof ofp_packet_out ''pad'' = 18"
  "offsetof ofp_packet_out ''actions'' = 24"
  by (simp_all add: layout_eval ofp_struct_defs numeral_2_eq_2 [symmetric])

lemma offsetof_ofp_role_request [layout_simps]:
  "offsetof ofp_role_request ''header'' = 0"
  "offsetof ofp_role_request ''role'' = 8"
  "offsetof ofp_role_request ''pad'' = 12"
  "offsetof ofp_role_request ''generation_id'' = 16"
  by (simp_all add: layout_eval ofp_struct_defs numeral_2_eq_2 [symmetric])

lemma offsetof_ofp_async_config [layout_simps]:
  "offsetof ofp_async_config ''header'' = 0"
  "offsetof ofp_async_config ''packet_in_mask'' = 8"
  "offsetof ofp_async_config ''port_status_mask'' = 16"
  "offsetof ofp_async_config ''flow_removed_mask'' = 24"
  by (simp_all add: layout_eval ofp_struct_defs numeral_2_eq_2 [symmetric])

lemma offsetof_ofp_packet_in [layout_simps]:
  "offsetof ofp_packet_in ''header'' = 0"
  "offsetof ofp_packet_in ''buffer_id'' = 8"
  "offsetof ofp_packet_in ''total_len'' = 12"
  "offsetof ofp_packet_in ''reason'' = 14"
  "offsetof ofp_packet_in ''table_id'' = 15"
  "offsetof ofp_packet_in ''cookie'' = 16"
  "offsetof ofp_packet_in ''match'' = 24"
  by (simp_all add: layout_eval ofp_struct_defs numeral_2_eq_2 [symmetric])

lemma offsetof_ofp_flow_removed [layout_simps]:
  "offsetof ofp_flow_removed ''header'' = 0"
  "offsetof ofp_flow_removed ''cookie'' = 8"
  "offsetof ofp_flow_removed ''priority'' = 16"
  "offsetof ofp_flow_removed ''reason'' = 18"
  "offsetof ofp_flow_removed ''table_id'' = 19"
  "offsetof ofp_flow_removed ''duration_sec'' = 20"
  "offsetof ofp_flow_removed ''duration_nsec'' = 24"
  "offsetof ofp_flow_removed ''idle_timeout'' = 28"
  "offsetof ofp_flow_removed ''hard_timeout'' = 30"
  "offsetof ofp_flow_removed ''packet_count'' = 32"
  "offsetof ofp_flow_removed ''byte_count'' = 40"
  "offsetof ofp_flow_removed ''match'' = 48"
  by (simp_all add: layout_eval ofp_struct_defs numeral_2_eq_2 [symmetric])

lemma offsetof_ofp_port_status [layout_simps]:
  "offsetof ofp_port_status ''header'' = 0"
  "offsetof ofp_port_status ''reason'' = 8"
  "offsetof ofp_port_status ''pad'' = 9"
  "offsetof ofp_port_status ''desc'' = 16"
  by (simp_all add: layout_eval ofp_struct_defs numeral_2_eq_2 [symmetric])

lemma offsetof_ofp_error_msg [layout_simps]:
  "offsetof ofp_error_msg ''header'' = 0"
  "offsetof ofp_error_msg ''type'' = 8"
  "offsetof ofp_error_msg ''code'' = 10"
  "offsetof ofp_error_msg ''data'' = 12"
  by (simp_all add: layout_eval ofp_struct_defs numeral_2_eq_2 [symmetric])

end
