(* ===== verification/OflTypes.thy ===== *)
theory OflTypes
  imports CMem Openflow13
begin

text \<open>
  The messages of the controller. The \<open>ofl_*\<close> structures are declared in headers that are not part
  of the repository, so a message is described by the members \<open>src/cc_create_msg.c\<close>,
  \<open>src/cc_parse_msg.c\<close> and \<open>src/cc_action.c\<close> read and write; a pointer with its length
  (\<open>data\<close>, \<open>data_length\<close>) is one list. Everything those files call and the repository does not
  define (the \<open>ofl_structs_*\<close> and \<open>ofl_utils_*\<close> functions, the OXM macros, \<open>hton64\<close>, the
  experimenter callbacks) is a field of the parameter \<open>ofl_ext\<close>; the objects those functions build
  have the type \<open>'x\<close>, about which the development assumes nothing. A function result is \<open>None\<close>
  where the C code runs into undefined behaviour, \<open>Inl\<close> where it returns an error code.
\<close>

section \<open>Errors\<close>

datatype ofl_err = ofl_error ofp_error_type nat | OFL_ERROR

text \<open>
  What an unpacking function returns, and the test \<open>if (error) return error;\<close> behind a call.
\<close>

type_synonym 'a parsed = "(ofl_err + 'a) option"

abbreviation ok :: "'a \<Rightarrow> 'a parsed" where "ok x \<equiv> Some (Inr x)"
abbreviation fail :: "ofl_err \<Rightarrow> 'a parsed" where "fail e \<equiv> Some (Inl e)"

definition bind_err :: "'a parsed \<Rightarrow> ('a \<Rightarrow> 'b parsed) \<Rightarrow> 'b parsed" where
  "bind_err r f = (case r of None \<Rightarrow> None | Some (Inl e) \<Rightarrow> Some (Inl e) | Some (Inr x) \<Rightarrow> f x)"

lemma bind_err_simps [simp]:
  "bind_err None f = None" "bind_err (fail e) f = fail e" "bind_err (ok x) f = f x"
  by (simp_all add: bind_err_def)

lemma bind_err_not_None:
  "r \<noteq> None \<Longrightarrow> (\<And>x. r = ok x \<Longrightarrow> f x \<noteq> None) \<Longrightarrow> bind_err r f \<noteq> None"
  by (auto simp: bind_err_def split: option.splits sum.splits)

section \<open>Actions\<close>

text \<open>
  \<open>struct ofl_action_header\<close> and the structures it is cast to: the type tag, and the members of the
  structure the object really has.
\<close>

datatype 'x ofl_action_body =
    Act_header
  | Act_output u32 u16            \<comment> \<open>port, max_len\<close>
  | Act_mpls_ttl u8
  | Act_push u16                  \<comment> \<open>ethertype\<close>
  | Act_pop_mpls u16
  | Act_set_queue u32
  | Act_group u32
  | Act_set_nw_ttl u8
  | Act_set_field u32 bytes       \<comment> \<open>field->header, field->value\<close>
  | Act_experimenter 'x

datatype 'x ofl_action = Ofl_action (act_type: u32) (act_body: "'x ofl_action_body")

section \<open>Messages\<close>

record 'x ofl_flow_removed =
  fr_reason :: u8
  fr_table_id :: u8
  fr_duration_sec :: u32
  fr_duration_nsec :: u32
  fr_priority :: u64              \<comment> \<open>cut to \<open>priority_bits\<close>, the width of the member\<close>
  fr_idle_timeout :: u16
  fr_hard_timeout :: u16
  fr_cookie :: u64
  fr_packet_count :: u64
  fr_byte_count :: u64
  fr_match :: 'x

record 'x ofl_flow_mod =
  fm_cookie :: u64
  fm_cookie_mask :: u64
  fm_table_id :: u8
  fm_command :: u8
  fm_idle_timeout :: u16
  fm_hard_timeout :: u16
  fm_priority :: u16
  fm_buffer_id :: u32
  fm_out_port :: u32
  fm_out_group :: u32
  fm_flags :: u16
  fm_match :: 'x
  fm_instructions :: "'x list"

record 'x ofl_packet_in =
  pin_buffer_id :: u32
  pin_total_len :: u16
  pin_reason :: u8
  pin_table_id :: u8
  pin_cookie :: u64
  pin_match :: 'x
  pin_data :: bytes

record ofl_port_mod =
  pm_port_no :: u32
  pm_hw_addr :: bytes
  pm_config :: u32
  pm_mask :: u32
  pm_advertise :: u32

record ofl_features_reply =
  fe_datapath_id :: u64
  fe_n_buffers :: u32
  fe_n_tables :: u8
  fe_auxiliary_id :: u8
  fe_capabilities :: u32

record 'x ofl_flow_request =
  rq_table_id :: u8
  rq_out_port :: u32
  rq_out_group :: u32
  rq_cookie :: u64
  rq_cookie_mask :: u64
  rq_match :: 'x

datatype 'x mp_request =
    Req_empty
  | Req_flow "'x ofl_flow_request"
  | Req_port u32
  | Req_queue u32 u32             \<comment> \<open>port_no, queue_id\<close>
  | Req_group u32
  | Req_meter u32
  | Req_table_features "'x option list"
  | Req_experimenter 'x

record ofl_desc =
  de_mfr_desc :: bytes
  de_hw_desc :: bytes
  de_sw_desc :: bytes
  de_serial_num :: bytes
  de_dp_desc :: bytes

datatype 'x mp_reply =
    Rep_desc ofl_desc
  | Rep_flow "'x list"
  | Rep_aggregate u64 u64 u32     \<comment> \<open>packet_count, byte_count, flow_count\<close>
  | Rep_table "'x list"
  | Rep_table_features "'x option list"
  | Rep_port "'x list"
  | Rep_queue "'x list"
  | Rep_group "'x list"
  | Rep_group_desc "'x list"
  | Rep_group_features u32 u32 "u32 list" "u32 list"  \<comment> \<open>types, capabilities, max_groups, actions\<close>
  | Rep_meter "'x list"
  | Rep_meter_conf "'x list"
  | Rep_meter_features u32 u32 u32 u8 u8
  | Rep_port_desc "'x list"
  | Rep_experimenter 'x

text \<open>
  \<open>in_port\<close> of a packet-out is an option because the parser never assigns it: \<open>None\<close> is the
  indeterminate value of the freshly allocated member. The same holds for the element pointers of
  the table features, whose unpack errors are not looked at.
\<close>

datatype 'x ofl_body =
    Msg_header
  | Msg_error u16 u16 bytes                       \<comment> \<open>type, code, data\<close>
  | Msg_echo bytes
  | Msg_role u32 u64                              \<comment> \<open>role, generation_id\<close>
  | Msg_features_reply ofl_features_reply
  | Msg_get_config_reply u16 u16                  \<comment> \<open>flags, miss_send_len\<close>
  | Msg_set_config u16 u16
  | Msg_async_config "u32 list" "u32 list" "u32 list"
  | Msg_packet_in "'x ofl_packet_in"
  | Msg_flow_removed "'x ofl_flow_removed"
  | Msg_port_status u8 'x                         \<comment> \<open>reason, desc\<close>
  | Msg_packet_out u32 "u32 option" "'x ofl_action list" bytes
  | Msg_flow_mod "'x ofl_flow_mod"
  | Msg_group_mod u16 u8 u32 "'x list"            \<comment> \<open>command, type, group_id, buckets\<close>
  | Msg_port_mod ofl_port_mod
  | Msg_table_mod u8 u32
  | Msg_meter_mod u16 u16 u32 "'x list"           \<comment> \<open>command, flags, meter_id, bands\<close>
  | Msg_mp_request u32 u16 "'x mp_request"        \<comment> \<open>type, flags, body\<close>
  | Msg_mp_reply u32 u16 "'x mp_reply"
  | Msg_queue_get_config_request u32
  | Msg_queue_get_config_reply u32 "'x list"
  | Msg_experimenter 'x

text \<open>\<open>struct ofl_msg_header\<close>: the type tag and the structure the pointer leads to.\<close>

datatype 'x ofl_msg = Ofl_msg (msg_type: u32) (msg_body: "'x ofl_body")

section \<open>What the repository does not define\<close>

datatype byte_order = NETWORK_ORDER | HOST_ORDER

text \<open>
  One kind of repeated element: \<open>ofl_utils_count_ofp_*\<close>, \<open>ofl_structs_*_unpack\<close> (buffer, offset
  and remaining length; it yields the object and the new remaining length),
  \<open>ofl_structs_*_ofp_total_len\<close> and \<open>ofl_structs_*_pack\<close> (it yields the buffer and the number of
  bytes written). \<open>priority_bits\<close> is the width of \<open>struct ofl_flow_stats.priority\<close>.
  \<open>table_features_unpack\<close> yields the remaining length also when it fails, because its callers go on.
\<close>

record 'x ofl_elem =
  e_count :: "bytes \<Rightarrow> nat \<Rightarrow> size_t \<Rightarrow> (ofl_err + nat) option"
  e_unpack :: "bytes \<Rightarrow> nat \<Rightarrow> size_t \<Rightarrow> (ofl_err + 'x \<times> size_t) option"
  e_total_len :: "'x list \<Rightarrow> size_t"
  e_pack :: "'x \<Rightarrow> nat \<Rightarrow> bytes \<Rightarrow> (bytes \<times> size_t) option"

record 'x ofl_ext =
  hton64 :: "u64 \<Rightarrow> u64"
  ntoh64 :: "u64 \<Rightarrow> u64"
  ROUND_UP :: "int \<Rightarrow> int \<Rightarrow> int"
  priority_bits :: nat
  OXM_LENGTH :: "u32 \<Rightarrow> nat"
  OXM_FIELD :: "u32 \<Rightarrow> u8"
  match_length :: "'x \<Rightarrow> u16"
  match_unpack :: "bytes \<Rightarrow> nat \<Rightarrow> nat \<Rightarrow> size_t \<Rightarrow> (ofl_err + 'x \<times> size_t) option"
  match_pack :: "'x \<Rightarrow> byte_order \<Rightarrow> nat \<Rightarrow> nat \<Rightarrow> bytes \<Rightarrow> bytes option"
  count_actions :: "bytes \<Rightarrow> nat \<Rightarrow> size_t \<Rightarrow> (ofl_err + nat) option"
  action_unpack :: "bytes \<Rightarrow> nat \<Rightarrow> size_t \<Rightarrow> (ofl_err + 'x ofl_action \<times> size_t) option"
  x_instruction :: "'x ofl_elem"
  x_bucket :: "'x ofl_elem"
  bucket_unpack :: "u8 \<Rightarrow> bytes \<Rightarrow> nat \<Rightarrow> size_t \<Rightarrow> (ofl_err + 'x \<times> size_t) option"
  x_meter_band :: "'x ofl_elem"
  x_flow_stats :: "'x ofl_elem"
  flow_stats_unpack :: "bytes \<Rightarrow> nat \<Rightarrow> nat \<Rightarrow> size_t \<Rightarrow> (ofl_err + 'x \<times> size_t) option"
  x_table_stats :: "'x ofl_elem"
  x_table_features :: "'x ofl_elem"
  table_features_unpack :: "bytes \<Rightarrow> nat \<Rightarrow> size_t \<Rightarrow> ('x option \<times> size_t) option"
  x_port_stats :: "'x ofl_elem"
  x_queue_stats :: "'x ofl_elem"
  x_group_stats :: "'x ofl_elem"
  x_group_desc_stats :: "'x ofl_elem"
  x_meter_stats :: "'x ofl_elem"
  x_meter_config :: "'x ofl_elem"
  x_port :: "'x ofl_elem"
  x_packet_queue :: "'x ofl_elem"
  exp_msg_pack :: "('x \<Rightarrow> (int + bytes) option) option"
  exp_msg_unpack :: "(bytes \<Rightarrow> size_t \<Rightarrow> (ofl_err + 'x \<times> size_t) option) option"
  exp_stats_req_pack :: "('x \<Rightarrow> (int + bytes) option) option"
  exp_stats_reply_pack :: "('x \<Rightarrow> (int + bytes) option) option"
  exp_stats_req_unpack :: "(bytes \<Rightarrow> size_t \<Rightarrow> (ofl_err + 'x \<times> size_t) option) option"
  exp_stats_reply_unpack :: "(bytes \<Rightarrow> size_t \<Rightarrow> (ofl_err + 'x \<times> size_t) option) option"
  exp_act_len :: "('x \<Rightarrow> size_t) option"
  exp_act_pack :: "('x \<Rightarrow> nat \<Rightarrow> bytes \<Rightarrow> (bytes \<times> size_t) option) option"

text \<open>
  What the codecs rely on of the byte-order macros: one undoes the other. That they swap the eight
  bytes on a little-endian host is the stronger \<open>swaps64\<close>.
\<close>

definition byteorder64 :: "'x ofl_ext \<Rightarrow> bool" where
  "byteorder64 X \<longleftrightarrow> (\<forall>v. ntoh64 X (hton64 X v) = v)"

definition swaps64 :: "'x ofl_ext \<Rightarrow> bool" where
  "swaps64 X \<longleftrightarrow> (\<forall>v. hton64 X v = bswap 8 v) \<and> (\<forall>v. ntoh64 X v = bswap 8 v)"

lemma swaps64_byteorder64: "swaps64 X \<Longrightarrow> byteorder64 X"
  by (simp add: swaps64_def byteorder64_def bswap_bswap)

text \<open>\<open>ROUND_UP\<close> rounds up to a multiple of its second argument.\<close>

definition rounds_up :: "'x ofl_ext \<Rightarrow> bool" where
  "rounds_up X \<longleftrightarrow> (\<forall>n m. 0 \<le> n \<longrightarrow> 0 < m \<longrightarrow> ROUND_UP X n m = (n + m - 1) div m * m)"

abbreviation sz :: "ctype \<Rightarrow> size_t" where
  "sz t \<equiv> of_nat (sizeof t)"

text \<open>
  The body of a multipart message is a structure at \<open>body\<close>: the offset of its member \<open>x\<close>.
\<close>

definition mp_body :: "ctype \<Rightarrow> string \<Rightarrow> nat" where
  "mp_body t x = offsetof ofp_multipart_request ''body'' + offsetof t x"

definition rep_body :: "ctype \<Rightarrow> string \<Rightarrow> nat" where
  "rep_body t x = offsetof ofp_multipart_reply ''body'' + offsetof t x"

end
