(* ===== verification/Wire.thy ===== *)
theory Wire
  imports OflTypes
begin

text \<open>
  What the OpenFlow messages look like on the wire, stated without buffers and offsets: a message is
  the concatenation of its members in network byte order, with zero bytes for the padding. The
  packing and the unpacking functions are each proved against this description. The masks of the
  asynchronous configuration are the exception the code makes: they are in host order.
\<close>

section \<open>Byte order\<close>

definition be_bytes :: "nat \<Rightarrow> 'a::len word \<Rightarrow> bytes" where
  "be_bytes n w = map (\<lambda>i. ucast (drop_bit (8 * (n - 1 - i)) w)) [0..<n]"

abbreviation be16 :: "u16 \<Rightarrow> bytes" where "be16 \<equiv> be_bytes 2"
abbreviation be32 :: "u32 \<Rightarrow> bytes" where "be32 \<equiv> be_bytes 4"
abbreviation be64 :: "u64 \<Rightarrow> bytes" where "be64 \<equiv> be_bytes 8"
abbreviation host32 :: "u32 \<Rightarrow> bytes" where "host32 \<equiv> le_bytes 4"
abbreviation zeros :: "nat \<Rightarrow> bytes" where "zeros n \<equiv> replicate n 0"

lemma be_bytes_rev: "be_bytes n w = rev (le_bytes n w)"
  by (rule nth_equalityI) (auto simp: be_bytes_def rev_nth)

lemma length_be_bytes [simp]: "length (be_bytes n w) = n"
  by (simp add: be_bytes_def)

lemma le_bytes_htons [simp]: "le_bytes 2 (htons w) = be16 w"
  by (simp add: htons_def le_bytes_bswap be_bytes_rev)

lemma le_bytes_htonl [simp]: "le_bytes 4 (htonl w) = be32 w" and
  le_bytes_ntohl [simp]: "le_bytes 4 (ntohl w) = be32 w"
  by (simp_all add: htonl_def ntohl_def le_bytes_bswap be_bytes_rev)

lemma le_bytes_hton64 [simp]: "swaps64 X \<Longrightarrow> le_bytes 8 (hton64 X w) = be64 w"
  by (simp add: swaps64_def le_bytes_bswap be_bytes_rev)

lemma ntohs_be16 [simp]: "ntohs (le_word (be16 w)) = w"
  by (simp add: ntohs_def bswap_def be_bytes_rev)

lemma ntohl_be32 [simp]: "ntohl (le_word (be32 w)) = w"
  by (simp add: ntohl_def bswap_def be_bytes_rev)

lemma ntoh64_be64 [simp]: "swaps64 X \<Longrightarrow> ntoh64 X (le_word (be64 w)) = w"
  by (simp add: swaps64_def bswap_def be_bytes_rev)

section \<open>Actions\<close>

text \<open>
  The actions with members the repository converts itself. Set-field and experimenter actions have
  no image: the first is treated apart, the second is not packed here.
\<close>

fun action_image :: "'x ofl_action \<Rightarrow> bytes option" where
  "action_image (Ofl_action type body) =
    (let head = (\<lambda>len. be16 (ucast type) @ be16 len) in
     case ofp_action_type_of (unat type) of
       None \<Rightarrow> None
     | Some ty \<Rightarrow>
        if ty \<in> {OFPAT_COPY_TTL_OUT, OFPAT_COPY_TTL_IN, OFPAT_DEC_MPLS_TTL, OFPAT_POP_VLAN,
                  OFPAT_POP_PBB, OFPAT_DEC_NW_TTL}
        then Some (head 8 @ zeros 4)
        else
          (case (ty, body) of
             (OFPAT_OUTPUT, Act_output port max_len) \<Rightarrow>
               Some (head 16 @ be32 port @ be16 max_len @ zeros 6)
           | (OFPAT_SET_MPLS_TTL, Act_mpls_ttl ttl) \<Rightarrow> Some (head 8 @ [ttl] @ zeros 3)
           | (OFPAT_PUSH_VLAN, Act_push ethertype) \<Rightarrow> Some (head 8 @ be16 ethertype @ zeros 2)
           | (OFPAT_PUSH_MPLS, Act_push ethertype) \<Rightarrow> Some (head 8 @ be16 ethertype @ zeros 2)
           | (OFPAT_PUSH_PBB, Act_push ethertype) \<Rightarrow> Some (head 8 @ be16 ethertype @ zeros 2)
           | (OFPAT_POP_MPLS, Act_pop_mpls ethertype) \<Rightarrow> Some (head 8 @ be16 ethertype @ zeros 2)
           | (OFPAT_SET_QUEUE, Act_set_queue queue) \<Rightarrow> Some (head 8 @ be32 queue)
           | (OFPAT_GROUP, Act_group g) \<Rightarrow> Some (head 8 @ be32 g)
           | (OFPAT_SET_NW_TTL, Act_set_nw_ttl ttl) \<Rightarrow> Some (head 8 @ [ttl] @ zeros 3)
           | _ \<Rightarrow> None))"

section \<open>Bodies\<close>

fun request_image :: "'x mp_request \<Rightarrow> bytes option" where
  "request_image Req_empty = Some []"
| "request_image (Req_port port) = Some (be32 port @ zeros 4)"
| "request_image (Req_queue port queue) = Some (be32 port @ be32 queue)"
| "request_image (Req_group gid) = Some (be32 gid @ zeros 4)"
| "request_image (Req_meter meter) = Some (be32 meter @ zeros 4)"
| "request_image _ = None"

fun reply_image :: "'x mp_reply \<Rightarrow> bytes option" where
  "reply_image (Rep_aggregate packets bytes flows) =
     Some (be64 packets @ be64 bytes @ be32 flows @ zeros 4)"
| "reply_image (Rep_group_features types capabilities max_groups actions) =
     Some (be32 types @ be32 capabilities @ concat (map be32 max_groups) @ concat (map be32 actions))"
| "reply_image (Rep_meter_features max_meter band_types capabilities max_bands max_color) =
     Some (be32 max_meter @ be32 band_types @ be32 capabilities @ [max_bands, max_color] @ zeros 2)"
| "reply_image (Rep_desc d) =
     Some (take DESC_STR_LEN (de_mfr_desc d) @ take DESC_STR_LEN (de_hw_desc d)
           @ take DESC_STR_LEN (de_sw_desc d) @ take SERIAL_NUM_LEN (de_serial_num d)
           @ take DESC_STR_LEN (de_dp_desc d))"
| "reply_image _ = None"

definition mp_image :: "u32 \<Rightarrow> u16 \<Rightarrow> bytes \<Rightarrow> bytes" where
  "mp_image type flags body = be16 (ucast type) @ be16 flags @ zeros 4 @ body"

fun body_image :: "'x ofl_body \<Rightarrow> bytes option" where
  "body_image Msg_header = Some []"
| "body_image (Msg_error type code data) = Some (be16 type @ be16 code @ data)"
| "body_image (Msg_echo data) = Some data"
| "body_image (Msg_role role generation) = Some (be32 role @ zeros 4 @ be64 generation)"
| "body_image (Msg_features_reply f) =
     Some (be64 (fe_datapath_id f) @ be32 (fe_n_buffers f) @ [fe_n_tables f, fe_auxiliary_id f]
           @ zeros 2 @ be32 (fe_capabilities f) @ zeros 4)"
| "body_image (Msg_get_config_reply flags miss_send_len) = Some (be16 flags @ be16 miss_send_len)"
| "body_image (Msg_set_config flags miss_send_len) = Some (be16 flags @ be16 miss_send_len)"
| "body_image (Msg_async_config packet_in port_status flow_removed) =
     Some (concat (map host32 packet_in) @ concat (map host32 port_status)
           @ concat (map host32 flow_removed))"
| "body_image (Msg_port_mod m) =
     Some (be32 (pm_port_no m) @ zeros 4 @ pm_hw_addr m @ zeros 2 @ be32 (pm_config m)
           @ be32 (pm_mask m) @ be32 (pm_advertise m) @ zeros 4)"
| "body_image (Msg_table_mod table config) = Some ([table] @ zeros 3 @ be32 config)"
| "body_image (Msg_queue_get_config_request port) = Some (be32 port @ zeros 4)"
| "body_image (Msg_packet_out buffer (Some port) actions data) =
     map_option (\<lambda>imgs. be32 buffer @ be32 port @ be16 (of_nat (length (concat imgs))) @ zeros 6
                        @ concat imgs @ data)
       (those (map action_image actions))"
| "body_image (Msg_mp_request type flags req) = map_option (mp_image type flags) (request_image req)"
| "body_image (Msg_mp_reply type flags rep) = map_option (mp_image type flags) (reply_image rep)"
| "body_image _ = None"

section \<open>Messages\<close>

definition header_image :: "u32 \<Rightarrow> nat \<Rightarrow> u32 \<Rightarrow> bytes" where
  "header_image type len xid = [OFP_VERSION, ucast type] @ be16 (of_nat len) @ be32 xid"

definition wire_image :: "'x ofl_msg \<Rightarrow> u32 \<Rightarrow> bytes option" where
  "wire_image m xid =
     map_option (\<lambda>body. header_image (msg_type m) (sizeof ofp_header + length body) xid @ body)
       (body_image (msg_body m))"

text \<open>
  The body that belongs to a message type, with the array members of the length their C types give
  them. A description string is at least as long as its wire member.
\<close>

fun request_fits :: "ofp_multipart_types \<Rightarrow> 'x mp_request \<Rightarrow> bool" where
  "request_fits t Req_empty \<longleftrightarrow>
     t \<in> {OFPMP_DESC, OFPMP_TABLE, OFPMP_GROUP_DESC, OFPMP_GROUP_FEATURES, OFPMP_METER_FEATURES,
          OFPMP_PORT_DESC}"
| "request_fits t (Req_port _) \<longleftrightarrow> t = OFPMP_PORT_STATS"
| "request_fits t (Req_queue _ _) \<longleftrightarrow> t = OFPMP_QUEUE"
| "request_fits t (Req_group _) \<longleftrightarrow> t = OFPMP_GROUP"
| "request_fits t (Req_meter _) \<longleftrightarrow> t \<in> {OFPMP_METER, OFPMP_METER_CONFIG}"
| "request_fits t _ \<longleftrightarrow> False"

fun reply_fits :: "ofp_multipart_types \<Rightarrow> 'x mp_reply \<Rightarrow> bool" where
  "reply_fits t (Rep_aggregate _ _ _) \<longleftrightarrow> t = OFPMP_AGGREGATE"
| "reply_fits t (Rep_group_features _ _ max_groups actions) \<longleftrightarrow>
     t = OFPMP_GROUP_FEATURES \<and> length max_groups = 4 \<and> length actions = 4"
| "reply_fits t (Rep_meter_features _ _ _ _ _) \<longleftrightarrow> t = OFPMP_METER_FEATURES"
| "reply_fits t (Rep_desc d) \<longleftrightarrow>
     t = OFPMP_DESC \<and> DESC_STR_LEN \<le> length (de_mfr_desc d) \<and> DESC_STR_LEN \<le> length (de_hw_desc d)
     \<and> DESC_STR_LEN \<le> length (de_sw_desc d) \<and> SERIAL_NUM_LEN \<le> length (de_serial_num d)
     \<and> DESC_STR_LEN \<le> length (de_dp_desc d)"
| "reply_fits t _ \<longleftrightarrow> False"

fun body_fits :: "ofp_type \<Rightarrow> 'x ofl_body \<Rightarrow> bool" where
  "body_fits t Msg_header \<longleftrightarrow>
     t \<in> {OFPT_HELLO, OFPT_FEATURES_REQUEST, OFPT_GET_CONFIG_REQUEST, OFPT_GET_ASYNC_REQUEST,
          OFPT_BARRIER_REQUEST, OFPT_BARRIER_REPLY}"
| "body_fits t (Msg_error _ _ _) \<longleftrightarrow> t = OFPT_ERROR"
| "body_fits t (Msg_echo _) \<longleftrightarrow> t \<in> {OFPT_ECHO_REQUEST, OFPT_ECHO_REPLY}"
| "body_fits t (Msg_role _ _) \<longleftrightarrow> t \<in> {OFPT_ROLE_REQUEST, OFPT_ROLE_REPLY}"
| "body_fits t (Msg_features_reply _) \<longleftrightarrow> t = OFPT_FEATURES_REPLY"
| "body_fits t (Msg_get_config_reply _ _) \<longleftrightarrow> t = OFPT_GET_CONFIG_REPLY"
| "body_fits t (Msg_set_config _ _) \<longleftrightarrow> t = OFPT_SET_CONFIG"
| "body_fits t (Msg_async_config a b c) \<longleftrightarrow>
     t \<in> {OFPT_GET_ASYNC_REPLY, OFPT_SET_ASYNC} \<and> length a = 2 \<and> length b = 2 \<and> length c = 2"
| "body_fits t (Msg_port_mod m) \<longleftrightarrow> t = OFPT_PORT_MOD \<and> length (pm_hw_addr m) = OFP_ETH_ALEN"
| "body_fits t (Msg_table_mod _ _) \<longleftrightarrow> t = OFPT_TABLE_MOD"
| "body_fits t (Msg_queue_get_config_request _) \<longleftrightarrow> t = OFPT_QUEUE_GET_CONFIG_REQUEST"
| "body_fits t (Msg_packet_out _ port actions _) \<longleftrightarrow>
     t = OFPT_PACKET_OUT \<and> port \<noteq> None \<and> those (map action_image actions) \<noteq> None"
| "body_fits t (Msg_mp_request type _ req) \<longleftrightarrow>
     t = OFPT_MULTIPART_REQUEST \<and>
     (case ofp_multipart_types_of (unat type) of None \<Rightarrow> False | Some mt \<Rightarrow> request_fits mt req)"
| "body_fits t (Msg_mp_reply type _ rep) \<longleftrightarrow>
     t = OFPT_MULTIPART_REPLY \<and>
     (case ofp_multipart_types_of (unat type) of None \<Rightarrow> False | Some mt \<Rightarrow> reply_fits mt rep)"
| "body_fits t _ \<longleftrightarrow> False"

definition msg_fits :: "'x ofl_msg \<Rightarrow> bool" where
  "msg_fits m \<longleftrightarrow>
     (case ofp_type_of (unat (msg_type m)) of None \<Rightarrow> False | Some t \<Rightarrow> body_fits t (msg_body m))"

lemma body_fits_image: "body_fits t b \<Longrightarrow> \<exists>bs. body_image b = Some bs"
proof (cases b)
  case (Msg_mp_request type flags req)
  then show "body_fits t b \<Longrightarrow> \<exists>bs. body_image b = Some bs" by (cases req) (auto split: option.splits)
next
  case (Msg_mp_reply type flags rep)
  then show "body_fits t b \<Longrightarrow> \<exists>bs. body_image b = Some bs" by (cases rep) (auto split: option.splits)
qed auto

end
