(* ===== verification/Action.thy ===== *)
theory Action
  imports Wire
begin

text \<open>
  \<open>src/cc_action.c\<close>: the length of an action on the wire and its serialisation. Both switch on the
  type tag of the action and cast the pointer to the structure of that type; a body of another
  shape is \<open>None\<close>. \<open>ofl_actions_pack\<close> takes two places in the message: \<open>dst\<close>, where the action
  goes, and \<open>data\<close>, relative to which it writes the value of a set-field action.
\<close>

section \<open>Lengths\<close>

definition ofl_actions_ofp_len :: "'x ofl_ext \<Rightarrow> 'x ofl_action \<Rightarrow> size_t option" where
  "ofl_actions_ofp_len X action =
    (case ofp_action_type_of (unat (act_type action)) of
       None \<Rightarrow> Some 0
     | Some ty \<Rightarrow>
      (case ty of
         OFPAT_OUTPUT \<Rightarrow> Some (sz ofp_action_output)
       | OFPAT_COPY_TTL_OUT \<Rightarrow> Some (sz ofp_action_header)
       | OFPAT_COPY_TTL_IN \<Rightarrow> Some (sz ofp_action_header)
       | OFPAT_SET_MPLS_TTL \<Rightarrow> Some (sz ofp_action_mpls_ttl)
       | OFPAT_DEC_MPLS_TTL \<Rightarrow> Some (sz ofp_action_header)
       | OFPAT_PUSH_VLAN \<Rightarrow> Some (sz ofp_action_push)
       | OFPAT_PUSH_PBB \<Rightarrow> Some (sz ofp_action_push)
       | OFPAT_PUSH_MPLS \<Rightarrow> Some (sz ofp_action_push)
       | OFPAT_POP_VLAN \<Rightarrow> Some (sz ofp_action_header)
       | OFPAT_POP_PBB \<Rightarrow> Some (sz ofp_action_header)
       | OFPAT_POP_MPLS \<Rightarrow> Some (sz ofp_action_pop_mpls)
       | OFPAT_SET_QUEUE \<Rightarrow> Some (sz ofp_action_set_queue)
       | OFPAT_GROUP \<Rightarrow> Some (sz ofp_action_group)
       | OFPAT_SET_NW_TTL \<Rightarrow> Some (sz ofp_action_nw_ttl)
       | OFPAT_DEC_NW_TTL \<Rightarrow> Some (sz ofp_action_header)
       | OFPAT_SET_FIELD \<Rightarrow>
          (case act_body action of
             Act_set_field header value \<Rightarrow>
               Some (sz ofp_action_set_field + of_int (ROUND_UP X (int (OXM_LENGTH X header)) 8))
           | _ \<Rightarrow> None)
       | OFPAT_EXPERIMENTER \<Rightarrow>
          (case exp_act_len X of
             None \<Rightarrow> Some (- 1)
           | Some len \<Rightarrow>
              (case act_body action of Act_experimenter x \<Rightarrow> Some (len x) | _ \<Rightarrow> None))))"

fun ofl_actions_ofp_total_len :: "'x ofl_ext \<Rightarrow> 'x ofl_action list \<Rightarrow> size_t option" where
  "ofl_actions_ofp_total_len X [] = Some 0"
| "ofl_actions_ofp_total_len X (a # as) =
     do { n \<leftarrow> ofl_actions_ofp_len X a; m \<leftarrow> ofl_actions_ofp_total_len X as; Some (n + m) }"

section \<open>Serialisation\<close>

text \<open>
  The \<open>OFPAT_SET_FIELD\<close> branch. The value is read from the object in host order
  (\<open>*(uint16_t *) sa->field->value\<close>) and written behind \<open>data\<close>; the eight-byte case goes through
  the 16-bit \<open>htons\<close>, as in the source. Other lengths write no value.
\<close>

definition pack_set_field_value ::
    "'x ofl_ext \<Rightarrow> u32 \<Rightarrow> bytes \<Rightarrow> nat \<Rightarrow> bytes \<Rightarrow> bytes option" where
  "pack_set_field_value X header value off bs =
    (let n = OXM_LENGTH X header in
     if n = 1 \<or> n = 6 \<or> n = 16 then
       do { v \<leftarrow> get_bytes 0 n value; put_bytes off v bs }
     else if n = 2 then
       do { v \<leftarrow> get16 0 value; put16 off (htons v) bs }
     else if n = 4 then
       do { v \<leftarrow> get32 0 value;
            let field = OXM_FIELD X header in
            put32 off (if field \<noteq> 11 \<and> field \<noteq> 12 \<and> field \<noteq> 22 \<and> field \<noteq> 23
                       then htonl v else v) bs }
     else if n = 8 then
       do { v \<leftarrow> get64 0 value; put64 off (ucast (htons (ucast v))) bs }
     else Some bs)"

definition pack_set_field ::
    "'x ofl_ext \<Rightarrow> u32 \<Rightarrow> bytes \<Rightarrow> nat \<Rightarrow> nat \<Rightarrow> bytes \<Rightarrow> (bytes \<times> size_t) option" where
  "pack_set_field X header value dst data bs =
    (let n = OXM_LENGTH X header;
         padded = ROUND_UP X (int n) 8;
         total = sz ofp_action_set_field + of_int padded
     in do {
       bs \<leftarrow> put16 (dst + offsetof ofp_action_set_field ''len'') (htons (ucast total)) bs;
       bs \<leftarrow> put32 (dst + offsetof ofp_action_set_field ''field'') (htonl header) bs;
       bs \<leftarrow> pack_set_field_value X header value (data + sizeof ofp_action_set_field) bs;
       bs \<leftarrow> memset (data + sizeof ofp_action_set_field + n) 0 (unat (of_int (padded - int n) :: u8)) bs;
       len \<leftarrow> get16 (dst + offsetof ofp_action_set_field ''len'') bs;
       Some (bs, ucast (ntohs len)) })"

text \<open>A branch that writes the length and nothing behind it.\<close>

definition pack_len_only :: "ctype \<Rightarrow> nat \<Rightarrow> bytes \<Rightarrow> (bytes \<times> size_t) option" where
  "pack_len_only t dst bs =
     do { bs \<leftarrow> put16 (dst + offsetof t ''len'') (htons (of_nat (sizeof t))) bs; Some (bs, sz t) }"

definition pack_push :: "'x ofl_action \<Rightarrow> nat \<Rightarrow> bytes \<Rightarrow> (bytes \<times> size_t) option" where
  "pack_push src dst bs =
    (case act_body src of
       Act_push ethertype \<Rightarrow>
         do { bs \<leftarrow> put16 (dst + offsetof ofp_action_push ''len'')
                      (htons (of_nat (sizeof ofp_action_push))) bs;
              bs \<leftarrow> put16 (dst + offsetof ofp_action_push ''ethertype'') (htons ethertype) bs;
              bs \<leftarrow> memset (dst + offsetof ofp_action_push ''pad'') 0 2 bs;
              Some (bs, sz ofp_action_push) }
     | _ \<Rightarrow> None)"

definition ofl_actions_pack ::
    "'x ofl_ext \<Rightarrow> 'x ofl_action \<Rightarrow> nat \<Rightarrow> nat \<Rightarrow> bytes \<Rightarrow> (bytes \<times> size_t) option" where
  "ofl_actions_pack X src dst data bs =
    do {
      bs \<leftarrow> put16 (dst + offsetof ofp_action_header ''type'') (htons (ucast (act_type src))) bs;
      bs \<leftarrow> memset (dst + offsetof ofp_action_header ''pad'') 0 4 bs;
      (case ofp_action_type_of (unat (act_type src)) of
         None \<Rightarrow> Some (bs, 0)
       | Some ty \<Rightarrow>
        (case ty of
           OFPAT_OUTPUT \<Rightarrow>
            (case act_body src of
               Act_output port max_len \<Rightarrow>
                 do { bs \<leftarrow> put16 (dst + offsetof ofp_action_output ''len'')
                              (htons (of_nat (sizeof ofp_action_output))) bs;
                      bs \<leftarrow> put32 (dst + offsetof ofp_action_output ''port'') (htonl port) bs;
                      bs \<leftarrow> put16 (dst + offsetof ofp_action_output ''max_len'') (htons max_len) bs;
                      bs \<leftarrow> memset (dst + offsetof ofp_action_output ''pad'') 0 6 bs;
                      Some (bs, sz ofp_action_output) }
             | _ \<Rightarrow> None)
         | OFPAT_COPY_TTL_OUT \<Rightarrow> pack_len_only ofp_action_header dst bs
         | OFPAT_COPY_TTL_IN \<Rightarrow> pack_len_only ofp_action_header dst bs
         | OFPAT_SET_MPLS_TTL \<Rightarrow>
            (case act_body src of
               Act_mpls_ttl ttl \<Rightarrow>
                 do { bs \<leftarrow> put16 (dst + offsetof ofp_action_mpls_ttl ''len'')
                              (htons (of_nat (sizeof ofp_action_mpls_ttl))) bs;
                      bs \<leftarrow> put8 (dst + offsetof ofp_action_mpls_ttl ''mpls_ttl'') ttl bs;
                      bs \<leftarrow> memset (dst + offsetof ofp_action_mpls_ttl ''pad'') 0 3 bs;
                      Some (bs, sz ofp_action_mpls_ttl) }
             | _ \<Rightarrow> None)
         | OFPAT_DEC_MPLS_TTL \<Rightarrow> pack_len_only ofp_action_header dst bs
         | OFPAT_PUSH_VLAN \<Rightarrow> pack_push src dst bs
         | OFPAT_PUSH_MPLS \<Rightarrow> pack_push src dst bs
         | OFPAT_PUSH_PBB \<Rightarrow> pack_push src dst bs
         | OFPAT_POP_VLAN \<Rightarrow> pack_len_only ofp_action_header dst bs
         | OFPAT_POP_PBB \<Rightarrow> pack_len_only ofp_action_header dst bs
         | OFPAT_POP_MPLS \<Rightarrow>
            (case act_body src of
               Act_pop_mpls ethertype \<Rightarrow>
                 do { bs \<leftarrow> put16 (dst + offsetof ofp_action_pop_mpls ''len'')
                              (htons (of_nat (sizeof ofp_action_pop_mpls))) bs;
                      bs \<leftarrow> put16 (dst + offsetof ofp_action_pop_mpls ''ethertype'') (htons ethertype) bs;
                      bs \<leftarrow> memset (dst + offsetof ofp_action_pop_mpls ''pad'') 0 2 bs;
                      Some (bs, sz ofp_action_pop_mpls) }
             | _ \<Rightarrow> None)
         | OFPAT_SET_QUEUE \<Rightarrow>
            (case act_body src of
               Act_set_queue queue_id \<Rightarrow>
                 do { bs \<leftarrow> put16 (dst + offsetof ofp_action_set_queue ''len'')
                              (htons (of_nat (sizeof ofp_action_set_queue))) bs;
                      bs \<leftarrow> put32 (dst + offsetof ofp_action_set_queue ''queue_id'') (htonl queue_id) bs;
                      Some (bs, sz ofp_action_set_queue) }
             | _ \<Rightarrow> None)
         | OFPAT_GROUP \<Rightarrow>
            (case act_body src of
               Act_group group_id \<Rightarrow>
                 do { bs \<leftarrow> put16 (dst + offsetof ofp_action_group ''len'')
                              (htons (of_nat (sizeof ofp_action_group))) bs;
                      bs \<leftarrow> put32 (dst + offsetof ofp_action_group ''group_id'') (htonl group_id) bs;
                      Some (bs, sz ofp_action_group) }
             | _ \<Rightarrow> None)
         | OFPAT_SET_NW_TTL \<Rightarrow>
            (case act_body src of
               Act_set_nw_ttl ttl \<Rightarrow>
                 do { bs \<leftarrow> put16 (dst + offsetof ofp_action_nw_ttl ''len'')
                              (htons (of_nat (sizeof ofp_action_nw_ttl))) bs;
                      bs \<leftarrow> put8 (dst + offsetof ofp_action_nw_ttl ''nw_ttl'') ttl bs;
                      bs \<leftarrow> memset (dst + offsetof ofp_action_nw_ttl ''pad'') 0 3 bs;
                      Some (bs, sz ofp_action_nw_ttl) }
             | _ \<Rightarrow> None)
         | OFPAT_DEC_NW_TTL \<Rightarrow> pack_len_only ofp_action_header dst bs
         | OFPAT_SET_FIELD \<Rightarrow>
            (case act_body src of
               Act_set_field header value \<Rightarrow> pack_set_field X header value dst data bs
             | _ \<Rightarrow> None)
         | OFPAT_EXPERIMENTER \<Rightarrow>
            (case exp_act_pack X of
               None \<Rightarrow> Some (bs, 0)
             | Some pack \<Rightarrow>
                (case act_body src of Act_experimenter x \<Rightarrow> pack x dst bs | _ \<Rightarrow> None)))) }"

section \<open>Against the wire format\<close>

lemma action_image_len:
  "action_image a = Some img \<Longrightarrow> ofl_actions_ofp_len X a = Some (of_nat (length img))"
  by (cases a) (auto simp: ofl_actions_ofp_len_def layout_simps Let_def
      split: option.splits if_splits ofp_action_type.splits ofl_action_body.splits)

text \<open>The action replaces the bytes \<open>mid\<close> at its place by its image and touches nothing else.\<close>

lemma action_pack_at:
  assumes "action_image a = Some img" "length mid = length img"
  shows "ofl_actions_pack X a (length pre) data (pre @ mid @ post) = Some (pre @ img @ post, of_nat (length img))"
  using assms
  apply (cases a)
  subgoal for type body
    apply (cases "ofp_action_type_of (unat type)")
     apply simp
    subgoal for ty
      apply (cases ty; cases body)
      apply (auto simp: ofl_actions_pack_def pack_len_only_def pack_push_def layout_simps stores_at simp del: bind_Some_iff)
      apply (simp_all add: upd_append)
      done
    done
  done

end
