(* ===== verification/CreateMsg.thy ===== *)
theory CreateMsg
  imports Action
begin

text \<open>
  \<open>src/cc_create_msg.c\<close>: packing a message structure into a freshly allocated buffer. Every
  \<open>ofl_msg_pack_*\<close> computes \<open>*buf_len\<close>, allocates \<open>*buf\<close> with \<open>malloc\<close> (whose contents and whose
  failure come from the parameter \<open>h\<close>) and stores the members at their offsets; the result is the
  buffer, whose length is \<open>*buf_len\<close>. \<open>ofl_msg_pack\<close> dispatches on the type and writes the header
  last. The integer error codes are \<open>Inl\<close>.
\<close>

section \<open>Loops over elements\<close>

text \<open>\<open>for (i = 0; i < n; i++) ptr += pack(xs[i], ptr, ...);\<close>\<close>

fun pack_loop :: "('a \<Rightarrow> nat \<Rightarrow> bytes \<Rightarrow> (bytes \<times> size_t) option) \<Rightarrow> 'a list \<Rightarrow> nat \<Rightarrow> bytes
    \<Rightarrow> (bytes \<times> nat) option" where
  "pack_loop pack [] ptr bs = Some (bs, ptr)"
| "pack_loop pack (x # xs) ptr bs =
     do { (bs, n) \<leftarrow> pack x ptr bs; pack_loop pack xs (ptr + unat n) bs }"

text \<open>
  The interface of the elements of such a loop: packing one replaces the bytes at its place by its
  image and reports their number. The loop then writes the images one behind the other.
\<close>

locale element =
  fixes pack :: "'a \<Rightarrow> nat \<Rightarrow> bytes \<Rightarrow> (bytes \<times> size_t) option"
    and image :: "'a \<Rightarrow> bytes option"
  assumes pack_at: "image x = Some img \<Longrightarrow> length mid = length img \<Longrightarrow>
      pack x (length pre) (pre @ mid @ post) = Some (pre @ img @ post, of_nat (length img))"
begin

lemma pack_loop_at:
  assumes "those (map image xs) = Some imgs" "length mid = length (concat imgs)"
    and "length (concat imgs) < 2 ^ 64"
  shows "pack_loop pack xs (length pre) (pre @ mid @ post)
           = Some (pre @ concat imgs @ post, length pre + length (concat imgs))"
  using assms
proof (induction xs arbitrary: imgs pre mid)
  case Nil
  then show ?case by simp
next
  case (Cons x xs)
  then obtain img rest where imgs: "image x = Some img" "those (map image xs) = Some rest"
    "imgs = img # rest"
    by (auto split: option.splits)
  define l r where "l = take (length img) mid" and "r = drop (length img) mid"
  have mid: "mid = l @ r" and l: "length l = length img" and r: "length r = length (concat rest)"
    using Cons.prems imgs by (simp_all add: l_def r_def)
  have small: "length img < 2 ^ 64" "length (concat rest) < 2 ^ 64"
    using Cons.prems imgs by simp_all
  have "pack x (length pre) (pre @ l @ (r @ post)) = Some (pre @ img @ (r @ post), of_nat (length img))"
    by (rule pack_at [OF imgs(1) l])
  with Cons.IH [OF imgs(2) r small(2), of "pre @ img"] small show ?case
    by (simp add: mid imgs(3) add.assoc)
qed

end

interpretation actions: element "\<lambda>a ptr. ofl_actions_pack X a ptr data" action_image
  by unfold_locales (rule action_pack_at)

text \<open>The element pointers of the table features may be indeterminate.\<close>

fun all_assigned :: "'x option list \<Rightarrow> 'x list option" where
  "all_assigned [] = Some []"
| "all_assigned (None # xs) = None"
| "all_assigned (Some x # xs) = map_option ((#) x) (all_assigned xs)"

section \<open>Messages without repeated elements\<close>

definition ofl_msg_pack_error :: "heap \<Rightarrow> u16 \<Rightarrow> u16 \<Rightarrow> bytes \<Rightarrow> bytes option" where
  "ofl_msg_pack_error h type code data =
    do {
      buf \<leftarrow> malloc h (sz ofp_error_msg + of_nat (length data));
      buf \<leftarrow> put16 (offsetof ofp_error_msg ''type'') (htons type) buf;
      buf \<leftarrow> put16 (offsetof ofp_error_msg ''code'') (htons code) buf;
      put_bytes (offsetof ofp_error_msg ''data'') data buf }"

definition ofl_msg_pack_echo :: "heap \<Rightarrow> bytes \<Rightarrow> bytes option" where
  "ofl_msg_pack_echo h data =
    do {
      buf \<leftarrow> malloc h (sz ofp_header + of_nat (length data));
      if length data > 0 then put_bytes (sizeof ofp_header) data buf else Some buf }"

definition ofl_msg_pack_role_request :: "'x ofl_ext \<Rightarrow> heap \<Rightarrow> u32 \<Rightarrow> u64 \<Rightarrow> bytes option" where
  "ofl_msg_pack_role_request X h role generation_id =
    do {
      buf \<leftarrow> malloc h (sz ofp_role_request);
      buf \<leftarrow> put32 (offsetof ofp_role_request ''role'') (htonl role) buf;
      buf \<leftarrow> memset (offsetof ofp_role_request ''pad'') 0 4 buf;
      put64 (offsetof ofp_role_request ''generation_id'') (hton64 X generation_id) buf }"

definition ofl_msg_pack_features_reply ::
    "'x ofl_ext \<Rightarrow> heap \<Rightarrow> ofl_features_reply \<Rightarrow> bytes option" where
  "ofl_msg_pack_features_reply X h m =
    do {
      buf \<leftarrow> malloc h (sz ofp_switch_features);
      buf \<leftarrow> put64 (offsetof ofp_switch_features ''datapath_id'') (hton64 X (fe_datapath_id m)) buf;
      buf \<leftarrow> put32 (offsetof ofp_switch_features ''n_buffers'') (htonl (fe_n_buffers m)) buf;
      buf \<leftarrow> put8 (offsetof ofp_switch_features ''n_tables'') (fe_n_tables m) buf;
      buf \<leftarrow> put8 (offsetof ofp_switch_features ''auxiliary_id'') (fe_auxiliary_id m) buf;
      buf \<leftarrow> memset (offsetof ofp_switch_features ''pad'') 0 2 buf;
      buf \<leftarrow> put32 (offsetof ofp_switch_features ''capabilities'') (htonl (fe_capabilities m)) buf;
      put32 (offsetof ofp_switch_features ''reserved'') 0 buf }"

definition ofl_msg_pack_get_config_reply :: "heap \<Rightarrow> u16 \<Rightarrow> u16 \<Rightarrow> bytes option" where
  "ofl_msg_pack_get_config_reply h flags miss_send_len =
    do {
      buf \<leftarrow> malloc h (sz ofp_switch_config);
      buf \<leftarrow> put16 (offsetof ofp_switch_config ''flags'') (htons flags) buf;
      put16 (offsetof ofp_switch_config ''miss_send_len'') (htons miss_send_len) buf }"

definition ofl_msg_pack_set_config :: "heap \<Rightarrow> u16 \<Rightarrow> u16 \<Rightarrow> bytes option" where
  "ofl_msg_pack_set_config h flags miss_send_len =
    do {
      buf \<leftarrow> malloc h (sz ofp_switch_config);
      buf \<leftarrow> put16 (offsetof ofp_switch_config ''miss_send_len'') (htons miss_send_len) buf;
      put16 (offsetof ofp_switch_config ''flags'') (htons flags) buf }"

text \<open>
  The length expression of a packet-in has \<open>match->length - 4\<close> in \<open>int\<close> arithmetic inside
  \<open>ROUND_UP\<close>, then \<open>size_t\<close> additions.
\<close>

definition ofl_msg_pack_packet_in :: "'x ofl_ext \<Rightarrow> heap \<Rightarrow> 'x ofl_packet_in \<Rightarrow> bytes option" where
  "ofl_msg_pack_packet_in X h m =
    (let mlen = uint (match_length X (pin_match m));
         end_of_match = ROUND_UP X (int (sizeof ofp_packet_in) - 4 + mlen) 8
     in do {
      buf \<leftarrow> malloc h (sz ofp_packet_in + of_int (ROUND_UP X (mlen - 4) 8)
                       + of_nat (length (pin_data m)) + 2);
      buf \<leftarrow> put32 (offsetof ofp_packet_in ''buffer_id'') (htonl (pin_buffer_id m)) buf;
      buf \<leftarrow> put16 (offsetof ofp_packet_in ''total_len'') (htons (pin_total_len m)) buf;
      buf \<leftarrow> put8 (offsetof ofp_packet_in ''reason'') (pin_reason m) buf;
      buf \<leftarrow> put8 (offsetof ofp_packet_in ''table_id'') (pin_table_id m) buf;
      buf \<leftarrow> put64 (offsetof ofp_packet_in ''cookie'') (hton64 X (pin_cookie m)) buf;
      buf \<leftarrow> match_pack X (pin_match m) NETWORK_ORDER (offsetof ofp_packet_in ''match'')
               (sizeof ofp_packet_in - 4) buf;
      buf \<leftarrow> memset (nat end_of_match) 0 2 buf;
      if length (pin_data m) > 0 then put_bytes (nat end_of_match + 2) (pin_data m) buf
      else Some buf })"

text \<open>
  \<open>priority\<close> is converted with the 64-bit \<open>hton64\<close> and then cut to the 16 bits of the wire
  member; \<open>hard_timeout\<close> is never stored.
\<close>

definition ofl_msg_pack_flow_removed :: "'x ofl_ext \<Rightarrow> heap \<Rightarrow> 'x ofl_flow_removed \<Rightarrow> bytes option" where
  "ofl_msg_pack_flow_removed X h m =
    do {
      buf \<leftarrow> malloc h (of_int (ROUND_UP X (int (sizeof ofp_flow_removed) - 4
                                            + uint (match_length X (fr_match m))) 8));
      buf \<leftarrow> put64 (offsetof ofp_flow_removed ''cookie'') (hton64 X (fr_cookie m)) buf;
      buf \<leftarrow> put16 (offsetof ofp_flow_removed ''priority'') (ucast (hton64 X (fr_priority m))) buf;
      buf \<leftarrow> put8 (offsetof ofp_flow_removed ''reason'') (fr_reason m) buf;
      buf \<leftarrow> put8 (offsetof ofp_flow_removed ''table_id'') (fr_table_id m) buf;
      buf \<leftarrow> put32 (offsetof ofp_flow_removed ''duration_sec'') (htonl (fr_duration_sec m)) buf;
      buf \<leftarrow> put32 (offsetof ofp_flow_removed ''duration_nsec'') (htonl (fr_duration_nsec m)) buf;
      buf \<leftarrow> put16 (offsetof ofp_flow_removed ''idle_timeout'') (htons (fr_idle_timeout m)) buf;
      buf \<leftarrow> put64 (offsetof ofp_flow_removed ''packet_count'') (hton64 X (fr_packet_count m)) buf;
      buf \<leftarrow> put64 (offsetof ofp_flow_removed ''byte_count'') (hton64 X (fr_byte_count m)) buf;
      match_pack X (fr_match m) HOST_ORDER (offsetof ofp_flow_removed ''match'')
        (sizeof ofp_flow_removed - 4) buf }"

definition ofl_msg_pack_port_status :: "'x ofl_ext \<Rightarrow> heap \<Rightarrow> u8 \<Rightarrow> 'x \<Rightarrow> bytes option" where
  "ofl_msg_pack_port_status X h reason desc =
    do {
      buf \<leftarrow> malloc h (sz ofp_port_status);
      buf \<leftarrow> put8 (offsetof ofp_port_status ''reason'') reason buf;
      buf \<leftarrow> memset (offsetof ofp_port_status ''pad'') 0 7 buf;
      (buf, _) \<leftarrow> e_pack (x_port X) desc (offsetof ofp_port_status ''desc'') buf;
      Some buf }"

definition ofl_msg_pack_port_mod :: "heap \<Rightarrow> ofl_port_mod \<Rightarrow> bytes option" where
  "ofl_msg_pack_port_mod h m =
    do {
      buf \<leftarrow> malloc h (sz ofp_port_mod);
      buf \<leftarrow> put32 (offsetof ofp_port_mod ''port_no'') (htonl (pm_port_no m)) buf;
      buf \<leftarrow> memset (offsetof ofp_port_mod ''pad'') 0 4 buf;
      hw_addr \<leftarrow> get_bytes 0 OFP_ETH_ALEN (pm_hw_addr m);
      buf \<leftarrow> put_bytes (offsetof ofp_port_mod ''hw_addr'') hw_addr buf;
      buf \<leftarrow> memset (offsetof ofp_port_mod ''pad2'') 0 2 buf;
      buf \<leftarrow> put32 (offsetof ofp_port_mod ''config'') (htonl (pm_config m)) buf;
      buf \<leftarrow> put32 (offsetof ofp_port_mod ''mask'') (htonl (pm_mask m)) buf;
      buf \<leftarrow> put32 (offsetof ofp_port_mod ''advertise'') (htonl (pm_advertise m)) buf;
      memset (offsetof ofp_port_mod ''pad3'') 0 4 buf }"

definition ofl_msg_pack_table_mod :: "heap \<Rightarrow> u8 \<Rightarrow> u32 \<Rightarrow> bytes option" where
  "ofl_msg_pack_table_mod h table_id config =
    do {
      buf \<leftarrow> malloc h (sz ofp_table_mod);
      buf \<leftarrow> put8 (offsetof ofp_table_mod ''table_id'') table_id buf;
      buf \<leftarrow> memset (offsetof ofp_table_mod ''pad'') 0 3 buf;
      put32 (offsetof ofp_table_mod ''config'') (htonl config) buf }"

text \<open>An array member \<open>uint32_t a[n]\<close>, stored element by element.\<close>

fun put_array32 :: "(u32 \<Rightarrow> u32) \<Rightarrow> nat \<Rightarrow> u32 list \<Rightarrow> nat \<Rightarrow> bytes \<Rightarrow> bytes option" where
  "put_array32 conv 0 ws off bs = Some bs"
| "put_array32 conv (Suc n) [] off bs = None"
| "put_array32 conv (Suc n) (w # ws) off bs =
     do { bs \<leftarrow> put32 off (conv w) bs; put_array32 conv n ws (off + 4) bs }"

text \<open>The three masks of the asynchronous configuration are stored in host order.\<close>

definition ofl_msg_pack_async_config ::
    "heap \<Rightarrow> u32 list \<Rightarrow> u32 list \<Rightarrow> u32 list \<Rightarrow> bytes option" where
  "ofl_msg_pack_async_config h packet_in_mask port_status_mask flow_removed_mask =
    do {
      buf \<leftarrow> malloc h (sz ofp_async_config);
      buf \<leftarrow> put_array32 id 2 packet_in_mask (offsetof ofp_async_config ''packet_in_mask'') buf;
      buf \<leftarrow> put_array32 id 2 port_status_mask (offsetof ofp_async_config ''port_status_mask'') buf;
      put_array32 id 2 flow_removed_mask (offsetof ofp_async_config ''flow_removed_mask'') buf }"

definition ofl_msg_pack_empty :: "heap \<Rightarrow> bytes option" where
  "ofl_msg_pack_empty h = malloc h (sz ofp_header)"

definition ofl_msg_pack_queue_get_config_request :: "heap \<Rightarrow> u32 \<Rightarrow> bytes option" where
  "ofl_msg_pack_queue_get_config_request h port =
    do {
      buf \<leftarrow> malloc h (sz ofp_queue_get_config_request);
      buf \<leftarrow> put32 (offsetof ofp_queue_get_config_request ''port'') (htonl port) buf;
      memset (offsetof ofp_queue_get_config_request ''pad'') 0 4 buf }"

section \<open>Messages with repeated elements\<close>

text \<open>\<open>ofl_actions_pack\<close> is called with the start of the message as its \<open>data\<close> argument.\<close>

definition ofl_msg_pack_packet_out ::
    "'x ofl_ext \<Rightarrow> heap \<Rightarrow> u32 \<Rightarrow> u32 option \<Rightarrow> 'x ofl_action list \<Rightarrow> bytes \<Rightarrow> bytes option" where
  "ofl_msg_pack_packet_out X h buffer_id in_port actions data =
    do {
      act_len \<leftarrow> ofl_actions_ofp_total_len X actions;
      buf \<leftarrow> malloc h (sz ofp_packet_out + act_len + of_nat (length data));
      buf \<leftarrow> put32 (offsetof ofp_packet_out ''buffer_id'') (htonl buffer_id) buf;
      in_port \<leftarrow> in_port;
      buf \<leftarrow> put32 (offsetof ofp_packet_out ''in_port'') (htonl in_port) buf;
      buf \<leftarrow> put16 (offsetof ofp_packet_out ''actions_len'') (htons (ucast act_len)) buf;
      buf \<leftarrow> memset (offsetof ofp_packet_out ''pad'') 0 6 buf;
      (buf, ptr) \<leftarrow> pack_loop (\<lambda>a ptr. ofl_actions_pack X a ptr 0) actions (sizeof ofp_packet_out) buf;
      if length data > 0 then put_bytes ptr data buf else Some buf }"

definition ofl_msg_pack_flow_mod :: "'x ofl_ext \<Rightarrow> heap \<Rightarrow> 'x ofl_flow_mod \<Rightarrow> bytes option" where
  "ofl_msg_pack_flow_mod X h m =
    (let head = ROUND_UP X (int (sizeof ofp_flow_mod) - 4 + uint (match_length X (fm_match m))) 8
     in do {
      buf \<leftarrow> malloc h (of_int head + e_total_len (x_instruction X) (fm_instructions m));
      buf \<leftarrow> put64 (offsetof ofp_flow_mod ''cookie'') (hton64 X (fm_cookie m)) buf;
      buf \<leftarrow> put64 (offsetof ofp_flow_mod ''cookie_mask'') (hton64 X (fm_cookie_mask m)) buf;
      buf \<leftarrow> put8 (offsetof ofp_flow_mod ''table_id'') (fm_table_id m) buf;
      buf \<leftarrow> put8 (offsetof ofp_flow_mod ''command'') (fm_command m) buf;
      buf \<leftarrow> put16 (offsetof ofp_flow_mod ''idle_timeout'') (htons (fm_idle_timeout m)) buf;
      buf \<leftarrow> put16 (offsetof ofp_flow_mod ''hard_timeout'') (htons (fm_hard_timeout m)) buf;
      buf \<leftarrow> put16 (offsetof ofp_flow_mod ''priority'') (htons (fm_priority m)) buf;
      buf \<leftarrow> put32 (offsetof ofp_flow_mod ''buffer_id'') (htonl (fm_buffer_id m)) buf;
      buf \<leftarrow> put32 (offsetof ofp_flow_mod ''out_port'') (htonl (fm_out_port m)) buf;
      buf \<leftarrow> put32 (offsetof ofp_flow_mod ''out_group'') (htonl (fm_out_group m)) buf;
      buf \<leftarrow> put16 (offsetof ofp_flow_mod ''flags'') (htons (fm_flags m)) buf;
      buf \<leftarrow> memset (offsetof ofp_flow_mod ''pad'') 0 2 buf;
      buf \<leftarrow> match_pack X (fm_match m) HOST_ORDER (offsetof ofp_flow_mod ''match'')
               (sizeof ofp_flow_mod - 4) buf;
      (buf, _) \<leftarrow> pack_loop (e_pack (x_instruction X)) (fm_instructions m) (nat head) buf;
      Some buf })"

definition ofl_msg_pack_group_mod ::
    "'x ofl_ext \<Rightarrow> heap \<Rightarrow> u16 \<Rightarrow> u8 \<Rightarrow> u32 \<Rightarrow> 'x list \<Rightarrow> bytes option" where
  "ofl_msg_pack_group_mod X h command type group_id buckets =
    do {
      buf \<leftarrow> malloc h (sz ofp_group_mod + e_total_len (x_bucket X) buckets);
      buf \<leftarrow> put16 (offsetof ofp_group_mod ''command'') (htons command) buf;
      buf \<leftarrow> put8 (offsetof ofp_group_mod ''type'') type buf;
      buf \<leftarrow> put8 (offsetof ofp_group_mod ''pad'') 0 buf;
      buf \<leftarrow> put32 (offsetof ofp_group_mod ''group_id'') (htonl group_id) buf;
      (buf, _) \<leftarrow> pack_loop (e_pack (x_bucket X)) buckets (sizeof ofp_group_mod) buf;
      Some buf }"

definition ofl_msg_pack_meter_mod ::
    "'x ofl_ext \<Rightarrow> heap \<Rightarrow> u16 \<Rightarrow> u16 \<Rightarrow> u32 \<Rightarrow> 'x list \<Rightarrow> bytes option" where
  "ofl_msg_pack_meter_mod X h command flags meter_id bands =
    do {
      buf \<leftarrow> malloc h (sz ofp_meter_mod + e_total_len (x_meter_band X) bands);
      buf \<leftarrow> put16 (offsetof ofp_meter_mod ''command'') (htons command) buf;
      buf \<leftarrow> put16 (offsetof ofp_meter_mod ''flags'') (htons flags) buf;
      buf \<leftarrow> put32 (offsetof ofp_meter_mod ''meter_id'') (ntohl meter_id) buf;
      (buf, _) \<leftarrow> pack_loop (e_pack (x_meter_band X)) bands (sizeof ofp_meter_mod) buf;
      Some buf }"

definition ofl_msg_pack_queue_get_config_reply ::
    "'x ofl_ext \<Rightarrow> heap \<Rightarrow> u32 \<Rightarrow> 'x list \<Rightarrow> bytes option" where
  "ofl_msg_pack_queue_get_config_reply X h port queues =
    do {
      buf \<leftarrow> malloc h (sz ofp_queue_get_config_reply + e_total_len (x_packet_queue X) queues);
      buf \<leftarrow> put32 (offsetof ofp_queue_get_config_reply ''port'') (htonl port) buf;
      buf \<leftarrow> memset (offsetof ofp_queue_get_config_reply ''pad'') 0 4 buf;
      (buf, _) \<leftarrow> pack_loop (e_pack (x_packet_queue X)) queues
                  (offsetof ofp_queue_get_config_reply ''queues'') buf;
      Some buf }"

section \<open>Multipart requests\<close>

definition ofl_msg_pack_multipart_request_flow ::
    "'x ofl_ext \<Rightarrow> heap \<Rightarrow> 'x ofl_flow_request \<Rightarrow> bytes option" where
  "ofl_msg_pack_multipart_request_flow X h m =
    do {
      buf \<leftarrow> malloc h (sz ofp_multipart_request + sz ofp_flow_stats_request
                       + ucast (match_length X (rq_match m)));
      buf \<leftarrow> put8 (mp_body ofp_flow_stats_request ''table_id'') (rq_table_id m) buf;
      buf \<leftarrow> memset (mp_body ofp_flow_stats_request ''pad'') 0 3 buf;
      buf \<leftarrow> put32 (mp_body ofp_flow_stats_request ''out_port'') (htonl (rq_out_port m)) buf;
      buf \<leftarrow> put32 (mp_body ofp_flow_stats_request ''out_group'') (htonl (rq_out_group m)) buf;
      buf \<leftarrow> memset (mp_body ofp_flow_stats_request ''pad2'') 0 4 buf;
      buf \<leftarrow> put64 (mp_body ofp_flow_stats_request ''cookie'') (hton64 X (rq_cookie m)) buf;
      buf \<leftarrow> put64 (mp_body ofp_flow_stats_request ''cookie_mask'') (hton64 X (rq_cookie_mask m)) buf;
      match_pack X (rq_match m) HOST_ORDER (mp_body ofp_flow_stats_request ''match'')
        (sizeof ofp_multipart_request + sizeof ofp_flow_stats_request) buf }"

definition ofl_msg_pack_multipart_request_port :: "heap \<Rightarrow> u32 \<Rightarrow> bytes option" where
  "ofl_msg_pack_multipart_request_port h port_no =
    do {
      buf \<leftarrow> malloc h (sz ofp_multipart_request + sz ofp_port_stats_request);
      buf \<leftarrow> put32 (mp_body ofp_port_stats_request ''port_no'') (htonl port_no) buf;
      memset (mp_body ofp_port_stats_request ''pad'') 0 4 buf }"

definition ofl_msg_pack_multipart_request_queue :: "heap \<Rightarrow> u32 \<Rightarrow> u32 \<Rightarrow> bytes option" where
  "ofl_msg_pack_multipart_request_queue h port_no queue_id =
    do {
      buf \<leftarrow> malloc h (sz ofp_multipart_request + sz ofp_queue_stats_request);
      buf \<leftarrow> put32 (mp_body ofp_queue_stats_request ''port_no'') (htonl port_no) buf;
      put32 (mp_body ofp_queue_stats_request ''queue_id'') (htonl queue_id) buf }"

definition ofl_msg_pack_multipart_request_group :: "heap \<Rightarrow> u32 \<Rightarrow> bytes option" where
  "ofl_msg_pack_multipart_request_group h group_id =
    do {
      buf \<leftarrow> malloc h (sz ofp_multipart_request + sz ofp_group_stats_request);
      buf \<leftarrow> put32 (mp_body ofp_group_stats_request ''group_id'') (htonl group_id) buf;
      memset (mp_body ofp_group_stats_request ''pad'') 0 4 buf }"

definition ofl_msg_pack_multipart_request_table_features ::
    "'x ofl_ext \<Rightarrow> heap \<Rightarrow> 'x option list \<Rightarrow> bytes option" where
  "ofl_msg_pack_multipart_request_table_features X h features =
    do {
      fs \<leftarrow> all_assigned features;
      let features_len = e_total_len (x_table_features X) fs;
      buf \<leftarrow> malloc h (sz ofp_multipart_request + features_len);
      if features_len \<noteq> 0 then
        map_option fst (pack_loop (e_pack (x_table_features X)) fs
                          (offsetof ofp_multipart_request ''body'') buf)
      else Some buf }"

definition ofl_msg_pack_meter_multipart_request :: "heap \<Rightarrow> u32 \<Rightarrow> bytes option" where
  "ofl_msg_pack_meter_multipart_request h meter_id =
    do {
      buf \<leftarrow> malloc h (sz ofp_multipart_request + sz ofp_meter_multipart_request);
      buf \<leftarrow> put32 (mp_body ofp_meter_multipart_request ''meter_id'') (htonl meter_id) buf;
      memset (mp_body ofp_meter_multipart_request ''pad'') 0 4 buf }"

definition ofl_msg_pack_multipart_request_empty :: "heap \<Rightarrow> bytes option" where
  "ofl_msg_pack_multipart_request_empty h = malloc h (sz ofp_multipart_request)"

text \<open>
  The switch on \<open>msg->type\<close>. The pointer is cast to the structure of the type, so a body of another
  shape has no meaning; the experimenter callback may be absent.
\<close>

definition mp_request_switch ::
    "'x ofl_ext \<Rightarrow> heap \<Rightarrow> u32 \<Rightarrow> 'x mp_request \<Rightarrow> (int + bytes) option" where
  "mp_request_switch X h type body =
    (let empty = map_option Inr (ofl_msg_pack_multipart_request_empty h);
         flow = (case body of Req_flow m \<Rightarrow> map_option Inr (ofl_msg_pack_multipart_request_flow X h m)
                 | _ \<Rightarrow> None);
         meter = (case body of Req_meter m \<Rightarrow> map_option Inr (ofl_msg_pack_meter_multipart_request h m)
                  | _ \<Rightarrow> None)
     in case ofp_multipart_types_of (unat type) of
       None \<Rightarrow> Some (Inl (- 1))
     | Some OFPMP_DESC \<Rightarrow> empty
     | Some OFPMP_FLOW \<Rightarrow> flow
     | Some OFPMP_AGGREGATE \<Rightarrow> flow
     | Some OFPMP_TABLE \<Rightarrow> empty
     | Some OFPMP_PORT_STATS \<Rightarrow>
         (case body of Req_port p \<Rightarrow> map_option Inr (ofl_msg_pack_multipart_request_port h p)
          | _ \<Rightarrow> None)
     | Some OFPMP_QUEUE \<Rightarrow>
         (case body of Req_queue p q \<Rightarrow> map_option Inr (ofl_msg_pack_multipart_request_queue h p q)
          | _ \<Rightarrow> None)
     | Some OFPMP_GROUP \<Rightarrow>
         (case body of Req_group g \<Rightarrow> map_option Inr (ofl_msg_pack_multipart_request_group h g)
          | _ \<Rightarrow> None)
     | Some OFPMP_GROUP_DESC \<Rightarrow> empty
     | Some OFPMP_GROUP_FEATURES \<Rightarrow> empty
     | Some OFPMP_METER \<Rightarrow> meter
     | Some OFPMP_METER_CONFIG \<Rightarrow> meter
     | Some OFPMP_METER_FEATURES \<Rightarrow> empty
     | Some OFPMP_TABLE_FEATURES \<Rightarrow>
         (case body of
            Req_table_features fs \<Rightarrow>
              map_option Inr (ofl_msg_pack_multipart_request_table_features X h fs)
          | _ \<Rightarrow> None)
     | Some OFPMP_PORT_DESC \<Rightarrow> empty
     | Some OFPMP_EXPERIMENTER \<Rightarrow>
         (case exp_stats_req_pack X of
            None \<Rightarrow> Some (Inl (- 1))
          | Some pack \<Rightarrow> (case body of Req_experimenter x \<Rightarrow> pack x | _ \<Rightarrow> None)))"

definition mp_header :: "ctype \<Rightarrow> u32 \<Rightarrow> u16 \<Rightarrow> bytes \<Rightarrow> bytes option" where
  "mp_header t type flags buf =
    do {
      buf \<leftarrow> put16 (offsetof t ''type'') (htons (ucast type)) buf;
      buf \<leftarrow> put16 (offsetof t ''flags'') (htons flags) buf;
      memset (offsetof t ''pad'') 0 4 buf }"

definition ofl_msg_pack_multipart_request ::
    "'x ofl_ext \<Rightarrow> heap \<Rightarrow> u32 \<Rightarrow> u16 \<Rightarrow> 'x mp_request \<Rightarrow> (int + bytes) option" where
  "ofl_msg_pack_multipart_request X h type flags body =
    do {
      r \<leftarrow> mp_request_switch X h type body;
      (case r of
         Inl e \<Rightarrow> Some (Inl e)
       | Inr buf \<Rightarrow> map_option Inr (mp_header ofp_multipart_request type flags buf)) }"

section \<open>Multipart replies\<close>

text \<open>
  The description strings are copied with their full wire length, whatever the length of the
  objects behind the pointers: a read behind the end of one is \<open>None\<close>.
\<close>

definition ofl_msg_pack_multipart_reply_desc :: "heap \<Rightarrow> ofl_desc \<Rightarrow> bytes option" where
  "ofl_msg_pack_multipart_reply_desc h m =
    do {
      buf \<leftarrow> malloc h (sz ofp_multipart_reply + sz ofp_desc);
      s \<leftarrow> get_bytes 0 DESC_STR_LEN (de_mfr_desc m);
      buf \<leftarrow> put_bytes (rep_body ofp_desc ''mfr_desc'') s buf;
      s \<leftarrow> get_bytes 0 DESC_STR_LEN (de_hw_desc m);
      buf \<leftarrow> put_bytes (rep_body ofp_desc ''hw_desc'') s buf;
      s \<leftarrow> get_bytes 0 DESC_STR_LEN (de_sw_desc m);
      buf \<leftarrow> put_bytes (rep_body ofp_desc ''sw_desc'') s buf;
      s \<leftarrow> get_bytes 0 SERIAL_NUM_LEN (de_serial_num m);
      buf \<leftarrow> put_bytes (rep_body ofp_desc ''serial_num'') s buf;
      s \<leftarrow> get_bytes 0 DESC_STR_LEN (de_dp_desc m);
      put_bytes (rep_body ofp_desc ''dp_desc'') s buf }"

definition ofl_msg_pack_multipart_reply_flow ::
    "'x ofl_ext \<Rightarrow> heap \<Rightarrow> 'x list \<Rightarrow> bytes option" where
  "ofl_msg_pack_multipart_reply_flow X h stats =
    do {
      buf \<leftarrow> malloc h (sz ofp_multipart_reply + e_total_len (x_flow_stats X) stats);
      map_option fst (pack_loop (e_pack (x_flow_stats X)) stats (offsetof ofp_multipart_reply ''body'') buf) }"

definition ofl_msg_pack_multipart_reply_aggregate ::
    "'x ofl_ext \<Rightarrow> heap \<Rightarrow> u64 \<Rightarrow> u64 \<Rightarrow> u32 \<Rightarrow> bytes option" where
  "ofl_msg_pack_multipart_reply_aggregate X h packet_count byte_count flow_count =
    do {
      buf \<leftarrow> malloc h (sz ofp_multipart_reply + sz ofp_aggregate_stats_reply);
      buf \<leftarrow> put64 (rep_body ofp_aggregate_stats_reply ''packet_count'') (hton64 X packet_count) buf;
      buf \<leftarrow> put64 (rep_body ofp_aggregate_stats_reply ''byte_count'') (hton64 X byte_count) buf;
      buf \<leftarrow> put32 (rep_body ofp_aggregate_stats_reply ''flow_count'') (htonl flow_count) buf;
      memset (rep_body ofp_aggregate_stats_reply ''pad'') 0 4 buf }"

text \<open>The length of these replies is \<open>stats_num * sizeof(...)\<close>, in \<open>size_t\<close>.\<close>

definition ofl_msg_pack_multipart_reply_table ::
    "'x ofl_ext \<Rightarrow> heap \<Rightarrow> 'x list \<Rightarrow> bytes option" where
  "ofl_msg_pack_multipart_reply_table X h stats =
    do {
      buf \<leftarrow> malloc h (sz ofp_multipart_reply + of_nat (length stats) * sz ofp_table_stats);
      map_option fst (pack_loop (e_pack (x_table_stats X)) stats (offsetof ofp_multipart_reply ''body'') buf) }"

definition ofl_msg_pack_multipart_reply_port ::
    "'x ofl_ext \<Rightarrow> heap \<Rightarrow> 'x list \<Rightarrow> bytes option" where
  "ofl_msg_pack_multipart_reply_port X h stats =
    do {
      buf \<leftarrow> malloc h (sz ofp_multipart_reply + of_nat (length stats) * sz ofp_port_stats);
      map_option fst (pack_loop (e_pack (x_port_stats X)) stats (offsetof ofp_multipart_reply ''body'') buf) }"

definition ofl_msg_pack_multipart_reply_queue ::
    "'x ofl_ext \<Rightarrow> heap \<Rightarrow> 'x list \<Rightarrow> bytes option" where
  "ofl_msg_pack_multipart_reply_queue X h stats =
    do {
      buf \<leftarrow> malloc h (sz ofp_multipart_reply + of_nat (length stats) * sz ofp_queue_stats);
      map_option fst (pack_loop (e_pack (x_queue_stats X)) stats (offsetof ofp_multipart_reply ''body'') buf) }"

definition ofl_msg_pack_multipart_reply_port_status_desc ::
    "'x ofl_ext \<Rightarrow> heap \<Rightarrow> 'x list \<Rightarrow> bytes option" where
  "ofl_msg_pack_multipart_reply_port_status_desc X h stats =
    do {
      buf \<leftarrow> malloc h (sz ofp_multipart_reply + of_nat (length stats) * sz ofp_port);
      map_option fst (pack_loop (e_pack (x_port X)) stats (offsetof ofp_multipart_reply ''body'') buf) }"

text \<open>These ask the library for the length.\<close>

definition ofl_msg_pack_multipart_reply_group ::
    "'x ofl_ext \<Rightarrow> heap \<Rightarrow> 'x list \<Rightarrow> bytes option" where
  "ofl_msg_pack_multipart_reply_group X h stats =
    do {
      buf \<leftarrow> malloc h (sz ofp_multipart_reply + e_total_len (x_group_stats X) stats);
      map_option fst (pack_loop (e_pack (x_group_stats X)) stats (offsetof ofp_multipart_reply ''body'') buf) }"

definition ofl_msg_pack_multipart_reply_group_desc ::
    "'x ofl_ext \<Rightarrow> heap \<Rightarrow> 'x list \<Rightarrow> bytes option" where
  "ofl_msg_pack_multipart_reply_group_desc X h stats =
    do {
      buf \<leftarrow> malloc h (sz ofp_multipart_reply + e_total_len (x_group_desc_stats X) stats);
      map_option fst (pack_loop (e_pack (x_group_desc_stats X)) stats (offsetof ofp_multipart_reply ''body'') buf) }"

definition ofl_msg_pack_multipart_reply_meter_stats ::
    "'x ofl_ext \<Rightarrow> heap \<Rightarrow> 'x list \<Rightarrow> bytes option" where
  "ofl_msg_pack_multipart_reply_meter_stats X h stats =
    do {
      buf \<leftarrow> malloc h (sz ofp_multipart_reply + e_total_len (x_meter_stats X) stats);
      map_option fst (pack_loop (e_pack (x_meter_stats X)) stats (offsetof ofp_multipart_reply ''body'') buf) }"

definition ofl_msg_pack_multipart_reply_meter_conf ::
    "'x ofl_ext \<Rightarrow> heap \<Rightarrow> 'x list \<Rightarrow> bytes option" where
  "ofl_msg_pack_multipart_reply_meter_conf X h stats =
    do {
      buf \<leftarrow> malloc h (sz ofp_multipart_reply + e_total_len (x_meter_config X) stats);
      map_option fst (pack_loop (e_pack (x_meter_config X)) stats (offsetof ofp_multipart_reply ''body'') buf) }"

text \<open>
  \<open>for (i = 0; i < 4; i++)\<close> stores \<open>max_groups[i]\<close> and \<open>actions[i]\<close> in turn; the two arrays do not
  overlap, and both members have four elements.
\<close>

definition ofl_msg_pack_multipart_reply_group_features ::
    "heap \<Rightarrow> u32 \<Rightarrow> u32 \<Rightarrow> u32 list \<Rightarrow> u32 list \<Rightarrow> bytes option" where
  "ofl_msg_pack_multipart_reply_group_features h types capabilities max_groups actions =
    do {
      buf \<leftarrow> malloc h (sz ofp_multipart_reply + sz ofp_group_features_stats);
      buf \<leftarrow> put32 (rep_body ofp_group_features_stats ''types'') (htonl types) buf;
      buf \<leftarrow> put32 (rep_body ofp_group_features_stats ''capabilities'') (htonl capabilities) buf;
      buf \<leftarrow> put_array32 htonl 4 max_groups (rep_body ofp_group_features_stats ''max_groups'') buf;
      put_array32 htonl 4 actions (rep_body ofp_group_features_stats ''actions'') buf }"

definition ofl_msg_pack_multipart_reply_table_features ::
    "'x ofl_ext \<Rightarrow> heap \<Rightarrow> 'x option list \<Rightarrow> bytes option" where
  "ofl_msg_pack_multipart_reply_table_features X h features =
    do {
      fs \<leftarrow> all_assigned features;
      let features_len = e_total_len (x_table_features X) fs;
      buf \<leftarrow> malloc h (sz ofp_multipart_reply + features_len);
      if features_len \<noteq> 0 then
        map_option fst (pack_loop (e_pack (x_table_features X)) fs
                          (offsetof ofp_multipart_reply ''body'') buf)
      else Some buf }"

definition ofl_msg_pack_multipart_reply_meter_features ::
    "heap \<Rightarrow> u32 \<Rightarrow> u32 \<Rightarrow> u32 \<Rightarrow> u8 \<Rightarrow> u8 \<Rightarrow> bytes option" where
  "ofl_msg_pack_multipart_reply_meter_features h max_meter band_types capabilities max_bands max_color =
    do {
      buf \<leftarrow> malloc h (sz ofp_multipart_reply + sz ofp_meter_features);
      buf \<leftarrow> put32 (rep_body ofp_meter_features ''max_meter'') (htonl max_meter) buf;
      buf \<leftarrow> put32 (rep_body ofp_meter_features ''band_types'') (htonl band_types) buf;
      buf \<leftarrow> put32 (rep_body ofp_meter_features ''capabilities'') (htonl capabilities) buf;
      buf \<leftarrow> put8 (rep_body ofp_meter_features ''max_bands'') max_bands buf;
      buf \<leftarrow> put8 (rep_body ofp_meter_features ''max_color'') max_color buf;
      memset (rep_body ofp_meter_features ''pad'') 0 2 buf }"

definition mp_reply_switch ::
    "'x ofl_ext \<Rightarrow> heap \<Rightarrow> u32 \<Rightarrow> 'x mp_reply \<Rightarrow> (int + bytes) option" where
  "mp_reply_switch X h type body =
    (case ofp_multipart_types_of (unat type) of
       None \<Rightarrow> Some (Inl (- 1))
     | Some OFPMP_DESC \<Rightarrow>
         (case body of Rep_desc m \<Rightarrow> map_option Inr (ofl_msg_pack_multipart_reply_desc h m)
          | _ \<Rightarrow> None)
     | Some OFPMP_FLOW \<Rightarrow>
         (case body of Rep_flow xs \<Rightarrow> map_option Inr (ofl_msg_pack_multipart_reply_flow X h xs)
          | _ \<Rightarrow> None)
     | Some OFPMP_AGGREGATE \<Rightarrow>
         (case body of Rep_aggregate p b f \<Rightarrow> map_option Inr (ofl_msg_pack_multipart_reply_aggregate X h p b f)
          | _ \<Rightarrow> None)
     | Some OFPMP_TABLE \<Rightarrow>
         (case body of Rep_table xs \<Rightarrow> map_option Inr (ofl_msg_pack_multipart_reply_table X h xs)
          | _ \<Rightarrow> None)
     | Some OFPMP_TABLE_FEATURES \<Rightarrow>
         (case body of Rep_table_features xs \<Rightarrow> map_option Inr (ofl_msg_pack_multipart_reply_table_features X h xs)
          | _ \<Rightarrow> None)
     | Some OFPMP_PORT_STATS \<Rightarrow>
         (case body of Rep_port xs \<Rightarrow> map_option Inr (ofl_msg_pack_multipart_reply_port X h xs)
          | _ \<Rightarrow> None)
     | Some OFPMP_QUEUE \<Rightarrow>
         (case body of Rep_queue xs \<Rightarrow> map_option Inr (ofl_msg_pack_multipart_reply_queue X h xs)
          | _ \<Rightarrow> None)
     | Some OFPMP_GROUP \<Rightarrow>
         (case body of Rep_group xs \<Rightarrow> map_option Inr (ofl_msg_pack_multipart_reply_group X h xs)
          | _ \<Rightarrow> None)
     | Some OFPMP_GROUP_DESC \<Rightarrow>
         (case body of Rep_group_desc xs \<Rightarrow> map_option Inr (ofl_msg_pack_multipart_reply_group_desc X h xs)
          | _ \<Rightarrow> None)
     | Some OFPMP_GROUP_FEATURES \<Rightarrow>
         (case body of Rep_group_features t c ms as \<Rightarrow> map_option Inr (ofl_msg_pack_multipart_reply_group_features h t c ms as)
          | _ \<Rightarrow> None)
     | Some OFPMP_METER \<Rightarrow>
         (case body of Rep_meter xs \<Rightarrow> map_option Inr (ofl_msg_pack_multipart_reply_meter_stats X h xs)
          | _ \<Rightarrow> None)
     | Some OFPMP_METER_CONFIG \<Rightarrow>
         (case body of Rep_meter_conf xs \<Rightarrow> map_option Inr (ofl_msg_pack_multipart_reply_meter_conf X h xs)
          | _ \<Rightarrow> None)
     | Some OFPMP_METER_FEATURES \<Rightarrow>
         (case body of Rep_meter_features m b c n k \<Rightarrow> map_option Inr (ofl_msg_pack_multipart_reply_meter_features h m b c n k)
          | _ \<Rightarrow> None)
     | Some OFPMP_PORT_DESC \<Rightarrow>
         (case body of Rep_port_desc xs \<Rightarrow> map_option Inr (ofl_msg_pack_multipart_reply_port_status_desc X h xs)
          | _ \<Rightarrow> None)
     | Some OFPMP_EXPERIMENTER \<Rightarrow>
         (case exp_stats_reply_pack X of
            None \<Rightarrow> Some (Inl (- 1))
          | Some pack \<Rightarrow> (case body of Rep_experimenter x \<Rightarrow> pack x | _ \<Rightarrow> None)))"

definition ofl_msg_pack_multipart_reply ::
    "'x ofl_ext \<Rightarrow> heap \<Rightarrow> u32 \<Rightarrow> u16 \<Rightarrow> 'x mp_reply \<Rightarrow> (int + bytes) option" where
  "ofl_msg_pack_multipart_reply X h type flags body =
    do {
      r \<leftarrow> mp_reply_switch X h type body;
      (case r of
         Inl e \<Rightarrow> Some (Inl e)
       | Inr buf \<Rightarrow> map_option Inr (mp_header ofp_multipart_reply type flags buf)) }"

section \<open>Dispatch\<close>

text \<open>
  The switch of \<open>ofl_msg_pack\<close> on the message type. The pointer is cast to the structure of the
  type; messages without a body do not look at it.
\<close>

definition pack_switch :: "'x ofl_ext \<Rightarrow> heap \<Rightarrow> 'x ofl_msg \<Rightarrow> (int + bytes) option" where
  "pack_switch X h m =
    (let empty = map_option Inr (ofl_msg_pack_empty h);
         echo = (case msg_body m of
                   Msg_echo data \<Rightarrow> map_option Inr (ofl_msg_pack_echo h data) | _ \<Rightarrow> None);
         async = (case msg_body m of
                    Msg_async_config a b c \<Rightarrow> map_option Inr (ofl_msg_pack_async_config h a b c)
                  | _ \<Rightarrow> None);
         role = (case msg_body m of
                   Msg_role r g \<Rightarrow> map_option Inr (ofl_msg_pack_role_request X h r g) | _ \<Rightarrow> None)
     in case ofp_type_of (unat (msg_type m)) of
       None \<Rightarrow> Some (Inl (- 1))
     | Some OFPT_HELLO \<Rightarrow> empty
     | Some OFPT_ERROR \<Rightarrow>
         (case msg_body m of Msg_error t c d \<Rightarrow> map_option Inr (ofl_msg_pack_error h t c d) | _ \<Rightarrow> None)
     | Some OFPT_ECHO_REQUEST \<Rightarrow> echo
     | Some OFPT_ECHO_REPLY \<Rightarrow> echo
     | Some OFPT_EXPERIMENTER \<Rightarrow>
         (case exp_msg_pack X of
            None \<Rightarrow> Some (Inl (- 1))
          | Some pack \<Rightarrow> (case msg_body m of Msg_experimenter x \<Rightarrow> pack x | _ \<Rightarrow> None))
     | Some OFPT_FEATURES_REQUEST \<Rightarrow> empty
     | Some OFPT_FEATURES_REPLY \<Rightarrow>
         (case msg_body m of Msg_features_reply f \<Rightarrow> map_option Inr (ofl_msg_pack_features_reply X h f) | _ \<Rightarrow> None)
     | Some OFPT_GET_CONFIG_REQUEST \<Rightarrow> empty
     | Some OFPT_GET_CONFIG_REPLY \<Rightarrow>
         (case msg_body m of Msg_get_config_reply f l \<Rightarrow> map_option Inr (ofl_msg_pack_get_config_reply h f l) | _ \<Rightarrow> None)
     | Some OFPT_SET_CONFIG \<Rightarrow>
         (case msg_body m of Msg_set_config f l \<Rightarrow> map_option Inr (ofl_msg_pack_set_config h f l) | _ \<Rightarrow> None)
     | Some OFPT_PACKET_IN \<Rightarrow>
         (case msg_body m of Msg_packet_in p \<Rightarrow> map_option Inr (ofl_msg_pack_packet_in X h p) | _ \<Rightarrow> None)
     | Some OFPT_FLOW_REMOVED \<Rightarrow>
         (case msg_body m of Msg_flow_removed f \<Rightarrow> map_option Inr (ofl_msg_pack_flow_removed X h f) | _ \<Rightarrow> None)
     | Some OFPT_PORT_STATUS \<Rightarrow>
         (case msg_body m of Msg_port_status r d \<Rightarrow> map_option Inr (ofl_msg_pack_port_status X h r d) | _ \<Rightarrow> None)
     | Some OFPT_GET_ASYNC_REQUEST \<Rightarrow> empty
     | Some OFPT_GET_ASYNC_REPLY \<Rightarrow> async
     | Some OFPT_SET_ASYNC \<Rightarrow> async
     | Some OFPT_PACKET_OUT \<Rightarrow>
         (case msg_body m of Msg_packet_out b p as d \<Rightarrow> map_option Inr (ofl_msg_pack_packet_out X h b p as d) | _ \<Rightarrow> None)
     | Some OFPT_FLOW_MOD \<Rightarrow>
         (case msg_body m of Msg_flow_mod f \<Rightarrow> map_option Inr (ofl_msg_pack_flow_mod X h f) | _ \<Rightarrow> None)
     | Some OFPT_GROUP_MOD \<Rightarrow>
         (case msg_body m of Msg_group_mod c t g bs \<Rightarrow> map_option Inr (ofl_msg_pack_group_mod X h c t g bs) | _ \<Rightarrow> None)
     | Some OFPT_PORT_MOD \<Rightarrow>
         (case msg_body m of Msg_port_mod p \<Rightarrow> map_option Inr (ofl_msg_pack_port_mod h p) | _ \<Rightarrow> None)
     | Some OFPT_TABLE_MOD \<Rightarrow>
         (case msg_body m of Msg_table_mod t c \<Rightarrow> map_option Inr (ofl_msg_pack_table_mod h t c) | _ \<Rightarrow> None)
     | Some OFPT_METER_MOD \<Rightarrow>
         (case msg_body m of Msg_meter_mod c f i bs \<Rightarrow> map_option Inr (ofl_msg_pack_meter_mod X h c f i bs) | _ \<Rightarrow> None)
     | Some OFPT_MULTIPART_REQUEST \<Rightarrow>
         (case msg_body m of Msg_mp_request t f b \<Rightarrow> ofl_msg_pack_multipart_request X h t f b | _ \<Rightarrow> None)
     | Some OFPT_MULTIPART_REPLY \<Rightarrow>
         (case msg_body m of Msg_mp_reply t f b \<Rightarrow> ofl_msg_pack_multipart_reply X h t f b | _ \<Rightarrow> None)
     | Some OFPT_BARRIER_REQUEST \<Rightarrow> empty
     | Some OFPT_BARRIER_REPLY \<Rightarrow> empty
     | Some OFPT_QUEUE_GET_CONFIG_REQUEST \<Rightarrow>
         (case msg_body m of Msg_queue_get_config_request p \<Rightarrow> map_option Inr (ofl_msg_pack_queue_get_config_request h p) | _ \<Rightarrow> None)
     | Some OFPT_QUEUE_GET_CONFIG_REPLY \<Rightarrow>
         (case msg_body m of Msg_queue_get_config_reply p qs \<Rightarrow> map_option Inr (ofl_msg_pack_queue_get_config_reply X h p qs) | _ \<Rightarrow> None)
     | Some OFPT_ROLE_REQUEST \<Rightarrow> role
     | Some OFPT_ROLE_REPLY \<Rightarrow> role)"

text \<open>\<open>oh->version = ...; oh->type = ...; oh->length = htons(*buf_len); oh->xid = ...\<close>\<close>

definition put_header :: "u32 \<Rightarrow> u32 \<Rightarrow> bytes \<Rightarrow> bytes option" where
  "put_header type xid buf =
    (let buf_len = (of_nat (length buf) :: size_t) in do {
      buf \<leftarrow> put8 (offsetof ofp_header ''version'') OFP_VERSION buf;
      buf \<leftarrow> put8 (offsetof ofp_header ''type'') (ucast type) buf;
      buf \<leftarrow> put16 (offsetof ofp_header ''length'') (htons (ucast buf_len)) buf;
      put32 (offsetof ofp_header ''xid'') (htonl xid) buf })"

definition ofl_msg_pack :: "'x ofl_ext \<Rightarrow> heap \<Rightarrow> 'x ofl_msg \<Rightarrow> u32 \<Rightarrow> (int + bytes) option" where
  "ofl_msg_pack X h m xid =
    do {
      r \<leftarrow> pack_switch X h m;
      (case r of
         Inl e \<Rightarrow> Some (Inl e)
       | Inr buf \<Rightarrow> map_option Inr (put_header (msg_type m) xid buf)) }"

section \<open>A packet-out against the wire format\<close>

lemma total_len_images:
  "those (map action_image as) = Some imgs \<Longrightarrow>
     ofl_actions_ofp_total_len X as = Some (of_nat (length (concat imgs)))"
  by (induction as arbitrary: imgs) (auto simp: action_image_len split: option.splits)

lemma packet_out_image:
  assumes imgs: "those (map action_image as) = Some imgs" and acts: "acts = concat imgs"
    and small: "8 + (16 + (length acts + length data)) < 2 ^ 64"
  shows "ofl_msg_pack_packet_out X h b (Some p) as data =
    (case h (of_nat (8 + (16 + (length acts + length data)))) of
       None \<Rightarrow> None
     | Some junk \<Rightarrow> Some (map junk [0..<8] @ be32 b @ be32 p @ be16 (of_nat (length acts))
                           @ zeros 6 @ acts @ data))"
proof -
  define n where "n = 8 + (16 + (length acts + length data))"
  have sz: "24 + of_nat (length acts) + of_nat (length data) = (of_nat n :: size_t)"
    by (simp add: n_def)
  have n: "unat (of_nat n :: size_t) = n" using small unfolding n_def by (rule unat_of_nat64)
  have u16: "(ucast (of_nat (length acts) :: size_t) :: u16) = of_nat (length acts)"
    by (simp add: unsigned_of_nat word_of_nat_eq_iff)
  show ?thesis
  proof (cases "h (of_nat n)")
    case None
    with total_len_images [OF imgs, of X] sz show ?thesis
      by (simp add: ofl_msg_pack_packet_out_def malloc_eq layout_simps acts n_def add.assoc)
  next
    case (Some junk)
    obtain B C D where J: "map junk [0..<n] = map junk [0..<8] @ B @ C @ D"
      and len: "length B = 16" "length C = length acts" "length D = length data"
      by (rule junk_split [OF n_def, of junk])
    have loop: "pack_loop (\<lambda>a ptr. ofl_actions_pack X a ptr 0) as 24 (pre @ C @ D)
        = Some (pre @ acts @ D, 24 + length acts)" if "length pre = 24" for pre
      using actions.pack_loop_at [OF imgs, of C X 0 pre D] that small len by (simp add: acts)
    let ?pre = "map junk [0..<8] @ be32 b @ be32 p @ be16 (of_nat (length acts)) @ zeros 6"
    have put: "put_bytes (24 + length acts) data (?pre @ acts @ D) = Some (?pre @ acts @ data)"
      using len by (simp add: put_bytes_Some upd_append)
    have "malloc h (24 + of_nat (length acts) + of_nat (length data))
        = Some (map junk [0..<8] @ B @ C @ D)"
      using Some by (simp add: sz malloc_eq n J)
    with total_len_images [OF imgs, of X] len loop [of ?pre] put
    have "ofl_msg_pack_packet_out X h b (Some p) as data = Some (?pre @ acts @ data)"
      by (auto simp: ofl_msg_pack_packet_out_def mem_simps layout_simps upd_append u16 acts [symmetric])
    with Some show ?thesis unfolding n_def by (simp del: of_nat_add)
  qed
qed

end
