(* ===== verification/ParseMsg.thy ===== *)
theory ParseMsg
  imports OflTypes
begin

text \<open>
  \<open>src/cc_parse_msg.c\<close>: unpacking a received buffer. An unpacking function gets the buffer (its
  first byte is the header of the message) and the value of \<open>*len\<close>, the bytes not consumed yet;
  it yields the message body and the new \<open>*len\<close>, an error, or \<open>None\<close> when it would read outside
  the buffer, use freed memory or read an indeterminate pointer. \<open>*len\<close> is a \<open>size_t\<close> and wraps.
  The (small) allocations for the \<open>ofl_*\<close> structures are taken to succeed.
\<close>

abbreviation BAD_LEN :: ofl_err where
  "BAD_LEN \<equiv> ofl_error OFPET_BAD_REQUEST OFPBRC_BAD_LEN"

text \<open>\<open>len > 0 ? memcpy(malloc(len), buf + off, len) : NULL\<close>\<close>

definition copy_data :: "nat \<Rightarrow> size_t \<Rightarrow> bytes \<Rightarrow> bytes option" where
  "copy_data off len buf = (if len > 0 then get_bytes off (unat len) buf else Some [])"

section \<open>Messages without repeated elements\<close>

definition ofl_msg_unpack_error :: "bytes \<Rightarrow> size_t \<Rightarrow> ('x ofl_body \<times> size_t) parsed" where
  "ofl_msg_unpack_error buf len =
    (if len < sz ofp_error_msg then fail OFL_ERROR
     else let len = len - sz ofp_error_msg in do {
       type \<leftarrow> get16 (offsetof ofp_error_msg ''type'') buf;
       code \<leftarrow> get16 (offsetof ofp_error_msg ''code'') buf;
       data \<leftarrow> copy_data (offsetof ofp_error_msg ''data'') len buf;
       ok (Msg_error (ntohs type) (ntohs code) data, 0) })"

definition ofl_msg_unpack_echo :: "bytes \<Rightarrow> size_t \<Rightarrow> ('x ofl_body \<times> size_t) parsed" where
  "ofl_msg_unpack_echo buf len =
    (let len = len - sz ofp_header in do {
       data \<leftarrow> copy_data (sizeof ofp_header) len buf;
       ok (Msg_echo data, 0) })"

definition ofl_msg_unpack_role_request ::
    "'x ofl_ext \<Rightarrow> bytes \<Rightarrow> size_t \<Rightarrow> ('x ofl_body \<times> size_t) parsed" where
  "ofl_msg_unpack_role_request X buf len =
    (if len < sz ofp_role_request then fail BAD_LEN
     else let len = len - sz ofp_role_request in do {
       role \<leftarrow> get32 (offsetof ofp_role_request ''role'') buf;
       generation_id \<leftarrow> get64 (offsetof ofp_role_request ''generation_id'') buf;
       ok (Msg_role (ntohl role) (ntoh64 X generation_id), len) })"

text \<open>A short features reply is logged and then read all the same.\<close>

definition ofl_msg_unpack_features_reply ::
    "'x ofl_ext \<Rightarrow> bytes \<Rightarrow> size_t \<Rightarrow> ('x ofl_body \<times> size_t) parsed" where
  "ofl_msg_unpack_features_reply X buf len =
    (let len = len - sz ofp_switch_features in do {
       datapath_id \<leftarrow> get64 (offsetof ofp_switch_features ''datapath_id'') buf;
       n_buffers \<leftarrow> get32 (offsetof ofp_switch_features ''n_buffers'') buf;
       n_tables \<leftarrow> get8 (offsetof ofp_switch_features ''n_tables'') buf;
       auxiliary_id \<leftarrow> get8 (offsetof ofp_switch_features ''auxiliary_id'') buf;
       capabilities \<leftarrow> get32 (offsetof ofp_switch_features ''capabilities'') buf;
       ok (Msg_features_reply
             \<lparr> fe_datapath_id = ntoh64 X datapath_id, fe_n_buffers = ntohl n_buffers,
               fe_n_tables = n_tables, fe_auxiliary_id = auxiliary_id,
               fe_capabilities = ntohl capabilities \<rparr>, len) })"

definition ofl_msg_unpack_get_config_reply ::
    "bytes \<Rightarrow> size_t \<Rightarrow> ('x ofl_body \<times> size_t) parsed" where
  "ofl_msg_unpack_get_config_reply buf len =
    (if len < sz ofp_switch_config then fail BAD_LEN
     else let len = len - sz ofp_switch_config in do {
       miss_send_len \<leftarrow> get16 (offsetof ofp_switch_config ''miss_send_len'') buf;
       flags \<leftarrow> get16 (offsetof ofp_switch_config ''flags'') buf;
       ok (Msg_get_config_reply (ntohs flags) (ntohs miss_send_len), len) })"

definition ofl_msg_unpack_set_config :: "bytes \<Rightarrow> size_t \<Rightarrow> ('x ofl_body \<times> size_t) parsed" where
  "ofl_msg_unpack_set_config buf len =
    (if len < sz ofp_switch_config then fail BAD_LEN
     else let len = len - sz ofp_switch_config in do {
       miss_send_len \<leftarrow> get16 (offsetof ofp_switch_config ''miss_send_len'') buf;
       flags \<leftarrow> get16 (offsetof ofp_switch_config ''flags'') buf;
       ok (Msg_set_config (ntohs flags) (ntohs miss_send_len), len) })"

fun get_array32 :: "(u32 \<Rightarrow> u32) \<Rightarrow> nat \<Rightarrow> nat \<Rightarrow> bytes \<Rightarrow> u32 list option" where
  "get_array32 conv 0 off bs = Some []"
| "get_array32 conv (Suc n) off bs =
     do { w \<leftarrow> get32 off bs; ws \<leftarrow> get_array32 conv n (off + 4) bs; Some (conv w # ws) }"

text \<open>The masks are read in host order, as they are written.\<close>

definition ofl_msg_unpack_async_config :: "bytes \<Rightarrow> size_t \<Rightarrow> ('x ofl_body \<times> size_t) parsed" where
  "ofl_msg_unpack_async_config buf len =
    (if len < sz ofp_async_config then fail BAD_LEN
     else let len = len - sz ofp_async_config in do {
       packet_in \<leftarrow> get_array32 id 2 (offsetof ofp_async_config ''packet_in_mask'') buf;
       port_status \<leftarrow> get_array32 id 2 (offsetof ofp_async_config ''port_status_mask'') buf;
       flow_removed \<leftarrow> get_array32 id 2 (offsetof ofp_async_config ''flow_removed_mask'') buf;
       ok (Msg_async_config packet_in port_status flow_removed, len) })"

text \<open>
  The error of \<open>ofl_structs_match_unpack\<close> is not looked at: after a failure \<open>dp->match\<close> is an
  indeterminate pointer, which the next line dereferences.
\<close>

definition ofl_msg_unpack_packet_in ::
    "'x ofl_ext \<Rightarrow> bytes \<Rightarrow> size_t \<Rightarrow> ('x ofl_body \<times> size_t) parsed" where
  "ofl_msg_unpack_packet_in X buf len =
    (if len < sz ofp_packet_in then fail BAD_LEN
     else do {
       table_id \<leftarrow> get8 (offsetof ofp_packet_in ''table_id'') buf;
       if table_id = 0xff then fail (ofl_error OFPET_BAD_REQUEST OFPBAC_BAD_ARGUMENT)
       else let len = len - (sz ofp_packet_in - sz ofp_match) in do {
         buffer_id \<leftarrow> get32 (offsetof ofp_packet_in ''buffer_id'') buf;
         total_len \<leftarrow> get16 (offsetof ofp_packet_in ''total_len'') buf;
         reason \<leftarrow> get8 (offsetof ofp_packet_in ''reason'') buf;
         cookie \<leftarrow> get64 (offsetof ofp_packet_in ''cookie'') buf;
         r \<leftarrow> match_unpack X buf (offsetof ofp_packet_in ''match'') (sizeof ofp_packet_in - 4) len;
         (case r of
            Inl _ \<Rightarrow> None
          | Inr (m, len) \<Rightarrow>
              let ptr = nat (ROUND_UP X (int (sizeof ofp_packet_in) - 4 + uint (match_length X m)) 8) + 2;
                  len = len - 2
              in do {
                data \<leftarrow> copy_data ptr len buf;
                ok (Msg_packet_in
                      \<lparr> pin_buffer_id = ntohl buffer_id, pin_total_len = ntohs total_len,
                        pin_reason = reason, pin_table_id = table_id,
                        pin_cookie = ntoh64 X cookie, pin_match = m, pin_data = data \<rparr>, 0) }) } })"

definition ofl_msg_unpack_flow_removed ::
    "'x ofl_ext \<Rightarrow> bytes \<Rightarrow> size_t \<Rightarrow> ('x ofl_body \<times> size_t) parsed" where
  "ofl_msg_unpack_flow_removed X buf len =
    (if len < sz ofp_flow_removed - sz ofp_match then fail OFL_ERROR
     else do {
       table_id \<leftarrow> get8 (offsetof ofp_flow_removed ''table_id'') buf;
       if table_id = 0xff then fail (ofl_error OFPET_BAD_REQUEST OFPBAC_BAD_ARGUMENT)
       else let len = len - (sz ofp_flow_removed - sz ofp_match) in do {
         reason \<leftarrow> get8 (offsetof ofp_flow_removed ''reason'') buf;
         duration_sec \<leftarrow> get32 (offsetof ofp_flow_removed ''duration_sec'') buf;
         duration_nsec \<leftarrow> get32 (offsetof ofp_flow_removed ''duration_nsec'') buf;
         priority \<leftarrow> get16 (offsetof ofp_flow_removed ''priority'') buf;
         idle_timeout \<leftarrow> get16 (offsetof ofp_flow_removed ''idle_timeout'') buf;
         cookie \<leftarrow> get64 (offsetof ofp_flow_removed ''cookie'') buf;
         packet_count \<leftarrow> get64 (offsetof ofp_flow_removed ''packet_count'') buf;
         byte_count \<leftarrow> get64 (offsetof ofp_flow_removed ''byte_count'') buf;
         r \<leftarrow> match_unpack X buf (offsetof ofp_flow_removed ''match'') (sizeof ofp_flow_removed - 4) len;
         (case r of
            Inl e \<Rightarrow> fail e
          | Inr (m, len) \<Rightarrow>
              ok (Msg_flow_removed
                    \<lparr> fr_reason = reason, fr_table_id = table_id,
                      fr_duration_sec = ntohl duration_sec, fr_duration_nsec = ntohl duration_nsec,
                      fr_priority = take_bit (priority_bits X) (ntoh64 X (ucast priority)),
                      fr_idle_timeout = ntohs idle_timeout, fr_hard_timeout = 0,
                      fr_cookie = ntoh64 X cookie, fr_packet_count = ntoh64 X packet_count,
                      fr_byte_count = ntoh64 X byte_count, fr_match = m \<rparr>, len)) } })"

definition ofl_msg_unpack_port_status ::
    "'x ofl_ext \<Rightarrow> bytes \<Rightarrow> size_t \<Rightarrow> ('x ofl_body \<times> size_t) parsed" where
  "ofl_msg_unpack_port_status X buf len =
    (if len < sz ofp_port_status then fail BAD_LEN
     else let len = len - (sz ofp_port_status - sz ofp_port) in do {
       reason \<leftarrow> get8 (offsetof ofp_port_status ''reason'') buf;
       bind_err (e_unpack (x_port X) buf (offsetof ofp_port_status ''desc'') len)
         (\<lambda>(desc, len). ok (Msg_port_status reason desc, len)) })"

definition ofl_msg_unpack_port_mod :: "bytes \<Rightarrow> size_t \<Rightarrow> ('x ofl_body \<times> size_t) parsed" where
  "ofl_msg_unpack_port_mod buf len =
    (if len < sz ofp_port_mod then fail BAD_LEN
     else let len = len - sz ofp_port_mod in do {
       port_no \<leftarrow> get32 (offsetof ofp_port_mod ''port_no'') buf;
       hw_addr \<leftarrow> get_bytes (offsetof ofp_port_mod ''hw_addr'') OFP_ETH_ALEN buf;
       config \<leftarrow> get32 (offsetof ofp_port_mod ''config'') buf;
       mask \<leftarrow> get32 (offsetof ofp_port_mod ''mask'') buf;
       advertise \<leftarrow> get32 (offsetof ofp_port_mod ''advertise'') buf;
       ok (Msg_port_mod \<lparr> pm_port_no = ntohl port_no, pm_hw_addr = hw_addr, pm_config = ntohl config,
                          pm_mask = ntohl mask, pm_advertise = ntohl advertise \<rparr>, len) })"

definition ofl_msg_unpack_table_mod :: "bytes \<Rightarrow> size_t \<Rightarrow> ('x ofl_body \<times> size_t) parsed" where
  "ofl_msg_unpack_table_mod buf len =
    (if len < sz ofp_table_mod then fail BAD_LEN
     else let len = len - sz ofp_table_mod in do {
       table_id \<leftarrow> get8 (offsetof ofp_table_mod ''table_id'') buf;
       config \<leftarrow> get32 (offsetof ofp_table_mod ''config'') buf;
       ok (Msg_table_mod table_id (ntohl config), len) })"

text \<open>The length is compared with the size of another structure, which is shorter.\<close>

definition ofl_msg_unpack_queue_get_config_request ::
    "bytes \<Rightarrow> size_t \<Rightarrow> ('x ofl_body \<times> size_t) parsed" where
  "ofl_msg_unpack_queue_get_config_request buf len =
    (if len < sz ofp_group_desc_stats then fail BAD_LEN
     else do {
       port \<leftarrow> get32 (offsetof ofp_queue_get_config_request ''port'') buf;
       if ntohl port = 0 \<or> ntohl port > OFPP_MAX
       then fail (ofl_error OFPET_QUEUE_OP_FAILED OFPQOFC_BAD_PORT)
       else ok (Msg_queue_get_config_request (ntohl port), len - sz ofp_queue_get_config_request) })"

definition ofl_msg_unpack_empty :: "bytes \<Rightarrow> size_t \<Rightarrow> ('x ofl_body \<times> size_t) parsed" where
  "ofl_msg_unpack_empty buf len = ok (Msg_header, len - sz ofp_header)"

section \<open>Messages with repeated elements\<close>

text \<open>
  The loop over a counted array of elements. \<open>stride\<close> is how far the pointer moves: by the size of
  the element, or by the length member \<open>x\<close> of the element just unpacked. On an error the elements
  so far are freed and the error is returned.
\<close>

definition by_size :: "ctype \<Rightarrow> bytes \<Rightarrow> nat \<Rightarrow> nat option" where
  "by_size t buf pos = Some (sizeof t)"

definition by_len :: "ctype \<Rightarrow> string \<Rightarrow> bytes \<Rightarrow> nat \<Rightarrow> nat option" where
  "by_len t x buf pos = map_option (\<lambda>n. unat (ntohs n)) (get16 (pos + offsetof t x) buf)"

fun unpack_loop ::
    "(bytes \<Rightarrow> nat \<Rightarrow> size_t \<Rightarrow> ('a \<times> size_t) parsed) \<Rightarrow> (bytes \<Rightarrow> nat \<Rightarrow> nat option) \<Rightarrow> nat \<Rightarrow>
     bytes \<Rightarrow> nat \<Rightarrow> size_t \<Rightarrow> ('a list \<times> size_t) parsed" where
  "unpack_loop unpack stride 0 buf pos len = ok ([], len)"
| "unpack_loop unpack stride (Suc n) buf pos len =
     bind_err (unpack buf pos len) (\<lambda>(x, len).
       do { d \<leftarrow> stride buf pos;
            bind_err (unpack_loop unpack stride n buf (pos + d) len)
              (\<lambda>(xs, len). ok (x # xs, len)) })"

definition unpack_elems ::
    "'x ofl_elem \<Rightarrow> (bytes \<Rightarrow> nat \<Rightarrow> nat option) \<Rightarrow> bytes \<Rightarrow> nat \<Rightarrow> size_t \<Rightarrow>
     ('x list \<times> size_t) parsed" where
  "unpack_elems E stride buf pos len =
     bind_err (e_count E buf pos len) (\<lambda>n. unpack_loop (e_unpack E) stride n buf pos len)"

text \<open>
  The loop over the actions of a packet-out does not return when an action is bad: it frees the
  message and goes on with it, so that the outcome is undefined.
\<close>

fun unpack_actions ::
    "'x ofl_ext \<Rightarrow> nat \<Rightarrow> bytes \<Rightarrow> nat \<Rightarrow> size_t \<Rightarrow> ('x ofl_action list \<times> size_t) option" where
  "unpack_actions X 0 buf act len = Some ([], len)"
| "unpack_actions X (Suc n) buf act len =
     do { r \<leftarrow> action_unpack X buf act len;
          (case r of
             Inl _ \<Rightarrow> None
           | Inr (a, len) \<Rightarrow>
               do { d \<leftarrow> by_len ofp_action_header ''len'' buf act;
                    (as, len) \<leftarrow> unpack_actions X n buf (act + d) len;
                    Some (a # as, len) }) }"

text \<open>\<open>in_port\<close> is not assigned.\<close>

definition ofl_msg_unpack_packet_out ::
    "'x ofl_ext \<Rightarrow> bytes \<Rightarrow> size_t \<Rightarrow> ('x ofl_body \<times> size_t) parsed" where
  "ofl_msg_unpack_packet_out X buf len =
    (if len < sz ofp_packet_out then fail BAD_LEN
     else do {
       buffer_id \<leftarrow> get32 (offsetof ofp_packet_out ''buffer_id'') buf;
       actions_len \<leftarrow> get16 (offsetof ofp_packet_out ''actions_len'') buf;
       let actions_len = (ucast (ntohs actions_len) :: size_t);
       if ntohl buffer_id \<noteq> 0xffffffff \<and> len \<noteq> sz ofp_packet_out + actions_len then fail BAD_LEN
       else let len = len - sz ofp_packet_out in
         if len < actions_len then fail BAD_LEN
         else
           bind_err (count_actions X buf (offsetof ofp_packet_out ''actions'') actions_len) (\<lambda>n.
             do { (actions, len) \<leftarrow> unpack_actions X n buf (offsetof ofp_packet_out ''actions'') len;
                  data \<leftarrow> copy_data (offsetof ofp_packet_out ''actions'' + unat actions_len) len buf;
                  ok (Msg_packet_out (ntohl buffer_id) None actions data, 0) }) })"

definition ofl_msg_unpack_flow_mod ::
    "'x ofl_ext \<Rightarrow> bytes \<Rightarrow> size_t \<Rightarrow> ('x ofl_body \<times> size_t) parsed" where
  "ofl_msg_unpack_flow_mod X buf len =
    (if len < sz ofp_flow_mod - sz ofp_match then fail BAD_LEN
     else let len = len - (sz ofp_flow_mod - sz ofp_match); match_pos = sizeof ofp_flow_mod - 4 in do {
       cookie \<leftarrow> get64 (offsetof ofp_flow_mod ''cookie'') buf;
       cookie_mask \<leftarrow> get64 (offsetof ofp_flow_mod ''cookie_mask'') buf;
       table_id \<leftarrow> get8 (offsetof ofp_flow_mod ''table_id'') buf;
       command \<leftarrow> get8 (offsetof ofp_flow_mod ''command'') buf;
       idle_timeout \<leftarrow> get16 (offsetof ofp_flow_mod ''idle_timeout'') buf;
       hard_timeout \<leftarrow> get16 (offsetof ofp_flow_mod ''hard_timeout'') buf;
       priority \<leftarrow> get16 (offsetof ofp_flow_mod ''priority'') buf;
       buffer_id \<leftarrow> get32 (offsetof ofp_flow_mod ''buffer_id'') buf;
       out_port \<leftarrow> get32 (offsetof ofp_flow_mod ''out_port'') buf;
       out_group \<leftarrow> get32 (offsetof ofp_flow_mod ''out_group'') buf;
       flags \<leftarrow> get16 (offsetof ofp_flow_mod ''flags'') buf;
       bind_err (match_unpack X buf (offsetof ofp_flow_mod ''match'') match_pos len) (\<lambda>(m, len).
         let inst = nat (ROUND_UP X (int match_pos + uint (match_length X m)) 8) in
         bind_err (unpack_elems (x_instruction X) (by_len ofp_instruction ''len'') buf inst len)
           (\<lambda>(instructions, len).
             ok (Msg_flow_mod
                   \<lparr> fm_cookie = ntoh64 X cookie, fm_cookie_mask = ntoh64 X cookie_mask,
                     fm_table_id = table_id, fm_command = command,
                     fm_idle_timeout = ntohs idle_timeout, fm_hard_timeout = ntohs hard_timeout,
                     fm_priority = ntohs priority, fm_buffer_id = ntohl buffer_id,
                     fm_out_port = ntohl out_port, fm_out_group = ntohl out_group,
                     fm_flags = ntohs flags, fm_match = m, fm_instructions = instructions \<rparr>,
                 len))) })"

text \<open>\<open>ntohs(sm->type)\<close> swaps a member of one byte, promoted to 16 bits.\<close>

definition ofl_msg_unpack_group_mod ::
    "'x ofl_ext \<Rightarrow> bytes \<Rightarrow> size_t \<Rightarrow> ('x ofl_body \<times> size_t) parsed" where
  "ofl_msg_unpack_group_mod X buf len =
    (if len < sz ofp_group_mod then fail BAD_LEN
     else let len = len - sz ofp_group_mod in do {
       command \<leftarrow> get16 (offsetof ofp_group_mod ''command'') buf;
       type \<leftarrow> get8 (offsetof ofp_group_mod ''type'') buf;
       group_id \<leftarrow> get32 (offsetof ofp_group_mod ''group_id'') buf;
       if ntohs command > OFPGC_DELETE
       then fail (ofl_error OFPET_BAD_REQUEST OFPGMFC_BAD_COMMAND)
       else if ntohs (ucast type) > OFPGT_FF \<and> ntohs (ucast type) < 128
       then fail (ofl_error OFPET_BAD_REQUEST OFPGMFC_BAD_TYPE)
       else if ntohl group_id > OFPG_MAX \<and> \<not> (ntohs command = OFPGC_DELETE \<and> ntohl group_id = OFPG_ALL)
       then fail (ofl_error OFPET_GROUP_MOD_FAILED OFPGMFC_INVALID_GROUP)
       else let pos = offsetof ofp_group_mod ''buckets'' in
         bind_err (e_count (x_bucket X) buf pos len) (\<lambda>n.
           if ntohs command = OFPGC_DELETE \<and> n > 0
           then fail (ofl_error OFPET_GROUP_MOD_FAILED OFPGMFC_INVALID_GROUP)
           else if type = OFPGT_INDIRECT \<and> n \<noteq> 1
           then fail (ofl_error OFPET_GROUP_MOD_FAILED OFPGMFC_INVALID_GROUP)
           else bind_err (unpack_loop (bucket_unpack X type) (by_len ofp_bucket ''len'') n buf pos len)
             (\<lambda>(buckets, len). ok (Msg_group_mod (ntohs command) type (ntohl group_id) buckets, len))) })"

definition ofl_msg_unpack_meter_mod ::
    "'x ofl_ext \<Rightarrow> bytes \<Rightarrow> size_t \<Rightarrow> ('x ofl_body \<times> size_t) parsed" where
  "ofl_msg_unpack_meter_mod X buf len =
    (if len < sz ofp_meter_mod then fail BAD_LEN
     else let len = len - sz ofp_meter_mod in do {
       command \<leftarrow> get16 (offsetof ofp_meter_mod ''command'') buf;
       flags \<leftarrow> get16 (offsetof ofp_meter_mod ''flags'') buf;
       meter_id \<leftarrow> get32 (offsetof ofp_meter_mod ''meter_id'') buf;
       if ntohs command > OFPMC_DELETE
       then fail (ofl_error OFPET_BAD_REQUEST OFPMMFC_BAD_COMMAND)
       else if drop_bit 3 (ntohs flags) > 1
       then fail (ofl_error OFPET_BAD_REQUEST OFPMMFC_BAD_FLAGS)
       else if ntohl meter_id > OFPM_MAX \<and> \<not> (ntohs command = OFPMC_DELETE \<and> ntohl meter_id = OFPM_ALL)
       then fail (ofl_error OFPET_METER_MOD_FAILED OFPMMFC_INVALID_METER)
       else bind_err (unpack_elems (x_meter_band X) (by_len ofp_meter_band_header ''len'') buf
                        (offsetof ofp_meter_mod ''bands'') len)
         (\<lambda>(bands, len).
           ok (Msg_meter_mod (ntohs command) (ntohs flags) (ntohl meter_id) bands, len)) })"

definition ofl_msg_unpack_queue_get_config_reply ::
    "'x ofl_ext \<Rightarrow> bytes \<Rightarrow> size_t \<Rightarrow> ('x ofl_body \<times> size_t) parsed" where
  "ofl_msg_unpack_queue_get_config_reply X buf len =
    (if len < sz ofp_queue_get_config_reply then fail BAD_LEN
     else let len = len - sz ofp_queue_get_config_reply in do {
       port \<leftarrow> get32 (offsetof ofp_queue_get_config_reply ''port'') buf;
       bind_err (unpack_elems (x_packet_queue X) (by_len ofp_packet_queue ''len'') buf
                   (offsetof ofp_queue_get_config_reply ''queues'') len)
         (\<lambda>(queues, len). ok (Msg_queue_get_config_reply (ntohl port) queues, len)) })"

section \<open>Multipart requests\<close>

definition ofl_msg_unpack_multipart_request_flow ::
    "'x ofl_ext \<Rightarrow> bytes \<Rightarrow> size_t \<Rightarrow> ('x mp_request \<times> size_t) parsed" where
  "ofl_msg_unpack_multipart_request_flow X buf len =
    (if len < sz ofp_flow_stats_request - sz ofp_match then fail BAD_LEN
     else let len = len - (sz ofp_flow_stats_request - sz ofp_match) in do {
       table_id \<leftarrow> get8 (mp_body ofp_flow_stats_request ''table_id'') buf;
       out_port \<leftarrow> get32 (mp_body ofp_flow_stats_request ''out_port'') buf;
       out_group \<leftarrow> get32 (mp_body ofp_flow_stats_request ''out_group'') buf;
       cookie \<leftarrow> get64 (mp_body ofp_flow_stats_request ''cookie'') buf;
       cookie_mask \<leftarrow> get64 (mp_body ofp_flow_stats_request ''cookie_mask'') buf;
       bind_err (match_unpack X buf (mp_body ofp_flow_stats_request ''match'')
                   (sizeof ofp_multipart_request + sizeof ofp_flow_stats_request - 4) len)
         (\<lambda>(m, len).
           ok (Req_flow \<lparr> rq_table_id = table_id, rq_out_port = ntohl out_port,
                          rq_out_group = ntohl out_group, rq_cookie = ntoh64 X cookie,
                          rq_cookie_mask = ntoh64 X cookie_mask, rq_match = m \<rparr>, len)) })"

text \<open>A port number is refused when it is zero or reserved, except \<open>OFPP_ANY\<close>.\<close>

definition bad_stats_port :: "u32 \<Rightarrow> bool" where
  "bad_stats_port p \<longleftrightarrow> p = 0 \<or> (p > OFPP_MAX \<and> p \<noteq> OFPP_ANY)"

definition ofl_msg_unpack_multipart_request_port ::
    "bytes \<Rightarrow> size_t \<Rightarrow> ('x mp_request \<times> size_t) parsed" where
  "ofl_msg_unpack_multipart_request_port buf len =
    (if len < sz ofp_port_stats_request then fail BAD_LEN
     else do {
       port_no \<leftarrow> get32 (mp_body ofp_port_stats_request ''port_no'') buf;
       if bad_stats_port (ntohl port_no) then fail BAD_LEN
       else ok (Req_port (ntohl port_no), len - sz ofp_port_stats_request) })"

text \<open>\<open>len -= sizeof(...)\<close> moves the pointer \<open>len\<close>, not the length it points to.\<close>

definition ofl_msg_unpack_multipart_request_empty ::
    "bytes \<Rightarrow> size_t \<Rightarrow> ('x mp_request \<times> size_t) parsed" where
  "ofl_msg_unpack_multipart_request_empty buf len = ok (Req_empty, len)"

text \<open>The errors of the table features are not looked at.\<close>

fun table_features_loop ::
    "'x ofl_ext \<Rightarrow> nat \<Rightarrow> bytes \<Rightarrow> nat \<Rightarrow> size_t \<Rightarrow> ('x option list \<times> size_t) option" where
  "table_features_loop X 0 buf pos len = Some ([], len)"
| "table_features_loop X (Suc n) buf pos len =
     do { (f, len) \<leftarrow> table_features_unpack X buf pos len;
          d \<leftarrow> by_len ofp_table_features ''length'' buf pos;
          (fs, len) \<leftarrow> table_features_loop X n buf (pos + d) len;
          Some (f # fs, len) }"

definition ofl_msg_unpack_multipart_request_table_features ::
    "'x ofl_ext \<Rightarrow> bytes \<Rightarrow> size_t \<Rightarrow> ('x mp_request \<times> size_t) parsed" where
  "ofl_msg_unpack_multipart_request_table_features X buf len =
    (if len = 0 then ok (Req_table_features [], len)
     else let pos = offsetof ofp_multipart_request ''body'' in
       bind_err (e_count (x_table_features X) buf pos len) (\<lambda>n.
         do { (fs, len) \<leftarrow> table_features_loop X n buf pos len;
              ok (Req_table_features fs, len) }))"

definition ofl_msg_unpack_multipart_request_queue ::
    "bytes \<Rightarrow> size_t \<Rightarrow> ('x mp_request \<times> size_t) parsed" where
  "ofl_msg_unpack_multipart_request_queue buf len =
    (if len < sz ofp_queue_stats_request then fail BAD_LEN
     else do {
       port_no \<leftarrow> get32 (mp_body ofp_queue_stats_request ''port_no'') buf;
       if bad_stats_port (ntohl port_no) then fail BAD_LEN
       else do {
         queue_id \<leftarrow> get32 (mp_body ofp_queue_stats_request ''queue_id'') buf;
         ok (Req_queue (ntohl port_no) (ntohl queue_id), len - sz ofp_queue_stats_request) } })"

definition ofl_msg_unpack_multipart_request_group ::
    "bytes \<Rightarrow> size_t \<Rightarrow> ('x mp_request \<times> size_t) parsed" where
  "ofl_msg_unpack_multipart_request_group buf len =
    (if len < sz ofp_group_stats_request then fail BAD_LEN
     else do {
       group_id \<leftarrow> get32 (mp_body ofp_group_stats_request ''group_id'') buf;
       ok (Req_group (ntohl group_id), len - sz ofp_group_stats_request) })"

definition ofl_msg_unpack_meter_multipart_request ::
    "bytes \<Rightarrow> size_t \<Rightarrow> ('x mp_request \<times> size_t) parsed" where
  "ofl_msg_unpack_meter_multipart_request buf len =
    (if len < sz ofp_meter_multipart_request then fail BAD_LEN
     else do {
       meter_id \<leftarrow> get32 (mp_body ofp_meter_multipart_request ''meter_id'') buf;
       ok (Req_meter (ntohl meter_id), len - sz ofp_meter_multipart_request) })"

text \<open>
  The switch on the type of a request. The experimenter branch tests the \<open>reply_unpack\<close> callback
  and calls \<open>req_unpack\<close>.
\<close>

abbreviation BAD_MULTIPART :: ofl_err where
  "BAD_MULTIPART \<equiv> ofl_error OFPET_BAD_REQUEST OFPBRC_BAD_MULTIPART"

definition unpack_request_switch ::
    "'x ofl_ext \<Rightarrow> u16 \<Rightarrow> bytes \<Rightarrow> size_t \<Rightarrow> ('x mp_request \<times> size_t) parsed" where
  "unpack_request_switch X type buf len =
    (case ofp_multipart_types_of (unat type) of
       None \<Rightarrow> fail BAD_MULTIPART
     | Some OFPMP_DESC \<Rightarrow> ofl_msg_unpack_multipart_request_empty buf len
     | Some OFPMP_FLOW \<Rightarrow> ofl_msg_unpack_multipart_request_flow X buf len
     | Some OFPMP_AGGREGATE \<Rightarrow> ofl_msg_unpack_multipart_request_flow X buf len
     | Some OFPMP_TABLE \<Rightarrow> ofl_msg_unpack_multipart_request_empty buf len
     | Some OFPMP_TABLE_FEATURES \<Rightarrow> ofl_msg_unpack_multipart_request_table_features X buf len
     | Some OFPMP_PORT_STATS \<Rightarrow> ofl_msg_unpack_multipart_request_port buf len
     | Some OFPMP_QUEUE \<Rightarrow> ofl_msg_unpack_multipart_request_queue buf len
     | Some OFPMP_GROUP \<Rightarrow> ofl_msg_unpack_multipart_request_group buf len
     | Some OFPMP_GROUP_DESC \<Rightarrow> ofl_msg_unpack_multipart_request_empty buf len
     | Some OFPMP_GROUP_FEATURES \<Rightarrow> ofl_msg_unpack_multipart_request_empty buf len
     | Some OFPMP_METER \<Rightarrow> ofl_msg_unpack_meter_multipart_request buf len
     | Some OFPMP_METER_CONFIG \<Rightarrow> ofl_msg_unpack_meter_multipart_request buf len
     | Some OFPMP_METER_FEATURES \<Rightarrow> fail BAD_MULTIPART
     | Some OFPMP_PORT_DESC \<Rightarrow> ofl_msg_unpack_multipart_request_empty buf len
     | Some OFPMP_EXPERIMENTER \<Rightarrow>
         (if exp_stats_reply_unpack X = None then fail BAD_MULTIPART
          else do { unpack \<leftarrow> exp_stats_req_unpack X;
                    bind_err (unpack buf len) (\<lambda>(x, len). ok (Req_experimenter x, len)) }))"

definition ofl_msg_unpack_multipart_request ::
    "'x ofl_ext \<Rightarrow> bytes \<Rightarrow> size_t \<Rightarrow> ('x ofl_body \<times> size_t) parsed" where
  "ofl_msg_unpack_multipart_request X buf len =
    (if len < sz ofp_multipart_request then fail BAD_LEN
     else let len = len - sz ofp_multipart_request in do {
       type \<leftarrow> get16 (offsetof ofp_multipart_request ''type'') buf;
       bind_err (unpack_request_switch X (ntohs type) buf len) (\<lambda>(body, len).
         do { flags \<leftarrow> get16 (offsetof ofp_multipart_request ''flags'') buf;
              ok (Msg_mp_request (ucast (ntohs type)) (ntohs flags) body, len) }) })"

section \<open>Multipart replies\<close>

text \<open>\<open>strcpy(malloc(strlen(s) + 1), s)\<close>: the bytes up to the first zero, wherever it is, and the zero.\<close>

definition copy_string :: "nat \<Rightarrow> bytes \<Rightarrow> bytes option" where
  "copy_string off buf =
    (let tail = drop off buf; s = takeWhile (\<lambda>c. c \<noteq> 0) tail
     in if length s < length tail then Some (s @ [0]) else None)"

definition ofl_msg_unpack_reply_desc :: "bytes \<Rightarrow> size_t \<Rightarrow> ('x mp_reply \<times> size_t) parsed" where
  "ofl_msg_unpack_reply_desc buf len =
    (if len < sz ofp_desc then fail BAD_LEN
     else let len = len - sz ofp_desc in do {
       mfr_desc \<leftarrow> copy_string (rep_body ofp_desc ''mfr_desc'') buf;
       hw_desc \<leftarrow> copy_string (rep_body ofp_desc ''hw_desc'') buf;
       sw_desc \<leftarrow> copy_string (rep_body ofp_desc ''sw_desc'') buf;
       serial_num \<leftarrow> copy_string (rep_body ofp_desc ''serial_num'') buf;
       dp_desc \<leftarrow> copy_string (rep_body ofp_desc ''dp_desc'') buf;
       ok (Rep_desc \<lparr> de_mfr_desc = mfr_desc, de_hw_desc = hw_desc, de_sw_desc = sw_desc,
                      de_serial_num = serial_num, de_dp_desc = dp_desc \<rparr>, len) })"

text \<open>
  Besides the structure on the wire, unpacking a flow statistics entry gets the pointer \<open>ptr\<close>,
  which moves by the bytes the entry before it consumed.
\<close>

fun flow_stats_loop ::
    "'x ofl_ext \<Rightarrow> nat \<Rightarrow> bytes \<Rightarrow> nat \<Rightarrow> nat \<Rightarrow> size_t \<Rightarrow> ('x list \<times> size_t) parsed" where
  "flow_stats_loop X 0 buf stat ptr len = ok ([], len)"
| "flow_stats_loop X (Suc n) buf stat ptr ini_len =
     bind_err (flow_stats_unpack X buf stat ptr ini_len) (\<lambda>(x, len).
       do { d \<leftarrow> by_len ofp_flow_stats ''length'' buf stat;
            bind_err (flow_stats_loop X n buf (stat + d) (ptr + unat (ini_len - len)) len)
              (\<lambda>(xs, len). ok (x # xs, len)) })"

definition ofl_msg_unpack_multipart_reply_flow ::
    "'x ofl_ext \<Rightarrow> bytes \<Rightarrow> size_t \<Rightarrow> ('x mp_reply \<times> size_t) parsed" where
  "ofl_msg_unpack_multipart_reply_flow X buf len =
    (let stat = offsetof ofp_multipart_reply ''body'' in
     bind_err (e_count (x_flow_stats X) buf stat len) (\<lambda>n.
       bind_err (flow_stats_loop X n buf stat (sizeof ofp_multipart_reply) len)
         (\<lambda>(stats, len). ok (Rep_flow stats, len))))"

definition ofl_msg_unpack_multipart_reply_aggregate ::
    "'x ofl_ext \<Rightarrow> bytes \<Rightarrow> size_t \<Rightarrow> ('x mp_reply \<times> size_t) parsed" where
  "ofl_msg_unpack_multipart_reply_aggregate X buf len =
    (if len < sz ofp_aggregate_stats_reply then fail BAD_LEN
     else let len = len - sz ofp_aggregate_stats_reply in do {
       packet_count \<leftarrow> get64 (rep_body ofp_aggregate_stats_reply ''packet_count'') buf;
       byte_count \<leftarrow> get64 (rep_body ofp_aggregate_stats_reply ''byte_count'') buf;
       flow_count \<leftarrow> get32 (rep_body ofp_aggregate_stats_reply ''flow_count'') buf;
       ok (Rep_aggregate (ntoh64 X packet_count) (ntoh64 X byte_count) (ntohl flow_count), len) })"

definition ofl_msg_unpack_multipart_reply_table ::
    "'x ofl_ext \<Rightarrow> bytes \<Rightarrow> size_t \<Rightarrow> ('x mp_reply \<times> size_t) parsed" where
  "ofl_msg_unpack_multipart_reply_table X buf len =
     bind_err (unpack_elems (x_table_stats X) (by_size ofp_table_stats) buf (offsetof ofp_multipart_reply ''body'') len)
       (\<lambda>(stats, len). ok (Rep_table stats, len))"

definition ofl_msg_unpack_multipart_reply_port ::
    "'x ofl_ext \<Rightarrow> bytes \<Rightarrow> size_t \<Rightarrow> ('x mp_reply \<times> size_t) parsed" where
  "ofl_msg_unpack_multipart_reply_port X buf len =
     bind_err (unpack_elems (x_port_stats X) (by_size ofp_port_stats) buf (offsetof ofp_multipart_reply ''body'') len)
       (\<lambda>(stats, len). ok (Rep_port stats, len))"

definition ofl_msg_unpack_multipart_reply_queue ::
    "'x ofl_ext \<Rightarrow> bytes \<Rightarrow> size_t \<Rightarrow> ('x mp_reply \<times> size_t) parsed" where
  "ofl_msg_unpack_multipart_reply_queue X buf len =
     bind_err (unpack_elems (x_queue_stats X) (by_size ofp_queue_stats) buf (offsetof ofp_multipart_reply ''body'') len)
       (\<lambda>(stats, len). ok (Rep_queue stats, len))"

definition ofl_msg_unpack_multipart_reply_group ::
    "'x ofl_ext \<Rightarrow> bytes \<Rightarrow> size_t \<Rightarrow> ('x mp_reply \<times> size_t) parsed" where
  "ofl_msg_unpack_multipart_reply_group X buf len =
     bind_err (unpack_elems (x_group_stats X) (by_len ofp_group_stats ''length'') buf (offsetof ofp_multipart_reply ''body'') len)
       (\<lambda>(stats, len). ok (Rep_group stats, len))"

definition ofl_msg_unpack_multipart_reply_group_desc ::
    "'x ofl_ext \<Rightarrow> bytes \<Rightarrow> size_t \<Rightarrow> ('x mp_reply \<times> size_t) parsed" where
  "ofl_msg_unpack_multipart_reply_group_desc X buf len =
     bind_err (unpack_elems (x_group_desc_stats X) (by_len ofp_group_desc_stats ''length'') buf (offsetof ofp_multipart_reply ''body'') len)
       (\<lambda>(stats, len). ok (Rep_group_desc stats, len))"

definition ofl_msg_unpack_multipart_reply_group_features ::
    "bytes \<Rightarrow> size_t \<Rightarrow> ('x mp_reply \<times> size_t) parsed" where
  "ofl_msg_unpack_multipart_reply_group_features buf len =
    (if len < sz ofp_group_features_stats then fail BAD_LEN
     else let len = len - sz ofp_group_features_stats in do {
       types \<leftarrow> get32 (rep_body ofp_group_features_stats ''types'') buf;
       capabilities \<leftarrow> get32 (rep_body ofp_group_features_stats ''capabilities'') buf;
       max_groups \<leftarrow> get_array32 ntohl 4 (rep_body ofp_group_features_stats ''max_groups'') buf;
       actions \<leftarrow> get_array32 ntohl 4 (rep_body ofp_group_features_stats ''actions'') buf;
       ok (Rep_group_features (ntohl types) (ntohl capabilities) max_groups actions, len) })"

definition ofl_msg_unpack_multipart_reply_table_features ::
    "'x ofl_ext \<Rightarrow> bytes \<Rightarrow> size_t \<Rightarrow> ('x mp_reply \<times> size_t) parsed" where
  "ofl_msg_unpack_multipart_reply_table_features X buf len =
    (let pos = offsetof ofp_multipart_reply ''body'' in
     bind_err (e_count (x_table_features X) buf pos len) (\<lambda>n.
       do { (fs, len) \<leftarrow> table_features_loop X n buf pos len;
            ok (Rep_table_features fs, len) }))"

definition ofl_msg_unpack_multipart_reply_meter_stats ::
    "'x ofl_ext \<Rightarrow> bytes \<Rightarrow> size_t \<Rightarrow> ('x mp_reply \<times> size_t) parsed" where
  "ofl_msg_unpack_multipart_reply_meter_stats X buf len =
     bind_err (unpack_elems (x_meter_stats X) (by_len ofp_meter_stats ''len'') buf (offsetof ofp_multipart_reply ''body'') len)
       (\<lambda>(stats, len). ok (Rep_meter stats, len))"

definition ofl_msg_unpack_multipart_reply_meter_config ::
    "'x ofl_ext \<Rightarrow> bytes \<Rightarrow> size_t \<Rightarrow> ('x mp_reply \<times> size_t) parsed" where
  "ofl_msg_unpack_multipart_reply_meter_config X buf len =
     bind_err (unpack_elems (x_meter_config X) (by_len ofp_meter_config ''length'') buf (offsetof ofp_multipart_reply ''body'') len)
       (\<lambda>(stats, len). ok (Rep_meter_conf stats, len))"

definition ofl_msg_unpack_multipart_reply_port_desc ::
    "'x ofl_ext \<Rightarrow> bytes \<Rightarrow> size_t \<Rightarrow> ('x mp_reply \<times> size_t) parsed" where
  "ofl_msg_unpack_multipart_reply_port_desc X buf len =
     bind_err (unpack_elems (x_port X) (by_size ofp_port) buf (offsetof ofp_multipart_reply ''body'') len)
       (\<lambda>(stats, len). ok (Rep_port_desc stats, len))"

definition unpack_reply_switch ::
    "'x ofl_ext \<Rightarrow> u16 \<Rightarrow> bytes \<Rightarrow> size_t \<Rightarrow> ('x mp_reply \<times> size_t) parsed" where
  "unpack_reply_switch X type buf len =
    (case ofp_multipart_types_of (unat type) of
       None \<Rightarrow> fail BAD_MULTIPART
     | Some OFPMP_DESC \<Rightarrow> ofl_msg_unpack_reply_desc buf len
     | Some OFPMP_FLOW \<Rightarrow> ofl_msg_unpack_multipart_reply_flow X buf len
     | Some OFPMP_AGGREGATE \<Rightarrow> ofl_msg_unpack_multipart_reply_aggregate X buf len
     | Some OFPMP_TABLE \<Rightarrow> ofl_msg_unpack_multipart_reply_table X buf len
     | Some OFPMP_TABLE_FEATURES \<Rightarrow> ofl_msg_unpack_multipart_reply_table_features X buf len
     | Some OFPMP_PORT_STATS \<Rightarrow> ofl_msg_unpack_multipart_reply_port X buf len
     | Some OFPMP_QUEUE \<Rightarrow> ofl_msg_unpack_multipart_reply_queue X buf len
     | Some OFPMP_GROUP \<Rightarrow> ofl_msg_unpack_multipart_reply_group X buf len
     | Some OFPMP_GROUP_DESC \<Rightarrow> ofl_msg_unpack_multipart_reply_group_desc X buf len
     | Some OFPMP_GROUP_FEATURES \<Rightarrow> ofl_msg_unpack_multipart_reply_group_features buf len
     | Some OFPMP_METER \<Rightarrow> ofl_msg_unpack_multipart_reply_meter_stats X buf len
     | Some OFPMP_METER_CONFIG \<Rightarrow> ofl_msg_unpack_multipart_reply_meter_config X buf len
     | Some OFPMP_PORT_DESC \<Rightarrow> ofl_msg_unpack_multipart_reply_port_desc X buf len
     | Some OFPMP_METER_FEATURES \<Rightarrow> fail BAD_MULTIPART
     | Some OFPMP_EXPERIMENTER \<Rightarrow>
         (case exp_stats_reply_unpack X of
            None \<Rightarrow> fail BAD_MULTIPART
          | Some unpack \<Rightarrow> bind_err (unpack buf len) (\<lambda>(x, len). ok (Rep_experimenter x, len))))"

definition ofl_msg_unpack_multipart_reply ::
    "'x ofl_ext \<Rightarrow> bytes \<Rightarrow> size_t \<Rightarrow> ('x ofl_body \<times> size_t) parsed" where
  "ofl_msg_unpack_multipart_reply X buf len =
    (if len < sz ofp_multipart_reply then fail BAD_LEN
     else let len = len - sz ofp_multipart_reply in do {
       type \<leftarrow> get16 (offsetof ofp_multipart_reply ''type'') buf;
       bind_err (unpack_reply_switch X (ntohs type) buf len) (\<lambda>(body, len).
         do { flags \<leftarrow> get16 (offsetof ofp_multipart_reply ''flags'') buf;
              ok (Msg_mp_reply (ucast (ntohs type)) (ntohs flags) body, len) }) })"

section \<open>Dispatch\<close>

definition unpack_switch ::
    "'x ofl_ext \<Rightarrow> u8 \<Rightarrow> bytes \<Rightarrow> size_t \<Rightarrow> ('x ofl_body \<times> size_t) parsed" where
  "unpack_switch X type buf len =
    (case ofp_type_of (unat type) of
       None \<Rightarrow> fail (ofl_error OFPET_BAD_REQUEST OFPGMFC_BAD_TYPE)
     | Some OFPT_HELLO \<Rightarrow> ofl_msg_unpack_empty buf len
     | Some OFPT_ERROR \<Rightarrow> ofl_msg_unpack_error buf len
     | Some OFPT_ECHO_REQUEST \<Rightarrow> ofl_msg_unpack_echo buf len
     | Some OFPT_ECHO_REPLY \<Rightarrow> ofl_msg_unpack_echo buf len
     | Some OFPT_EXPERIMENTER \<Rightarrow>
         (case exp_msg_unpack X of
            None \<Rightarrow> fail (ofl_error OFPET_BAD_REQUEST OFPBRC_BAD_EXPERIMENTER)
          | Some unpack \<Rightarrow> bind_err (unpack buf len) (\<lambda>(x, len). ok (Msg_experimenter x, len)))
     | Some OFPT_FEATURES_REQUEST \<Rightarrow> ofl_msg_unpack_empty buf len
     | Some OFPT_FEATURES_REPLY \<Rightarrow> ofl_msg_unpack_features_reply X buf len
     | Some OFPT_GET_CONFIG_REQUEST \<Rightarrow> ofl_msg_unpack_empty buf len
     | Some OFPT_GET_CONFIG_REPLY \<Rightarrow> ofl_msg_unpack_get_config_reply buf len
     | Some OFPT_SET_CONFIG \<Rightarrow> ofl_msg_unpack_set_config buf len
     | Some OFPT_PACKET_IN \<Rightarrow> ofl_msg_unpack_packet_in X buf len
     | Some OFPT_FLOW_REMOVED \<Rightarrow> ofl_msg_unpack_flow_removed X buf len
     | Some OFPT_PORT_STATUS \<Rightarrow> ofl_msg_unpack_port_status X buf len
     | Some OFPT_GET_ASYNC_REQUEST \<Rightarrow> ofl_msg_unpack_empty buf len
     | Some OFPT_GET_ASYNC_REPLY \<Rightarrow> ofl_msg_unpack_async_config buf len
     | Some OFPT_SET_ASYNC \<Rightarrow> ofl_msg_unpack_async_config buf len
     | Some OFPT_PACKET_OUT \<Rightarrow> ofl_msg_unpack_packet_out X buf len
     | Some OFPT_FLOW_MOD \<Rightarrow> ofl_msg_unpack_flow_mod X buf len
     | Some OFPT_GROUP_MOD \<Rightarrow> ofl_msg_unpack_group_mod X buf len
     | Some OFPT_PORT_MOD \<Rightarrow> ofl_msg_unpack_port_mod buf len
     | Some OFPT_TABLE_MOD \<Rightarrow> ofl_msg_unpack_table_mod buf len
     | Some OFPT_MULTIPART_REQUEST \<Rightarrow> ofl_msg_unpack_multipart_request X buf len
     | Some OFPT_MULTIPART_REPLY \<Rightarrow> ofl_msg_unpack_multipart_reply X buf len
     | Some OFPT_BARRIER_REQUEST \<Rightarrow> ofl_msg_unpack_empty buf len
     | Some OFPT_BARRIER_REPLY \<Rightarrow> ofl_msg_unpack_empty buf len
     | Some OFPT_ROLE_REQUEST \<Rightarrow> ofl_msg_unpack_role_request X buf len
     | Some OFPT_ROLE_REPLY \<Rightarrow> ofl_msg_unpack_role_request X buf len
     | Some OFPT_QUEUE_GET_CONFIG_REQUEST \<Rightarrow> ofl_msg_unpack_queue_get_config_request buf len
     | Some OFPT_QUEUE_GET_CONFIG_REPLY \<Rightarrow> ofl_msg_unpack_queue_get_config_reply X buf len
     | Some OFPT_METER_MOD \<Rightarrow> ofl_msg_unpack_meter_mod X buf len)"

text \<open>
  \<open>ofl_msg_unpack\<close>: \<open>buf_len\<close> is the length the caller claims, \<open>xid\<close> the variable behind the
  pointer (\<open>None\<close> for the null pointer). The result is the variable afterwards and the message or
  the error. Bytes left over behind the message (\<open>len \<noteq> 0\<close>) are only logged.
\<close>

definition ofl_msg_unpack ::
    "'x ofl_ext \<Rightarrow> bytes \<Rightarrow> size_t \<Rightarrow> u32 option \<Rightarrow> (u32 option \<times> (ofl_err + 'x ofl_msg)) option" where
  "ofl_msg_unpack X buf buf_len xid =
    (if buf_len < sz ofp_header then Some (map_option (\<lambda>_. 0) xid, Inl BAD_LEN)
     else do {
       version \<leftarrow> get8 (offsetof ofp_header ''version'') buf;
       if version \<noteq> OFP_VERSION
       then Some (xid, Inl (ofl_error OFPET_HELLO_FAILED OFPHFC_INCOMPATIBLE))
       else do {
         wire_xid \<leftarrow> get32 (offsetof ofp_header ''xid'') buf;
         let xid = map_option (\<lambda>_. ntohl wire_xid) xid;
         length \<leftarrow> get16 (offsetof ofp_header ''length'') buf;
         if buf_len \<noteq> ucast (ntohs length) then Some (xid, Inl BAD_LEN)
         else do {
           type \<leftarrow> get8 (offsetof ofp_header ''type'') buf;
           r \<leftarrow> unpack_switch X type buf buf_len;
           (case r of
              Inl e \<Rightarrow> Some (xid, Inl e)
            | Inr (body, _) \<Rightarrow> Some (xid, Inr (Ofl_msg (ucast type) body))) } } })"

end
