(* ===== verification/Codec.thy ===== *)
theory Codec
  imports CreateMsg ParseMsg Wire
begin

text \<open>
  The message codecs against the wire format of \<open>Wire\<close>. The locale \<open>packer\<close> is what
  \<open>ofl_msg_pack\<close> needs of the function that packs one kind of body: behind the header, which it
  leaves uninitialised, it writes the image of the body and nothing else. \<open>codec\<close> adds what
  \<open>ofl_msg_unpack\<close> needs of the function that unpacks it. Both are interpreted for every kind of
  body whose members the repository itself converts.
\<close>

section \<open>The interfaces\<close>

locale packer =
  fixes hlen :: nat
    and pack :: "heap \<Rightarrow> 'm \<Rightarrow> bytes option"
    and image :: "'m \<Rightarrow> bytes"
    and good :: "'m \<Rightarrow> bool"
  assumes pack_image: "good m \<Longrightarrow> hlen + length (image m) < 2 ^ 64 \<Longrightarrow>
      pack h m = (case h (of_nat (hlen + length (image m))) of
                    None \<Rightarrow> None
                  | Some junk \<Rightarrow> Some (map junk [0..<hlen] @ image m))"
begin

lemma pack_Some_iff:
  assumes "good m" "hlen + length (image m) < 2 ^ 64"
  shows "pack h m = Some bs \<longleftrightarrow>
    (\<exists>junk. h (of_nat (hlen + length (image m))) = Some junk \<and> bs = map junk [0..<hlen] @ image m)"
  using pack_image [OF assms, of h] by (auto simp del: bind_Some_iff split: option.splits)

lemma pack_length:
  "pack h m = Some bs \<Longrightarrow> good m \<Longrightarrow> hlen + length (image m) < 2 ^ 64 \<Longrightarrow>
     length bs = hlen + length (image m)"
  by (auto simp: pack_Some_iff)

lemma pack_body:
  "pack h m = Some bs \<Longrightarrow> good m \<Longrightarrow> hlen + length (image m) < 2 ^ 64 \<Longrightarrow> drop hlen bs = image m"
  by (auto simp: pack_Some_iff)

end

locale codec = packer hlen pack image good
  for hlen :: nat
    and pack :: "heap \<Rightarrow> 'm \<Rightarrow> bytes option"
    and image :: "'m \<Rightarrow> bytes"
    and good :: "'m \<Rightarrow> bool" +
  fixes used :: nat
    and unpack :: "bytes \<Rightarrow> size_t \<Rightarrow> ('b \<times> size_t) parsed"
    and body :: "'m \<Rightarrow> 'b"
    and sound :: "'m \<Rightarrow> bool"
  assumes used_le: "used \<le> hlen"
    and unpack_image: "sound m \<Longrightarrow> length hdr = hlen \<Longrightarrow> hlen + length (image m) < 2 ^ 64 \<Longrightarrow>
      unpack (hdr @ image m) (of_nat (hlen + length (image m) - used)) = ok (body m, 0)"
begin

text \<open>Whatever header is put in front, unpacking returns the body that was packed.\<close>

lemma unpack_pack:
  assumes "pack h m = Some bs" "good m" "sound m" "hlen + length (image m) < 2 ^ 64"
    and "length hdr = hlen"
  shows "unpack (hdr @ drop hlen bs) (of_nat (length bs - used)) = ok (body m, 0)"
  using assms by (simp add: pack_body pack_length unpack_image)

lemma image_inject:
  assumes "sound m" "sound m'" "hlen + length (image m) < 2 ^ 64" "image m = image m'"
  shows "body m = body m'"
proof -
  have hdr: "length (replicate hlen 0 :: bytes) = hlen" by simp
  from unpack_image [OF assms(1) hdr assms(3)] unpack_image [OF assms(2) hdr] assms(3,4)
  show ?thesis by simp
qed

end

section \<open>The codecs of the repository\<close>

lemmas pack_simps = upd_append mem_simps layout_simps wire_simps malloc_eq take_map unat_word_ariths

lemmas unpack_simps = mem_simps layout_simps wire_simps slice_def

lemma copy_data_all:
  "length buf = off + n \<Longrightarrow> n < 2 ^ 64 \<Longrightarrow> copy_data off (of_nat n) buf = Some (drop off buf)"
  by (simp add: copy_data_def get_bytes_Some slice_def word_less_nat_alt)

lemma put_array32_ext:
  "put_array32 conv 0 ws off = Some"
  "put_array32 conv (Suc n) (w # ws) off =
     (\<lambda>bs. do { bs \<leftarrow> put32 off (conv w) bs; put_array32 conv n ws (off + 4) bs })"
  by (rule ext, simp)+

lemma array32_simps:
  "put_array32 conv 2 [a, b] off bs =
     do { bs \<leftarrow> put32 off (conv a) bs; put32 (off + 4) (conv b) bs }"
  "put_array32 conv 4 [a, b, c, d] off bs =
     do { bs \<leftarrow> put32 off (conv a) bs; bs \<leftarrow> put32 (off + 4) (conv b) bs;
          bs \<leftarrow> put32 (off + 8) (conv c) bs; put32 (off + 12) (conv d) bs }"
  "get_array32 conv 2 off bs =
     do { a \<leftarrow> get32 off bs; b \<leftarrow> get32 (off + 4) bs; Some [conv a, conv b] }"
  "get_array32 conv 4 off bs =
     do { a \<leftarrow> get32 off bs; b \<leftarrow> get32 (off + 4) bs; c \<leftarrow> get32 (off + 8) bs; d \<leftarrow> get32 (off + 12) bs;
          Some [conv a, conv b, conv c, conv d] }"
  by (simp_all add: put_array32_ext eval_nat_numeral)

lemma le_bytes_0 [simp]: "le_bytes n 0 = zeros n"
  by (rule nth_equalityI) auto

interpretation error_msg:
  codec 8 "\<lambda>h (t, c, d). ofl_msg_pack_error h t c d"
    "\<lambda>(t, c, d). be16 t @ be16 c @ d"
    "\<lambda>_. True"
    0 ofl_msg_unpack_error "\<lambda>(t, c, d). Msg_error t c d" "\<lambda>_. True"
  by unfold_locales
    (auto simp: ofl_msg_pack_error_def ofl_msg_unpack_error_def pack_simps unpack_simps copy_data_all word_less_nat_alt simp del: bind_Some_iff split: option.splits)

interpretation echo:
  codec 8 "\<lambda>h d. ofl_msg_pack_echo h d"
    "\<lambda>d. d"
    "\<lambda>_. True"
    0 ofl_msg_unpack_echo "\<lambda>d. Msg_echo d" "\<lambda>_. True"
  by unfold_locales
    (auto simp: ofl_msg_pack_echo_def ofl_msg_unpack_echo_def pack_simps unpack_simps copy_data_all word_less_nat_alt simp del: bind_Some_iff split: option.splits)

interpretation role:
  codec 8 "\<lambda>h (r, g). ofl_msg_pack_role_request X h r g"
    "\<lambda>(r, g). be32 r @ zeros 4 @ be64 g"
    "\<lambda>_. swaps64 X"
    0 "ofl_msg_unpack_role_request X" "\<lambda>(r, g). Msg_role r g" "\<lambda>_. swaps64 X"
  by unfold_locales
    (auto simp: ofl_msg_pack_role_request_def ofl_msg_unpack_role_request_def pack_simps unpack_simps  simp del: bind_Some_iff split: option.splits)

interpretation features_reply:
  codec 8 "\<lambda>h f. ofl_msg_pack_features_reply X h f"
    "\<lambda>f. be64 (fe_datapath_id f) @ be32 (fe_n_buffers f)
       @ [fe_n_tables f, fe_auxiliary_id f] @ zeros 2 @ be32 (fe_capabilities f) @ zeros 4"
    "\<lambda>_. swaps64 X"
    0 "ofl_msg_unpack_features_reply X" "\<lambda>f. Msg_features_reply f" "\<lambda>_. swaps64 X"
  by unfold_locales
    (auto simp: ofl_msg_pack_features_reply_def ofl_msg_unpack_features_reply_def pack_simps unpack_simps  simp del: bind_Some_iff split: option.splits)

interpretation get_config_reply:
  codec 8 "\<lambda>h (f, l). ofl_msg_pack_get_config_reply h f l"
    "\<lambda>(f, l). be16 f @ be16 l"
    "\<lambda>_. True"
    0 ofl_msg_unpack_get_config_reply "\<lambda>(f, l). Msg_get_config_reply f l" "\<lambda>_. True"
  by unfold_locales
    (auto simp: ofl_msg_pack_get_config_reply_def ofl_msg_unpack_get_config_reply_def pack_simps unpack_simps  simp del: bind_Some_iff split: option.splits)

interpretation set_config:
  codec 8 "\<lambda>h (f, l). ofl_msg_pack_set_config h f l"
    "\<lambda>(f, l). be16 f @ be16 l"
    "\<lambda>_. True"
    0 ofl_msg_unpack_set_config "\<lambda>(f, l). Msg_set_config f l" "\<lambda>_. True"
  by unfold_locales
    (auto simp: ofl_msg_pack_set_config_def ofl_msg_unpack_set_config_def pack_simps unpack_simps  simp del: bind_Some_iff split: option.splits)

interpretation async_config:
  codec 8 "\<lambda>h (a, b, c). ofl_msg_pack_async_config h a b c"
    "\<lambda>(a, b, c). concat (map host32 a) @ concat (map host32 b) @ concat (map host32 c)"
    "\<lambda>(a, b, c). length a = 2 \<and> length b = 2 \<and> length c = 2"
    0 ofl_msg_unpack_async_config "\<lambda>(a, b, c). Msg_async_config a b c" "\<lambda>(a, b, c). length a = 2 \<and> length b = 2 \<and> length c = 2"
  by unfold_locales
    (auto simp: ofl_msg_pack_async_config_def ofl_msg_unpack_async_config_def pack_simps unpack_simps length_2_conv array32_simps simp del: bind_Some_iff split: option.splits)

interpretation port_mod:
  codec 8 "\<lambda>h m. ofl_msg_pack_port_mod h m"
    "\<lambda>m. be32 (pm_port_no m) @ zeros 4 @ pm_hw_addr m @ zeros 2
       @ be32 (pm_config m) @ be32 (pm_mask m) @ be32 (pm_advertise m) @ zeros 4"
    "\<lambda>m. length (pm_hw_addr m) = 6"
    0 ofl_msg_unpack_port_mod "\<lambda>m. Msg_port_mod m" "\<lambda>m. length (pm_hw_addr m) = 6"
  by unfold_locales
    (auto simp: ofl_msg_pack_port_mod_def ofl_msg_unpack_port_mod_def pack_simps unpack_simps  simp del: bind_Some_iff split: option.splits)

interpretation table_mod:
  codec 8 "\<lambda>h (t, c). ofl_msg_pack_table_mod h t c"
    "\<lambda>(t, c). [t] @ zeros 3 @ be32 c"
    "\<lambda>_. True"
    0 ofl_msg_unpack_table_mod "\<lambda>(t, c). Msg_table_mod t c" "\<lambda>_. True"
  by unfold_locales
    (auto simp: ofl_msg_pack_table_mod_def ofl_msg_unpack_table_mod_def pack_simps unpack_simps  simp del: bind_Some_iff split: option.splits)

interpretation queue_get_config_request:
  codec 8 "\<lambda>h p. ofl_msg_pack_queue_get_config_request h p"
    "\<lambda>p. be32 p @ zeros 4"
    "\<lambda>_. True"
    0 ofl_msg_unpack_queue_get_config_request "\<lambda>p. Msg_queue_get_config_request p" "\<lambda>p. p \<noteq> 0 \<and> p \<le> OFPP_MAX"
  by unfold_locales
    (auto simp: ofl_msg_pack_queue_get_config_request_def ofl_msg_unpack_queue_get_config_request_def pack_simps unpack_simps  simp del: bind_Some_iff split: option.splits)

interpretation header_only:
  codec 8 "\<lambda>h (_ :: unit). ofl_msg_pack_empty h"
    "\<lambda>_. []"
    "\<lambda>_. True"
    0 ofl_msg_unpack_empty "\<lambda>_. Msg_header" "\<lambda>_. True"
  by unfold_locales
    (auto simp: ofl_msg_pack_empty_def ofl_msg_unpack_empty_def pack_simps unpack_simps  simp del: bind_Some_iff split: option.splits)

interpretation mp_port:
  codec 16 "\<lambda>h p. ofl_msg_pack_multipart_request_port h p"
    "\<lambda>p. be32 p @ zeros 4"
    "\<lambda>_. True"
    16 ofl_msg_unpack_multipart_request_port "\<lambda>p. Req_port p" "\<lambda>p. \<not> bad_stats_port p"
  by unfold_locales
    (auto simp: ofl_msg_pack_multipart_request_port_def ofl_msg_unpack_multipart_request_port_def pack_simps unpack_simps mp_body_def simp del: bind_Some_iff split: option.splits)

interpretation mp_queue:
  codec 16 "\<lambda>h (p, q). ofl_msg_pack_multipart_request_queue h p q"
    "\<lambda>(p, q). be32 p @ be32 q"
    "\<lambda>_. True"
    16 ofl_msg_unpack_multipart_request_queue "\<lambda>(p, q). Req_queue p q" "\<lambda>(p, q). \<not> bad_stats_port p"
  by unfold_locales
    (auto simp: ofl_msg_pack_multipart_request_queue_def ofl_msg_unpack_multipart_request_queue_def pack_simps unpack_simps mp_body_def simp del: bind_Some_iff split: option.splits)

interpretation mp_group:
  codec 16 "\<lambda>h g. ofl_msg_pack_multipart_request_group h g"
    "\<lambda>g. be32 g @ zeros 4"
    "\<lambda>_. True"
    16 ofl_msg_unpack_multipart_request_group "\<lambda>g. Req_group g" "\<lambda>_. True"
  by unfold_locales
    (auto simp: ofl_msg_pack_multipart_request_group_def ofl_msg_unpack_multipart_request_group_def pack_simps unpack_simps mp_body_def simp del: bind_Some_iff split: option.splits)

interpretation mp_meter:
  codec 16 "\<lambda>h g. ofl_msg_pack_meter_multipart_request h g"
    "\<lambda>g. be32 g @ zeros 4"
    "\<lambda>_. True"
    16 ofl_msg_unpack_meter_multipart_request "\<lambda>g. Req_meter g" "\<lambda>_. True"
  by unfold_locales
    (auto simp: ofl_msg_pack_meter_multipart_request_def ofl_msg_unpack_meter_multipart_request_def pack_simps unpack_simps mp_body_def simp del: bind_Some_iff split: option.splits)

interpretation mp_empty:
  codec 16 "\<lambda>h (_ :: unit). ofl_msg_pack_multipart_request_empty h"
    "\<lambda>_. []"
    "\<lambda>_. True"
    16 ofl_msg_unpack_multipart_request_empty "\<lambda>_. Req_empty" "\<lambda>_. True"
  by unfold_locales
    (auto simp: ofl_msg_pack_multipart_request_empty_def ofl_msg_unpack_multipart_request_empty_def pack_simps unpack_simps  simp del: bind_Some_iff split: option.splits)

interpretation rep_aggregate:
  codec 16 "\<lambda>h (p, b, f). ofl_msg_pack_multipart_reply_aggregate X h p b f"
    "\<lambda>(p, b, f). be64 p @ be64 b @ be32 f @ zeros 4"
    "\<lambda>_. swaps64 X"
    16 "ofl_msg_unpack_multipart_reply_aggregate X" "\<lambda>(p, b, f). Rep_aggregate p b f" "\<lambda>_. swaps64 X"
  by unfold_locales
    (auto simp: ofl_msg_pack_multipart_reply_aggregate_def ofl_msg_unpack_multipart_reply_aggregate_def pack_simps unpack_simps rep_body_def simp del: bind_Some_iff split: option.splits)

interpretation rep_group_features:
  codec 16 "\<lambda>h (t, c, m, a). ofl_msg_pack_multipart_reply_group_features h t c m a"
    "\<lambda>(t, c, m, a). be32 t @ be32 c @ concat (map be32 m) @ concat (map be32 a)"
    "\<lambda>(t, c, m, a). length m = 4 \<and> length a = 4"
    16 ofl_msg_unpack_multipart_reply_group_features "\<lambda>(t, c, m, a). Rep_group_features t c m a" "\<lambda>(t, c, m, a). length m = 4 \<and> length a = 4"
  by unfold_locales
    (auto simp: ofl_msg_pack_multipart_reply_group_features_def ofl_msg_unpack_multipart_reply_group_features_def pack_simps unpack_simps rep_body_def length_4_conv array32_simps simp del: bind_Some_iff split: option.splits)

interpretation rep_meter_features:
  packer 16 "\<lambda>h (m, b, c, n, k). ofl_msg_pack_multipart_reply_meter_features h m b c n k"
    "\<lambda>(m, b, c, n, k). be32 m @ be32 b @ be32 c @ [n, k] @ zeros 2"
    "\<lambda>_. True"
  by unfold_locales (auto simp: ofl_msg_pack_multipart_reply_meter_features_def rep_body_def pack_simps  simp del: bind_Some_iff split: option.splits)

interpretation rep_desc:
  packer 16 ofl_msg_pack_multipart_reply_desc
    "\<lambda>d. take DESC_STR_LEN (de_mfr_desc d) @ take DESC_STR_LEN (de_hw_desc d)
         @ take DESC_STR_LEN (de_sw_desc d) @ take SERIAL_NUM_LEN (de_serial_num d)
         @ take DESC_STR_LEN (de_dp_desc d)"
    "\<lambda>d. DESC_STR_LEN \<le> length (de_mfr_desc d) \<and> DESC_STR_LEN \<le> length (de_hw_desc d)
         \<and> DESC_STR_LEN \<le> length (de_sw_desc d) \<and> SERIAL_NUM_LEN \<le> length (de_serial_num d)
         \<and> DESC_STR_LEN \<le> length (de_dp_desc d)"
  by unfold_locales (auto simp: ofl_msg_pack_multipart_reply_desc_def rep_body_def pack_simps slice_def simp del: bind_Some_iff split: option.splits)

text \<open>A packet-out is only packed: the parser leaves out a member.\<close>

interpretation packet_out:
  packer 8 "\<lambda>h (b, p, as, d). ofl_msg_pack_packet_out X h b (Some p) as d"
    "\<lambda>(b, p, as, d). let acts = concat (the (those (map action_image as))) in
       be32 b @ be32 p @ be16 (of_nat (length acts)) @ zeros 6 @ acts @ d"
    "\<lambda>(b, p, as, d). those (map action_image as) \<noteq> None"
  by unfold_locales (auto simp: packet_out_image Let_def split: option.splits)

section \<open>Headers\<close>

lemma ucast_of_nat16: "(ucast (of_nat n :: u64) :: u16) = of_nat n"
  by (simp add: unsigned_of_nat word_of_nat_eq_iff)

lemma put_header_eq:
  "8 \<le> length bs \<Longrightarrow> put_header type xid bs = Some (header_image type (length bs) xid @ drop 8 bs)"
  by (simp add: put_header_def header_image_def pack_simps ucast_of_nat16 Let_def)

lemma mp_header_eq:
  "16 \<le> length bs \<Longrightarrow> mp_header ofp_multipart_request type flags bs
     = Some (take 8 bs @ mp_image type flags (drop 16 bs))"
  "16 \<le> length bs \<Longrightarrow> mp_header ofp_multipart_reply type flags bs
     = Some (take 8 bs @ mp_image type flags (drop 16 bs))"
  by (simp_all add: mp_header_def mp_image_def pack_simps)

section \<open>Dispatch\<close>

abbreviation packed :: "heap \<Rightarrow> nat \<Rightarrow> bytes \<Rightarrow> (int + bytes) option" where
  "packed h hlen img \<equiv>
     (case h (of_nat (hlen + length img)) of
        None \<Rightarrow> None
      | Some junk \<Rightarrow> Some (Inr (map junk [0..<hlen] @ img)))"

lemma map_option_packed:
  "p = (case h n of None \<Rightarrow> None | Some junk \<Rightarrow> Some (map junk [0..<k] @ img)) \<Longrightarrow>
   map_option Inr p = (case h n of None \<Rightarrow> None | Some junk \<Rightarrow> Some (Inr (map junk [0..<k] @ img)))"
  by (auto split: option.splits)

lemma request_switch_packs:
  assumes "request_fits t req" "ofp_multipart_types_of (unat type) = Some t"
    and "request_image req = Some img"
  shows "mp_request_switch X h type req = packed h 16 img"
  using assms
  by (cases req)
    (auto simp: mp_request_switch_def mp_port.pack_image mp_queue.pack_image [of "(_, _)", simplified]
      mp_group.pack_image mp_meter.pack_image mp_empty.pack_image split: option.splits)


lemma reply_switch_packs:
  assumes "reply_fits t rep" "ofp_multipart_types_of (unat type) = Some t"
    and "reply_image rep = Some img" "swaps64 X"
  shows "mp_reply_switch X h type rep = packed h 16 img"
  using assms
proof (cases rep)
  case (Rep_group_features a b c d)
  then show ?thesis
    using assms rep_group_features.pack_image [of "(a, b, c, d)" h]
    by (auto simp: mp_reply_switch_def length_4_conv split: option.splits)
next
  case (Rep_desc d)
  then show ?thesis
    using assms rep_desc.pack_image [of d h]
    by (auto simp: mp_reply_switch_def wire_simps split: option.splits)
qed (auto simp: mp_reply_switch_def rep_aggregate.pack_image [of _ "(_, _, _)", simplified]
      rep_meter_features.pack_image [of "(_, _, _, _, _)", simplified] split: option.splits)

lemma multipart_packs:
  assumes "sw = packed h 16 img"
    and "r = do { r \<leftarrow> sw; (case r of Inl e \<Rightarrow> Some (Inl e)
           | Inr buf \<Rightarrow> map_option Inr (mp_header t type flags buf)) }"
    and "t = ofp_multipart_request \<or> t = ofp_multipart_reply"
  shows "r = packed h 8 (mp_image type flags img)"
proof -
  have "length (mp_image type flags img) = 8 + length img" by (simp add: mp_image_def)
  with assms show ?thesis
    by (auto simp: mp_header_eq take_map split: option.splits)
qed

lemma pack_switch_packs:
  assumes "body_fits t b" "ofp_type_of (unat type) = Some t"
    and "body_image b = Some img" "swaps64 X" "8 + length img < 2 ^ 64"
  shows "pack_switch X h (Ofl_msg type b) = packed h 8 img"
  using assms
proof (cases b)
  case (Msg_mp_request ty flags req)
  with assms obtain i mt where i: "request_image req = Some i" "img = mp_image ty flags i"
    "ofp_multipart_types_of (unat ty) = Some mt" "request_fits mt req" "t = OFPT_MULTIPART_REQUEST"
    by (auto split: option.splits)
  have "ofl_msg_pack_multipart_request X h ty flags req = packed h 8 img"
    unfolding i(2)
    by (rule multipart_packs [OF request_switch_packs [OF i(4,3,1)]])
      (auto simp: ofl_msg_pack_multipart_request_def)
  with Msg_mp_request assms i show ?thesis by (simp add: pack_switch_def)
next
  case (Msg_mp_reply ty flags rep)
  with assms obtain i mt where i: "reply_image rep = Some i" "img = mp_image ty flags i"
    "ofp_multipart_types_of (unat ty) = Some mt" "reply_fits mt rep" "t = OFPT_MULTIPART_REPLY"
    by (auto split: option.splits)
  have "ofl_msg_pack_multipart_reply X h ty flags rep = packed h 8 img"
    unfolding i(2)
    by (rule multipart_packs [OF reply_switch_packs [OF i(4,3,1) assms(4)]])
      (auto simp: ofl_msg_pack_multipart_reply_def)
  with Msg_mp_reply assms i show ?thesis by (simp add: pack_switch_def)
next
  case (Msg_async_config a b c)
  then show ?thesis
    using assms async_config.pack_image [of "(a, b, c)" h]
    by (auto simp: pack_switch_def split: option.splits)
next
  case (Msg_packet_out buffer port actions data)
  with assms obtain p imgs where po: "port = Some p" "those (map action_image actions) = Some imgs"
    "img = be32 buffer @ be32 p @ be16 (of_nat (length (concat imgs))) @ zeros 6 @ concat imgs @ data"
    "t = OFPT_PACKET_OUT"
    by (cases port) auto
  with packet_out.pack_image [of "(buffer, p, actions, data)" X h] Msg_packet_out assms
  show ?thesis by (simp add: pack_switch_def Let_def split: option.splits)
qed (auto simp: pack_switch_def header_only.pack_image error_msg.pack_image [of "(_, _, _)", simplified]
      echo.pack_image role.pack_image [of _ "(_, _)", simplified] features_reply.pack_image
      get_config_reply.pack_image [of "(_, _)", simplified] set_config.pack_image [of "(_, _)", simplified]
      port_mod.pack_image table_mod.pack_image [of "(_, _)", simplified] wire_simps
      queue_get_config_request.pack_image split: option.splits)

lemma pack_wire:
  assumes "msg_fits m" "swaps64 X" "wire_image m xid = Some bs" "length bs < 2 ^ 64"
  shows "ofl_msg_pack X h m xid = (if h (of_nat (length bs)) = None then None else Some (Inr bs))"
proof -
  obtain type b where m: "m = Ofl_msg type b" by (cases m)
  from assms m obtain t img where t: "ofp_type_of (unat type) = Some t" "body_fits t b"
    and img: "body_image b = Some img" "bs = header_image type (8 + length img) xid @ img"
    by (auto simp: msg_fits_def wire_image_def layout_simps split: option.splits)
  then have "length bs = 8 + length img" by (simp add: header_image_def)
  with pack_switch_packs [OF t(2,1) img(1) assms(2), of h] assms(4) img(2) m show ?thesis
    by (auto simp: ofl_msg_pack_def put_header_eq split: option.splits)
qed

section \<open>Unpacking\<close>

text \<open>The bodies the parser accepts, among those the packer accepts.\<close>

fun accepted :: "'x ofl_body \<Rightarrow> bool" where
  "accepted (Msg_queue_get_config_request p) \<longleftrightarrow> p \<noteq> 0 \<and> p \<le> OFPP_MAX"
| "accepted (Msg_mp_request type _ req) \<longleftrightarrow>
     type \<noteq> of_nat (ofp_multipart_types_code OFPMP_METER_FEATURES) \<and>
     (case req of Req_port p \<Rightarrow> \<not> bad_stats_port p | Req_queue p _ \<Rightarrow> \<not> bad_stats_port p | _ \<Rightarrow> True)"
| "accepted (Msg_mp_reply _ _ rep) \<longleftrightarrow>
     (case rep of Rep_desc _ \<Rightarrow> False | Rep_meter_features _ _ _ _ _ \<Rightarrow> False | _ \<Rightarrow> True)"
| "accepted (Msg_packet_out _ _ _ _) \<longleftrightarrow> False"
| "accepted _ \<longleftrightarrow> True"

lemma mp_type_16:
  assumes "ofp_multipart_types_of (unat (type :: u32)) = Some t"
  shows "(ucast (ucast type :: u16) :: u32) = type" "unat (ucast type :: u16) = unat type"
proof -
  from assms have "unat type = ofp_multipart_types_code t" by (simp add: ofp_multipart_types_code_of)
  with ofp_multipart_types_code_less [of t] have small: "unat type < 2 ^ 16" by simp
  then show u: "unat (ucast type :: u16) = unat type"
    by (simp add: unsigned_ucast_eq take_bit_nat_eq_self)
  then show "(ucast (ucast type :: u16) :: u32) = type"
    by (intro word_unat_eq_iff [THEN iffD2]) (simp add: unsigned_ucast_eq unsigned_take_bit_eq take_bit_nat_eq_self small)
qed

lemma unpack_request_switch_unpacks:
  assumes "request_fits t req" "ofp_multipart_types_of (unat type) = Some t"
    and "request_image req = Some img" "t \<noteq> OFPMP_METER_FEATURES"
    and "accepted (Msg_mp_request 0 0 req)" "length hdr = 16"
  shows "unpack_request_switch X type (hdr @ img) (of_nat (length img)) = ok (req, 0)"
  using assms
    mp_port.unpack_image [where hdr = hdr] mp_queue.unpack_image [of "(_, _)" hdr]
    mp_group.unpack_image [where hdr = hdr] mp_meter.unpack_image [where hdr = hdr]
    mp_empty.unpack_image [where hdr = hdr]
  by (cases req) (auto simp: unpack_request_switch_def)


lemma unpack_reply_switch_unpacks:
  assumes "reply_fits t rep" "ofp_multipart_types_of (unat type) = Some t"
    and "reply_image rep = Some img" "accepted (Msg_mp_reply 0 0 rep)" "length hdr = 16" "swaps64 X"
  shows "unpack_reply_switch X type (hdr @ img) (of_nat (length img)) = ok (rep, 0)"
  using assms
proof (cases rep)
  case (Rep_group_features a b c d)
  then show ?thesis
    using assms rep_group_features.unpack_image [of "(a, b, c, d)" hdr]
    by (auto simp: unpack_reply_switch_def length_4_conv)
next
  case (Rep_aggregate a b c)
  then show ?thesis
    using assms rep_aggregate.unpack_image [of X hdr "(a, b, c)"]
    by (auto simp: unpack_reply_switch_def)
qed auto

lemma mp_fields:
  assumes "length hdr = 8"
  shows "get16 8 (hdr @ be16 type @ rest) = Some (le_word (be16 type))"
    and "get16 10 (hdr @ be16 type @ be16 flags @ rest) = Some (le_word (be16 flags))"
  using assms by (simp_all add: unpack_simps)

lemma unpack_request_unpacks:
  assumes "request_fits t req" "ofp_multipart_types_of (unat type) = Some t"
    and "request_image req = Some img" "accepted (Msg_mp_request type flags req)"
    and "length hdr = 8" "16 + length img < 2 ^ 64"
  shows "ofl_msg_unpack_multipart_request X (hdr @ mp_image type flags img) (of_nat (16 + length img))
           = ok (Msg_mp_request type flags req, 0)"
proof -
  note ty = mp_type_16 [OF assms(2)]
  have "t \<noteq> OFPMP_METER_FEATURES"
    using assms(2,4) ofp_multipart_types_code_of [OF assms(2)] by (auto simp: word_unat_eq_iff)
  moreover have "accepted (Msg_mp_request 0 0 req)" using assms(4) by auto
  ultimately show ?thesis
    using assms ty unpack_request_switch_unpacks [OF assms(1) _ assms(3), of "ucast type"
        "hdr @ be16 (ucast type) @ be16 flags @ zeros 4" X]
    by (simp add: ofl_msg_unpack_multipart_request_def layout_simps mp_image_def mp_fields word_less_nat_alt
          unat_word_ariths)
qed


lemma unpack_reply_unpacks:
  assumes "reply_fits t rep" "ofp_multipart_types_of (unat type) = Some t"
    and "reply_image rep = Some img" "accepted (Msg_mp_reply type flags rep)"
    and "length hdr = 8" "16 + length img < 2 ^ 64" "swaps64 X"
  shows "ofl_msg_unpack_multipart_reply X (hdr @ mp_image type flags img) (of_nat (16 + length img))
           = ok (Msg_mp_reply type flags rep, 0)"
proof -
  note ty = mp_type_16 [OF assms(2)]
  have "accepted (Msg_mp_reply 0 0 rep)" using assms(4) by auto
  then show ?thesis
    using assms ty unpack_reply_switch_unpacks [OF assms(1) _ assms(3), of "ucast type"
        "hdr @ be16 (ucast type) @ be16 flags @ zeros 4" X]
    by (simp add: ofl_msg_unpack_multipart_reply_def layout_simps mp_image_def mp_fields
          word_less_nat_alt unat_word_ariths)
qed

lemma unpack_switch_unpacks:
  assumes "body_fits t b" "ofp_type_of (unat type) = Some t" "accepted b"
    and "body_image b = Some img" "swaps64 X" "8 + length img < 2 ^ 64" "length hdr = 8"
  shows "unpack_switch X type (hdr @ img) (of_nat (8 + length img)) = ok (b, 0)"
proof (cases b)
  case (Msg_mp_request ty flags req)
  with assms obtain i mt where i: "request_image req = Some i" "img = mp_image ty flags i"
    "ofp_multipart_types_of (unat ty) = Some mt" "request_fits mt req" "t = OFPT_MULTIPART_REQUEST"
    by (auto split: option.splits)
  have "length img = 8 + length i" by (simp add: i(2) mp_image_def)
  with unpack_request_unpacks [OF i(4,3,1)] Msg_mp_request assms i show ?thesis
    by (simp add: unpack_switch_def)
next
  case (Msg_mp_reply ty flags rep)
  with assms obtain i mt where i: "reply_image rep = Some i" "img = mp_image ty flags i"
    "ofp_multipart_types_of (unat ty) = Some mt" "reply_fits mt rep" "t = OFPT_MULTIPART_REPLY"
    by (auto split: option.splits)
  have "length img = 8 + length i" by (simp add: i(2) mp_image_def)
  with unpack_reply_unpacks [OF i(4,3,1)] Msg_mp_reply assms i show ?thesis
    by (simp add: unpack_switch_def)
next
  case (Msg_async_config a b' c)
  with assms show ?thesis
    using async_config.unpack_image [of "(a, b', c)" hdr]
    by (auto simp: unpack_switch_def)
next
  case (Msg_queue_get_config_request p)
  with assms show ?thesis
    using queue_get_config_request.unpack_image [of p hdr] by (simp add: unpack_switch_def)
qed (use assms header_only.unpack_image [where hdr = hdr] error_msg.unpack_image [of hdr "(_, _, _)"]
      echo.unpack_image [where hdr = hdr] role.unpack_image [of X hdr "(_, _)"]
      features_reply.unpack_image [where hdr = hdr] get_config_reply.unpack_image [of hdr "(_, _)"]
      set_config.unpack_image [of hdr "(_, _)"] port_mod.unpack_image [where hdr = hdr]
      table_mod.unpack_image [of hdr "(_, _)"]
    in \<open>auto simp: unpack_switch_def OFP_ETH_ALEN_def\<close>)


lemma length_header_image [simp]: "length (header_image type len xid) = 8"
  by (simp add: header_image_def)

lemma header_fields:
  assumes "bs = header_image type len xid @ rest"
  shows "get8 0 bs = Some OFP_VERSION" "get8 1 bs = Some (ucast type)"
    "get16 2 bs = Some (le_word (be16 (of_nat len)))" "get32 4 bs = Some (le_word (be32 xid))"
  using assms by (simp_all add: header_image_def unpack_simps)

text \<open>A buffer with a good header goes to the switch on the message type.\<close>

lemma ofl_msg_unpack_framed:
  assumes "bs = header_image type (8 + length body) xid @ body" "length bs < 2 ^ 16"
  shows "ofl_msg_unpack X bs (of_nat (length bs)) x =
    (case unpack_switch X (ucast type) bs (of_nat (length bs)) of
       None \<Rightarrow> None
     | Some (Inl e) \<Rightarrow> Some (map_option (\<lambda>_. xid) x, Inl e)
     | Some (Inr (b, _)) \<Rightarrow> Some (map_option (\<lambda>_. xid) x, Inr (Ofl_msg (ucast (ucast type :: u8)) b)))"
proof -
  have len: "length bs = 8 + length body" using assms(1) by simp
  have l16: "(ucast (of_nat (length bs) :: u16) :: size_t) = of_nat (length bs)"
    using assms(2) by (simp add: word_unat_eq_iff unsigned_ucast_eq unsigned_of_nat take_bit_nat_eq_self)
  have "\<not> (of_nat (length bs) :: size_t) < 8"
    using assms(2) len by (simp add: word_less_nat_alt unat_word_ariths)
  with header_fields [OF assms(1)] l16 len show ?thesis
    by (simp add: ofl_msg_unpack_def layout_simps del: of_nat_add
        split: option.split sum.split prod.split)
qed

lemma unpack_wire:
  assumes "msg_fits m" "accepted (msg_body m)" "swaps64 X" "wire_image m xid = Some bs"
    and "length bs < 2 ^ 16"
  shows "ofl_msg_unpack X bs (of_nat (length bs)) x = Some (map_option (\<lambda>_. xid) x, Inr m)"
proof -
  obtain type b where m: "m = Ofl_msg type b" by (cases m)
  from assms m obtain t img where t: "ofp_type_of (unat type) = Some t" "body_fits t b"
    and img: "body_image b = Some img" "bs = header_image type (8 + length img) xid @ img"
    by (auto simp: msg_fits_def wire_image_def layout_simps split: option.splits)
  have len: "length bs = 8 + length img" by (simp add: img header_image_def)
  from t(1) have "unat type < 30"
    by (auto simp: ofp_type_of_def ofp_type_list_def split: if_splits)
  then have ty: "unat (ucast type :: u8) = unat type" "(ucast (ucast type :: u8) :: u32) = type"
    by (simp_all add: word_unat_eq_iff unsigned_ucast_eq unsigned_take_bit_eq take_bit_nat_eq_self)
  have sw: "unpack_switch X (ucast type) bs (of_nat (length bs)) = ok (b, 0)"
    unfolding img(2)
    using unpack_switch_unpacks [OF t(2) _ _ img(1) assms(3), of "ucast type"
        "header_image type (8 + length img) xid"] t(1) ty assms(2,5) m len
    by (simp add: length_header_image)
  with m ty ofl_msg_unpack_framed [OF img(2) assms(5), of X x] show ?thesis by simp
qed

end
