(* ===== verification/ErrorCodes.thy ===== *)
theory ErrorCodes
  imports OflTypes
begin

text \<open>
  The enumerations of \<open>include/cc_openflow_13.c\<close> that give the members of a message their meaning: the
  codes of an error message, one enumeration for each error type, and the commands, types and flags of
  the group and meter messages. An enumerator that is also used as a number (\<open>Openflow13\<close>) has a
  prime here. \<open>ofp_error_of\<close> is what a receiver of an error message reads from its two members.
\<close>

section \<open>Enumerations\<close>

datatype ofp_hello_failed_code =
    OFPHFC_INCOMPATIBLE' | OFPHFC_EPERM

fun ofp_hello_failed_code_code :: "ofp_hello_failed_code \<Rightarrow> nat" where
  "ofp_hello_failed_code_code OFPHFC_INCOMPATIBLE' = 0"
| "ofp_hello_failed_code_code OFPHFC_EPERM = 1"

definition ofp_hello_failed_code_list :: "ofp_hello_failed_code list" where
  "ofp_hello_failed_code_list =
    [OFPHFC_INCOMPATIBLE', OFPHFC_EPERM]"

definition ofp_hello_failed_code_of :: "nat \<Rightarrow> ofp_hello_failed_code option" where
  "ofp_hello_failed_code_of n = map_of (map (\<lambda>t. (ofp_hello_failed_code_code t, t)) ofp_hello_failed_code_list) n"

lemma ofp_hello_failed_code_of_code [simp]: "ofp_hello_failed_code_of (ofp_hello_failed_code_code t) = Some t"
  by (cases t) (simp_all add: ofp_hello_failed_code_of_def ofp_hello_failed_code_list_def)

lemma ofp_hello_failed_code_code_of: "ofp_hello_failed_code_of n = Some t \<Longrightarrow> ofp_hello_failed_code_code t = n"
  by (auto simp: ofp_hello_failed_code_of_def ofp_hello_failed_code_list_def split: if_splits)

datatype ofp_bad_request_code =
    OFPBRC_BAD_VERSION | OFPBRC_BAD_TYPE' | OFPBRC_BAD_MULTIPART' | OFPBRC_BAD_EXPERIMENTER' |
    OFPBRC_BAD_EXP_TYPE | OFPBRC_EPERM | OFPBRC_BAD_LEN' | OFPBRC_BUFFER_EMPTY |
    OFPBRC_BUFFER_UNKNOWN | OFPBRC_BAD_TABLE_ID | OFPBRC_IS_SLAVE' | OFPBRC_BAD_PORT' |
    OFPBRC_BAD_PACKET | OFPBRC_MULTIPART_BUFFER_OVERFLOW

fun ofp_bad_request_code_code :: "ofp_bad_request_code \<Rightarrow> nat" where
  "ofp_bad_request_code_code OFPBRC_BAD_VERSION = 0"
| "ofp_bad_request_code_code OFPBRC_BAD_TYPE' = 1"
| "ofp_bad_request_code_code OFPBRC_BAD_MULTIPART' = 2"
| "ofp_bad_request_code_code OFPBRC_BAD_EXPERIMENTER' = 3"
| "ofp_bad_request_code_code OFPBRC_BAD_EXP_TYPE = 4"
| "ofp_bad_request_code_code OFPBRC_EPERM = 5"
| "ofp_bad_request_code_code OFPBRC_BAD_LEN' = 6"
| "ofp_bad_request_code_code OFPBRC_BUFFER_EMPTY = 7"
| "ofp_bad_request_code_code OFPBRC_BUFFER_UNKNOWN = 8"
| "ofp_bad_request_code_code OFPBRC_BAD_TABLE_ID = 9"
| "ofp_bad_request_code_code OFPBRC_IS_SLAVE' = 10"
| "ofp_bad_request_code_code OFPBRC_BAD_PORT' = 11"
| "ofp_bad_request_code_code OFPBRC_BAD_PACKET = 12"
| "ofp_bad_request_code_code OFPBRC_MULTIPART_BUFFER_OVERFLOW = 13"

definition ofp_bad_request_code_list :: "ofp_bad_request_code list" where
  "ofp_bad_request_code_list =
    [OFPBRC_BAD_VERSION, OFPBRC_BAD_TYPE', OFPBRC_BAD_MULTIPART', OFPBRC_BAD_EXPERIMENTER',
     OFPBRC_BAD_EXP_TYPE, OFPBRC_EPERM, OFPBRC_BAD_LEN', OFPBRC_BUFFER_EMPTY,
     OFPBRC_BUFFER_UNKNOWN, OFPBRC_BAD_TABLE_ID, OFPBRC_IS_SLAVE', OFPBRC_BAD_PORT',
     OFPBRC_BAD_PACKET, OFPBRC_MULTIPART_BUFFER_OVERFLOW]"

definition ofp_bad_request_code_of :: "nat \<Rightarrow> ofp_bad_request_code option" where
  "ofp_bad_request_code_of n = map_of (map (\<lambda>t. (ofp_bad_request_code_code t, t)) ofp_bad_request_code_list) n"

lemma ofp_bad_request_code_of_code [simp]: "ofp_bad_request_code_of (ofp_bad_request_code_code t) = Some t"
  by (cases t) (simp_all add: ofp_bad_request_code_of_def ofp_bad_request_code_list_def)

lemma ofp_bad_request_code_code_of: "ofp_bad_request_code_of n = Some t \<Longrightarrow> ofp_bad_request_code_code t = n"
  by (auto simp: ofp_bad_request_code_of_def ofp_bad_request_code_list_def split: if_splits)

datatype ofp_bad_action_code =
    OFPBAC_BAD_TYPE | OFPBAC_BAD_LEN | OFPBAC_BAD_EXPERIMENTER | OFPBAC_BAD_EXP_TYPE |
    OFPBAC_BAD_OUT_PORT | OFPBAC_BAD_ARGUMENT' | OFPBAC_EPERM | OFPBAC_TOO_MANY |
    OFPBAC_BAD_QUEUE | OFPBAC_BAD_OUT_GROUP | OFPBAC_MATCH_INCONSISTENT |
    OFPBAC_UNSUPPORTED_ORDER | OFPBAC_BAD_TAG | OFPBAC_BAD_SET_TYPE | OFPBAC_BAD_SET_LEN |
    OFPBAC_BAD_SET_ARGUMENT

fun ofp_bad_action_code_code :: "ofp_bad_action_code \<Rightarrow> nat" where
  "ofp_bad_action_code_code OFPBAC_BAD_TYPE = 0"
| "ofp_bad_action_code_code OFPBAC_BAD_LEN = 1"
| "ofp_bad_action_code_code OFPBAC_BAD_EXPERIMENTER = 2"
| "ofp_bad_action_code_code OFPBAC_BAD_EXP_TYPE = 3"
| "ofp_bad_action_code_code OFPBAC_BAD_OUT_PORT = 4"
| "ofp_bad_action_code_code OFPBAC_BAD_ARGUMENT' = 5"
| "ofp_bad_action_code_code OFPBAC_EPERM = 6"
| "ofp_bad_action_code_code OFPBAC_TOO_MANY = 7"
| "ofp_bad_action_code_code OFPBAC_BAD_QUEUE = 8"
| "ofp_bad_action_code_code OFPBAC_BAD_OUT_GROUP = 9"
| "ofp_bad_action_code_code OFPBAC_MATCH_INCONSISTENT = 10"
| "ofp_bad_action_code_code OFPBAC_UNSUPPORTED_ORDER = 11"
| "ofp_bad_action_code_code OFPBAC_BAD_TAG = 12"
| "ofp_bad_action_code_code OFPBAC_BAD_SET_TYPE = 13"
| "ofp_bad_action_code_code OFPBAC_BAD_SET_LEN = 14"
| "ofp_bad_action_code_code OFPBAC_BAD_SET_ARGUMENT = 15"

definition ofp_bad_action_code_list :: "ofp_bad_action_code list" where
  "ofp_bad_action_code_list =
    [OFPBAC_BAD_TYPE, OFPBAC_BAD_LEN, OFPBAC_BAD_EXPERIMENTER, OFPBAC_BAD_EXP_TYPE,
     OFPBAC_BAD_OUT_PORT, OFPBAC_BAD_ARGUMENT', OFPBAC_EPERM, OFPBAC_TOO_MANY, OFPBAC_BAD_QUEUE,
     OFPBAC_BAD_OUT_GROUP, OFPBAC_MATCH_INCONSISTENT, OFPBAC_UNSUPPORTED_ORDER, OFPBAC_BAD_TAG,
     OFPBAC_BAD_SET_TYPE, OFPBAC_BAD_SET_LEN, OFPBAC_BAD_SET_ARGUMENT]"

definition ofp_bad_action_code_of :: "nat \<Rightarrow> ofp_bad_action_code option" where
  "ofp_bad_action_code_of n = map_of (map (\<lambda>t. (ofp_bad_action_code_code t, t)) ofp_bad_action_code_list) n"

lemma ofp_bad_action_code_of_code [simp]: "ofp_bad_action_code_of (ofp_bad_action_code_code t) = Some t"
  by (cases t) (simp_all add: ofp_bad_action_code_of_def ofp_bad_action_code_list_def)

lemma ofp_bad_action_code_code_of: "ofp_bad_action_code_of n = Some t \<Longrightarrow> ofp_bad_action_code_code t = n"
  by (auto simp: ofp_bad_action_code_of_def ofp_bad_action_code_list_def split: if_splits)

datatype ofp_bad_instruction_code =
    OFPBIC_UNKNOWN_INST | OFPBIC_UNSUP_INST | OFPBIC_BAD_TABLE_ID | OFPBIC_UNSUP_METADATA |
    OFPBIC_UNSUP_METADATA_MASK | OFPBIC_BAD_EXPERIMENTER | OFPBIC_BAD_EXP_TYPE |
    OFPBIC_BAD_LEN | OFPBIC_EPERM

fun ofp_bad_instruction_code_code :: "ofp_bad_instruction_code \<Rightarrow> nat" where
  "ofp_bad_instruction_code_code OFPBIC_UNKNOWN_INST = 0"
| "ofp_bad_instruction_code_code OFPBIC_UNSUP_INST = 1"
| "ofp_bad_instruction_code_code OFPBIC_BAD_TABLE_ID = 2"
| "ofp_bad_instruction_code_code OFPBIC_UNSUP_METADATA = 3"
| "ofp_bad_instruction_code_code OFPBIC_UNSUP_METADATA_MASK = 4"
| "ofp_bad_instruction_code_code OFPBIC_BAD_EXPERIMENTER = 5"
| "ofp_bad_instruction_code_code OFPBIC_BAD_EXP_TYPE = 6"
| "ofp_bad_instruction_code_code OFPBIC_BAD_LEN = 7"
| "ofp_bad_instruction_code_code OFPBIC_EPERM = 8"

definition ofp_bad_instruction_code_list :: "ofp_bad_instruction_code list" where
  "ofp_bad_instruction_code_list =
    [OFPBIC_UNKNOWN_INST, OFPBIC_UNSUP_INST, OFPBIC_BAD_TABLE_ID, OFPBIC_UNSUP_METADATA,
     OFPBIC_UNSUP_METADATA_MASK, OFPBIC_BAD_EXPERIMENTER, OFPBIC_BAD_EXP_TYPE, OFPBIC_BAD_LEN,
     OFPBIC_EPERM]"

definition ofp_bad_instruction_code_of :: "nat \<Rightarrow> ofp_bad_instruction_code option" where
  "ofp_bad_instruction_code_of n = map_of (map (\<lambda>t. (ofp_bad_instruction_code_code t, t)) ofp_bad_instruction_code_list) n"

lemma ofp_bad_instruction_code_of_code [simp]: "ofp_bad_instruction_code_of (ofp_bad_instruction_code_code t) = Some t"
  by (cases t) (simp_all add: ofp_bad_instruction_code_of_def ofp_bad_instruction_code_list_def)

lemma ofp_bad_instruction_code_code_of: "ofp_bad_instruction_code_of n = Some t \<Longrightarrow> ofp_bad_instruction_code_code t = n"
  by (auto simp: ofp_bad_instruction_code_of_def ofp_bad_instruction_code_list_def split: if_splits)

datatype ofp_bad_match_code =
    OFPBMC_BAD_TYPE | OFPBMC_BAD_LEN | OFPBMC_BAD_TAG | OFPBMC_BAD_DL_ADDR_MASK |
    OFPBMC_BAD_NW_ADDR_MASK | OFPBMC_BAD_WILDCARDS | OFPBMC_BAD_FIELD | OFPBMC_BAD_VALUE |
    OFPBMC_BAD_MASK | OFPBMC_BAD_PREREQ | OFPBMC_DUP_FIELD | OFPBMC_EPERM

fun ofp_bad_match_code_code :: "ofp_bad_match_code \<Rightarrow> nat" where
  "ofp_bad_match_code_code OFPBMC_BAD_TYPE = 0"
| "ofp_bad_match_code_code OFPBMC_BAD_LEN = 1"
| "ofp_bad_match_code_code OFPBMC_BAD_TAG = 2"
| "ofp_bad_match_code_code OFPBMC_BAD_DL_ADDR_MASK = 3"
| "ofp_bad_match_code_code OFPBMC_BAD_NW_ADDR_MASK = 4"
| "ofp_bad_match_code_code OFPBMC_BAD_WILDCARDS = 5"
| "ofp_bad_match_code_code OFPBMC_BAD_FIELD = 6"
| "ofp_bad_match_code_code OFPBMC_BAD_VALUE = 7"
| "ofp_bad_match_code_code OFPBMC_BAD_MASK = 8"
| "ofp_bad_match_code_code OFPBMC_BAD_PREREQ = 9"
| "ofp_bad_match_code_code OFPBMC_DUP_FIELD = 10"
| "ofp_bad_match_code_code OFPBMC_EPERM = 11"

definition ofp_bad_match_code_list :: "ofp_bad_match_code list" where
  "ofp_bad_match_code_list =
    [OFPBMC_BAD_TYPE, OFPBMC_BAD_LEN, OFPBMC_BAD_TAG, OFPBMC_BAD_DL_ADDR_MASK,
     OFPBMC_BAD_NW_ADDR_MASK, OFPBMC_BAD_WILDCARDS, OFPBMC_BAD_FIELD, OFPBMC_BAD_VALUE,
     OFPBMC_BAD_MASK, OFPBMC_BAD_PREREQ, OFPBMC_DUP_FIELD, OFPBMC_EPERM]"

definition ofp_bad_match_code_of :: "nat \<Rightarrow> ofp_bad_match_code option" where
  "ofp_bad_match_code_of n = map_of (map (\<lambda>t. (ofp_bad_match_code_code t, t)) ofp_bad_match_code_list) n"

lemma ofp_bad_match_code_of_code [simp]: "ofp_bad_match_code_of (ofp_bad_match_code_code t) = Some t"
  by (cases t) (simp_all add: ofp_bad_match_code_of_def ofp_bad_match_code_list_def)

lemma ofp_bad_match_code_code_of: "ofp_bad_match_code_of n = Some t \<Longrightarrow> ofp_bad_match_code_code t = n"
  by (auto simp: ofp_bad_match_code_of_def ofp_bad_match_code_list_def split: if_splits)

datatype ofp_flow_mod_failed_code =
    OFPFMFC_UNKNOWN | OFPFMFC_TABLE_FULL | OFPFMFC_BAD_TABLE_ID | OFPFMFC_OVERLAP |
    OFPFMFC_EPERM | OFPFMFC_BAD_TIMEOUT | OFPFMFC_BAD_COMMAND | OFPFMFC_BAD_FLAGS

fun ofp_flow_mod_failed_code_code :: "ofp_flow_mod_failed_code \<Rightarrow> nat" where
  "ofp_flow_mod_failed_code_code OFPFMFC_UNKNOWN = 0"
| "ofp_flow_mod_failed_code_code OFPFMFC_TABLE_FULL = 1"
| "ofp_flow_mod_failed_code_code OFPFMFC_BAD_TABLE_ID = 2"
| "ofp_flow_mod_failed_code_code OFPFMFC_OVERLAP = 3"
| "ofp_flow_mod_failed_code_code OFPFMFC_EPERM = 4"
| "ofp_flow_mod_failed_code_code OFPFMFC_BAD_TIMEOUT = 5"
| "ofp_flow_mod_failed_code_code OFPFMFC_BAD_COMMAND = 6"
| "ofp_flow_mod_failed_code_code OFPFMFC_BAD_FLAGS = 7"

definition ofp_flow_mod_failed_code_list :: "ofp_flow_mod_failed_code list" where
  "ofp_flow_mod_failed_code_list =
    [OFPFMFC_UNKNOWN, OFPFMFC_TABLE_FULL, OFPFMFC_BAD_TABLE_ID, OFPFMFC_OVERLAP, OFPFMFC_EPERM,
     OFPFMFC_BAD_TIMEOUT, OFPFMFC_BAD_COMMAND, OFPFMFC_BAD_FLAGS]"

definition ofp_flow_mod_failed_code_of :: "nat \<Rightarrow> ofp_flow_mod_failed_code option" where
  "ofp_flow_mod_failed_code_of n = map_of (map (\<lambda>t. (ofp_flow_mod_failed_code_code t, t)) ofp_flow_mod_failed_code_list) n"

lemma ofp_flow_mod_failed_code_of_code [simp]: "ofp_flow_mod_failed_code_of (ofp_flow_mod_failed_code_code t) = Some t"
  by (cases t) (simp_all add: ofp_flow_mod_failed_code_of_def ofp_flow_mod_failed_code_list_def)

lemma ofp_flow_mod_failed_code_code_of: "ofp_flow_mod_failed_code_of n = Some t \<Longrightarrow> ofp_flow_mod_failed_code_code t = n"
  by (auto simp: ofp_flow_mod_failed_code_of_def ofp_flow_mod_failed_code_list_def split: if_splits)

datatype ofp_group_mod_failed_code =
    OFPGMFC_GROUP_EXISTS | OFPGMFC_INVALID_GROUP' | OFPGMFC_OUT_OF_GROUPS |
    OFPGMFC_OUT_OF_BUCKETS | OFPGMFC_CHAINING_UNSUPPORTED | OFPGMFC_WATCH_UNSUPPORTED |
    OFPGMFC_LOOP | OFPGMFC_UNKNOWN_GROUP | OFPGMFC_CHAINED_GROUP | OFPGMFC_BAD_TYPE' |
    OFPGMFC_BAD_COMMAND' | OFPGMFC_BAD_BUCKET | OFPGMFC_BAD_WATCH | OFPGMFC_EPERM

fun ofp_group_mod_failed_code_code :: "ofp_group_mod_failed_code \<Rightarrow> nat" where
  "ofp_group_mod_failed_code_code OFPGMFC_GROUP_EXISTS = 0"
| "ofp_group_mod_failed_code_code OFPGMFC_INVALID_GROUP' = 1"
| "ofp_group_mod_failed_code_code OFPGMFC_OUT_OF_GROUPS = 3"
| "ofp_group_mod_failed_code_code OFPGMFC_OUT_OF_BUCKETS = 4"
| "ofp_group_mod_failed_code_code OFPGMFC_CHAINING_UNSUPPORTED = 5"
| "ofp_group_mod_failed_code_code OFPGMFC_WATCH_UNSUPPORTED = 6"
| "ofp_group_mod_failed_code_code OFPGMFC_LOOP = 7"
| "ofp_group_mod_failed_code_code OFPGMFC_UNKNOWN_GROUP = 8"
| "ofp_group_mod_failed_code_code OFPGMFC_CHAINED_GROUP = 9"
| "ofp_group_mod_failed_code_code OFPGMFC_BAD_TYPE' = 10"
| "ofp_group_mod_failed_code_code OFPGMFC_BAD_COMMAND' = 11"
| "ofp_group_mod_failed_code_code OFPGMFC_BAD_BUCKET = 12"
| "ofp_group_mod_failed_code_code OFPGMFC_BAD_WATCH = 13"
| "ofp_group_mod_failed_code_code OFPGMFC_EPERM = 14"

definition ofp_group_mod_failed_code_list :: "ofp_group_mod_failed_code list" where
  "ofp_group_mod_failed_code_list =
    [OFPGMFC_GROUP_EXISTS, OFPGMFC_INVALID_GROUP', OFPGMFC_OUT_OF_GROUPS,
     OFPGMFC_OUT_OF_BUCKETS, OFPGMFC_CHAINING_UNSUPPORTED, OFPGMFC_WATCH_UNSUPPORTED,
     OFPGMFC_LOOP, OFPGMFC_UNKNOWN_GROUP, OFPGMFC_CHAINED_GROUP, OFPGMFC_BAD_TYPE',
     OFPGMFC_BAD_COMMAND', OFPGMFC_BAD_BUCKET, OFPGMFC_BAD_WATCH, OFPGMFC_EPERM]"

definition ofp_group_mod_failed_code_of :: "nat \<Rightarrow> ofp_group_mod_failed_code option" where
  "ofp_group_mod_failed_code_of n = map_of (map (\<lambda>t. (ofp_group_mod_failed_code_code t, t)) ofp_group_mod_failed_code_list) n"

lemma ofp_group_mod_failed_code_of_code [simp]: "ofp_group_mod_failed_code_of (ofp_group_mod_failed_code_code t) = Some t"
  by (cases t) (simp_all add: ofp_group_mod_failed_code_of_def ofp_group_mod_failed_code_list_def)

lemma ofp_group_mod_failed_code_code_of: "ofp_group_mod_failed_code_of n = Some t \<Longrightarrow> ofp_group_mod_failed_code_code t = n"
  by (auto simp: ofp_group_mod_failed_code_of_def ofp_group_mod_failed_code_list_def split: if_splits)

datatype ofp_port_mod_failed_code =
    OFPPMFC_BAD_PORT | OFPPMFC_BAD_HW_ADDR | OFPPMFC_BAD_CONFIG | OFPPMFC_BAD_ADVERTISE |
    OFPPMFC_EPERM

fun ofp_port_mod_failed_code_code :: "ofp_port_mod_failed_code \<Rightarrow> nat" where
  "ofp_port_mod_failed_code_code OFPPMFC_BAD_PORT = 0"
| "ofp_port_mod_failed_code_code OFPPMFC_BAD_HW_ADDR = 1"
| "ofp_port_mod_failed_code_code OFPPMFC_BAD_CONFIG = 2"
| "ofp_port_mod_failed_code_code OFPPMFC_BAD_ADVERTISE = 3"
| "ofp_port_mod_failed_code_code OFPPMFC_EPERM = 4"

definition ofp_port_mod_failed_code_list :: "ofp_port_mod_failed_code list" where
  "ofp_port_mod_failed_code_list =
    [OFPPMFC_BAD_PORT, OFPPMFC_BAD_HW_ADDR, OFPPMFC_BAD_CONFIG, OFPPMFC_BAD_ADVERTISE,
     OFPPMFC_EPERM]"

definition ofp_port_mod_failed_code_of :: "nat \<Rightarrow> ofp_port_mod_failed_code option" where
  "ofp_port_mod_failed_code_of n = map_of (map (\<lambda>t. (ofp_port_mod_failed_code_code t, t)) ofp_port_mod_failed_code_list) n"

lemma ofp_port_mod_failed_code_of_code [simp]: "ofp_port_mod_failed_code_of (ofp_port_mod_failed_code_code t) = Some t"
  by (cases t) (simp_all add: ofp_port_mod_failed_code_of_def ofp_port_mod_failed_code_list_def)

lemma ofp_port_mod_failed_code_code_of: "ofp_port_mod_failed_code_of n = Some t \<Longrightarrow> ofp_port_mod_failed_code_code t = n"
  by (auto simp: ofp_port_mod_failed_code_of_def ofp_port_mod_failed_code_list_def split: if_splits)

datatype ofp_table_mod_failed_code =
    OFPTMFC_BAD_TABLE | OFPTMFC_BAD_CONFIG | OFPTMFC_EPERM

fun ofp_table_mod_failed_code_code :: "ofp_table_mod_failed_code \<Rightarrow> nat" where
  "ofp_table_mod_failed_code_code OFPTMFC_BAD_TABLE = 0"
| "ofp_table_mod_failed_code_code OFPTMFC_BAD_CONFIG = 1"
| "ofp_table_mod_failed_code_code OFPTMFC_EPERM = 2"

definition ofp_table_mod_failed_code_list :: "ofp_table_mod_failed_code list" where
  "ofp_table_mod_failed_code_list =
    [OFPTMFC_BAD_TABLE, OFPTMFC_BAD_CONFIG, OFPTMFC_EPERM]"

definition ofp_table_mod_failed_code_of :: "nat \<Rightarrow> ofp_table_mod_failed_code option" where
  "ofp_table_mod_failed_code_of n = map_of (map (\<lambda>t. (ofp_table_mod_failed_code_code t, t)) ofp_table_mod_failed_code_list) n"

lemma ofp_table_mod_failed_code_of_code [simp]: "ofp_table_mod_failed_code_of (ofp_table_mod_failed_code_code t) = Some t"
  by (cases t) (simp_all add: ofp_table_mod_failed_code_of_def ofp_table_mod_failed_code_list_def)

lemma ofp_table_mod_failed_code_code_of: "ofp_table_mod_failed_code_of n = Some t \<Longrightarrow> ofp_table_mod_failed_code_code t = n"
  by (auto simp: ofp_table_mod_failed_code_of_def ofp_table_mod_failed_code_list_def split: if_splits)

datatype ofp_queue_op_failed_code =
    OFPQOFC_BAD_PORT' | OFPQOFC_BAD_QUEUE | OFPQOFC_EPERM

fun ofp_queue_op_failed_code_code :: "ofp_queue_op_failed_code \<Rightarrow> nat" where
  "ofp_queue_op_failed_code_code OFPQOFC_BAD_PORT' = 0"
| "ofp_queue_op_failed_code_code OFPQOFC_BAD_QUEUE = 1"
| "ofp_queue_op_failed_code_code OFPQOFC_EPERM = 2"

definition ofp_queue_op_failed_code_list :: "ofp_queue_op_failed_code list" where
  "ofp_queue_op_failed_code_list =
    [OFPQOFC_BAD_PORT', OFPQOFC_BAD_QUEUE, OFPQOFC_EPERM]"

definition ofp_queue_op_failed_code_of :: "nat \<Rightarrow> ofp_queue_op_failed_code option" where
  "ofp_queue_op_failed_code_of n = map_of (map (\<lambda>t. (ofp_queue_op_failed_code_code t, t)) ofp_queue_op_failed_code_list) n"

lemma ofp_queue_op_failed_code_of_code [simp]: "ofp_queue_op_failed_code_of (ofp_queue_op_failed_code_code t) = Some t"
  by (cases t) (simp_all add: ofp_queue_op_failed_code_of_def ofp_queue_op_failed_code_list_def)

lemma ofp_queue_op_failed_code_code_of: "ofp_queue_op_failed_code_of n = Some t \<Longrightarrow> ofp_queue_op_failed_code_code t = n"
  by (auto simp: ofp_queue_op_failed_code_of_def ofp_queue_op_failed_code_list_def split: if_splits)

datatype ofp_switch_config_failed_code =
    OFPSCFC_BAD_FLAGS | OFPSCFC_BAD_LEN | OFPQCFC_EPERM

fun ofp_switch_config_failed_code_code :: "ofp_switch_config_failed_code \<Rightarrow> nat" where
  "ofp_switch_config_failed_code_code OFPSCFC_BAD_FLAGS = 0"
| "ofp_switch_config_failed_code_code OFPSCFC_BAD_LEN = 1"
| "ofp_switch_config_failed_code_code OFPQCFC_EPERM = 2"

definition ofp_switch_config_failed_code_list :: "ofp_switch_config_failed_code list" where
  "ofp_switch_config_failed_code_list =
    [OFPSCFC_BAD_FLAGS, OFPSCFC_BAD_LEN, OFPQCFC_EPERM]"

definition ofp_switch_config_failed_code_of :: "nat \<Rightarrow> ofp_switch_config_failed_code option" where
  "ofp_switch_config_failed_code_of n = map_of (map (\<lambda>t. (ofp_switch_config_failed_code_code t, t)) ofp_switch_config_failed_code_list) n"

lemma ofp_switch_config_failed_code_of_code [simp]: "ofp_switch_config_failed_code_of (ofp_switch_config_failed_code_code t) = Some t"
  by (cases t) (simp_all add: ofp_switch_config_failed_code_of_def ofp_switch_config_failed_code_list_def)

lemma ofp_switch_config_failed_code_code_of: "ofp_switch_config_failed_code_of n = Some t \<Longrightarrow> ofp_switch_config_failed_code_code t = n"
  by (auto simp: ofp_switch_config_failed_code_of_def ofp_switch_config_failed_code_list_def split: if_splits)

datatype ofp_role_request_failed_code =
    OFPRRFC_STALE | OFPRRFC_UNSUP | OFPRRFC_BAD_ROLE

fun ofp_role_request_failed_code_code :: "ofp_role_request_failed_code \<Rightarrow> nat" where
  "ofp_role_request_failed_code_code OFPRRFC_STALE = 0"
| "ofp_role_request_failed_code_code OFPRRFC_UNSUP = 1"
| "ofp_role_request_failed_code_code OFPRRFC_BAD_ROLE = 2"

definition ofp_role_request_failed_code_list :: "ofp_role_request_failed_code list" where
  "ofp_role_request_failed_code_list =
    [OFPRRFC_STALE, OFPRRFC_UNSUP, OFPRRFC_BAD_ROLE]"

definition ofp_role_request_failed_code_of :: "nat \<Rightarrow> ofp_role_request_failed_code option" where
  "ofp_role_request_failed_code_of n = map_of (map (\<lambda>t. (ofp_role_request_failed_code_code t, t)) ofp_role_request_failed_code_list) n"

lemma ofp_role_request_failed_code_of_code [simp]: "ofp_role_request_failed_code_of (ofp_role_request_failed_code_code t) = Some t"
  by (cases t) (simp_all add: ofp_role_request_failed_code_of_def ofp_role_request_failed_code_list_def)

lemma ofp_role_request_failed_code_code_of: "ofp_role_request_failed_code_of n = Some t \<Longrightarrow> ofp_role_request_failed_code_code t = n"
  by (auto simp: ofp_role_request_failed_code_of_def ofp_role_request_failed_code_list_def split: if_splits)

datatype ofp_meter_mod_failed_code =
    OFPMMFC_UNKNOWN | OFPMMFC_METER_EXISTS | OFPMMFC_INVALID_METER' | OFPMMFC_UNKNOWN_METER |
    OFPMMFC_BAD_COMMAND' | OFPMMFC_BAD_FLAGS' | OFPMMFC_BAD_RATE | OFPMMFC_BAD_BURST |
    OFPMMFC_BAD_BAND | OFPMMFC_BAD_BAND_VALUE | OFPMMFC_OUT_OF_METERS | OFPMMFC_OUT_OF_BANDS

fun ofp_meter_mod_failed_code_code :: "ofp_meter_mod_failed_code \<Rightarrow> nat" where
  "ofp_meter_mod_failed_code_code OFPMMFC_UNKNOWN = 0"
| "ofp_meter_mod_failed_code_code OFPMMFC_METER_EXISTS = 1"
| "ofp_meter_mod_failed_code_code OFPMMFC_INVALID_METER' = 2"
| "ofp_meter_mod_failed_code_code OFPMMFC_UNKNOWN_METER = 3"
| "ofp_meter_mod_failed_code_code OFPMMFC_BAD_COMMAND' = 4"
| "ofp_meter_mod_failed_code_code OFPMMFC_BAD_FLAGS' = 5"
| "ofp_meter_mod_failed_code_code OFPMMFC_BAD_RATE = 6"
| "ofp_meter_mod_failed_code_code OFPMMFC_BAD_BURST = 7"
| "ofp_meter_mod_failed_code_code OFPMMFC_BAD_BAND = 8"
| "ofp_meter_mod_failed_code_code OFPMMFC_BAD_BAND_VALUE = 9"
| "ofp_meter_mod_failed_code_code OFPMMFC_OUT_OF_METERS = 10"
| "ofp_meter_mod_failed_code_code OFPMMFC_OUT_OF_BANDS = 11"

definition ofp_meter_mod_failed_code_list :: "ofp_meter_mod_failed_code list" where
  "ofp_meter_mod_failed_code_list =
    [OFPMMFC_UNKNOWN, OFPMMFC_METER_EXISTS, OFPMMFC_INVALID_METER', OFPMMFC_UNKNOWN_METER,
     OFPMMFC_BAD_COMMAND', OFPMMFC_BAD_FLAGS', OFPMMFC_BAD_RATE, OFPMMFC_BAD_BURST,
     OFPMMFC_BAD_BAND, OFPMMFC_BAD_BAND_VALUE, OFPMMFC_OUT_OF_METERS, OFPMMFC_OUT_OF_BANDS]"

definition ofp_meter_mod_failed_code_of :: "nat \<Rightarrow> ofp_meter_mod_failed_code option" where
  "ofp_meter_mod_failed_code_of n = map_of (map (\<lambda>t. (ofp_meter_mod_failed_code_code t, t)) ofp_meter_mod_failed_code_list) n"

lemma ofp_meter_mod_failed_code_of_code [simp]: "ofp_meter_mod_failed_code_of (ofp_meter_mod_failed_code_code t) = Some t"
  by (cases t) (simp_all add: ofp_meter_mod_failed_code_of_def ofp_meter_mod_failed_code_list_def)

lemma ofp_meter_mod_failed_code_code_of: "ofp_meter_mod_failed_code_of n = Some t \<Longrightarrow> ofp_meter_mod_failed_code_code t = n"
  by (auto simp: ofp_meter_mod_failed_code_of_def ofp_meter_mod_failed_code_list_def split: if_splits)

datatype ofp_table_features_failed_code =
    OFPTFFC_BAD_TABLE | OFPTFFC_BAD_METADATA | OFPTFFC_BAD_TYPE | OFPTFFC_BAD_LEN |
    OFPTFFC_BAD_ARGUMENT | OFPTFFC_EPERM

fun ofp_table_features_failed_code_code :: "ofp_table_features_failed_code \<Rightarrow> nat" where
  "ofp_table_features_failed_code_code OFPTFFC_BAD_TABLE = 0"
| "ofp_table_features_failed_code_code OFPTFFC_BAD_METADATA = 1"
| "ofp_table_features_failed_code_code OFPTFFC_BAD_TYPE = 2"
| "ofp_table_features_failed_code_code OFPTFFC_BAD_LEN = 3"
| "ofp_table_features_failed_code_code OFPTFFC_BAD_ARGUMENT = 4"
| "ofp_table_features_failed_code_code OFPTFFC_EPERM = 5"

definition ofp_table_features_failed_code_list :: "ofp_table_features_failed_code list" where
  "ofp_table_features_failed_code_list =
    [OFPTFFC_BAD_TABLE, OFPTFFC_BAD_METADATA, OFPTFFC_BAD_TYPE, OFPTFFC_BAD_LEN,
     OFPTFFC_BAD_ARGUMENT, OFPTFFC_EPERM]"

definition ofp_table_features_failed_code_of :: "nat \<Rightarrow> ofp_table_features_failed_code option" where
  "ofp_table_features_failed_code_of n = map_of (map (\<lambda>t. (ofp_table_features_failed_code_code t, t)) ofp_table_features_failed_code_list) n"

lemma ofp_table_features_failed_code_of_code [simp]: "ofp_table_features_failed_code_of (ofp_table_features_failed_code_code t) = Some t"
  by (cases t) (simp_all add: ofp_table_features_failed_code_of_def ofp_table_features_failed_code_list_def)

lemma ofp_table_features_failed_code_code_of: "ofp_table_features_failed_code_of n = Some t \<Longrightarrow> ofp_table_features_failed_code_code t = n"
  by (auto simp: ofp_table_features_failed_code_of_def ofp_table_features_failed_code_list_def split: if_splits)

datatype ofp_group_mod_command =
    OFPGC_ADD | OFPGC_MODIFY | OFPGC_DELETE'

fun ofp_group_mod_command_code :: "ofp_group_mod_command \<Rightarrow> nat" where
  "ofp_group_mod_command_code OFPGC_ADD = 0"
| "ofp_group_mod_command_code OFPGC_MODIFY = 1"
| "ofp_group_mod_command_code OFPGC_DELETE' = 2"

definition ofp_group_mod_command_list :: "ofp_group_mod_command list" where
  "ofp_group_mod_command_list =
    [OFPGC_ADD, OFPGC_MODIFY, OFPGC_DELETE']"

definition ofp_group_mod_command_of :: "nat \<Rightarrow> ofp_group_mod_command option" where
  "ofp_group_mod_command_of n = map_of (map (\<lambda>t. (ofp_group_mod_command_code t, t)) ofp_group_mod_command_list) n"

lemma ofp_group_mod_command_of_code [simp]: "ofp_group_mod_command_of (ofp_group_mod_command_code t) = Some t"
  by (cases t) (simp_all add: ofp_group_mod_command_of_def ofp_group_mod_command_list_def)

lemma ofp_group_mod_command_code_of: "ofp_group_mod_command_of n = Some t \<Longrightarrow> ofp_group_mod_command_code t = n"
  by (auto simp: ofp_group_mod_command_of_def ofp_group_mod_command_list_def split: if_splits)

datatype ofp_group_type =
    OFPGT_ALL | OFPGT_SELECT | OFPGT_INDIRECT' | OFPGT_FF'

fun ofp_group_type_code :: "ofp_group_type \<Rightarrow> nat" where
  "ofp_group_type_code OFPGT_ALL = 0"
| "ofp_group_type_code OFPGT_SELECT = 1"
| "ofp_group_type_code OFPGT_INDIRECT' = 2"
| "ofp_group_type_code OFPGT_FF' = 3"

definition ofp_group_type_list :: "ofp_group_type list" where
  "ofp_group_type_list =
    [OFPGT_ALL, OFPGT_SELECT, OFPGT_INDIRECT', OFPGT_FF']"

definition ofp_group_type_of :: "nat \<Rightarrow> ofp_group_type option" where
  "ofp_group_type_of n = map_of (map (\<lambda>t. (ofp_group_type_code t, t)) ofp_group_type_list) n"

lemma ofp_group_type_of_code [simp]: "ofp_group_type_of (ofp_group_type_code t) = Some t"
  by (cases t) (simp_all add: ofp_group_type_of_def ofp_group_type_list_def)

lemma ofp_group_type_code_of: "ofp_group_type_of n = Some t \<Longrightarrow> ofp_group_type_code t = n"
  by (auto simp: ofp_group_type_of_def ofp_group_type_list_def split: if_splits)

datatype ofp_meter_mod_command =
    OFPMC_ADD | OFPMC_MODIFY | OFPMC_DELETE'

fun ofp_meter_mod_command_code :: "ofp_meter_mod_command \<Rightarrow> nat" where
  "ofp_meter_mod_command_code OFPMC_ADD = 0"
| "ofp_meter_mod_command_code OFPMC_MODIFY = 1"
| "ofp_meter_mod_command_code OFPMC_DELETE' = 2"

definition ofp_meter_mod_command_list :: "ofp_meter_mod_command list" where
  "ofp_meter_mod_command_list =
    [OFPMC_ADD, OFPMC_MODIFY, OFPMC_DELETE']"

definition ofp_meter_mod_command_of :: "nat \<Rightarrow> ofp_meter_mod_command option" where
  "ofp_meter_mod_command_of n = map_of (map (\<lambda>t. (ofp_meter_mod_command_code t, t)) ofp_meter_mod_command_list) n"

lemma ofp_meter_mod_command_of_code [simp]: "ofp_meter_mod_command_of (ofp_meter_mod_command_code t) = Some t"
  by (cases t) (simp_all add: ofp_meter_mod_command_of_def ofp_meter_mod_command_list_def)

lemma ofp_meter_mod_command_code_of: "ofp_meter_mod_command_of n = Some t \<Longrightarrow> ofp_meter_mod_command_code t = n"
  by (auto simp: ofp_meter_mod_command_of_def ofp_meter_mod_command_list_def split: if_splits)

text \<open>The flags of a meter, each a power of two; \<open>METER_FLAGS\<close> is all of them.\<close>

datatype ofp_meter_flags =
    OFPMF_KBPS | OFPMF_PKTPS | OFPMF_BURST | OFPMF_STATS

fun ofp_meter_flags_code :: "ofp_meter_flags \<Rightarrow> nat" where
  "ofp_meter_flags_code OFPMF_KBPS = 1"
| "ofp_meter_flags_code OFPMF_PKTPS = 2"
| "ofp_meter_flags_code OFPMF_BURST = 4"
| "ofp_meter_flags_code OFPMF_STATS = 8"

definition ofp_meter_flags_list :: "ofp_meter_flags list" where
  "ofp_meter_flags_list =
    [OFPMF_KBPS, OFPMF_PKTPS, OFPMF_BURST, OFPMF_STATS]"

definition ofp_meter_flags_of :: "nat \<Rightarrow> ofp_meter_flags option" where
  "ofp_meter_flags_of n = map_of (map (\<lambda>t. (ofp_meter_flags_code t, t)) ofp_meter_flags_list) n"

lemma ofp_meter_flags_of_code [simp]: "ofp_meter_flags_of (ofp_meter_flags_code t) = Some t"
  by (cases t) (simp_all add: ofp_meter_flags_of_def ofp_meter_flags_list_def)

lemma ofp_meter_flags_code_of: "ofp_meter_flags_of n = Some t \<Longrightarrow> ofp_meter_flags_code t = n"
  by (auto simp: ofp_meter_flags_of_def ofp_meter_flags_list_def split: if_splits)

definition METER_FLAGS :: u16 where
  "METER_FLAGS = fold (\<lambda>f w. of_nat (ofp_meter_flags_code f) OR w) ofp_meter_flags_list 0"

section \<open>What an error message says\<close>

datatype ofp_error =
    Hello_failed ofp_hello_failed_code
  | Bad_request ofp_bad_request_code
  | Bad_action ofp_bad_action_code
  | Bad_instruction ofp_bad_instruction_code
  | Bad_match ofp_bad_match_code
  | Flow_mod_failed ofp_flow_mod_failed_code
  | Group_mod_failed ofp_group_mod_failed_code
  | Port_mod_failed ofp_port_mod_failed_code
  | Table_mod_failed ofp_table_mod_failed_code
  | Queue_op_failed ofp_queue_op_failed_code
  | Switch_config_failed ofp_switch_config_failed_code
  | Role_request_failed ofp_role_request_failed_code
  | Meter_mod_failed ofp_meter_mod_failed_code
  | Table_features_failed ofp_table_features_failed_code

text \<open>The error of a type and a code; the codes of an experimenter error are its own.\<close>

fun ofp_error_of :: "ofp_error_type \<Rightarrow> nat \<Rightarrow> ofp_error option" where
  "ofp_error_of OFPET_HELLO_FAILED n = map_option Hello_failed (ofp_hello_failed_code_of n)"
| "ofp_error_of OFPET_BAD_REQUEST n = map_option Bad_request (ofp_bad_request_code_of n)"
| "ofp_error_of OFPET_BAD_ACTION n = map_option Bad_action (ofp_bad_action_code_of n)"
| "ofp_error_of OFPET_BAD_INSTRUCTION n = map_option Bad_instruction (ofp_bad_instruction_code_of n)"
| "ofp_error_of OFPET_BAD_MATCH n = map_option Bad_match (ofp_bad_match_code_of n)"
| "ofp_error_of OFPET_FLOW_MOD_FAILED n = map_option Flow_mod_failed (ofp_flow_mod_failed_code_of n)"
| "ofp_error_of OFPET_GROUP_MOD_FAILED n = map_option Group_mod_failed (ofp_group_mod_failed_code_of n)"
| "ofp_error_of OFPET_PORT_MOD_FAILED n = map_option Port_mod_failed (ofp_port_mod_failed_code_of n)"
| "ofp_error_of OFPET_TABLE_MOD_FAILED n = map_option Table_mod_failed (ofp_table_mod_failed_code_of n)"
| "ofp_error_of OFPET_QUEUE_OP_FAILED n = map_option Queue_op_failed (ofp_queue_op_failed_code_of n)"
| "ofp_error_of OFPET_SWITCH_CONFIG_FAILED n = map_option Switch_config_failed (ofp_switch_config_failed_code_of n)"
| "ofp_error_of OFPET_ROLE_REQUEST_FAILED n = map_option Role_request_failed (ofp_role_request_failed_code_of n)"
| "ofp_error_of OFPET_METER_MOD_FAILED n = map_option Meter_mod_failed (ofp_meter_mod_failed_code_of n)"
| "ofp_error_of OFPET_TABLE_FEATURES_FAILED n = map_option Table_features_failed (ofp_table_features_failed_code_of n)"
| "ofp_error_of OFPET_EXPERIMENTER n = None"

fun ofp_error_pair :: "ofp_error \<Rightarrow> ofp_error_type \<times> nat" where
  "ofp_error_pair (Hello_failed c) = (OFPET_HELLO_FAILED, ofp_hello_failed_code_code c)"
| "ofp_error_pair (Bad_request c) = (OFPET_BAD_REQUEST, ofp_bad_request_code_code c)"
| "ofp_error_pair (Bad_action c) = (OFPET_BAD_ACTION, ofp_bad_action_code_code c)"
| "ofp_error_pair (Bad_instruction c) = (OFPET_BAD_INSTRUCTION, ofp_bad_instruction_code_code c)"
| "ofp_error_pair (Bad_match c) = (OFPET_BAD_MATCH, ofp_bad_match_code_code c)"
| "ofp_error_pair (Flow_mod_failed c) = (OFPET_FLOW_MOD_FAILED, ofp_flow_mod_failed_code_code c)"
| "ofp_error_pair (Group_mod_failed c) = (OFPET_GROUP_MOD_FAILED, ofp_group_mod_failed_code_code c)"
| "ofp_error_pair (Port_mod_failed c) = (OFPET_PORT_MOD_FAILED, ofp_port_mod_failed_code_code c)"
| "ofp_error_pair (Table_mod_failed c) = (OFPET_TABLE_MOD_FAILED, ofp_table_mod_failed_code_code c)"
| "ofp_error_pair (Queue_op_failed c) = (OFPET_QUEUE_OP_FAILED, ofp_queue_op_failed_code_code c)"
| "ofp_error_pair (Switch_config_failed c) = (OFPET_SWITCH_CONFIG_FAILED, ofp_switch_config_failed_code_code c)"
| "ofp_error_pair (Role_request_failed c) = (OFPET_ROLE_REQUEST_FAILED, ofp_role_request_failed_code_code c)"
| "ofp_error_pair (Meter_mod_failed c) = (OFPET_METER_MOD_FAILED, ofp_meter_mod_failed_code_code c)"
| "ofp_error_pair (Table_features_failed c) = (OFPET_TABLE_FEATURES_FAILED, ofp_table_features_failed_code_code c)"

lemma ofp_error_of_pair [simp]: "ofp_error_of (fst (ofp_error_pair e)) (snd (ofp_error_pair e)) = Some e"
  by (cases e) simp_all

lemma ofp_error_pair_of: "ofp_error_of t n = Some e \<Longrightarrow> ofp_error_pair e = (t, n)"
  by (cases t) (auto dest: ofp_hello_failed_code_code_of
      ofp_bad_request_code_code_of
      ofp_bad_action_code_code_of
      ofp_bad_instruction_code_code_of
      ofp_bad_match_code_code_of
      ofp_flow_mod_failed_code_code_of
      ofp_group_mod_failed_code_code_of
      ofp_port_mod_failed_code_code_of
      ofp_table_mod_failed_code_code_of
      ofp_queue_op_failed_code_code_of
      ofp_switch_config_failed_code_code_of
      ofp_role_request_failed_code_code_of
      ofp_meter_mod_failed_code_code_of
      ofp_table_features_failed_code_code_of)

end
