(* ===== verification/Safety.thy ===== *)
theory Safety
  imports ParseMsg
begin

text \<open>
  Memory safety of the parser: when the caller's buffer really has the bytes it claims, unpacking
  never reads outside it, for every sequence of bytes, except for the message types listed in
  \<open>unguarded\<close>. The functions of the library are asked to stay inside the bytes they are given and
  to consume what the length fields say (\<open>library_safe\<close>).
\<close>

section \<open>What is asked of the library\<close>

text \<open>
  \<open>unpack_safe\<close>: started inside the buffer, unpacking an element stays inside and consumes exactly
  the bytes by which the caller then moves its pointer.
\<close>

definition unpack_safe ::
    "(bytes \<Rightarrow> nat \<Rightarrow> size_t \<Rightarrow> ('a \<times> size_t) parsed) \<Rightarrow> (bytes \<Rightarrow> nat \<Rightarrow> nat option) \<Rightarrow> bool" where
  "unpack_safe unpack stride \<longleftrightarrow>
     (\<forall>buf pos len. pos + unat len \<le> length buf \<longrightarrow>
        (case unpack buf pos len of
           None \<Rightarrow> False
         | Some (Inl _) \<Rightarrow> True
         | Some (Inr (_, len')) \<Rightarrow>
             (\<exists>d. stride buf pos = Some d \<and> d \<le> unat len \<and> len' = len - of_nat d)))"

definition elem_safe :: "'x ofl_elem \<Rightarrow> (bytes \<Rightarrow> nat \<Rightarrow> nat option) \<Rightarrow> bool" where
  "elem_safe E stride \<longleftrightarrow>
     (\<forall>buf pos len. pos + unat len \<le> length buf \<longrightarrow> e_count E buf pos len \<noteq> None) \<and>
     unpack_safe (e_unpack E) stride"

lemma unat_minus_of_nat:
  assumes "d \<le> unat (len :: u64)"
  shows "unat (len - of_nat d) = unat len - d"
proof -
  have "unat len < 2 ^ 64" using unsigned_less [of len] by simp
  with assms have "unat (of_nat d :: u64) = d" by (intro unat_of_nat64) simp
  with assms show ?thesis by (simp add: unat_sub_if')
qed

lemma unpack_loop_safe:
  assumes "unpack_safe unpack stride" "pos + unat len \<le> length buf"
  shows "unpack_loop unpack stride n buf pos len \<noteq> None"
  using assms(2)
proof (induction n arbitrary: pos len)
  case 0
  then show ?case by simp
next
  case (Suc n)
  from assms(1) Suc.prems have "(case unpack buf pos len of None \<Rightarrow> False | Some (Inl _) \<Rightarrow> True
      | Some (Inr (_, len')) \<Rightarrow>
          (\<exists>d. stride buf pos = Some d \<and> d \<le> unat len \<and> len' = len - of_nat d))"
    unfolding unpack_safe_def by blast
  then consider e where "unpack buf pos len = fail e"
    | x d where "unpack buf pos len = ok (x, len - of_nat d)" "stride buf pos = Some d" "d \<le> unat len"
    by (auto split: option.splits sum.splits)
  then show ?case
  proof cases
    case (2 x d)
    with Suc.prems have "unpack_loop unpack stride n buf (pos + d) (len - of_nat d) \<noteq> None"
      by (intro Suc.IH) (simp add: unat_minus_of_nat)
    with 2 show ?thesis by (auto simp: bind_err_def split: sum.splits)
  qed simp
qed

lemma unpack_elems_safe:
  "elem_safe E stride \<Longrightarrow> pos + unat len \<le> length buf \<Longrightarrow> unpack_elems E stride buf pos len \<noteq> None"
  unfolding unpack_elems_def elem_safe_def
  by (intro bind_err_not_None unpack_loop_safe) auto

section \<open>Bodies that are converted here\<close>

lemma array_safe: "off + 4 * n \<le> length buf \<Longrightarrow> \<exists>ws. get_array32 conv n off buf = Some ws"
  by (induction n arbitrary: off) (auto simp: mem_simps)

lemmas bounds = mem_simps layout_simps wire_simps word_less_nat_alt not_less unat_sub_if' Let_def

lemma copy_data_safe: "off + unat len \<le> length buf \<Longrightarrow> \<exists>d. copy_data off len buf = Some d"
  by (auto simp: copy_data_def get_bytes_Some)

lemma plain_safe:
  assumes "unat len \<le> length buf" "8 \<le> unat len"
  shows "ofl_msg_unpack_empty buf len \<noteq> None"
    "ofl_msg_unpack_error buf len \<noteq> None"
    "ofl_msg_unpack_echo buf len \<noteq> None"
    "ofl_msg_unpack_role_request X buf len \<noteq> None"
    "ofl_msg_unpack_get_config_reply buf len \<noteq> None"
    "ofl_msg_unpack_set_config buf len \<noteq> None"
    "ofl_msg_unpack_async_config buf len \<noteq> None"
    "ofl_msg_unpack_port_mod buf len \<noteq> None"
    "ofl_msg_unpack_table_mod buf len \<noteq> None"
  using assms copy_data_safe [of 12 "len - 12" buf] copy_data_safe [of 8 "len - 8" buf]
    array_safe [of 8 2 buf id] array_safe [of 16 2 buf id] array_safe [of 24 2 buf id]
  by (auto simp: ofl_msg_unpack_empty_def ofl_msg_unpack_error_def ofl_msg_unpack_echo_def
      ofl_msg_unpack_role_request_def ofl_msg_unpack_get_config_reply_def ofl_msg_unpack_set_config_def
      ofl_msg_unpack_async_config_def ofl_msg_unpack_port_mod_def ofl_msg_unpack_table_mod_def bounds)


lemma plain_request_safe:
  assumes "16 + unat len \<le> length buf"
  shows "ofl_msg_unpack_multipart_request_port buf len \<noteq> None"
    "ofl_msg_unpack_multipart_request_empty buf len \<noteq> None"
    "ofl_msg_unpack_multipart_request_queue buf len \<noteq> None"
    "ofl_msg_unpack_multipart_request_group buf len \<noteq> None"
    "ofl_msg_unpack_meter_multipart_request buf len \<noteq> None"
  using assms
  by (auto simp: ofl_msg_unpack_multipart_request_port_def ofl_msg_unpack_multipart_request_empty_def
      ofl_msg_unpack_multipart_request_queue_def ofl_msg_unpack_multipart_request_group_def
      ofl_msg_unpack_meter_multipart_request_def mp_body_def bounds)

lemma plain_reply_safe:
  assumes "16 + unat len \<le> length buf"
  shows "ofl_msg_unpack_multipart_reply_aggregate X buf len \<noteq> None"
    "ofl_msg_unpack_multipart_reply_group_features buf len \<noteq> None"
  using assms array_safe [of 24 4 buf ntohl] array_safe [of 40 4 buf ntohl]
  by (auto simp: ofl_msg_unpack_multipart_reply_aggregate_def
      ofl_msg_unpack_multipart_reply_group_features_def rep_body_def bounds)

section \<open>Bodies with elements of the library\<close>

text \<open>
  A match: unpacking it inside the buffer consumes its length rounded up to a multiple of eight,
  the first four bytes being its type and length.
\<close>

definition match_safe :: "'x ofl_ext \<Rightarrow> bool" where
  "match_safe X \<longleftrightarrow>
     (\<forall>buf src len. src + unat len \<le> length buf \<longrightarrow>
        (case match_unpack X buf src (src + 4) len of
           None \<Rightarrow> False
         | Some (Inl _) \<Rightarrow> True
         | Some (Inr (m, len')) \<Rightarrow>
             (let d = nat (ROUND_UP X (4 + uint (match_length X m)) 8)
              in d \<le> unat len \<and> len' = len - of_nat d)))"

definition flow_stats_safe :: "'x ofl_ext \<Rightarrow> bool" where
  "flow_stats_safe X \<longleftrightarrow>
     (\<forall>buf pos len. pos + unat len \<le> length buf \<longrightarrow> e_count (x_flow_stats X) buf pos len \<noteq> None) \<and>
     unpack_safe (\<lambda>buf pos. flow_stats_unpack X buf pos pos) (by_len ofp_flow_stats ''length'')"

definition callbacks_safe :: "'x ofl_ext \<Rightarrow> bool" where
  "callbacks_safe X \<longleftrightarrow>
     (\<forall>unpack buf len. exp_msg_unpack X = Some unpack \<longrightarrow> unat len \<le> length buf \<longrightarrow>
        unpack buf len \<noteq> None) \<and>
     (\<forall>unpack buf len. exp_stats_req_unpack X = Some unpack \<or> exp_stats_reply_unpack X = Some unpack \<longrightarrow>
        unat len \<le> length buf \<longrightarrow> unpack buf len \<noteq> None) \<and>
     (exp_stats_reply_unpack X \<noteq> None \<longrightarrow> exp_stats_req_unpack X \<noteq> None)"

definition library_safe :: "'x ofl_ext \<Rightarrow> bool" where
  "library_safe X \<longleftrightarrow>
     rounds_up X \<and> match_safe X \<and> flow_stats_safe X \<and> callbacks_safe X \<and>
     elem_safe (x_instruction X) (by_len ofp_instruction ''len'') \<and>
     (\<forall>type. unpack_safe (bucket_unpack X type) (by_len ofp_bucket ''len'')) \<and>
     elem_safe (x_bucket X) (by_len ofp_bucket ''len'') \<and>
     elem_safe (x_meter_band X) (by_len ofp_meter_band_header ''len'') \<and>
     elem_safe (x_packet_queue X) (by_len ofp_packet_queue ''len'') \<and>
     elem_safe (x_port X) (by_size ofp_port) \<and>
     elem_safe (x_table_stats X) (by_size ofp_table_stats) \<and>
     elem_safe (x_port_stats X) (by_size ofp_port_stats) \<and>
     elem_safe (x_queue_stats X) (by_size ofp_queue_stats) \<and>
     elem_safe (x_group_stats X) (by_len ofp_group_stats ''length'') \<and>
     elem_safe (x_group_desc_stats X) (by_len ofp_group_desc_stats ''length'') \<and>
     elem_safe (x_meter_stats X) (by_len ofp_meter_stats ''len'') \<and>
     elem_safe (x_meter_config X) (by_len ofp_meter_config ''length'')"

lemma match_cases:
  assumes "match_safe X" "src + unat len \<le> length buf"
  obtains e where "match_unpack X buf src (src + 4) len = fail e"
  | m d where "match_unpack X buf src (src + 4) len = ok (m, len - of_nat d)"
      "d = nat (ROUND_UP X (4 + uint (match_length X m)) 8)" "d \<le> unat len"
  using assms(1) [unfolded match_safe_def, rule_format, OF assms(2)]
  by (auto simp: Let_def split: option.splits sum.splits)

lemma rounds_up_48:
  assumes "rounds_up X"
  shows "nat (ROUND_UP X (52 + uint (m :: u16)) 8) = 48 + nat (ROUND_UP X (4 + uint m) 8)"
proof -
  have "(59 + k) div 8 * 8 = 48 + (11 + k) div 8 * 8" for k :: int by presburger
  moreover have "0 \<le> (11 + uint m) div 8 * 8" by (simp add: pos_imp_zdiv_nonneg_iff)
  ultimately show ?thesis using assms by (simp add: rounds_up_def nat_add_distrib)
qed

lemma flow_mod_safe:
  assumes "library_safe X" "unat len \<le> length buf"
  shows "ofl_msg_unpack_flow_mod X buf len \<noteq> None"
proof (cases "len < 48")
  case False
  then have 48: "48 \<le> unat len" "unat (len - 48) = unat len - 48"
    by (simp_all add: word_less_nat_alt unat_sub_if')
  from assms have X: "match_safe X" "rounds_up X" "elem_safe (x_instruction X) (by_len ofp_instruction ''len'')"
    by (simp_all add: library_safe_def)
  have "48 + unat (len - 48) \<le> length buf" using assms 48 by simp
  then show ?thesis
  proof (rule match_cases [OF X(1)])
    fix e assume "match_unpack X buf 48 (48 + 4) (len - 48) = fail e"
    with False 48 assms show ?thesis
      by (simp add: ofl_msg_unpack_flow_mod_def bounds)
  next
    fix m d
    assume 2: "match_unpack X buf 48 (48 + 4) (len - 48) = ok (m, len - 48 - of_nat d)"
      "d = nat (ROUND_UP X (4 + uint (match_length X m)) 8)" "d \<le> unat (len - 48)"
    define inst where "inst = 48 + d"
    have "unpack_elems (x_instruction X) (by_len ofp_instruction ''len'') buf inst (len - 48 - of_nat d) \<noteq> None"
      using 2 48 assms by (intro unpack_elems_safe [OF X(3)]) (simp add: inst_def unat_minus_of_nat)
    moreover have "nat (ROUND_UP X (52 + uint (match_length X m)) 8) = inst"
      using rounds_up_48 [OF X(2)] 2 by (simp add: inst_def)
    ultimately show ?thesis using False 48 2 assms
      by (auto simp: ofl_msg_unpack_flow_mod_def bounds bind_err_def split: sum.splits option.splits)
  qed
qed (simp add: ofl_msg_unpack_flow_mod_def layout_simps)


lemma match_not_None:
  "match_safe X \<Longrightarrow> src + unat len \<le> length buf \<Longrightarrow>
     (\<exists>e. match_unpack X buf src (src + 4) len = fail e)
     \<or> (\<exists>m l. match_unpack X buf src (src + 4) len = ok (m, l))"
  by (rule match_cases) auto

lemma match_bodies_safe:
  assumes "library_safe X"
  shows "unat len \<le> length buf \<Longrightarrow> ofl_msg_unpack_flow_removed X buf len \<noteq> None"
    and "16 + unat len \<le> length buf \<Longrightarrow> ofl_msg_unpack_multipart_request_flow X buf len \<noteq> None"
  using assms match_not_None [of X 48 "len - 48" buf] match_not_None [of X 48 "len - 32" buf]
  by (auto simp: ofl_msg_unpack_flow_removed_def ofl_msg_unpack_multipart_request_flow_def mp_body_def
      bounds library_safe_def simp del: bind_Some_iff)

lemma elem_cases:
  assumes "elem_safe E stride" "pos + unat len \<le> length buf"
  shows "\<exists>r. e_count E buf pos len = Some r" "\<exists>r. e_unpack E buf pos len = Some r"
    "\<exists>r. unpack_elems E stride buf pos len = Some r"
  using assms unpack_elems_safe [OF assms]
  by (force simp: elem_safe_def unpack_safe_def split: option.splits)+

lemma elem_bodies_safe:
  assumes "library_safe X" "unat len \<le> length buf"
  shows "ofl_msg_unpack_port_status X buf len \<noteq> None"
    and "ofl_msg_unpack_meter_mod X buf len \<noteq> None"
    and "ofl_msg_unpack_queue_get_config_reply X buf len \<noteq> None"
  using assms elem_cases(2) [of "x_port X" "by_size ofp_port" 16 "len - 16" buf]
    elem_cases(3) [of "x_meter_band X" "by_len ofp_meter_band_header ''len''" 16 "len - 16" buf]
    elem_cases(3) [of "x_packet_queue X" "by_len ofp_packet_queue ''len''" 16 "len - 16" buf]
  by (auto simp: ofl_msg_unpack_port_status_def ofl_msg_unpack_meter_mod_def
      ofl_msg_unpack_queue_get_config_reply_def bounds library_safe_def bind_err_def
      split: sum.splits option.splits)

lemma group_mod_safe:
  assumes "library_safe X" "unat len \<le> length buf"
  shows "ofl_msg_unpack_group_mod X buf len \<noteq> None"
proof (cases "len < 16")
  case False
  then have 16: "16 + unat (len - 16) \<le> length buf"
    using assms by (simp add: bounds)
  from assms have X: "elem_safe (x_bucket X) (by_len ofp_bucket ''len'')"
    "unpack_safe (bucket_unpack X type) (by_len ofp_bucket ''len'')" for type
    by (simp_all add: library_safe_def)
  obtain r where r: "e_count (x_bucket X) buf 16 (len - 16) = Some r"
    using elem_cases(1) [OF X(1) 16] by blast
  have loop: "unpack_loop (bucket_unpack X type) (by_len ofp_bucket ''len'') n buf 16 (len - 16) \<noteq> None"
    for type n by (rule unpack_loop_safe [OF X(2) 16])
  have last: "bind_err (unpack_loop (bucket_unpack X type) (by_len ofp_bucket ''len'') n buf 16 (len - 16))
      (\<lambda>(bs, len). ok (f bs, len)) \<noteq> None" for type n and f :: "'a list \<Rightarrow> 'a ofl_body"
    by (rule bind_err_not_None [OF loop]) auto
  have "16 \<le> length buf" using 16 by simp
  with False r last show ?thesis
    by (cases r) (simp_all add: ofl_msg_unpack_group_mod_def mem_simps layout_simps Let_def)
qed (simp add: ofl_msg_unpack_group_mod_def layout_simps)

lemma elem_replies_safe:
  assumes "library_safe X" "16 + unat len \<le> length buf"
  shows "ofl_msg_unpack_multipart_reply_table X buf len \<noteq> None"
    "ofl_msg_unpack_multipart_reply_port X buf len \<noteq> None"
    "ofl_msg_unpack_multipart_reply_queue X buf len \<noteq> None"
    "ofl_msg_unpack_multipart_reply_group X buf len \<noteq> None"
    "ofl_msg_unpack_multipart_reply_group_desc X buf len \<noteq> None"
    "ofl_msg_unpack_multipart_reply_meter_stats X buf len \<noteq> None"
    "ofl_msg_unpack_multipart_reply_meter_config X buf len \<noteq> None"
    "ofl_msg_unpack_multipart_reply_port_desc X buf len \<noteq> None"
  unfolding ofl_msg_unpack_multipart_reply_table_def ofl_msg_unpack_multipart_reply_port_def
    ofl_msg_unpack_multipart_reply_queue_def ofl_msg_unpack_multipart_reply_group_def
    ofl_msg_unpack_multipart_reply_group_desc_def ofl_msg_unpack_multipart_reply_meter_stats_def
    ofl_msg_unpack_multipart_reply_meter_config_def ofl_msg_unpack_multipart_reply_port_desc_def
  by (intro bind_err_not_None unpack_elems_safe;
      use assms in \<open>auto simp: library_safe_def layout_simps\<close>)+

text \<open>The two pointers of the flow statistics loop stay together.\<close>

lemma flow_stats_loop_safe:
  assumes "flow_stats_safe X" "pos + unat len \<le> length buf"
  shows "flow_stats_loop X n buf pos pos len \<noteq> None"
  using assms(2)
proof (induction n arbitrary: pos len)
  case 0
  then show ?case by simp
next
  case (Suc n)
  have "unpack_safe (\<lambda>buf pos. flow_stats_unpack X buf pos pos) (by_len ofp_flow_stats ''length'')"
    using assms(1) by (simp add: flow_stats_safe_def)
  from this [unfolded unpack_safe_def, rule_format, OF Suc.prems]
  consider e where "flow_stats_unpack X buf pos pos len = fail e"
    | x d where "flow_stats_unpack X buf pos pos len = ok (x, len - of_nat d)"
        "by_len ofp_flow_stats ''length'' buf pos = Some d" "d \<le> unat len"
    by (auto split: option.splits sum.splits)
  then show ?case
  proof cases
    case (2 x d)
    have "unat (of_nat d :: size_t) = d"
      using 2(3) unsigned_less [of len, where 'a = nat] by (intro unat_of_nat64) simp
    moreover have "flow_stats_loop X n buf (pos + d) (pos + d) (len - of_nat d) \<noteq> None"
      using Suc.prems 2 by (intro Suc.IH) (simp add: unat_minus_of_nat)
    ultimately show ?thesis using 2 by (auto simp: bind_err_def split: sum.splits)
  qed simp
qed

lemma flow_reply_safe:
  assumes "library_safe X" "16 + unat len \<le> length buf"
  shows "ofl_msg_unpack_multipart_reply_flow X buf len \<noteq> None"
proof -
  have X: "flow_stats_safe X" using assms by (simp add: library_safe_def)
  then have "e_count (x_flow_stats X) buf 16 len \<noteq> None"
    using assms by (simp add: flow_stats_safe_def)
  moreover have "flow_stats_loop X n buf 16 16 len \<noteq> None" for n
    using flow_stats_loop_safe [OF X] assms by simp
  ultimately have "bind_err (e_count (x_flow_stats X) buf 16 len) (\<lambda>n.
      bind_err (flow_stats_loop X n buf 16 16 len) (\<lambda>(stats, len). ok (Rep_flow stats, len))) \<noteq> None"
    by (intro bind_err_not_None) auto
  then show ?thesis by (simp add: ofl_msg_unpack_multipart_reply_flow_def layout_simps)
qed


section \<open>Dispatch\<close>

text \<open>
  The message types whose parser can leave the buffer or go on after an error, whatever the library
  does: the length of a features reply and of a queue configuration request is not checked (enough),
  a bad match of a packet-in and a bad action of a packet-out are not noticed, the strings of a
  description need not end, and the errors of the table features are ignored.
\<close>

definition unguarded :: "bytes \<Rightarrow> bool" where
  "unguarded buf \<longleftrightarrow>
     (let mp = ofp_multipart_types_of (unat (ntohs (le_word (slice 8 2 buf))))
      in case ofp_type_of (unat (buf ! 1)) of
           None \<Rightarrow> False
         | Some t \<Rightarrow>
             t \<in> {OFPT_FEATURES_REPLY, OFPT_QUEUE_GET_CONFIG_REQUEST, OFPT_PACKET_IN, OFPT_PACKET_OUT} \<or>
             t = OFPT_MULTIPART_REQUEST \<and> mp = Some OFPMP_TABLE_FEATURES \<or>
             t = OFPT_MULTIPART_REPLY \<and> mp \<in> {Some OFPMP_DESC, Some OFPMP_TABLE_FEATURES})"

lemma callback_safe:
  assumes "library_safe X" "unat len \<le> length buf"
  shows "exp_msg_unpack X = Some u \<Longrightarrow> u buf len \<noteq> None"
    "exp_stats_req_unpack X = Some u \<Longrightarrow> u buf len \<noteq> None"
    "exp_stats_reply_unpack X = Some u \<Longrightarrow> u buf len \<noteq> None"
  using assms unfolding library_safe_def callbacks_safe_def by metis+

lemma bind_ok_not_None: "r \<noteq> None \<Longrightarrow> bind_err r (\<lambda>(x, len). ok (f x, len)) \<noteq> None"
  by (intro bind_err_not_None) auto

lemma request_switch_safe:
  assumes "library_safe X" "16 + unat len \<le> length buf"
    and "ofp_multipart_types_of (unat type) \<noteq> Some OFPMP_TABLE_FEATURES"
  shows "unpack_request_switch X type buf len \<noteq> None"
proof (cases "ofp_multipart_types_of (unat type)")
  case (Some t)
  have exp: "(if exp_stats_reply_unpack X = None then fail BAD_MULTIPART
          else do { unpack \<leftarrow> exp_stats_req_unpack X;
                    bind_err (unpack buf len) (\<lambda>(x, len). ok (Req_experimenter x, len)) }) \<noteq> None"
  proof (cases "exp_stats_reply_unpack X = None")
    case False
    with assms(1) obtain u where u: "exp_stats_req_unpack X = Some u"
      by (auto simp: library_safe_def callbacks_safe_def)
    have "u buf len \<noteq> None" using callback_safe(2) [OF assms(1) _ u] assms(2) by simp
    with False u show ?thesis using bind_ok_not_None [of "u buf len" Req_experimenter] by simp
  qed simp
  from assms Some exp show ?thesis
    by (cases t) (simp_all add: unpack_request_switch_def plain_request_safe match_bodies_safe
        del: not_None_eq)
qed (simp add: unpack_request_switch_def)

lemma reply_switch_safe:
  assumes "library_safe X" "16 + unat len \<le> length buf"
    and "ofp_multipart_types_of (unat type) \<notin> {Some OFPMP_DESC, Some OFPMP_TABLE_FEATURES}"
  shows "unpack_reply_switch X type buf len \<noteq> None"
proof (cases "ofp_multipart_types_of (unat type)")
  case (Some t)
  have exp: "(case exp_stats_reply_unpack X of None \<Rightarrow> fail BAD_MULTIPART
      | Some unpack \<Rightarrow> bind_err (unpack buf len) (\<lambda>(x, len). ok (Rep_experimenter x, len))) \<noteq> None"
    using callback_safe(3) [OF assms(1)] assms(2)
    by (auto split: option.splits intro!: bind_ok_not_None iff del: not_None_eq)
  from assms Some exp show ?thesis
    by (cases t) (simp_all add: unpack_reply_switch_def plain_reply_safe elem_replies_safe
        flow_reply_safe del: not_None_eq)
qed (simp add: unpack_reply_switch_def)


lemma multipart_safe:
  assumes "library_safe X" "unat len \<le> length buf"
  shows "ofp_multipart_types_of (unat (ntohs (le_word (slice 8 2 buf)))) \<noteq> Some OFPMP_TABLE_FEATURES \<Longrightarrow>
      ofl_msg_unpack_multipart_request X buf len \<noteq> None"
    and "ofp_multipart_types_of (unat (ntohs (le_word (slice 8 2 buf))))
        \<notin> {Some OFPMP_DESC, Some OFPMP_TABLE_FEATURES} \<Longrightarrow>
      ofl_msg_unpack_multipart_reply X buf len \<noteq> None"
proof -
  assume ty: "ofp_multipart_types_of (unat (ntohs (le_word (slice 8 2 buf)))) \<noteq> Some OFPMP_TABLE_FEATURES"
  show "ofl_msg_unpack_multipart_request X buf len \<noteq> None"
  proof (cases "len < 16")
    case False
    then have 16: "16 + unat (len - 16) \<le> length buf" using assms by (simp add: bounds)
    then have "16 \<le> length buf" by simp
    with False request_switch_safe [OF assms(1) 16 ty] show ?thesis
      by (auto simp: ofl_msg_unpack_multipart_request_def mem_simps layout_simps bind_err_def
          split: sum.splits)
  qed (simp add: ofl_msg_unpack_multipart_request_def layout_simps)
next
  assume ty: "ofp_multipart_types_of (unat (ntohs (le_word (slice 8 2 buf))))
        \<notin> {Some OFPMP_DESC, Some OFPMP_TABLE_FEATURES}"
  show "ofl_msg_unpack_multipart_reply X buf len \<noteq> None"
  proof (cases "len < 16")
    case False
    then have 16: "16 + unat (len - 16) \<le> length buf" using assms by (simp add: bounds)
    then have "16 \<le> length buf" by simp
    with False reply_switch_safe [OF assms(1) 16 ty] show ?thesis
      by (auto simp: ofl_msg_unpack_multipart_reply_def mem_simps layout_simps bind_err_def
          split: sum.splits)
  qed (simp add: ofl_msg_unpack_multipart_reply_def layout_simps)
qed

lemma unpack_switch_safe:
  assumes "library_safe X" "unat len \<le> length buf" "8 \<le> unat len" "\<not> unguarded buf"
  shows "unpack_switch X (buf ! 1) buf len \<noteq> None"
proof (cases "ofp_type_of (unat (buf ! 1))")
  case (Some t)
  have exp: "(case exp_msg_unpack X of
         None \<Rightarrow> fail (ofl_error OFPET_BAD_REQUEST OFPBRC_BAD_EXPERIMENTER)
       | Some unpack \<Rightarrow> bind_err (unpack buf len) (\<lambda>(x, len). ok (Msg_experimenter x, len))) \<noteq> None"
    using callback_safe(1) [OF assms(1,2)]
    by (auto split: option.splits intro!: bind_ok_not_None iff del: not_None_eq)
  note safe = plain_safe [OF assms(2,3)] match_bodies_safe(1) [OF assms(1,2)]
    elem_bodies_safe [OF assms(1,2)] group_mod_safe [OF assms(1,2)] flow_mod_safe [OF assms(1,2)]
    multipart_safe [OF assms(1,2)]
  from assms(4) Some exp safe show ?thesis
    by (cases t) (simp_all add: unpack_switch_def unguarded_def Let_def del: not_None_eq)
qed (simp add: unpack_switch_def)

lemma unpack_safe_msg:
  assumes "library_safe X" "unat len \<le> length buf" "\<not> unguarded buf"
  shows "ofl_msg_unpack X buf len xid \<noteq> None"
proof (cases "len < 8")
  case False
  then have 8: "8 \<le> unat len" "8 \<le> length buf"
    using assms(2) by (simp_all add: word_less_nat_alt)
  then have "hd (slice 1 1 buf) = buf ! 1"
    by (simp add: slice_def hd_conv_nth)
  moreover obtain r where r: "unpack_switch X (buf ! 1) buf len = Some r"
    using unpack_switch_safe [OF assms(1,2) 8(1) assms(3)] by blast
  ultimately show ?thesis using False 8
    by (cases r; cases "projr r") (auto simp: ofl_msg_unpack_def mem_simps layout_simps Let_def)
qed (simp add: ofl_msg_unpack_def layout_simps)

end
