(* ===== verification/HostExt.thy ===== *)
theory HostExt
  imports Safety
begin

text \<open>
  A concrete instance of the library parameter for the witnesses: a little-endian host with the
  documented byte-order and rounding macros, whose library knows no elements of its own.
\<close>

definition no_elem :: "'x ofl_elem" where
  "no_elem = \<lparr> e_count = \<lambda>_ _ _. ok 0, e_unpack = \<lambda>_ _ _. fail OFL_ERROR,
               e_total_len = \<lambda>_. 0, e_pack = \<lambda>_ _ _. None \<rparr>"

definition host_ext :: "bytes ofl_ext" where
  "host_ext =
    \<lparr> hton64 = bswap 8, ntoh64 = bswap 8, ROUND_UP = (\<lambda>n m. (n + m - 1) div m * m), priority_bits = 16,
      OXM_LENGTH = (\<lambda>header. unat (header AND 0xff)), OXM_FIELD = (\<lambda>header. ucast (drop_bit 9 header AND 0x7f)),
      match_length = (\<lambda>m. of_nat (length m)), match_unpack = (\<lambda>_ _ _ _. fail OFL_ERROR),
      match_pack = (\<lambda>m _ dst fields buf. put_bytes fields m buf),
      count_actions = (\<lambda>_ _ _. ok 0), action_unpack = (\<lambda>_ _ _. fail OFL_ERROR),
      x_instruction = no_elem, x_bucket = no_elem, bucket_unpack = (\<lambda>_ _ _ _. fail OFL_ERROR),
      x_meter_band = no_elem, x_flow_stats = no_elem, flow_stats_unpack = (\<lambda>_ _ _ _. fail OFL_ERROR),
      x_table_stats = no_elem, x_table_features = no_elem, table_features_unpack = (\<lambda>_ _ len. Some (None, len)),
      x_port_stats = no_elem, x_queue_stats = no_elem, x_group_stats = no_elem,
      x_group_desc_stats = no_elem, x_meter_stats = no_elem, x_meter_config = no_elem, x_port = no_elem,
      x_packet_queue = no_elem, exp_msg_pack = None, exp_msg_unpack = None, exp_stats_req_pack = None,
      exp_stats_reply_pack = None, exp_stats_req_unpack = None, exp_stats_reply_unpack = None,
      exp_act_len = None, exp_act_pack = None \<rparr>"

lemma host_swaps64 [simp]: "swaps64 host_ext"
  by (simp add: swaps64_def host_ext_def)

lemma host_rounds_up [simp]: "rounds_up host_ext"
  by (simp add: rounds_up_def host_ext_def)

lemma no_elem_safe [simp]: "elem_safe no_elem stride"
  by (simp add: elem_safe_def unpack_safe_def no_elem_def)

lemma host_library_safe [simp]: "library_safe host_ext"
proof -
  have "match_safe host_ext" "flow_stats_safe host_ext" "callbacks_safe host_ext"
    by (simp_all add: match_safe_def flow_stats_safe_def callbacks_safe_def unpack_safe_def
        host_ext_def no_elem_def)
  moreover have "unpack_safe (bucket_unpack host_ext type) stride" for type stride
    by (simp add: unpack_safe_def host_ext_def)
  ultimately show ?thesis by (simp add: library_safe_def) (simp add: host_ext_def)
qed

abbreviation ready_heap :: heap where "ready_heap \<equiv> \<lambda>_. Some (\<lambda>_. 0xaa)"

end
