(* ===== verification/ParseResult.thy ===== *)
theory ParseResult
  imports ErrorCodes HostExt Codec
begin

text \<open>
  What unpacking may answer: the errors each message type can report, with what they mean to the peer
  that gets them in an error message, and the values a message that is accepted can have. Both are one
  statement about a function, \<open>returns E Q\<close>, which is proved along the structure of its definition.
\<close>

section \<open>Outcomes\<close>

text \<open>An error lies in \<open>E\<close>, and a result satisfies \<open>Q\<close>.\<close>

definition returns :: "ofl_err set \<Rightarrow> ('a \<Rightarrow> bool) \<Rightarrow> 'a parsed \<Rightarrow> bool" where
  "returns E Q r \<longleftrightarrow> (case r of None \<Rightarrow> True | Some (Inl e) \<Rightarrow> e \<in> E | Some (Inr x) \<Rightarrow> Q x)"

named_theorems outcome \<open>outcomes along the structure of a parser\<close>

lemma returns_fail [outcome]: "e \<in> E \<Longrightarrow> returns E Q (fail e)"
  by (simp add: returns_def)

lemma returns_ok [outcome]: "Q x \<Longrightarrow> returns E Q (ok x)"
  by (simp add: returns_def)

lemma returns_None [outcome]: "returns E Q None"
  by (simp add: returns_def)

lemma returns_bind [outcome]: "(\<And>x. m = Some x \<Longrightarrow> returns E Q (f x)) \<Longrightarrow> returns E Q (Option.bind m f)"
  by (cases m) (simp_all add: returns_def)

lemma returns_bind_err:
  "returns E P r \<Longrightarrow> (\<And>x. P x \<Longrightarrow> returns E Q (f x)) \<Longrightarrow> returns E Q (bind_err r f)"
  by (cases r; cases "the r") (auto simp: returns_def)

lemma returns_if [outcome]:
  "(c \<Longrightarrow> returns E Q r) \<Longrightarrow> (\<not> c \<Longrightarrow> returns E Q r') \<Longrightarrow> returns E Q (if c then r else r')"
  by simp

lemma returns_Let [outcome]: "returns E Q (f x) \<Longrightarrow> returns E Q (Let x f)"
  by simp

lemma returns_prod [outcome]: "(\<And>a b. p = (a, b) \<Longrightarrow> returns E Q (f a b)) \<Longrightarrow> returns E Q (case p of (a, b) \<Rightarrow> f a b)"
  by (cases p) simp

lemma returns_sum [outcome]:
  "(\<And>e. r = Inl e \<Longrightarrow> returns E Q (f e)) \<Longrightarrow> (\<And>x. r = Inr x \<Longrightarrow> returns E Q (g x)) \<Longrightarrow>
    returns E Q (case r of Inl e \<Rightarrow> f e | Inr x \<Rightarrow> g x)"
  by (cases r) simp_all

lemma returns_option [outcome]:
  "(p = None \<Longrightarrow> returns E Q r) \<Longrightarrow> (\<And>x. p = Some x \<Longrightarrow> returns E Q (f x)) \<Longrightarrow>
    returns E Q (case p of None \<Rightarrow> r | Some x \<Rightarrow> f x)"
  by (cases p) simp_all

lemma returns_weaken:
  "returns E Q r \<Longrightarrow> E \<subseteq> E' \<Longrightarrow> (\<And>x. Q x \<Longrightarrow> Q' x) \<Longrightarrow> returns E' Q' r"
  by (auto simp: returns_def split: option.splits sum.splits)

lemma returns_failD: "returns E Q r \<Longrightarrow> r = fail e \<Longrightarrow> e \<in> E"
  by (simp add: returns_def)

lemma returns_okD: "returns E Q r \<Longrightarrow> r = ok x \<Longrightarrow> Q x"
  by (simp add: returns_def)

section \<open>The errors of the library\<close>

abbreviation reports :: "ofl_err set \<Rightarrow> 'a parsed \<Rightarrow> bool" where
  "reports L \<equiv> returns L (\<lambda>_. True)"

definition elem_reports :: "ofl_err set \<Rightarrow> 'x ofl_elem \<Rightarrow> bool" where
  "elem_reports L E \<longleftrightarrow>
     (\<forall>buf pos len. reports L (e_count E buf pos len)) \<and> (\<forall>buf pos len. reports L (e_unpack E buf pos len))"

lemma reports_bind_err [outcome]:
  "reports E r \<Longrightarrow> (\<And>x. returns E Q (f x)) \<Longrightarrow> returns E Q (bind_err r f)"
  by (rule returns_bind_err)

text \<open>The errors the library reports lie in \<open>L\<close>, which can be any set.\<close>

definition library_reports :: "ofl_err set \<Rightarrow> 'x ofl_ext \<Rightarrow> bool" where
  "library_reports L X \<longleftrightarrow>
     (\<forall>buf src dst len. reports L (match_unpack X buf src dst len)) \<and>
     (\<forall>buf pos len. reports L (count_actions X buf pos len)) \<and>
     (\<forall>buf pos ptr len. reports L (flow_stats_unpack X buf pos ptr len)) \<and>
     (\<forall>type buf pos len. reports L (bucket_unpack X type buf pos len)) \<and>
     (\<forall>u buf len. exp_msg_unpack X = Some u \<longrightarrow> reports L (u buf len)) \<and>
     (\<forall>u buf len. exp_stats_req_unpack X = Some u \<longrightarrow> reports L (u buf len)) \<and>
     (\<forall>u buf len. exp_stats_reply_unpack X = Some u \<longrightarrow> reports L (u buf len)) \<and>
     list_all (elem_reports L)
       [x_instruction X, x_bucket X, x_meter_band X, x_flow_stats X, x_table_stats X, x_table_features X,
        x_port_stats X, x_queue_stats X, x_group_stats X, x_group_desc_stats X, x_meter_stats X,
        x_meter_config X, x_port X, x_packet_queue X]"

lemma reports_mono: "reports L r \<Longrightarrow> L \<subseteq> E \<Longrightarrow> reports E r"
  by (rule returns_weaken)

lemma library_reports_UNIV: "library_reports UNIV X"
  by (auto simp: library_reports_def elem_reports_def returns_def split: option.splits sum.splits)

lemma host_library_reports: "library_reports {OFL_ERROR} host_ext"
  by (simp add: library_reports_def elem_reports_def host_ext_def no_elem_def returns_def)

lemma library_outcomes:
  assumes "library_reports L X" "L \<subseteq> E"
  shows "reports E (match_unpack X buf src dst len)" "reports E (count_actions X buf pos len)"
    "reports E (flow_stats_unpack X buf pos ptr len)" "reports E (bucket_unpack X type buf pos len)"
    "exp_msg_unpack X = Some u \<Longrightarrow> reports E (u buf len)"
    "exp_stats_req_unpack X = Some u \<Longrightarrow> reports E (u buf len)"
    "exp_stats_reply_unpack X = Some u \<Longrightarrow> reports E (u buf len)"
  using assms(1) by (simp_all add: library_reports_def reports_mono [OF _ assms(2)])

lemma elem_outcomes:
  assumes "elem_reports L e" "L \<subseteq> E"
  shows "reports E (e_count e buf pos len)" "reports E (e_unpack e buf pos len)"
  using assms(1) by (simp_all add: elem_reports_def reports_mono [OF _ assms(2)])

lemma unpack_loop_outcome:
  assumes "\<And>pos len. reports E (unpack buf pos len)"
  shows "returns E (\<lambda>(xs, _). length xs = n) (unpack_loop unpack stride n buf pos len)"
proof (induction n arbitrary: pos len)
  case (Suc n)
  show ?case unfolding unpack_loop.simps
    by (intro reports_bind_err [OF assms] returns_bind_err [OF Suc.IH] returns_prod returns_bind returns_ok) auto
qed (simp add: returns_def)

lemma unpack_elems_outcome:
  assumes "elem_reports L e" "L \<subseteq> E"
  shows "reports E (unpack_elems e stride buf pos len)"
  unfolding unpack_elems_def
  by (intro outcome elem_outcomes [OF assms] returns_weaken [OF unpack_loop_outcome [OF elem_outcomes(2) [OF assms]]]) simp_all

lemma flow_stats_loop_outcome:
  assumes "library_reports L X" "L \<subseteq> E"
  shows "reports E (flow_stats_loop X n buf stat ptr len)"
proof (induction n arbitrary: stat ptr len)
  case (Suc n)
  show ?case unfolding flow_stats_loop.simps
    by (intro outcome library_outcomes [OF assms] Suc.IH) simp
qed (simp add: returns_def)

section \<open>What a message can be\<close>

text \<open>The errors a message type can report, besides those of the library.\<close>

definition BAD_TABLE :: ofl_err where
  "BAD_TABLE = ofl_error OFPET_BAD_REQUEST OFPBAC_BAD_ARGUMENT"

fun errors_of :: "ofp_type option \<Rightarrow> ofl_err list" where
  "errors_of None = [ofl_error OFPET_BAD_REQUEST OFPGMFC_BAD_TYPE]"
| "errors_of (Some t) =
    (case t of
       OFPT_HELLO \<Rightarrow> [] | OFPT_ECHO_REQUEST \<Rightarrow> [] | OFPT_ECHO_REPLY \<Rightarrow> [] | OFPT_FEATURES_REQUEST \<Rightarrow> []
     | OFPT_FEATURES_REPLY \<Rightarrow> [] | OFPT_GET_CONFIG_REQUEST \<Rightarrow> [] | OFPT_GET_ASYNC_REQUEST \<Rightarrow> []
     | OFPT_BARRIER_REQUEST \<Rightarrow> [] | OFPT_BARRIER_REPLY \<Rightarrow> []
     | OFPT_ERROR \<Rightarrow> [OFL_ERROR]
     | OFPT_EXPERIMENTER \<Rightarrow> [ofl_error OFPET_BAD_REQUEST OFPBRC_BAD_EXPERIMENTER]
     | OFPT_PACKET_IN \<Rightarrow> [BAD_LEN, BAD_TABLE]
     | OFPT_FLOW_REMOVED \<Rightarrow> [OFL_ERROR, BAD_TABLE]
     | OFPT_GROUP_MOD \<Rightarrow> [BAD_LEN, ofl_error OFPET_BAD_REQUEST OFPGMFC_BAD_COMMAND,
                         ofl_error OFPET_GROUP_MOD_FAILED OFPGMFC_INVALID_GROUP]
     | OFPT_METER_MOD \<Rightarrow> [BAD_LEN, ofl_error OFPET_BAD_REQUEST OFPMMFC_BAD_COMMAND,
                         ofl_error OFPET_BAD_REQUEST OFPMMFC_BAD_FLAGS,
                         ofl_error OFPET_METER_MOD_FAILED OFPMMFC_INVALID_METER]
     | OFPT_MULTIPART_REQUEST \<Rightarrow> [BAD_LEN, BAD_MULTIPART]
     | OFPT_MULTIPART_REPLY \<Rightarrow> [BAD_LEN, BAD_MULTIPART]
     | OFPT_QUEUE_GET_CONFIG_REQUEST \<Rightarrow> [ofl_error OFPET_QUEUE_OP_FAILED OFPQOFC_BAD_PORT]
     | _ \<Rightarrow> [BAD_LEN])"

text \<open>
  The messages the parser can produce: the structure belongs to the type, so that a cast by the type
  finds what it expects, and the members that are checked have a value the protocol gives a meaning.
  The type of a group is not among them, because its check never fires.
\<close>

definition is_c_string :: "bytes \<Rightarrow> bool" where
  "is_c_string s \<longleftrightarrow> s \<noteq> [] \<and> last s = 0 \<and> 0 \<notin> set (butlast s)"

fun valid_request :: "ofp_multipart_types \<Rightarrow> 'x mp_request \<Rightarrow> bool" where
  "valid_request t Req_empty \<longleftrightarrow>
     t \<in> {OFPMP_DESC, OFPMP_TABLE, OFPMP_GROUP_DESC, OFPMP_GROUP_FEATURES, OFPMP_PORT_DESC}"
| "valid_request t (Req_flow _) \<longleftrightarrow> t \<in> {OFPMP_FLOW, OFPMP_AGGREGATE}"
| "valid_request t (Req_port p) \<longleftrightarrow> t = OFPMP_PORT_STATS \<and> 0 < p \<and> (p \<le> OFPP_MAX \<or> p = OFPP_ANY)"
| "valid_request t (Req_queue p _) \<longleftrightarrow> t = OFPMP_QUEUE \<and> 0 < p \<and> (p \<le> OFPP_MAX \<or> p = OFPP_ANY)"
| "valid_request t (Req_group _) \<longleftrightarrow> t = OFPMP_GROUP"
| "valid_request t (Req_meter _) \<longleftrightarrow> t \<in> {OFPMP_METER, OFPMP_METER_CONFIG}"
| "valid_request t (Req_table_features _) \<longleftrightarrow> t = OFPMP_TABLE_FEATURES"
| "valid_request t (Req_experimenter _) \<longleftrightarrow> t = OFPMP_EXPERIMENTER"

fun valid_reply :: "ofp_multipart_types \<Rightarrow> 'x mp_reply \<Rightarrow> bool" where
  "valid_reply t (Rep_desc d) \<longleftrightarrow> t = OFPMP_DESC \<and>
     list_all is_c_string [de_mfr_desc d, de_hw_desc d, de_sw_desc d, de_serial_num d, de_dp_desc d]"
| "valid_reply t (Rep_flow _) \<longleftrightarrow> t = OFPMP_FLOW"
| "valid_reply t (Rep_aggregate _ _ _) \<longleftrightarrow> t = OFPMP_AGGREGATE"
| "valid_reply t (Rep_table _) \<longleftrightarrow> t = OFPMP_TABLE"
| "valid_reply t (Rep_table_features _) \<longleftrightarrow> t = OFPMP_TABLE_FEATURES"
| "valid_reply t (Rep_port _) \<longleftrightarrow> t = OFPMP_PORT_STATS"
| "valid_reply t (Rep_queue _) \<longleftrightarrow> t = OFPMP_QUEUE"
| "valid_reply t (Rep_group _) \<longleftrightarrow> t = OFPMP_GROUP"
| "valid_reply t (Rep_group_desc _) \<longleftrightarrow> t = OFPMP_GROUP_DESC"
| "valid_reply t (Rep_group_features _ _ max_groups actions) \<longleftrightarrow>
     t = OFPMP_GROUP_FEATURES \<and> length max_groups = 4 \<and> length actions = 4"
| "valid_reply t (Rep_meter _) \<longleftrightarrow> t = OFPMP_METER"
| "valid_reply t (Rep_meter_conf _) \<longleftrightarrow> t = OFPMP_METER_CONFIG"
| "valid_reply t (Rep_meter_features _ _ _ _ _) \<longleftrightarrow> False"
| "valid_reply t (Rep_port_desc _) \<longleftrightarrow> t = OFPMP_PORT_DESC"
| "valid_reply t (Rep_experimenter _) \<longleftrightarrow> t = OFPMP_EXPERIMENTER"

fun valid_body :: "ofp_type \<Rightarrow> 'x ofl_body \<Rightarrow> bool" where
  "valid_body t Msg_header \<longleftrightarrow>
     t \<in> {OFPT_HELLO, OFPT_FEATURES_REQUEST, OFPT_GET_CONFIG_REQUEST, OFPT_GET_ASYNC_REQUEST,
          OFPT_BARRIER_REQUEST, OFPT_BARRIER_REPLY}"
| "valid_body t (Msg_error _ _ _) \<longleftrightarrow> t = OFPT_ERROR"
| "valid_body t (Msg_echo _) \<longleftrightarrow> t \<in> {OFPT_ECHO_REQUEST, OFPT_ECHO_REPLY}"
| "valid_body t (Msg_role _ _) \<longleftrightarrow> t \<in> {OFPT_ROLE_REQUEST, OFPT_ROLE_REPLY}"
| "valid_body t (Msg_features_reply _) \<longleftrightarrow> t = OFPT_FEATURES_REPLY"
| "valid_body t (Msg_get_config_reply _ _) \<longleftrightarrow> t = OFPT_GET_CONFIG_REPLY"
| "valid_body t (Msg_set_config _ _) \<longleftrightarrow> t = OFPT_SET_CONFIG"
| "valid_body t (Msg_async_config a b c) \<longleftrightarrow>
     t \<in> {OFPT_GET_ASYNC_REPLY, OFPT_SET_ASYNC} \<and> length a = 2 \<and> length b = 2 \<and> length c = 2"
| "valid_body t (Msg_packet_in p) \<longleftrightarrow> t = OFPT_PACKET_IN \<and> pin_table_id p \<noteq> 0xff"
| "valid_body t (Msg_flow_removed r) \<longleftrightarrow> t = OFPT_FLOW_REMOVED \<and> fr_table_id r \<noteq> 0xff"
| "valid_body t (Msg_port_status _ _) \<longleftrightarrow> t = OFPT_PORT_STATUS"
| "valid_body t (Msg_packet_out _ _ _ _) \<longleftrightarrow> t = OFPT_PACKET_OUT"
| "valid_body t (Msg_flow_mod _) \<longleftrightarrow> t = OFPT_FLOW_MOD"
| "valid_body t (Msg_group_mod command type g bs) \<longleftrightarrow> t = OFPT_GROUP_MOD \<and>
     (\<exists>c. ofp_group_mod_command_of (unat command) = Some c \<and>
        (g \<le> OFPG_MAX \<or> c = OFPGC_DELETE' \<and> g = OFPG_ALL) \<and> (c = OFPGC_DELETE' \<longrightarrow> bs = [])) \<and>
     (ofp_group_type_of (unat type) = Some OFPGT_INDIRECT' \<longrightarrow> length bs = 1)"
| "valid_body t (Msg_port_mod m) \<longleftrightarrow> t = OFPT_PORT_MOD \<and> length (pm_hw_addr m) = OFP_ETH_ALEN"
| "valid_body t (Msg_table_mod _ _) \<longleftrightarrow> t = OFPT_TABLE_MOD"
| "valid_body t (Msg_meter_mod command flags m bs) \<longleftrightarrow> t = OFPT_METER_MOD \<and>
     (\<exists>c. ofp_meter_mod_command_of (unat command) = Some c \<and> (m \<le> OFPM_MAX \<or> c = OFPMC_DELETE' \<and> m = OFPM_ALL)) \<and>
     flags AND METER_FLAGS = flags"
| "valid_body t (Msg_mp_request type _ req) \<longleftrightarrow> t = OFPT_MULTIPART_REQUEST \<and>
     (\<exists>mt. ofp_multipart_types_of (unat type) = Some mt \<and> valid_request mt req)"
| "valid_body t (Msg_mp_reply type _ rep) \<longleftrightarrow> t = OFPT_MULTIPART_REPLY \<and>
     (\<exists>mt. ofp_multipart_types_of (unat type) = Some mt \<and> valid_reply mt rep)"
| "valid_body t (Msg_queue_get_config_request p) \<longleftrightarrow> t = OFPT_QUEUE_GET_CONFIG_REQUEST \<and> 0 < p \<and> p \<le> OFPP_MAX"
| "valid_body t (Msg_queue_get_config_reply _ _) \<longleftrightarrow> t = OFPT_QUEUE_GET_CONFIG_REPLY"
| "valid_body t (Msg_experimenter _) \<longleftrightarrow> t = OFPT_EXPERIMENTER"

section \<open>Outcomes of the message types\<close>

abbreviation msg_outcome :: "ofl_err set \<Rightarrow> ofp_type \<Rightarrow> ('x ofl_body \<times> size_t) parsed \<Rightarrow> bool" where
  "msg_outcome L t r \<equiv> returns (L \<union> set (errors_of (Some t))) (\<lambda>(b, _). valid_body t b) r"

lemma get_array32_length: "get_array32 conv n off bs = Some ws \<Longrightarrow> length ws = n"
  by (induction n arbitrary: off ws) (auto split: bind_splits)

lemma plain_outcomes:
  "ofp \<in> {OFPT_HELLO, OFPT_FEATURES_REQUEST, OFPT_GET_CONFIG_REQUEST, OFPT_GET_ASYNC_REQUEST,
     OFPT_BARRIER_REQUEST, OFPT_BARRIER_REPLY} \<Longrightarrow> msg_outcome L ofp (ofl_msg_unpack_empty buf len)"
  "msg_outcome L OFPT_ERROR (ofl_msg_unpack_error buf len)"
  "ofp \<in> {OFPT_ECHO_REQUEST, OFPT_ECHO_REPLY} \<Longrightarrow> msg_outcome L ofp (ofl_msg_unpack_echo buf len)"
  "ofp \<in> {OFPT_ROLE_REQUEST, OFPT_ROLE_REPLY} \<Longrightarrow> msg_outcome L ofp (ofl_msg_unpack_role_request X buf len)"
  "msg_outcome L OFPT_FEATURES_REPLY (ofl_msg_unpack_features_reply X buf len)"
  "msg_outcome L OFPT_GET_CONFIG_REPLY (ofl_msg_unpack_get_config_reply buf len)"
  "msg_outcome L OFPT_SET_CONFIG (ofl_msg_unpack_set_config buf len)"
  "msg_outcome L OFPT_TABLE_MOD (ofl_msg_unpack_table_mod buf len)"
  by (auto simp: ofl_msg_unpack_empty_def ofl_msg_unpack_error_def ofl_msg_unpack_echo_def
      ofl_msg_unpack_role_request_def ofl_msg_unpack_features_reply_def ofl_msg_unpack_get_config_reply_def
      ofl_msg_unpack_set_config_def ofl_msg_unpack_table_mod_def intro!: outcome)

text \<open>The tests of the code against the enumerations.\<close>

lemma le_two: "(c :: u16) \<le> 2 \<Longrightarrow> c = 0 \<or> c = 1 \<or> c = 2"
proof -
  assume "c \<le> 2"
  then have "unat c = 0 \<or> unat c = 1 \<or> unat c = 2" by (auto simp: word_le_nat_alt)
  then show ?thesis by (simp add: word_unat_eq_iff)
qed

lemma group_command_valid:
  assumes "c \<le> OFPGC_DELETE"
  obtains k where "ofp_group_mod_command_of (unat c) = Some k" "k = OFPGC_DELETE' \<longleftrightarrow> c = OFPGC_DELETE"
proof -
  have "c = 0 \<or> c = 1 \<or> c = 2" using assms by (intro le_two) (simp add: OFPGC_DELETE_def)
  then show thesis
    using that by (auto simp: OFPGC_DELETE_def ofp_group_mod_command_of_def ofp_group_mod_command_list_def)
qed

lemma meter_command_valid:
  assumes "c \<le> OFPMC_DELETE"
  obtains k where "ofp_meter_mod_command_of (unat c) = Some k" "k = OFPMC_DELETE' \<longleftrightarrow> c = OFPMC_DELETE"
proof -
  have "c = 0 \<or> c = 1 \<or> c = 2" using assms by (intro le_two) (simp add: OFPMC_DELETE_def)
  then show thesis
    using that by (auto simp: OFPMC_DELETE_def ofp_meter_mod_command_of_def ofp_meter_mod_command_list_def)
qed

lemma indirect_type: "ofp_group_type_of (unat (type :: u8)) = Some OFPGT_INDIRECT' \<longleftrightarrow> type = OFPGT_INDIRECT"
  by (auto simp: OFPGT_INDIRECT_def ofp_group_type_of_def ofp_group_type_list_def word_unat_eq_iff)

text \<open>Swapping the group type as if it had two bytes moves it out of the range that is tested.\<close>

lemma group_type_check: "\<not> (OFPGT_FF < ntohs (ucast (type :: u8)) \<and> ntohs (ucast type) < 128)"
proof -
  have low: "\<not> bit (ntohs (ucast type)) k" if "k < 8" for k
  proof -
    have "bit (ntohs (ucast type)) k = bit (rev (le_bytes 2 (ucast type :: u16)) ! (k div 8)) (k mod 8)"
      using that by (simp add: ntohs_def bswap_def bit_le_word)
    also have "\<dots> = bit type (8 + k)" using that by (simp add: rev_nth bit_simps)
    finally show ?thesis using bit_imp_le_length [of type "8 + k"] by auto
  qed
  have "take_bit 8 (ntohs (ucast type)) = 0"
    by (rule bit_word_eqI) (auto simp: bit_simps low)
  then have "unat (ntohs (ucast type)) mod 2 ^ 8 = 0"
    by (metis take_bit_eq_mod unsigned_0 unsigned_take_bit_eq)
  then show ?thesis by (auto simp: word_less_nat_alt OFPGT_FF_def)
qed

lemma METER_FLAGS_eq: "METER_FLAGS = mask 4"
  by (simp add: METER_FLAGS_def ofp_meter_flags_list_def mask_eq_exp_minus_1)

lemma meter_flags_valid: "drop_bit 3 f \<le> 1 \<longleftrightarrow> f AND METER_FLAGS = (f :: u16)"
proof -
  have "unat (drop_bit 3 f) = unat f div 8" by (simp add: drop_bit_eq_div unat_div)
  then have "drop_bit 3 f \<le> 1 \<longleftrightarrow> unat f < 16" by (auto simp: word_le_nat_alt)
  also have "\<dots> \<longleftrightarrow> f AND mask 4 = f"
    by (simp add: word_unat_eq_iff take_bit_eq_mask [symmetric] unsigned_take_bit_eq take_bit_nat_eq_self_iff)
  finally show ?thesis by (simp add: METER_FLAGS_eq)
qed

lemma member_outcomes:
  "ofp \<in> {OFPT_GET_ASYNC_REPLY, OFPT_SET_ASYNC} \<Longrightarrow> msg_outcome L ofp (ofl_msg_unpack_async_config buf len)"
  "msg_outcome L OFPT_PORT_MOD (ofl_msg_unpack_port_mod buf len)"
  "\<not> len < 8 \<Longrightarrow> msg_outcome L OFPT_QUEUE_GET_CONFIG_REQUEST (ofl_msg_unpack_queue_get_config_request buf len)"
  by (auto simp: ofl_msg_unpack_async_config_def ofl_msg_unpack_port_mod_def word_gt_0 not_less
      ofl_msg_unpack_queue_get_config_request_def sizeof_structs get_bytes_def slice_def split: if_splits
      dest: get_array32_length intro!: outcome)

lemma match_outcomes:
  assumes "library_reports L X"
  shows "msg_outcome L OFPT_PACKET_IN (ofl_msg_unpack_packet_in X buf len)"
    "msg_outcome L OFPT_FLOW_REMOVED (ofl_msg_unpack_flow_removed X buf len)"
    "msg_outcome L OFPT_FLOW_MOD (ofl_msg_unpack_flow_mod X buf len)"
proof -
  note lib = library_outcomes [OF assms Un_upper1]
  have elem: "elem_reports L (x_instruction X)" using assms by (simp add: library_reports_def)
  show "msg_outcome L OFPT_PACKET_IN (ofl_msg_unpack_packet_in X buf len)"
    unfolding ofl_msg_unpack_packet_in_def by (intro outcome) (simp_all add: BAD_TABLE_def)
  show "msg_outcome L OFPT_FLOW_REMOVED (ofl_msg_unpack_flow_removed X buf len)"
    unfolding ofl_msg_unpack_flow_removed_def
    by (intro outcome) (simp_all add: BAD_TABLE_def returns_failD [OF library_outcomes(1) [OF assms subset_refl]])
  show "msg_outcome L OFPT_FLOW_MOD (ofl_msg_unpack_flow_mod X buf len)"
    unfolding ofl_msg_unpack_flow_mod_def
    by (intro outcome lib unpack_elems_outcome [OF elem Un_upper1]) simp_all
qed

lemma element_outcomes:
  assumes "library_reports L X"
  shows "msg_outcome L OFPT_PORT_STATUS (ofl_msg_unpack_port_status X buf len)"
    "msg_outcome L OFPT_PACKET_OUT (ofl_msg_unpack_packet_out X buf len)"
    "msg_outcome L OFPT_QUEUE_GET_CONFIG_REPLY (ofl_msg_unpack_queue_get_config_reply X buf len)"
proof -
  have elem: "elem_reports L (x_port X)" "elem_reports L (x_packet_queue X)"
    using assms by (simp_all add: library_reports_def)
  show "msg_outcome L OFPT_PORT_STATUS (ofl_msg_unpack_port_status X buf len)"
    unfolding ofl_msg_unpack_port_status_def
    by (intro outcome elem_outcomes [OF elem(1) Un_upper1]) simp_all
  show "msg_outcome L OFPT_PACKET_OUT (ofl_msg_unpack_packet_out X buf len)"
    unfolding ofl_msg_unpack_packet_out_def
    by (intro outcome library_outcomes [OF assms Un_upper1]) simp_all
  show "msg_outcome L OFPT_QUEUE_GET_CONFIG_REPLY (ofl_msg_unpack_queue_get_config_reply X buf len)"
    unfolding ofl_msg_unpack_queue_get_config_reply_def
    by (intro outcome unpack_elems_outcome [OF elem(2) Un_upper1]) simp_all
qed

lemma mod_outcomes:
  assumes "library_reports L X"
  shows "msg_outcome L OFPT_GROUP_MOD (ofl_msg_unpack_group_mod X buf len)"
    "msg_outcome L OFPT_METER_MOD (ofl_msg_unpack_meter_mod X buf len)"
proof -
  have elem: "elem_reports L (x_bucket X)" "elem_reports L (x_meter_band X)"
    using assms by (simp_all add: library_reports_def)
  have never: "\<not> (OFPGT_FF < ntohs (ucast (t :: u8)) \<and> ntohs (ucast t) < 128)" for t
    by (rule group_type_check)
  show "msg_outcome L OFPT_GROUP_MOD (ofl_msg_unpack_group_mod X buf len)"
    unfolding ofl_msg_unpack_group_mod_def if_not_P [OF never]
    by (intro returns_bind returns_if returns_Let returns_prod returns_fail returns_ok
        returns_bind_err [OF elem_outcomes(1) [OF elem(1) Un_upper1]]
        returns_bind_err [OF unpack_loop_outcome [OF library_outcomes(4) [OF assms Un_upper1]]])
      (auto simp: indirect_type not_less elim!: group_command_valid)
  show "msg_outcome L OFPT_METER_MOD (ofl_msg_unpack_meter_mod X buf len)"
    unfolding ofl_msg_unpack_meter_mod_def
    by (intro outcome unpack_elems_outcome [OF elem(2) Un_upper1])
      (auto simp: meter_flags_valid not_less elim!: meter_command_valid)
qed

section \<open>Outcomes of the multipart messages\<close>

definition mp_errors :: "ofl_err set \<Rightarrow> ofl_err set" where
  "mp_errors L = L \<union> {BAD_LEN, BAD_MULTIPART}"

lemma mp_errors_simps [simp]: "L \<subseteq> mp_errors L" "BAD_LEN \<in> mp_errors L" "BAD_MULTIPART \<in> mp_errors L"
  by (auto simp: mp_errors_def)

abbreviation request_outcome :: "ofl_err set \<Rightarrow> ofp_multipart_types \<Rightarrow> ('x mp_request \<times> size_t) parsed \<Rightarrow> bool" where
  "request_outcome L t r \<equiv> returns (mp_errors L) (\<lambda>(q, _). valid_request t q) r"

abbreviation reply_outcome :: "ofl_err set \<Rightarrow> ofp_multipart_types \<Rightarrow> ('x mp_reply \<times> size_t) parsed \<Rightarrow> bool" where
  "reply_outcome L t r \<equiv> returns (mp_errors L) (\<lambda>(q, _). valid_reply t q) r"

lemma plain_request_outcomes:
  "t \<in> {OFPMP_DESC, OFPMP_TABLE, OFPMP_GROUP_DESC, OFPMP_GROUP_FEATURES, OFPMP_PORT_DESC} \<Longrightarrow>
     request_outcome L t (ofl_msg_unpack_multipart_request_empty buf len)"
  "request_outcome L OFPMP_PORT_STATS (ofl_msg_unpack_multipart_request_port buf len)"
  "request_outcome L OFPMP_QUEUE (ofl_msg_unpack_multipart_request_queue buf len)"
  "request_outcome L OFPMP_GROUP (ofl_msg_unpack_multipart_request_group buf len)"
  "t \<in> {OFPMP_METER, OFPMP_METER_CONFIG} \<Longrightarrow> request_outcome L t (ofl_msg_unpack_meter_multipart_request buf len)"
  by (auto simp: ofl_msg_unpack_multipart_request_empty_def ofl_msg_unpack_multipart_request_port_def
      ofl_msg_unpack_multipart_request_queue_def ofl_msg_unpack_multipart_request_group_def
      ofl_msg_unpack_meter_multipart_request_def bad_stats_port_def word_gt_0 not_less intro!: outcome)

lemma library_request_outcomes:
  assumes "library_reports L X"
  shows "t \<in> {OFPMP_FLOW, OFPMP_AGGREGATE} \<Longrightarrow> request_outcome L t (ofl_msg_unpack_multipart_request_flow X buf len)"
    "request_outcome L OFPMP_TABLE_FEATURES (ofl_msg_unpack_multipart_request_table_features X buf len)"
proof -
  have elem: "elem_reports L (x_table_features X)" using assms by (simp add: library_reports_def)
  show "request_outcome L t (ofl_msg_unpack_multipart_request_flow X buf len)" if "t \<in> {OFPMP_FLOW, OFPMP_AGGREGATE}"
    unfolding ofl_msg_unpack_multipart_request_flow_def
    by (intro outcome library_outcomes [OF assms mp_errors_simps(1)]) (use that in simp_all)
  show "request_outcome L OFPMP_TABLE_FEATURES (ofl_msg_unpack_multipart_request_table_features X buf len)"
    unfolding ofl_msg_unpack_multipart_request_table_features_def
    by (intro outcome elem_outcomes [OF elem mp_errors_simps(1)]) simp_all
qed

lemma copy_string_c_string: "copy_string off buf = Some s \<Longrightarrow> is_c_string s"
  by (auto simp: copy_string_def is_c_string_def Let_def dest: set_takeWhileD split: if_splits)

lemma plain_reply_outcomes:
  "reply_outcome L OFPMP_DESC (ofl_msg_unpack_reply_desc buf len)"
  "reply_outcome L OFPMP_AGGREGATE (ofl_msg_unpack_multipart_reply_aggregate X buf len)"
  "reply_outcome L OFPMP_GROUP_FEATURES (ofl_msg_unpack_multipart_reply_group_features buf len)"
  by (auto simp: ofl_msg_unpack_reply_desc_def ofl_msg_unpack_multipart_reply_aggregate_def
      ofl_msg_unpack_multipart_reply_group_features_def dest: copy_string_c_string get_array32_length intro!: outcome)

lemma library_reply_outcomes:
  assumes "library_reports L X"
  shows "reply_outcome L OFPMP_FLOW (ofl_msg_unpack_multipart_reply_flow X buf len)"
    "reply_outcome L OFPMP_TABLE_FEATURES (ofl_msg_unpack_multipart_reply_table_features X buf len)"
    "reply_outcome L OFPMP_TABLE (ofl_msg_unpack_multipart_reply_table X buf len)"
    "reply_outcome L OFPMP_PORT_STATS (ofl_msg_unpack_multipart_reply_port X buf len)"
    "reply_outcome L OFPMP_QUEUE (ofl_msg_unpack_multipart_reply_queue X buf len)"
    "reply_outcome L OFPMP_GROUP (ofl_msg_unpack_multipart_reply_group X buf len)"
    "reply_outcome L OFPMP_GROUP_DESC (ofl_msg_unpack_multipart_reply_group_desc X buf len)"
    "reply_outcome L OFPMP_METER (ofl_msg_unpack_multipart_reply_meter_stats X buf len)"
    "reply_outcome L OFPMP_METER_CONFIG (ofl_msg_unpack_multipart_reply_meter_config X buf len)"
    "reply_outcome L OFPMP_PORT_DESC (ofl_msg_unpack_multipart_reply_port_desc X buf len)"
proof -
  have elem: "elem_reports L (x_flow_stats X)" "elem_reports L (x_table_features X)" "elem_reports L (x_table_stats X)"
    "elem_reports L (x_port_stats X)" "elem_reports L (x_queue_stats X)" "elem_reports L (x_group_stats X)"
    "elem_reports L (x_group_desc_stats X)" "elem_reports L (x_meter_stats X)" "elem_reports L (x_meter_config X)"
    "elem_reports L (x_port X)"
    using assms by (simp_all add: library_reports_def)
  note elems = elem [THEN unpack_elems_outcome, OF mp_errors_simps(1)]
  show "reply_outcome L OFPMP_FLOW (ofl_msg_unpack_multipart_reply_flow X buf len)"
    unfolding ofl_msg_unpack_multipart_reply_flow_def
    by (intro outcome elem_outcomes [OF elem(1) mp_errors_simps(1)] flow_stats_loop_outcome [OF assms mp_errors_simps(1)]) simp
  show "reply_outcome L OFPMP_TABLE_FEATURES (ofl_msg_unpack_multipart_reply_table_features X buf len)"
    unfolding ofl_msg_unpack_multipart_reply_table_features_def
    by (intro outcome elem_outcomes [OF elem(2) mp_errors_simps(1)]) simp
  show "reply_outcome L OFPMP_TABLE (ofl_msg_unpack_multipart_reply_table X buf len)"
    "reply_outcome L OFPMP_PORT_STATS (ofl_msg_unpack_multipart_reply_port X buf len)"
    "reply_outcome L OFPMP_QUEUE (ofl_msg_unpack_multipart_reply_queue X buf len)"
    "reply_outcome L OFPMP_GROUP (ofl_msg_unpack_multipart_reply_group X buf len)"
    "reply_outcome L OFPMP_GROUP_DESC (ofl_msg_unpack_multipart_reply_group_desc X buf len)"
    "reply_outcome L OFPMP_METER (ofl_msg_unpack_multipart_reply_meter_stats X buf len)"
    "reply_outcome L OFPMP_METER_CONFIG (ofl_msg_unpack_multipart_reply_meter_config X buf len)"
    "reply_outcome L OFPMP_PORT_DESC (ofl_msg_unpack_multipart_reply_port_desc X buf len)"
    unfolding ofl_msg_unpack_multipart_reply_table_def ofl_msg_unpack_multipart_reply_port_def
      ofl_msg_unpack_multipart_reply_queue_def ofl_msg_unpack_multipart_reply_group_def
      ofl_msg_unpack_multipart_reply_group_desc_def ofl_msg_unpack_multipart_reply_meter_stats_def
      ofl_msg_unpack_multipart_reply_meter_config_def ofl_msg_unpack_multipart_reply_port_desc_def
    by (intro outcome elems, simp)+
qed

lemma request_switch_outcome:
  assumes "library_reports L X"
  shows "returns (mp_errors L) (\<lambda>(q, _). \<exists>t. ofp_multipart_types_of (unat type) = Some t \<and> valid_request t q)
    (unpack_request_switch X type buf len)"
proof (cases "ofp_multipart_types_of (unat type)")
  case (Some t)
  have "request_outcome L OFPMP_EXPERIMENTER
     (if exp_stats_reply_unpack X = None then fail BAD_MULTIPART
      else do { unpack \<leftarrow> exp_stats_req_unpack X;
                bind_err (unpack buf len) (\<lambda>(x, len). ok (Req_experimenter x, len)) })"
    by (intro outcome library_outcomes(6) [OF assms mp_errors_simps(1)]) simp_all
  with Some have "request_outcome L t (unpack_request_switch X type buf len)"
    by (cases t) (simp_all add: unpack_request_switch_def plain_request_outcomes
        library_request_outcomes [OF assms] returns_fail)
  with Some show ?thesis by simp
qed (simp add: unpack_request_switch_def returns_def)

lemma reply_switch_outcome:
  assumes "library_reports L X"
  shows "returns (mp_errors L) (\<lambda>(q, _). \<exists>t. ofp_multipart_types_of (unat type) = Some t \<and> valid_reply t q)
    (unpack_reply_switch X type buf len)"
proof (cases "ofp_multipart_types_of (unat type)")
  case (Some t)
  have "reply_outcome L OFPMP_EXPERIMENTER
     (case exp_stats_reply_unpack X of
        None \<Rightarrow> fail BAD_MULTIPART
      | Some unpack \<Rightarrow> bind_err (unpack buf len) (\<lambda>(x, len). ok (Rep_experimenter x, len)))"
    by (intro outcome library_outcomes(7) [OF assms mp_errors_simps(1)]) simp_all
  with Some have "reply_outcome L t (unpack_reply_switch X type buf len)"
    by (cases t) (simp_all add: unpack_reply_switch_def plain_reply_outcomes
        library_reply_outcomes [OF assms] returns_fail)
  with Some show ?thesis by simp
qed (simp add: unpack_reply_switch_def returns_def)

text \<open>A message of each type, the multipart messages included.\<close>

lemma unat_ucast_wider:
  "unat (ucast (w :: u16) :: u32) = unat w" "unat (ucast (v :: u8) :: u32) = unat v"
proof -
  have "unat w < 2 ^ 32" "unat v < 2 ^ 32" using unsigned_less [of w, where 'a = nat] unsigned_less [of v, where 'a = nat]
    by simp_all
  then show "unat (ucast w :: u32) = unat w" "unat (ucast v :: u32) = unat v"
    by (simp_all add: unsigned_ucast_eq take_bit_nat_eq_self)
qed

lemma multipart_outcomes:
  assumes "library_reports L X"
  shows "msg_outcome L OFPT_MULTIPART_REQUEST (ofl_msg_unpack_multipart_request X buf len)"
    "msg_outcome L OFPT_MULTIPART_REPLY (ofl_msg_unpack_multipart_reply X buf len)"
proof -
  let ?E = "L \<union> {BAD_LEN, BAD_MULTIPART}"
  note req = request_switch_outcome [OF assms, unfolded mp_errors_def]
    and rep = reply_switch_outcome [OF assms, unfolded mp_errors_def]
  note control = returns_bind returns_if returns_Let returns_prod returns_fail returns_ok
  have "returns ?E (\<lambda>(b, _). valid_body OFPT_MULTIPART_REQUEST b) (ofl_msg_unpack_multipart_request X buf len)"
    unfolding ofl_msg_unpack_multipart_request_def by (intro control returns_bind_err [OF req]) (auto simp: unat_ucast_wider)
  then show "msg_outcome L OFPT_MULTIPART_REQUEST (ofl_msg_unpack_multipart_request X buf len)" by simp
  have "returns ?E (\<lambda>(b, _). valid_body OFPT_MULTIPART_REPLY b) (ofl_msg_unpack_multipart_reply X buf len)"
    unfolding ofl_msg_unpack_multipart_reply_def by (intro control returns_bind_err [OF rep]) (auto simp: unat_ucast_wider)
  then show "msg_outcome L OFPT_MULTIPART_REPLY (ofl_msg_unpack_multipart_reply X buf len)" by simp
qed

lemma switch_outcome:
  assumes "library_reports L X" "\<not> len < 8"
  shows "returns (L \<union> set (errors_of (ofp_type_of (unat type))))
    (\<lambda>(b, _). \<exists>t. ofp_type_of (unat type) = Some t \<and> valid_body t b) (unpack_switch X type buf len)"
proof (cases "ofp_type_of (unat type)")
  case (Some t)
  have "msg_outcome L OFPT_EXPERIMENTER
     (case exp_msg_unpack X of
        None \<Rightarrow> fail (ofl_error OFPET_BAD_REQUEST OFPBRC_BAD_EXPERIMENTER)
      | Some unpack \<Rightarrow> bind_err (unpack buf len) (\<lambda>(x, len). ok (Msg_experimenter x, len)))"
    by (intro outcome library_outcomes [OF assms(1) Un_upper1]) simp_all
  with Some have "msg_outcome L t (unpack_switch X type buf len)"
    by (cases t) (simp_all add: unpack_switch_def plain_outcomes assms(2) member_outcomes match_outcomes [OF assms(1)]
        element_outcomes [OF assms(1)] mod_outcomes [OF assms(1)] multipart_outcomes [OF assms(1)]
        del: errors_of.simps Un_insert_right Un_empty_right)
  with Some show ?thesis by simp
qed (simp add: unpack_switch_def returns_def)

section \<open>Properties\<close>

text \<open>What the codes mean in an error message, by the enumeration that belongs to their type.\<close>

definition means :: "ofl_err \<Rightarrow> ofp_error option" where
  "means e = (case e of ofl_error t n \<Rightarrow> ofp_error_of t n | OFL_ERROR \<Rightarrow> None)"

definition parser_errors :: "ofp_error list" where
  "parser_errors =
    [Hello_failed OFPHFC_INCOMPATIBLE', Bad_request OFPBRC_BAD_LEN', Bad_request OFPBRC_BAD_MULTIPART',
     Bad_request OFPBRC_BAD_EXPERIMENTER', Bad_request OFPBRC_EPERM, Bad_request OFPBRC_IS_SLAVE',
     Bad_request OFPBRC_BAD_PORT', Bad_request OFPBRC_BAD_EXP_TYPE,
     Group_mod_failed OFPGMFC_INVALID_GROUP', Meter_mod_failed OFPMMFC_INVALID_METER',
     Queue_op_failed OFPQOFC_BAD_PORT']"

lemma errors_mean:
  "e \<in> set (errors_of t) \<Longrightarrow> e \<noteq> OFL_ERROR \<Longrightarrow> \<exists>m \<in> set parser_errors. means e = Some m"
  "\<exists>m \<in> set parser_errors. means BAD_LEN = Some m"
  "\<exists>m \<in> set parser_errors. means (ofl_error OFPET_HELLO_FAILED OFPHFC_INCOMPATIBLE) = Some m"
proof -
  have eval: "ofp_bad_request_code_of n =
      map_of (map (\<lambda>t. (ofp_bad_request_code_code t, t)) ofp_bad_request_code_list) n" for n
    by (rule ofp_bad_request_code_of_def)
  note defs = means_def parser_errors_def BAD_TABLE_def wire_simps eval ofp_bad_request_code_list_def
    ofp_hello_failed_code_of_def ofp_hello_failed_code_list_def ofp_group_mod_failed_code_of_def
    ofp_group_mod_failed_code_list_def ofp_meter_mod_failed_code_of_def ofp_meter_mod_failed_code_list_def
    ofp_queue_op_failed_code_of_def ofp_queue_op_failed_code_list_def
  show "\<exists>m \<in> set parser_errors. means e = Some m" if "e \<in> set (errors_of t)" "e \<noteq> OFL_ERROR"
    using that by (cases t; (cases "the t")?) (auto simp: defs)
  show "\<exists>m \<in> set parser_errors. means BAD_LEN = Some m"
    "\<exists>m \<in> set parser_errors. means (ofl_error OFPET_HELLO_FAILED OFPHFC_INCOMPATIBLE) = Some m"
    by (simp_all add: defs)
qed

text \<open>The two outcomes of the whole function.\<close>

lemma unpack_shape:
  assumes "ofl_msg_unpack X buf len xid = Some (x, r)"
  obtains "r = Inl BAD_LEN" | "r = Inl (ofl_error OFPET_HELLO_FAILED OFPHFC_INCOMPATIBLE)"
    | type e where "\<not> len < 8" "get8 1 buf = Some type" "unpack_switch X type buf len = fail e" "r = Inl e"
    | type b l where "\<not> len < 8" "get8 1 buf = Some type" "unpack_switch X type buf len = ok (b, l)"
        "r = Inr (Ofl_msg (ucast type) b)"
proof (cases "unpack_switch X (the (get8 1 buf)) buf len")
  case None
  then show thesis using assms that(1,2)
    by (auto simp: ofl_msg_unpack_def layout_simps Let_def split: if_splits)
next
  case (Some s)
  then show thesis
    using assms that by (cases s) (auto simp: ofl_msg_unpack_def layout_simps Let_def split: if_splits)
qed

lemma unpack_outcome:
  assumes "library_reports L X" "ofl_msg_unpack X buf len xid = Some (x, r)"
  shows "case r of
      Inl e \<Rightarrow> e = BAD_LEN \<or> e = ofl_error OFPET_HELLO_FAILED OFPHFC_INCOMPATIBLE \<or> e \<in> L \<or>
             (\<exists>type. get8 1 buf = Some type \<and> e \<in> set (errors_of (ofp_type_of (unat type))))
    | Inr m \<Rightarrow> (\<exists>type t. get8 1 buf = Some type \<and> msg_type m = ucast type \<and>
             ofp_type_of (unat type) = Some t \<and> valid_body t (msg_body m))"
  using assms(2)
proof (cases rule: unpack_shape)
  case (3 type e)
  with switch_outcome [OF assms(1), of len type buf] show ?thesis by (auto simp: returns_def)
next
  case (4 type b l)
  with switch_outcome [OF assms(1), of len type buf] show ?thesis by (auto simp: returns_def)
qed simp_all

text \<open>
  C13. Which errors unpacking reports. Apart from what the library reports it answers one of the errors
  listed for the message type, a bad length or an incompatible version. To the peer, who looks a code up
  in the enumeration of its type, these mean one of eleven things: bad commands, flags, types and tables
  appear as missing permissions, as a slave, as a bad port or as an unknown experimenter type, because the
  code comes from another enumeration than the type.
\<close>

theorem unpack_errors:
  assumes "library_reports L X" "ofl_msg_unpack X buf len xid = Some (x, Inl e)"
  shows "(e = BAD_LEN \<or> e = ofl_error OFPET_HELLO_FAILED OFPHFC_INCOMPATIBLE \<or> e \<in> L \<or>
      (\<exists>type. get8 1 buf = Some type \<and> e \<in> set (errors_of (ofp_type_of (unat type))))) \<and>
    (e \<in> L \<or> e = OFL_ERROR \<or> (\<exists>m. means e = Some m \<and> m \<in> set parser_errors))"
  using unpack_outcome [OF assms] errors_mean by (auto simp: Bex_def conj_commute)

text \<open>A bad command of a group modification reads as a bad port.\<close>

definition bad_group_command :: bytes where
  "bad_group_command = [4, 15, 0, 16, 0, 0, 0, 7, 0, 9, 0, 0, 0, 0, 0, 1]"

lemma unpack_errors_witness:
  "ofl_msg_unpack host_ext bad_group_command 16 (Some 0) = Some (Some 7, Inl (ofl_error OFPET_BAD_REQUEST 11)) \<and>
   means (ofl_error OFPET_BAD_REQUEST 11) = Some (Bad_request OFPBRC_BAD_PORT') \<and>
   (ofl_error OFPET_BAD_REQUEST 11 \<in> {OFL_ERROR} \<or> ofl_error OFPET_BAD_REQUEST 11 = OFL_ERROR \<or>
     (\<exists>m. means (ofl_error OFPET_BAD_REQUEST 11) = Some m \<and> m \<in> set parser_errors))"
proof -
  have run: "ofl_msg_unpack host_ext bad_group_command 16 (Some 0) = Some (Some 7, Inl (ofl_error OFPET_BAD_REQUEST 11))"
    by code_simp
  moreover have "means (ofl_error OFPET_BAD_REQUEST 11) = Some (Bad_request OFPBRC_BAD_PORT')"
    by code_simp
  ultimately show ?thesis using unpack_errors [OF host_library_reports run] by blast
qed

section \<open>Every error is reported\<close>

text \<open>A message of each type that leads to a given error, without its header.\<close>

fun sample :: "ofp_type option \<Rightarrow> ofl_err \<Rightarrow> bytes" where
  "sample (Some OFPT_PACKET_IN) e = (if e = BAD_LEN then [] else replicate 24 0xff)"
| "sample (Some OFPT_FLOW_REMOVED) e = (if e = OFL_ERROR then [] else replicate 48 0xff)"
| "sample (Some OFPT_GROUP_MOD) e =
    (if e = BAD_LEN then [] else if e = ofl_error OFPET_BAD_REQUEST OFPGMFC_BAD_COMMAND then [0, 9, 0, 0, 0, 0, 0, 1]
     else [0, 0, 0, 0, 0xff, 0xff, 0xff, 0xff])"
| "sample (Some OFPT_METER_MOD) e =
    (if e = BAD_LEN then [] else if e = ofl_error OFPET_BAD_REQUEST OFPMMFC_BAD_COMMAND then [0, 9, 0, 0, 0, 0, 0, 1]
     else if e = ofl_error OFPET_BAD_REQUEST OFPMMFC_BAD_FLAGS then [0, 0, 0, 16, 0, 0, 0, 1]
     else [0, 0, 0, 0, 0xff, 0xff, 0xff, 0xff])"
| "sample (Some OFPT_MULTIPART_REQUEST) e = (if e = BAD_LEN then [] else [0, 11, 0, 0, 0, 0, 0, 0])"
| "sample (Some OFPT_MULTIPART_REPLY) e = (if e = BAD_LEN then [] else [0, 11, 0, 0, 0, 0, 0, 0])"
| "sample (Some OFPT_QUEUE_GET_CONFIG_REQUEST) e = replicate 8 0"
| "sample t e = []"

definition sample_type :: "ofp_type option \<Rightarrow> nat" where
  "sample_type t = (case t of None \<Rightarrow> 99 | Some t \<Rightarrow> ofp_type_code t)"

lemma behind_header:
  assumes "length h = 8"
  shows "get8 (8 + k) (h @ b) = get8 k b" "get16 (8 + k) (h @ b) = get16 k b" "get32 (8 + k) (h @ b) = get32 k b"
  using assms by (simp_all add: get8_def get16_def get32_def get_bytes_def slice_def)

lemmas behind_header_at =
  behind_header [of _ 0, simplified] behind_header [of _ 2, simplified] behind_header [of _ 4, simplified]
  behind_header [of _ 7, simplified] behind_header [of _ 11, simplified]

lemma sample_reads:
  "get16 0 [0, 9, 0, 0, 0, 0, 0, 1] = Some 0x0900" "get16 2 [0, 9, 0, 0, 0, 0, 0, 1] = Some 0"
  "get16 0 [0, 0, 0, 16, 0, 0, 0, 1] = Some 0" "get16 2 [0, 0, 0, 16, 0, 0, 0, 1] = Some 0x1000"
  "get16 0 [0, 0, 0, 0, 0xff, 0xff, 0xff, 0xff] = Some 0" "get16 2 [0, 0, 0, 0, 0xff, 0xff, 0xff, 0xff] = Some 0"
  "get16 0 [0, 11, 0, 0, 0, 0, 0, 0] = Some 0x0b00" "get16 2 [0, 11, 0, 0, 0, 0, 0, 0] = Some 0"
  "get8 2 [0, 9, 0, 0, 0, 0, 0, 1] = Some 0" "get32 4 [0, 9, 0, 0, 0, 0, 0, 1] = Some 0x01000000"
  "get8 2 [0, 0, 0, 16, 0, 0, 0, 1] = Some 0" "get32 4 [0, 0, 0, 16, 0, 0, 0, 1] = Some 0x01000000"
  "get8 2 [0, 0, 0, 0, 0xff, 0xff, 0xff, 0xff] = Some 0" "get32 4 [0, 0, 0, 0, 0xff, 0xff, 0xff, 0xff] = Some 0xffffffff"
  "get8 7 (replicate 24 0xff) = Some 0xff" "get8 11 (replicate 48 0xff) = Some 0xff" "get32 0 (replicate 8 0) = Some 0"
  "ntohs 0 = 0" "ntohs 0x0900 = 9" "ntohs 0x0b00 = 11" "ntohs 0x1000 = 16"
  "ntohl 0 = 0" "ntohl 0x01000000 = 1" "ntohl 0xffffffff = 0xffffffff"
  by code_simp+

lemma short_sample:
  assumes "length h = 8" "t \<notin> {OFPT_FLOW_REMOVED, OFPT_ERROR, OFPT_QUEUE_GET_CONFIG_REQUEST}"
    and "BAD_LEN \<in> set (errors_of (Some t))"
  shows "unpack_switch X (of_nat (ofp_type_code t)) h 8 = fail BAD_LEN"
  using assms
  by (cases t) (simp_all add: unpack_switch_def wire_simps layout_simps BAD_TABLE_def ofl_msg_unpack_role_request_def
      ofl_msg_unpack_get_config_reply_def ofl_msg_unpack_set_config_def ofl_msg_unpack_async_config_def
      ofl_msg_unpack_packet_in_def ofl_msg_unpack_port_status_def ofl_msg_unpack_packet_out_def
      ofl_msg_unpack_flow_mod_def ofl_msg_unpack_group_mod_def ofl_msg_unpack_port_mod_def
      ofl_msg_unpack_table_mod_def ofl_msg_unpack_meter_mod_def ofl_msg_unpack_queue_get_config_reply_def
      ofl_msg_unpack_multipart_request_def ofl_msg_unpack_multipart_reply_def)

lemma long_sample:
  assumes "length h = 8"
  shows "unpack_switch X 10 (h @ replicate 24 0xff) 32 = fail BAD_TABLE"
    "unpack_switch X 11 (h @ replicate 48 0xff) 56 = fail BAD_TABLE"
    "unpack_switch X 15 (h @ [0, 9, 0, 0, 0, 0, 0, 1]) 16 = fail (ofl_error OFPET_BAD_REQUEST OFPGMFC_BAD_COMMAND)"
    "unpack_switch X 15 (h @ [0, 0, 0, 0, 0xff, 0xff, 0xff, 0xff]) 16
       = fail (ofl_error OFPET_GROUP_MOD_FAILED OFPGMFC_INVALID_GROUP)"
    "unpack_switch X 29 (h @ [0, 9, 0, 0, 0, 0, 0, 1]) 16 = fail (ofl_error OFPET_BAD_REQUEST OFPMMFC_BAD_COMMAND)"
    "unpack_switch X 29 (h @ [0, 0, 0, 16, 0, 0, 0, 1]) 16 = fail (ofl_error OFPET_BAD_REQUEST OFPMMFC_BAD_FLAGS)"
    "unpack_switch X 29 (h @ [0, 0, 0, 0, 0xff, 0xff, 0xff, 0xff]) 16
       = fail (ofl_error OFPET_METER_MOD_FAILED OFPMMFC_INVALID_METER)"
    "unpack_switch X 18 (h @ [0, 11, 0, 0, 0, 0, 0, 0]) 16 = fail BAD_MULTIPART"
    "unpack_switch X 19 (h @ [0, 11, 0, 0, 0, 0, 0, 0]) 16 = fail BAD_MULTIPART"
    "unpack_switch X 22 (h @ replicate 8 0) 16 = fail (ofl_error OFPET_QUEUE_OP_FAILED OFPQOFC_BAD_PORT)"
  using assms
  by (simp_all add: unpack_switch_def wire_simps layout_simps BAD_TABLE_def behind_header_at sample_reads
      ofl_msg_unpack_packet_in_def ofl_msg_unpack_flow_removed_def ofl_msg_unpack_group_mod_def
      ofl_msg_unpack_meter_mod_def ofl_msg_unpack_multipart_request_def ofl_msg_unpack_multipart_reply_def
      unpack_request_switch_def unpack_reply_switch_def ofl_msg_unpack_queue_get_config_request_def)

lemma sample_reported:
  assumes "e \<in> set (errors_of t)" "t = Some OFPT_EXPERIMENTER \<Longrightarrow> exp_msg_unpack X = None" "length h = 8"
  shows "unpack_switch X (of_nat (sample_type t)) (h @ sample t e) (of_nat (8 + length (sample t e))) = fail e"
proof (cases t)
  case None
  then show ?thesis using assms(1) by (simp add: sample_type_def unpack_switch_def ofp_type_of_def ofp_type_list_def)
next
  case (Some u)
  have short: "unpack_switch X 1 h 8 = fail OFL_ERROR" "unpack_switch X 11 h 8 = fail OFL_ERROR"
    "u = OFPT_EXPERIMENTER \<Longrightarrow> unpack_switch X 4 h 8 = fail (ofl_error OFPET_BAD_REQUEST OFPBRC_BAD_EXPERIMENTER)"
    using assms(2) Some by (simp_all del: One_nat_def add: unpack_switch_def wire_simps layout_simps
        ofl_msg_unpack_error_def ofl_msg_unpack_flow_removed_def)
  show ?thesis
  proof (cases "e = BAD_LEN")
    case True
    with assms(1) Some have "u \<notin> {OFPT_FLOW_REMOVED, OFPT_ERROR, OFPT_QUEUE_GET_CONFIG_REQUEST}" "sample t e = []"
      by (cases u; auto simp: BAD_TABLE_def wire_simps)+
    with short_sample [OF assms(3), of u X] assms(1) True Some show ?thesis
      by (simp add: sample_type_def)
  next
    case False
    with assms(1) Some long_sample [OF assms(3), of X] short show ?thesis
      by (cases u) (auto simp: sample_type_def BAD_TABLE_def wire_simps)
  qed
qed

lemma sample_small: "length (sample t e) \<le> 48"
  by (cases "(t, e)" rule: sample.cases) auto

lemma sample_type_of: "ofp_type_of (sample_type t) = t"
  by (cases t) (simp_all add: sample_type_def ofp_type_of_def [of 99] ofp_type_list_def)

lemma sample_type_less: "sample_type t < 2 ^ 8"
  by (cases t; cases "the t") (simp_all add: sample_type_def)

text \<open>
  A message of the type \<open>t\<close> that is framed well (its header has the right version and the length of the
  buffer) and is refused with the error \<open>e\<close>.
\<close>

definition error_reported :: "'x ofl_ext \<Rightarrow> ofp_type option \<Rightarrow> ofl_err \<Rightarrow> bool" where
  "error_reported X t e \<longleftrightarrow>
    (\<exists>type body xid bs. ofp_type_of (unat (ucast (type :: u32) :: u8)) = t \<and>
       bs = header_image type (8 + length body) xid @ body \<and> length bs < 2 ^ 16 \<and>
       ofl_msg_unpack X bs (of_nat (length bs)) (Some 0) = Some (Some xid, Inl e))"

text \<open>
  C14. The list of errors of a message type is exact. With any library, whose errors are in \<open>L\<close>: a well-framed
  message of the type is refused with no other errors than the listed ones and those in \<open>L\<close>, and each of the
  listed errors is the answer to some well-framed message of the type, except that experimenter messages go
  to the callback when there is one. So no message without a body can be refused, and a request for the
  configuration of the queues is never refused for its length.
\<close>

theorem unpack_errors_exact:
  assumes "library_reports L X"
  shows "(error_reported X t e \<longrightarrow> e \<in> set (errors_of t) \<union> L) \<and>
    (e \<in> set (errors_of t) \<and> (t = Some OFPT_EXPERIMENTER \<longrightarrow> exp_msg_unpack X = None) \<longrightarrow> error_reported X t e)"
proof (intro conjI impI)
  assume e: "e \<in> set (errors_of t) \<and> (t = Some OFPT_EXPERIMENTER \<longrightarrow> exp_msg_unpack X = None)"
  let ?body = "sample t e"
  define type where "type = (of_nat (sample_type t) :: u32)"
  define bs where "bs = header_image type (8 + length ?body) 7 @ ?body"
  have type: "(ucast type :: u8) = of_nat (sample_type t)" "unat (ucast type :: u8) = sample_type t"
    using sample_type_less [of t]
    by (simp_all add: type_def word_unat_eq_iff unsigned_ucast_eq unsigned_of_nat take_bit_nat_eq_self)
  have len: "length bs = 8 + length ?body" "length bs < 2 ^ 16"
    using sample_small [of t e] by (simp_all add: bs_def)
  have "unpack_switch X (ucast type) bs (of_nat (length bs)) = fail e"
    using sample_reported [of e t X "header_image type (8 + length ?body) 7"] e len(1)
    by (simp add: bs_def type)
  then have "ofl_msg_unpack X bs (of_nat (length bs)) (Some 0) = Some (Some 7, Inl e)"
    using ofl_msg_unpack_framed [OF bs_def len(2), of X "Some 0"] by simp
  with type(2) len(2) bs_def sample_type_of [of t] show "error_reported X t e"
    unfolding error_reported_def by metis
next
  assume "error_reported X t e"
  then obtain type body xid bs where t: "ofp_type_of (unat (ucast (type :: u32) :: u8)) = t"
    and bs: "bs = header_image type (8 + length body) xid @ body" "length bs < 2 ^ 16"
    and run: "ofl_msg_unpack X bs (of_nat (length bs)) (Some 0) = Some (Some xid, Inl e)"
    unfolding error_reported_def by blast
  have "\<not> (of_nat (length bs) :: size_t) < 8"
    using bs by (simp add: word_less_nat_alt unat_word_ariths)
  from switch_outcome [OF assms this, of "ucast type" bs] t ofl_msg_unpack_framed [OF bs, of X "Some 0"] run
  show "e \<in> set (errors_of t) \<union> L"
    by (auto simp: returns_def split: option.split_asm sum.split_asm)
qed

lemma unpack_errors_exact_witness:
  "error_reported host_ext (Some OFPT_PACKET_IN) BAD_TABLE \<and>
   \<not> error_reported host_ext (Some OFPT_QUEUE_GET_CONFIG_REQUEST) BAD_LEN"
proof
  have "BAD_TABLE \<in> set (errors_of (Some OFPT_PACKET_IN))" by (simp add: BAD_TABLE_def)
  then show "error_reported host_ext (Some OFPT_PACKET_IN) BAD_TABLE"
    using unpack_errors_exact [OF host_library_reports, of "Some OFPT_PACKET_IN" BAD_TABLE] by blast
  have "BAD_LEN \<notin> set (errors_of (Some OFPT_QUEUE_GET_CONFIG_REQUEST)) \<union> {OFL_ERROR}" by (simp add: wire_simps)
  then show "\<not> error_reported host_ext (Some OFPT_QUEUE_GET_CONFIG_REQUEST) BAD_LEN"
    using unpack_errors_exact [OF host_library_reports, of "Some OFPT_QUEUE_GET_CONFIG_REQUEST" BAD_LEN] by blast
qed

text \<open>
  C12. Type safety of unpacking. Whatever the bytes and whatever the library does, a message that is accepted
  is well typed: its type is one of the protocol, the structure behind it is the one of its type (and of
  its multipart type), so that every later cast by the type is right, and the members that are
  checked have a value of their enumeration: commands and groups of a group modification and the number
  of its buckets, command, flags and number of a meter, ports, tables, and the strings of a description.
\<close>

theorem unpack_well_typed:
  assumes "ofl_msg_unpack X buf len xid = Some (x, Inr m)"
  shows "\<exists>t. ofp_type_of (unat (msg_type m)) = Some t \<and> valid_body t (msg_body m)"
  using unpack_outcome [OF library_reports_UNIV assms] by (auto simp: unat_ucast_wider)

text \<open>All groups are deleted.\<close>

definition delete_groups :: bytes where
  "delete_groups = [4, 15, 0, 16, 0, 0, 0, 7, 0, 2, 0, 0, 0xff, 0xff, 0xff, 0xfc]"

lemma unpack_well_typed_witness:
  "ofl_msg_unpack host_ext delete_groups 16 (Some 0) = Some (Some 7, Inr (Ofl_msg 15 (Msg_group_mod 2 0 0xfffffffc []))) \<and>
   valid_body OFPT_GROUP_MOD (Msg_group_mod 2 0 0xfffffffc [] :: bytes ofl_body)"
proof -
  have run: "ofl_msg_unpack host_ext delete_groups 16 (Some 0)
      = Some (Some 7, Inr (Ofl_msg 15 (Msg_group_mod 2 0 0xfffffffc [])))"
    by code_simp
  from unpack_well_typed [OF run]
  have "valid_body OFPT_GROUP_MOD (Msg_group_mod 2 0 0xfffffffc [] :: bytes ofl_body)" by (simp add: wire_simps)
  with run show ?thesis by simp
qed

end
