(* ===== verification/OflEnums.thy ===== *)
theory OflEnums
  imports ErrorCodes
begin

text \<open>
  The remaining enumerations of \<open>include/cc_openflow_13.c\<close>, each with its values, and which member of
  which structure holds them according to the comments of the header (\<open>enum_members\<close>): the values fit the
  members, no enumeration gives two of its names one value, and the flags are single bits that do not overlap.
\<close>

section \<open>Enumerations\<close>

datatype ofp_port_config =
    OFPPC_PORT_DOWN | OFPPC_NO_RECV | OFPPC_NO_FWD | OFPPC_NO_PACKET_IN

fun ofp_port_config_code :: "ofp_port_config \<Rightarrow> nat" where
  "ofp_port_config_code OFPPC_PORT_DOWN = 1"
| "ofp_port_config_code OFPPC_NO_RECV = 4"
| "ofp_port_config_code OFPPC_NO_FWD = 32"
| "ofp_port_config_code OFPPC_NO_PACKET_IN = 64"

definition ofp_port_config_list :: "ofp_port_config list" where
  "ofp_port_config_list =
    [OFPPC_PORT_DOWN, OFPPC_NO_RECV, OFPPC_NO_FWD, OFPPC_NO_PACKET_IN]"

datatype ofp_port_state =
    OFPPS_LINK_DOWN | OFPPS_BLOCKED | OFPPS_LIVE

fun ofp_port_state_code :: "ofp_port_state \<Rightarrow> nat" where
  "ofp_port_state_code OFPPS_LINK_DOWN = 1"
| "ofp_port_state_code OFPPS_BLOCKED = 2"
| "ofp_port_state_code OFPPS_LIVE = 4"

definition ofp_port_state_list :: "ofp_port_state list" where
  "ofp_port_state_list =
    [OFPPS_LINK_DOWN, OFPPS_BLOCKED, OFPPS_LIVE]"

datatype ofp_port_no =
    OFPP_MAX' | OFPP_IN_PORT | OFPP_TABLE | OFPP_NORMAL | OFPP_FLOOD | OFPP_ALL |
    OFPP_CONTROLLER | OFPP_LOCAL | OFPP_ANY'

fun ofp_port_no_code :: "ofp_port_no \<Rightarrow> nat" where
  "ofp_port_no_code OFPP_MAX' = 0xffffff00"
| "ofp_port_no_code OFPP_IN_PORT = 0xfffffff8"
| "ofp_port_no_code OFPP_TABLE = 0xfffffff9"
| "ofp_port_no_code OFPP_NORMAL = 0xfffffffa"
| "ofp_port_no_code OFPP_FLOOD = 0xfffffffb"
| "ofp_port_no_code OFPP_ALL = 0xfffffffc"
| "ofp_port_no_code OFPP_CONTROLLER = 0xfffffffd"
| "ofp_port_no_code OFPP_LOCAL = 0xfffffffe"
| "ofp_port_no_code OFPP_ANY' = 0xffffffff"

definition ofp_port_no_list :: "ofp_port_no list" where
  "ofp_port_no_list =
    [OFPP_MAX', OFPP_IN_PORT, OFPP_TABLE, OFPP_NORMAL, OFPP_FLOOD, OFPP_ALL, OFPP_CONTROLLER,
     OFPP_LOCAL, OFPP_ANY']"

datatype ofp_port_features =
    OFPPF_10MB_HD | OFPPF_10MB_FD | OFPPF_100MB_HD | OFPPF_100MB_FD | OFPPF_1GB_HD |
    OFPPF_1GB_FD | OFPPF_10GB_FD | OFPPF_40GB_FD | OFPPF_100GB_FD | OFPPF_1TB_FD |
    OFPPF_OTHER | OFPPF_COPPER | OFPPF_FIBER | OFPPF_AUTONEG | OFPPF_PAUSE | OFPPF_PAUSE_ASYM

fun ofp_port_features_code :: "ofp_port_features \<Rightarrow> nat" where
  "ofp_port_features_code OFPPF_10MB_HD = 1"
| "ofp_port_features_code OFPPF_10MB_FD = 2"
| "ofp_port_features_code OFPPF_100MB_HD = 4"
| "ofp_port_features_code OFPPF_100MB_FD = 8"
| "ofp_port_features_code OFPPF_1GB_HD = 16"
| "ofp_port_features_code OFPPF_1GB_FD = 32"
| "ofp_port_features_code OFPPF_10GB_FD = 64"
| "ofp_port_features_code OFPPF_40GB_FD = 128"
| "ofp_port_features_code OFPPF_100GB_FD = 256"
| "ofp_port_features_code OFPPF_1TB_FD = 512"
| "ofp_port_features_code OFPPF_OTHER = 1024"
| "ofp_port_features_code OFPPF_COPPER = 2048"
| "ofp_port_features_code OFPPF_FIBER = 4096"
| "ofp_port_features_code OFPPF_AUTONEG = 8192"
| "ofp_port_features_code OFPPF_PAUSE = 16384"
| "ofp_port_features_code OFPPF_PAUSE_ASYM = 32768"

definition ofp_port_features_list :: "ofp_port_features list" where
  "ofp_port_features_list =
    [OFPPF_10MB_HD, OFPPF_10MB_FD, OFPPF_100MB_HD, OFPPF_100MB_FD, OFPPF_1GB_HD, OFPPF_1GB_FD,
     OFPPF_10GB_FD, OFPPF_40GB_FD, OFPPF_100GB_FD, OFPPF_1TB_FD, OFPPF_OTHER, OFPPF_COPPER,
     OFPPF_FIBER, OFPPF_AUTONEG, OFPPF_PAUSE, OFPPF_PAUSE_ASYM]"

datatype ofp_queue_properties =
    OFPQT_MIN_RATE | OFPQT_MAX_RATE | OFPQT_EXPERIMENTER

fun ofp_queue_properties_code :: "ofp_queue_properties \<Rightarrow> nat" where
  "ofp_queue_properties_code OFPQT_MIN_RATE = 1"
| "ofp_queue_properties_code OFPQT_MAX_RATE = 2"
| "ofp_queue_properties_code OFPQT_EXPERIMENTER = 0xffff"

definition ofp_queue_properties_list :: "ofp_queue_properties list" where
  "ofp_queue_properties_list =
    [OFPQT_MIN_RATE, OFPQT_MAX_RATE, OFPQT_EXPERIMENTER]"

datatype ofp_match_type =
    OFPMT_STANDARD | OFPMT_OXM

fun ofp_match_type_code :: "ofp_match_type \<Rightarrow> nat" where
  "ofp_match_type_code OFPMT_STANDARD = 0"
| "ofp_match_type_code OFPMT_OXM = 1"

definition ofp_match_type_list :: "ofp_match_type list" where
  "ofp_match_type_list =
    [OFPMT_STANDARD, OFPMT_OXM]"

datatype ofp_oxm_class =
    OFPXMC_NXM_0 | OFPXMC_NXM_1 | OFPXMC_OPENFLOW_BASIC | OFPXMC_EXPERIMENTER

fun ofp_oxm_class_code :: "ofp_oxm_class \<Rightarrow> nat" where
  "ofp_oxm_class_code OFPXMC_NXM_0 = 0x0"
| "ofp_oxm_class_code OFPXMC_NXM_1 = 0x1"
| "ofp_oxm_class_code OFPXMC_OPENFLOW_BASIC = 0x8000"
| "ofp_oxm_class_code OFPXMC_EXPERIMENTER = 0xffff"

definition ofp_oxm_class_list :: "ofp_oxm_class list" where
  "ofp_oxm_class_list =
    [OFPXMC_NXM_0, OFPXMC_NXM_1, OFPXMC_OPENFLOW_BASIC, OFPXMC_EXPERIMENTER]"

datatype oxm_ofb_match_fields =
    OFPXMT_OFB_IN_PORT | OFPXMT_OFB_IN_PHY_PORT | OFPXMT_OFB_METADATA | OFPXMT_OFB_ETH_DST |
    OFPXMT_OFB_ETH_SRC | OFPXMT_OFB_ETH_TYPE | OFPXMT_OFB_VLAN_VID | OFPXMT_OFB_VLAN_PCP |
    OFPXMT_OFB_IP_DSCP | OFPXMT_OFB_IP_ECN | OFPXMT_OFB_IP_PROTO | OFPXMT_OFB_IPV4_SRC |
    OFPXMT_OFB_IPV4_DST | OFPXMT_OFB_TCP_SRC | OFPXMT_OFB_TCP_DST | OFPXMT_OFB_UDP_SRC |
    OFPXMT_OFB_UDP_DST | OFPXMT_OFB_SCTP_SRC | OFPXMT_OFB_SCTP_DST | OFPXMT_OFB_ICMPV4_TYPE |
    OFPXMT_OFB_ICMPV4_CODE | OFPXMT_OFB_ARP_OP | OFPXMT_OFB_ARP_SPA | OFPXMT_OFB_ARP_TPA |
    OFPXMT_OFB_ARP_SHA | OFPXMT_OFB_ARP_THA | OFPXMT_OFB_IPV6_SRC | OFPXMT_OFB_IPV6_DST |
    OFPXMT_OFB_IPV6_FLABEL | OFPXMT_OFB_ICMPV6_TYPE | OFPXMT_OFB_ICMPV6_CODE |
    OFPXMT_OFB_IPV6_ND_TARGET | OFPXMT_OFB_IPV6_ND_SLL | OFPXMT_OFB_IPV6_ND_TLL |
    OFPXMT_OFB_MPLS_LABEL | OFPXMT_OFB_MPLS_TC | OFPXMT_OFB_MPLS_BOS | OFPXMT_OFB_PBB_ISID |
    OFPXMT_OFB_TUNNEL_ID | OFPXMT_OFB_IPV6_EXTHDR

fun oxm_ofb_match_fields_code :: "oxm_ofb_match_fields \<Rightarrow> nat" where
  "oxm_ofb_match_fields_code OFPXMT_OFB_IN_PORT = 0"
| "oxm_ofb_match_fields_code OFPXMT_OFB_IN_PHY_PORT = 1"
| "oxm_ofb_match_fields_code OFPXMT_OFB_METADATA = 2"
| "oxm_ofb_match_fields_code OFPXMT_OFB_ETH_DST = 3"
| "oxm_ofb_match_fields_code OFPXMT_OFB_ETH_SRC = 4"
| "oxm_ofb_match_fields_code OFPXMT_OFB_ETH_TYPE = 5"
| "oxm_ofb_match_fields_code OFPXMT_OFB_VLAN_VID = 6"
| "oxm_ofb_match_fields_code OFPXMT_OFB_VLAN_PCP = 7"
| "oxm_ofb_match_fields_code OFPXMT_OFB_IP_DSCP = 8"
| "oxm_ofb_match_fields_code OFPXMT_OFB_IP_ECN = 9"
| "oxm_ofb_match_fields_code OFPXMT_OFB_IP_PROTO = 10"
| "oxm_ofb_match_fields_code OFPXMT_OFB_IPV4_SRC = 11"
| "oxm_ofb_match_fields_code OFPXMT_OFB_IPV4_DST = 12"
| "oxm_ofb_match_fields_code OFPXMT_OFB_TCP_SRC = 13"
| "oxm_ofb_match_fields_code OFPXMT_OFB_TCP_DST = 14"
| "oxm_ofb_match_fields_code OFPXMT_OFB_UDP_SRC = 15"
| "oxm_ofb_match_fields_code OFPXMT_OFB_UDP_DST = 16"
| "oxm_ofb_match_fields_code OFPXMT_OFB_SCTP_SRC = 17"
| "oxm_ofb_match_fields_code OFPXMT_OFB_SCTP_DST = 18"
| "oxm_ofb_match_fields_code OFPXMT_OFB_ICMPV4_TYPE = 19"
| "oxm_ofb_match_fields_code OFPXMT_OFB_ICMPV4_CODE = 20"
| "oxm_ofb_match_fields_code OFPXMT_OFB_ARP_OP = 21"
| "oxm_ofb_match_fields_code OFPXMT_OFB_ARP_SPA = 22"
| "oxm_ofb_match_fields_code OFPXMT_OFB_ARP_TPA = 23"
| "oxm_ofb_match_fields_code OFPXMT_OFB_ARP_SHA = 24"
| "oxm_ofb_match_fields_code OFPXMT_OFB_ARP_THA = 25"
| "oxm_ofb_match_fields_code OFPXMT_OFB_IPV6_SRC = 26"
| "oxm_ofb_match_fields_code OFPXMT_OFB_IPV6_DST = 27"
| "oxm_ofb_match_fields_code OFPXMT_OFB_IPV6_FLABEL = 28"
| "oxm_ofb_match_fields_code OFPXMT_OFB_ICMPV6_TYPE = 29"
| "oxm_ofb_match_fields_code OFPXMT_OFB_ICMPV6_CODE = 30"
| "oxm_ofb_match_fields_code OFPXMT_OFB_IPV6_ND_TARGET = 31"
| "oxm_ofb_match_fields_code OFPXMT_OFB_IPV6_ND_SLL = 32"
| "oxm_ofb_match_fields_code OFPXMT_OFB_IPV6_ND_TLL = 33"
| "oxm_ofb_match_fields_code OFPXMT_OFB_MPLS_LABEL = 34"
| "oxm_ofb_match_fields_code OFPXMT_OFB_MPLS_TC = 35"
| "oxm_ofb_match_fields_code OFPXMT_OFB_MPLS_BOS = 36"
| "oxm_ofb_match_fields_code OFPXMT_OFB_PBB_ISID = 37"
| "oxm_ofb_match_fields_code OFPXMT_OFB_TUNNEL_ID = 38"
| "oxm_ofb_match_fields_code OFPXMT_OFB_IPV6_EXTHDR = 39"

definition oxm_ofb_match_fields_list :: "oxm_ofb_match_fields list" where
  "oxm_ofb_match_fields_list =
    [OFPXMT_OFB_IN_PORT, OFPXMT_OFB_IN_PHY_PORT, OFPXMT_OFB_METADATA, OFPXMT_OFB_ETH_DST,
     OFPXMT_OFB_ETH_SRC, OFPXMT_OFB_ETH_TYPE, OFPXMT_OFB_VLAN_VID, OFPXMT_OFB_VLAN_PCP,
     OFPXMT_OFB_IP_DSCP, OFPXMT_OFB_IP_ECN, OFPXMT_OFB_IP_PROTO, OFPXMT_OFB_IPV4_SRC,
     OFPXMT_OFB_IPV4_DST, OFPXMT_OFB_TCP_SRC, OFPXMT_OFB_TCP_DST, OFPXMT_OFB_UDP_SRC,
     OFPXMT_OFB_UDP_DST, OFPXMT_OFB_SCTP_SRC, OFPXMT_OFB_SCTP_DST, OFPXMT_OFB_ICMPV4_TYPE,
     OFPXMT_OFB_ICMPV4_CODE, OFPXMT_OFB_ARP_OP, OFPXMT_OFB_ARP_SPA, OFPXMT_OFB_ARP_TPA,
     OFPXMT_OFB_ARP_SHA, OFPXMT_OFB_ARP_THA, OFPXMT_OFB_IPV6_SRC, OFPXMT_OFB_IPV6_DST,
     OFPXMT_OFB_IPV6_FLABEL, OFPXMT_OFB_ICMPV6_TYPE, OFPXMT_OFB_ICMPV6_CODE,
     OFPXMT_OFB_IPV6_ND_TARGET, OFPXMT_OFB_IPV6_ND_SLL, OFPXMT_OFB_IPV6_ND_TLL,
     OFPXMT_OFB_MPLS_LABEL, OFPXMT_OFB_MPLS_TC, OFPXMT_OFB_MPLS_BOS, OFPXMT_OFB_PBB_ISID,
     OFPXMT_OFB_TUNNEL_ID, OFPXMT_OFB_IPV6_EXTHDR]"

datatype ofp_vlan_id =
    OFPVID_PRESENT | OFPVID_NONE

fun ofp_vlan_id_code :: "ofp_vlan_id \<Rightarrow> nat" where
  "ofp_vlan_id_code OFPVID_PRESENT = 0x1000"
| "ofp_vlan_id_code OFPVID_NONE = 0x0"

definition ofp_vlan_id_list :: "ofp_vlan_id list" where
  "ofp_vlan_id_list =
    [OFPVID_PRESENT, OFPVID_NONE]"

datatype ofp_ipv6exthdr_flags =
    OFPIEH_NONEXT | OFPIEH_ESP | OFPIEH_AUTH | OFPIEH_DEST | OFPIEH_FRAG | OFPIEH_ROUTER |
    OFPIEH_HOP | OFPIEH_UNREP | OFPIEH_UNSEQ

fun ofp_ipv6exthdr_flags_code :: "ofp_ipv6exthdr_flags \<Rightarrow> nat" where
  "ofp_ipv6exthdr_flags_code OFPIEH_NONEXT = 1"
| "ofp_ipv6exthdr_flags_code OFPIEH_ESP = 2"
| "ofp_ipv6exthdr_flags_code OFPIEH_AUTH = 4"
| "ofp_ipv6exthdr_flags_code OFPIEH_DEST = 8"
| "ofp_ipv6exthdr_flags_code OFPIEH_FRAG = 16"
| "ofp_ipv6exthdr_flags_code OFPIEH_ROUTER = 32"
| "ofp_ipv6exthdr_flags_code OFPIEH_HOP = 64"
| "ofp_ipv6exthdr_flags_code OFPIEH_UNREP = 128"
| "ofp_ipv6exthdr_flags_code OFPIEH_UNSEQ = 256"

definition ofp_ipv6exthdr_flags_list :: "ofp_ipv6exthdr_flags list" where
  "ofp_ipv6exthdr_flags_list =
    [OFPIEH_NONEXT, OFPIEH_ESP, OFPIEH_AUTH, OFPIEH_DEST, OFPIEH_FRAG, OFPIEH_ROUTER,
     OFPIEH_HOP, OFPIEH_UNREP, OFPIEH_UNSEQ]"

datatype ofp_instruction_type =
    OFPIT_GOTO_TABLE | OFPIT_WRITE_METADATA | OFPIT_WRITE_ACTIONS | OFPIT_APPLY_ACTIONS |
    OFPIT_CLEAR_ACTIONS | OFPIT_METER | OFPIT_EXPERIMENTER

fun ofp_instruction_type_code :: "ofp_instruction_type \<Rightarrow> nat" where
  "ofp_instruction_type_code OFPIT_GOTO_TABLE = 1"
| "ofp_instruction_type_code OFPIT_WRITE_METADATA = 2"
| "ofp_instruction_type_code OFPIT_WRITE_ACTIONS = 3"
| "ofp_instruction_type_code OFPIT_APPLY_ACTIONS = 4"
| "ofp_instruction_type_code OFPIT_CLEAR_ACTIONS = 5"
| "ofp_instruction_type_code OFPIT_METER = 6"
| "ofp_instruction_type_code OFPIT_EXPERIMENTER = 0xffff"

definition ofp_instruction_type_list :: "ofp_instruction_type list" where
  "ofp_instruction_type_list =
    [OFPIT_GOTO_TABLE, OFPIT_WRITE_METADATA, OFPIT_WRITE_ACTIONS, OFPIT_APPLY_ACTIONS,
     OFPIT_CLEAR_ACTIONS, OFPIT_METER, OFPIT_EXPERIMENTER]"

datatype ofp_controller_max_len =
    OFPCML_MAX | OFPCML_NO_BUFFER

fun ofp_controller_max_len_code :: "ofp_controller_max_len \<Rightarrow> nat" where
  "ofp_controller_max_len_code OFPCML_MAX = 0xffe5"
| "ofp_controller_max_len_code OFPCML_NO_BUFFER = 0xffff"

definition ofp_controller_max_len_list :: "ofp_controller_max_len list" where
  "ofp_controller_max_len_list =
    [OFPCML_MAX, OFPCML_NO_BUFFER]"

datatype ofp_capabilities =
    OFPC_FLOW_STATS | OFPC_TABLE_STATS | OFPC_PORT_STATS | OFPC_GROUP_STATS | OFPC_IP_REASM |
    OFPC_QUEUE_STATS | OFPC_PORT_BLOCKED

fun ofp_capabilities_code :: "ofp_capabilities \<Rightarrow> nat" where
  "ofp_capabilities_code OFPC_FLOW_STATS = 1"
| "ofp_capabilities_code OFPC_TABLE_STATS = 2"
| "ofp_capabilities_code OFPC_PORT_STATS = 4"
| "ofp_capabilities_code OFPC_GROUP_STATS = 8"
| "ofp_capabilities_code OFPC_IP_REASM = 32"
| "ofp_capabilities_code OFPC_QUEUE_STATS = 64"
| "ofp_capabilities_code OFPC_PORT_BLOCKED = 256"

definition ofp_capabilities_list :: "ofp_capabilities list" where
  "ofp_capabilities_list =
    [OFPC_FLOW_STATS, OFPC_TABLE_STATS, OFPC_PORT_STATS, OFPC_GROUP_STATS, OFPC_IP_REASM,
     OFPC_QUEUE_STATS, OFPC_PORT_BLOCKED]"

datatype ofp_config_flags =
    OFPC_FRAG_NORMAL | OFPC_FRAG_DROP | OFPC_FRAG_REASM | OFPC_FRAG_MASK |
    OFPC_INVALID_TTL_TO_CONTROLLER

fun ofp_config_flags_code :: "ofp_config_flags \<Rightarrow> nat" where
  "ofp_config_flags_code OFPC_FRAG_NORMAL = 0"
| "ofp_config_flags_code OFPC_FRAG_DROP = 1"
| "ofp_config_flags_code OFPC_FRAG_REASM = 2"
| "ofp_config_flags_code OFPC_FRAG_MASK = 3"
| "ofp_config_flags_code OFPC_INVALID_TTL_TO_CONTROLLER = 4"

definition ofp_config_flags_list :: "ofp_config_flags list" where
  "ofp_config_flags_list =
    [OFPC_FRAG_NORMAL, OFPC_FRAG_DROP, OFPC_FRAG_REASM, OFPC_FRAG_MASK,
     OFPC_INVALID_TTL_TO_CONTROLLER]"

datatype ofp_table =
    OFPTT_MAX | OFPTT_ALL

fun ofp_table_code :: "ofp_table \<Rightarrow> nat" where
  "ofp_table_code OFPTT_MAX = 0xfe"
| "ofp_table_code OFPTT_ALL = 0xff"

definition ofp_table_list :: "ofp_table list" where
  "ofp_table_list =
    [OFPTT_MAX, OFPTT_ALL]"

datatype ofp_table_config =
    OFPTC_TABLE_MISS_CONTROLLER | OFPTC_TABLE_MISS_CONTINUE | OFPTC_TABLE_MISS_DROP |
    OFPTC_TABLE_MISS_MASK

fun ofp_table_config_code :: "ofp_table_config \<Rightarrow> nat" where
  "ofp_table_config_code OFPTC_TABLE_MISS_CONTROLLER = 0"
| "ofp_table_config_code OFPTC_TABLE_MISS_CONTINUE = 1"
| "ofp_table_config_code OFPTC_TABLE_MISS_DROP = 2"
| "ofp_table_config_code OFPTC_TABLE_MISS_MASK = 3"

definition ofp_table_config_list :: "ofp_table_config list" where
  "ofp_table_config_list =
    [OFPTC_TABLE_MISS_CONTROLLER, OFPTC_TABLE_MISS_CONTINUE, OFPTC_TABLE_MISS_DROP,
     OFPTC_TABLE_MISS_MASK]"

datatype ofp_flow_mod_command =
    OFPFC_ADD | OFPFC_MODIFY | OFPFC_MODIFY_STRICT | OFPFC_DELETE | OFPFC_DELETE_STRICT

fun ofp_flow_mod_command_code :: "ofp_flow_mod_command \<Rightarrow> nat" where
  "ofp_flow_mod_command_code OFPFC_ADD = 0"
| "ofp_flow_mod_command_code OFPFC_MODIFY = 1"
| "ofp_flow_mod_command_code OFPFC_MODIFY_STRICT = 2"
| "ofp_flow_mod_command_code OFPFC_DELETE = 3"
| "ofp_flow_mod_command_code OFPFC_DELETE_STRICT = 4"

definition ofp_flow_mod_command_list :: "ofp_flow_mod_command list" where
  "ofp_flow_mod_command_list =
    [OFPFC_ADD, OFPFC_MODIFY, OFPFC_MODIFY_STRICT, OFPFC_DELETE, OFPFC_DELETE_STRICT]"

datatype ofp_flow_mod_flags =
    OFPFF_SEND_FLOW_REM | OFPFF_CHECK_OVERLAP | OFPFF_RESET_COUNTS | OFPFF_NO_PKT_COUNTS |
    OFPFF_NO_BYT_COUNTS

fun ofp_flow_mod_flags_code :: "ofp_flow_mod_flags \<Rightarrow> nat" where
  "ofp_flow_mod_flags_code OFPFF_SEND_FLOW_REM = 1"
| "ofp_flow_mod_flags_code OFPFF_CHECK_OVERLAP = 2"
| "ofp_flow_mod_flags_code OFPFF_RESET_COUNTS = 4"
| "ofp_flow_mod_flags_code OFPFF_NO_PKT_COUNTS = 8"
| "ofp_flow_mod_flags_code OFPFF_NO_BYT_COUNTS = 16"

definition ofp_flow_mod_flags_list :: "ofp_flow_mod_flags list" where
  "ofp_flow_mod_flags_list =
    [OFPFF_SEND_FLOW_REM, OFPFF_CHECK_OVERLAP, OFPFF_RESET_COUNTS, OFPFF_NO_PKT_COUNTS,
     OFPFF_NO_BYT_COUNTS]"

datatype ofp_group =
    OFPG_MAX' | OFPG_ALL' | OFPG_ANY

fun ofp_group_code :: "ofp_group \<Rightarrow> nat" where
  "ofp_group_code OFPG_MAX' = 0xffffff00"
| "ofp_group_code OFPG_ALL' = 0xfffffffc"
| "ofp_group_code OFPG_ANY = 0xffffffff"

definition ofp_group_list :: "ofp_group list" where
  "ofp_group_list =
    [OFPG_MAX', OFPG_ALL', OFPG_ANY]"

datatype ofp_meter =
    OFPM_MAX' | OFPM_SLOWPATH | OFPM_CONTROLLER | OFPM_ALL'

fun ofp_meter_code :: "ofp_meter \<Rightarrow> nat" where
  "ofp_meter_code OFPM_MAX' = 0xffff0000"
| "ofp_meter_code OFPM_SLOWPATH = 0xfffffffd"
| "ofp_meter_code OFPM_CONTROLLER = 0xfffffffe"
| "ofp_meter_code OFPM_ALL' = 0xffffffff"

definition ofp_meter_list :: "ofp_meter list" where
  "ofp_meter_list =
    [OFPM_MAX', OFPM_SLOWPATH, OFPM_CONTROLLER, OFPM_ALL']"

datatype ofp_meter_band_type =
    OFPMBT_DROP | OFPMBT_DSCP_REMARK | OFPMBT_EXPERIMENTER

fun ofp_meter_band_type_code :: "ofp_meter_band_type \<Rightarrow> nat" where
  "ofp_meter_band_type_code OFPMBT_DROP = 1"
| "ofp_meter_band_type_code OFPMBT_DSCP_REMARK = 2"
| "ofp_meter_band_type_code OFPMBT_EXPERIMENTER = 0xffff"

definition ofp_meter_band_type_list :: "ofp_meter_band_type list" where
  "ofp_meter_band_type_list =
    [OFPMBT_DROP, OFPMBT_DSCP_REMARK, OFPMBT_EXPERIMENTER]"

datatype ofp_multipart_request_flags =
    OFPMPF_REQ_MORE

fun ofp_multipart_request_flags_code :: "ofp_multipart_request_flags \<Rightarrow> nat" where
  "ofp_multipart_request_flags_code OFPMPF_REQ_MORE = 1"

definition ofp_multipart_request_flags_list :: "ofp_multipart_request_flags list" where
  "ofp_multipart_request_flags_list =
    [OFPMPF_REQ_MORE]"

datatype ofp_multipart_reply_flags =
    OFPMPF_REPLY_MORE

fun ofp_multipart_reply_flags_code :: "ofp_multipart_reply_flags \<Rightarrow> nat" where
  "ofp_multipart_reply_flags_code OFPMPF_REPLY_MORE = 1"

definition ofp_multipart_reply_flags_list :: "ofp_multipart_reply_flags list" where
  "ofp_multipart_reply_flags_list =
    [OFPMPF_REPLY_MORE]"

datatype ofp_table_feature_prop_type =
    OFPTFPT_INSTRUCTIONS | OFPTFPT_INSTRUCTIONS_MISS | OFPTFPT_NEXT_TABLES |
    OFPTFPT_NEXT_TABLES_MISS | OFPTFPT_WRITE_ACTIONS | OFPTFPT_WRITE_ACTIONS_MISS |
    OFPTFPT_APPLY_ACTIONS | OFPTFPT_APPLY_ACTIONS_MISS | OFPTFPT_MATCH | OFPTFPT_WILDCARDS |
    OFPTFPT_WRITE_SETFIELD | OFPTFPT_WRITE_SETFIELD_MISS | OFPTFPT_APPLY_SETFIELD |
    OFPTFPT_APPLY_SETFIELD_MISS | OFPTFPT_EXPERIMENTER | OFPTFPT_EXPERIMENTER_MISS

fun ofp_table_feature_prop_type_code :: "ofp_table_feature_prop_type \<Rightarrow> nat" where
  "ofp_table_feature_prop_type_code OFPTFPT_INSTRUCTIONS = 0"
| "ofp_table_feature_prop_type_code OFPTFPT_INSTRUCTIONS_MISS = 1"
| "ofp_table_feature_prop_type_code OFPTFPT_NEXT_TABLES = 2"
| "ofp_table_feature_prop_type_code OFPTFPT_NEXT_TABLES_MISS = 3"
| "ofp_table_feature_prop_type_code OFPTFPT_WRITE_ACTIONS = 4"
| "ofp_table_feature_prop_type_code OFPTFPT_WRITE_ACTIONS_MISS = 5"
| "ofp_table_feature_prop_type_code OFPTFPT_APPLY_ACTIONS = 6"
| "ofp_table_feature_prop_type_code OFPTFPT_APPLY_ACTIONS_MISS = 7"
| "ofp_table_feature_prop_type_code OFPTFPT_MATCH = 8"
| "ofp_table_feature_prop_type_code OFPTFPT_WILDCARDS = 10"
| "ofp_table_feature_prop_type_code OFPTFPT_WRITE_SETFIELD = 12"
| "ofp_table_feature_prop_type_code OFPTFPT_WRITE_SETFIELD_MISS = 13"
| "ofp_table_feature_prop_type_code OFPTFPT_APPLY_SETFIELD = 14"
| "ofp_table_feature_prop_type_code OFPTFPT_APPLY_SETFIELD_MISS = 15"
| "ofp_table_feature_prop_type_code OFPTFPT_EXPERIMENTER = 0xfffe"
| "ofp_table_feature_prop_type_code OFPTFPT_EXPERIMENTER_MISS = 0xffff"

definition ofp_table_feature_prop_type_list :: "ofp_table_feature_prop_type list" where
  "ofp_table_feature_prop_type_list =
    [OFPTFPT_INSTRUCTIONS, OFPTFPT_INSTRUCTIONS_MISS, OFPTFPT_NEXT_TABLES,
     OFPTFPT_NEXT_TABLES_MISS, OFPTFPT_WRITE_ACTIONS, OFPTFPT_WRITE_ACTIONS_MISS,
     OFPTFPT_APPLY_ACTIONS, OFPTFPT_APPLY_ACTIONS_MISS, OFPTFPT_MATCH, OFPTFPT_WILDCARDS,
     OFPTFPT_WRITE_SETFIELD, OFPTFPT_WRITE_SETFIELD_MISS, OFPTFPT_APPLY_SETFIELD,
     OFPTFPT_APPLY_SETFIELD_MISS, OFPTFPT_EXPERIMENTER, OFPTFPT_EXPERIMENTER_MISS]"

datatype ofp_group_capabilities =
    OFPGFC_SELECT_WEIGHT | OFPGFC_SELECT_LIVENESS | OFPGFC_CHAINING | OFPGFC_CHAINING_CHECKS

fun ofp_group_capabilities_code :: "ofp_group_capabilities \<Rightarrow> nat" where
  "ofp_group_capabilities_code OFPGFC_SELECT_WEIGHT = 1"
| "ofp_group_capabilities_code OFPGFC_SELECT_LIVENESS = 2"
| "ofp_group_capabilities_code OFPGFC_CHAINING = 4"
| "ofp_group_capabilities_code OFPGFC_CHAINING_CHECKS = 8"

definition ofp_group_capabilities_list :: "ofp_group_capabilities list" where
  "ofp_group_capabilities_list =
    [OFPGFC_SELECT_WEIGHT, OFPGFC_SELECT_LIVENESS, OFPGFC_CHAINING, OFPGFC_CHAINING_CHECKS]"

datatype ofp_controller_role =
    OFPCR_ROLE_NOCHANGE | OFPCR_ROLE_EQUAL | OFPCR_ROLE_MASTER | OFPCR_ROLE_SLAVE

fun ofp_controller_role_code :: "ofp_controller_role \<Rightarrow> nat" where
  "ofp_controller_role_code OFPCR_ROLE_NOCHANGE = 0"
| "ofp_controller_role_code OFPCR_ROLE_EQUAL = 1"
| "ofp_controller_role_code OFPCR_ROLE_MASTER = 2"
| "ofp_controller_role_code OFPCR_ROLE_SLAVE = 3"

definition ofp_controller_role_list :: "ofp_controller_role list" where
  "ofp_controller_role_list =
    [OFPCR_ROLE_NOCHANGE, OFPCR_ROLE_EQUAL, OFPCR_ROLE_MASTER, OFPCR_ROLE_SLAVE]"

datatype ofp_packet_in_reason =
    OFPR_NO_MATCH | OFPR_ACTION | OFPR_INVALID_TTL

fun ofp_packet_in_reason_code :: "ofp_packet_in_reason \<Rightarrow> nat" where
  "ofp_packet_in_reason_code OFPR_NO_MATCH = 0"
| "ofp_packet_in_reason_code OFPR_ACTION = 1"
| "ofp_packet_in_reason_code OFPR_INVALID_TTL = 2"

definition ofp_packet_in_reason_list :: "ofp_packet_in_reason list" where
  "ofp_packet_in_reason_list =
    [OFPR_NO_MATCH, OFPR_ACTION, OFPR_INVALID_TTL]"

datatype ofp_flow_removed_reason =
    OFPRR_IDLE_TIMEOUT | OFPRR_HARD_TIMEOUT | OFPRR_DELETE | OFPRR_GROUP_DELETE |
    OFPRR_METER_DELETE

fun ofp_flow_removed_reason_code :: "ofp_flow_removed_reason \<Rightarrow> nat" where
  "ofp_flow_removed_reason_code OFPRR_IDLE_TIMEOUT = 0"
| "ofp_flow_removed_reason_code OFPRR_HARD_TIMEOUT = 1"
| "ofp_flow_removed_reason_code OFPRR_DELETE = 2"
| "ofp_flow_removed_reason_code OFPRR_GROUP_DELETE = 3"
| "ofp_flow_removed_reason_code OFPRR_METER_DELETE = 4"

definition ofp_flow_removed_reason_list :: "ofp_flow_removed_reason list" where
  "ofp_flow_removed_reason_list =
    [OFPRR_IDLE_TIMEOUT, OFPRR_HARD_TIMEOUT, OFPRR_DELETE, OFPRR_GROUP_DELETE, OFPRR_METER_DELETE]"

datatype ofp_port_reason =
    OFPPR_ADD | OFPPR_DELETE | OFPPR_MODIFY

fun ofp_port_reason_code :: "ofp_port_reason \<Rightarrow> nat" where
  "ofp_port_reason_code OFPPR_ADD = 0"
| "ofp_port_reason_code OFPPR_DELETE = 1"
| "ofp_port_reason_code OFPPR_MODIFY = 2"

definition ofp_port_reason_list :: "ofp_port_reason list" where
  "ofp_port_reason_list =
    [OFPPR_ADD, OFPPR_DELETE, OFPPR_MODIFY]"

section \<open>Constants\<close>

definition OFP_TCP_PORT :: nat where "OFP_TCP_PORT = 6633"
definition OFP_SSL_PORT :: nat where "OFP_SSL_PORT = 6633"
definition OFP_DEFAULT_MISS_SEND_LEN :: nat where "OFP_DEFAULT_MISS_SEND_LEN = 128"
definition OFPQ_ALL :: nat where "OFPQ_ALL = 0xffffffff"
definition OFPQ_MIN_RATE_UNCFG :: nat where "OFPQ_MIN_RATE_UNCFG = 0xffff"
definition OFP_DEFAULT_PRIORITY :: nat where "OFP_DEFAULT_PRIORITY = 0x8000"
definition OFP_FLOW_PERMANENT :: nat where "OFP_FLOW_PERMANENT = 0"
definition OFP_NO_BUFFER :: nat where "OFP_NO_BUFFER = 0xffffffff"

section \<open>The members that hold them\<close>

text \<open>The width in bits of an integer member, or of the elements of an array of integers.\<close>

definition member_bits :: "ctype \<Rightarrow> string \<Rightarrow> nat" where
  "member_bits s m =
    (case s of
       Struct ms \<Rightarrow> (case map_of ms m of Some (Uint n) \<Rightarrow> 8 * n | Some (Arr (Uint n) _) \<Rightarrow> 8 * n | _ \<Rightarrow> 0)
     | _ \<Rightarrow> 0)"

definition enum_members :: "(nat \<times> nat list) list" where
  "enum_members =
    [(member_bits ofp_header ''type'', map ofp_type_code ofp_type_list),
     (member_bits ofp_port ''port_no'', map ofp_port_no_code ofp_port_no_list),
     (member_bits ofp_port ''config'', map ofp_port_config_code ofp_port_config_list),
     (member_bits ofp_port ''state'', map ofp_port_state_code ofp_port_state_list),
     (member_bits ofp_port ''curr'', map ofp_port_features_code ofp_port_features_list),
     (member_bits ofp_port_mod ''config'', map ofp_port_config_code ofp_port_config_list),
     (member_bits ofp_port_mod ''advertise'', map ofp_port_features_code ofp_port_features_list),
     (member_bits ofp_queue_prop_header ''property'', map ofp_queue_properties_code ofp_queue_properties_list),
     (member_bits ofp_match ''type'', map ofp_match_type_code ofp_match_type_list),
     (member_bits ofp_instruction ''type'', map ofp_instruction_type_code ofp_instruction_type_list),
     (member_bits ofp_action_header ''type'', map ofp_action_type_code ofp_action_type_list),
     (member_bits ofp_action_output ''port'', map ofp_port_no_code ofp_port_no_list),
     (member_bits ofp_action_output ''max_len'', map ofp_controller_max_len_code ofp_controller_max_len_list),
     (member_bits ofp_action_group ''group_id'', map ofp_group_code ofp_group_list),
     (member_bits ofp_switch_features ''capabilities'', map ofp_capabilities_code ofp_capabilities_list),
     (member_bits ofp_switch_config ''flags'', map ofp_config_flags_code ofp_config_flags_list),
     (member_bits ofp_switch_config ''miss_send_len'', map ofp_controller_max_len_code ofp_controller_max_len_list),
     (member_bits ofp_table_mod ''table_id'', map ofp_table_code ofp_table_list),
     (member_bits ofp_table_mod ''config'', map ofp_table_config_code ofp_table_config_list),
     (member_bits ofp_flow_mod ''table_id'', map ofp_table_code ofp_table_list),
     (member_bits ofp_flow_mod ''command'', map ofp_flow_mod_command_code ofp_flow_mod_command_list),
     (member_bits ofp_flow_mod ''flags'', map ofp_flow_mod_flags_code ofp_flow_mod_flags_list),
     (member_bits ofp_flow_mod ''out_port'', map ofp_port_no_code ofp_port_no_list),
     (member_bits ofp_flow_mod ''out_group'', map ofp_group_code ofp_group_list),
     (member_bits ofp_group_mod ''command'', map ofp_group_mod_command_code ofp_group_mod_command_list),
     (member_bits ofp_group_mod ''type'', map ofp_group_type_code ofp_group_type_list),
     (member_bits ofp_group_mod ''group_id'', map ofp_group_code ofp_group_list),
     (member_bits ofp_meter_mod ''command'', map ofp_meter_mod_command_code ofp_meter_mod_command_list),
     (member_bits ofp_meter_mod ''flags'', map ofp_meter_flags_code ofp_meter_flags_list),
     (member_bits ofp_meter_mod ''meter_id'', map ofp_meter_code ofp_meter_list),
     (member_bits ofp_meter_band_header ''type'', map ofp_meter_band_type_code ofp_meter_band_type_list),
     (member_bits ofp_multipart_request ''type'', map ofp_multipart_types_code ofp_multipart_types_list),
     (member_bits ofp_multipart_request ''flags'', map ofp_multipart_request_flags_code ofp_multipart_request_flags_list),
     (member_bits ofp_multipart_reply ''type'', map ofp_multipart_types_code ofp_multipart_types_list),
     (member_bits ofp_multipart_reply ''flags'', map ofp_multipart_reply_flags_code ofp_multipart_reply_flags_list),
     (member_bits ofp_table_feature_prop_header ''type'', map ofp_table_feature_prop_type_code ofp_table_feature_prop_type_list),
     (member_bits ofp_group_desc_stats ''type'', map ofp_group_type_code ofp_group_type_list),
     (member_bits ofp_group_features_stats ''capabilities'', map ofp_group_capabilities_code ofp_group_capabilities_list),
     (member_bits ofp_meter_config ''flags'', map ofp_meter_flags_code ofp_meter_flags_list),
     (member_bits ofp_meter_features ''capabilities'', map ofp_meter_flags_code ofp_meter_flags_list),
     (member_bits ofp_role_request ''role'', map ofp_controller_role_code ofp_controller_role_list),
     (member_bits ofp_packet_in ''reason'', map ofp_packet_in_reason_code ofp_packet_in_reason_list),
     (member_bits ofp_flow_removed ''reason'', map ofp_flow_removed_reason_code ofp_flow_removed_reason_list),
     (member_bits ofp_port_status ''reason'', map ofp_port_reason_code ofp_port_reason_list),
     (member_bits ofp_error_msg ''type'', map ofp_error_type_code ofp_error_type_list)]"

text \<open>The codes of all errors go into the same member.\<close>

definition error_members :: "(nat \<times> nat list) list" where
  "error_members = map (\<lambda>cs. (member_bits ofp_error_msg ''code'', cs))
    [map ofp_hello_failed_code_code ofp_hello_failed_code_list,
     map ofp_bad_request_code_code ofp_bad_request_code_list,
     map ofp_bad_action_code_code ofp_bad_action_code_list,
     map ofp_bad_instruction_code_code ofp_bad_instruction_code_list,
     map ofp_bad_match_code_code ofp_bad_match_code_list,
     map ofp_flow_mod_failed_code_code ofp_flow_mod_failed_code_list,
     map ofp_group_mod_failed_code_code ofp_group_mod_failed_code_list,
     map ofp_port_mod_failed_code_code ofp_port_mod_failed_code_list,
     map ofp_table_mod_failed_code_code ofp_table_mod_failed_code_list,
     map ofp_queue_op_failed_code_code ofp_queue_op_failed_code_list,
     map ofp_switch_config_failed_code_code ofp_switch_config_failed_code_list,
     map ofp_role_request_failed_code_code ofp_role_request_failed_code_list,
     map ofp_meter_mod_failed_code_code ofp_meter_mod_failed_code_list,
     map ofp_table_features_failed_code_code ofp_table_features_failed_code_list]"

text \<open>The constants and the members they are meant for.\<close>

definition constant_members :: "(nat \<times> nat list) list" where
  "constant_members =
    [(member_bits ofp_switch_config ''miss_send_len'', [OFP_DEFAULT_MISS_SEND_LEN]),
     (member_bits ofp_queue_stats_request ''queue_id'', [OFPQ_ALL]),
     (member_bits ofp_queue_prop_min_rate ''rate'', [OFPQ_MIN_RATE_UNCFG]),
     (member_bits ofp_flow_mod ''priority'', [OFP_DEFAULT_PRIORITY]),
     (member_bits ofp_flow_mod ''idle_timeout'', [OFP_FLOW_PERMANENT]),
     (member_bits ofp_packet_out ''buffer_id'', [OFP_NO_BUFFER])]"

text \<open>The enumerations of flags: single bits.\<close>

definition flag_enums :: "nat list list" where
  "flag_enums =
    [map ofp_port_config_code ofp_port_config_list,
     map ofp_port_state_code ofp_port_state_list,
     map ofp_port_features_code ofp_port_features_list,
     map ofp_ipv6exthdr_flags_code ofp_ipv6exthdr_flags_list,
     map ofp_capabilities_code ofp_capabilities_list,
     map ofp_flow_mod_flags_code ofp_flow_mod_flags_list,
     map ofp_meter_flags_code ofp_meter_flags_list,
     map ofp_multipart_request_flags_code ofp_multipart_request_flags_list,
     map ofp_multipart_reply_flags_code ofp_multipart_reply_flags_list,
     map ofp_group_capabilities_code ofp_group_capabilities_list]"

text \<open>The enumerations of the extensible match, which lives in fields of bits of no structure.\<close>

definition match_enums :: "(nat \<times> nat list) list" where
  "match_enums = [(16, map ofp_oxm_class_code ofp_oxm_class_list), (7, map oxm_ofb_match_fields_code oxm_ofb_match_fields_list), (13, map ofp_vlan_id_code ofp_vlan_id_list)]"

text \<open>A number with one bit, among the lowest 16.\<close>

definition single_bit :: "nat \<Rightarrow> bool" where
  "single_bit n \<longleftrightarrow> n \<noteq> 0 \<and> list_ex (\<lambda>k. n = 2 ^ k) [0..<16]"

lemmas enum_lists =
  ofp_action_type_list_def ofp_bad_action_code_list_def ofp_bad_instruction_code_list_def
  ofp_bad_match_code_list_def ofp_bad_request_code_list_def ofp_capabilities_list_def
  ofp_config_flags_list_def ofp_controller_max_len_list_def ofp_controller_role_list_def
  ofp_error_type_list_def ofp_flow_mod_command_list_def ofp_flow_mod_failed_code_list_def
  ofp_flow_mod_flags_list_def ofp_flow_removed_reason_list_def ofp_group_list_def
  ofp_group_capabilities_list_def ofp_group_mod_command_list_def
  ofp_group_mod_failed_code_list_def ofp_group_type_list_def ofp_hello_failed_code_list_def
  ofp_instruction_type_list_def ofp_ipv6exthdr_flags_list_def ofp_match_type_list_def
  ofp_meter_list_def ofp_meter_band_type_list_def ofp_meter_flags_list_def
  ofp_meter_mod_command_list_def ofp_meter_mod_failed_code_list_def
  ofp_multipart_reply_flags_list_def ofp_multipart_request_flags_list_def
  ofp_multipart_types_list_def ofp_oxm_class_list_def ofp_packet_in_reason_list_def
  ofp_port_config_list_def ofp_port_features_list_def ofp_port_mod_failed_code_list_def
  ofp_port_no_list_def ofp_port_reason_list_def ofp_port_state_list_def
  ofp_queue_op_failed_code_list_def ofp_queue_properties_list_def
  ofp_role_request_failed_code_list_def ofp_switch_config_failed_code_list_def
  ofp_table_list_def ofp_table_config_list_def ofp_table_feature_prop_type_list_def
  ofp_table_features_failed_code_list_def ofp_table_mod_failed_code_list_def
  ofp_type_list_def ofp_vlan_id_list_def oxm_ofb_match_fields_list_def

lemma member_bits_eval:
  "member_bits ofp_action_group ''group_id'' = 32"
  "member_bits ofp_action_header ''type'' = 16"
  "member_bits ofp_action_output ''max_len'' = 16"
  "member_bits ofp_action_output ''port'' = 32"
  "member_bits ofp_error_msg ''code'' = 16"
  "member_bits ofp_error_msg ''type'' = 16"
  "member_bits ofp_flow_mod ''command'' = 8"
  "member_bits ofp_flow_mod ''flags'' = 16"
  "member_bits ofp_flow_mod ''idle_timeout'' = 16"
  "member_bits ofp_flow_mod ''out_group'' = 32"
  "member_bits ofp_flow_mod ''out_port'' = 32"
  "member_bits ofp_flow_mod ''priority'' = 16"
  "member_bits ofp_flow_mod ''table_id'' = 8"
  "member_bits ofp_flow_removed ''reason'' = 8"
  "member_bits ofp_group_desc_stats ''type'' = 8"
  "member_bits ofp_group_features_stats ''capabilities'' = 32"
  "member_bits ofp_group_mod ''command'' = 16"
  "member_bits ofp_group_mod ''group_id'' = 32"
  "member_bits ofp_group_mod ''type'' = 8"
  "member_bits ofp_header ''type'' = 8"
  "member_bits ofp_instruction ''type'' = 16"
  "member_bits ofp_match ''type'' = 16"
  "member_bits ofp_meter_band_header ''type'' = 16"
  "member_bits ofp_meter_config ''flags'' = 16"
  "member_bits ofp_meter_features ''capabilities'' = 32"
  "member_bits ofp_meter_mod ''command'' = 16"
  "member_bits ofp_meter_mod ''flags'' = 16"
  "member_bits ofp_meter_mod ''meter_id'' = 32"
  "member_bits ofp_multipart_reply ''flags'' = 16"
  "member_bits ofp_multipart_reply ''type'' = 16"
  "member_bits ofp_multipart_request ''flags'' = 16"
  "member_bits ofp_multipart_request ''type'' = 16"
  "member_bits ofp_packet_in ''reason'' = 8"
  "member_bits ofp_packet_out ''buffer_id'' = 32"
  "member_bits ofp_port ''config'' = 32"
  "member_bits ofp_port ''curr'' = 32"
  "member_bits ofp_port ''port_no'' = 32"
  "member_bits ofp_port ''state'' = 32"
  "member_bits ofp_port_mod ''advertise'' = 32"
  "member_bits ofp_port_mod ''config'' = 32"
  "member_bits ofp_port_status ''reason'' = 8"
  "member_bits ofp_queue_prop_header ''property'' = 16"
  "member_bits ofp_queue_prop_min_rate ''rate'' = 16"
  "member_bits ofp_queue_stats_request ''queue_id'' = 32"
  "member_bits ofp_role_request ''role'' = 32"
  "member_bits ofp_switch_config ''flags'' = 16"
  "member_bits ofp_switch_config ''miss_send_len'' = 16"
  "member_bits ofp_switch_features ''capabilities'' = 32"
  "member_bits ofp_table_feature_prop_header ''type'' = 16"
  "member_bits ofp_table_mod ''config'' = 32"
  "member_bits ofp_table_mod ''table_id'' = 8"
  by (simp_all add: member_bits_def ofp_struct_defs)

section \<open>They fit\<close>

text \<open>
  Each of the enumerators and constants above fits the member of the structure that holds it, so that no conversion to the width of the member loses bits; the names of
  an enumeration have different values; the flags of an enumeration are single bits.
\<close>

lemma enumerators_fit:
  "list_all (\<lambda>(bits, codes). list_all (\<lambda>c. c < 2 ^ bits) codes \<and> distinct codes)
     (enum_members @ error_members @ constant_members @ match_enums) \<and>
   list_all (\<lambda>codes. list_all single_bit codes \<and> distinct codes) flag_enums"
proof
  show "list_all (\<lambda>(bits, codes). list_all (\<lambda>c. c < 2 ^ bits) codes \<and> distinct codes)
     (enum_members @ error_members @ constant_members @ match_enums)"
    by (simp add: enum_members_def error_members_def constant_members_def match_enums_def member_bits_eval enum_lists
        OFP_DEFAULT_MISS_SEND_LEN_def OFPQ_ALL_def OFPQ_MIN_RATE_UNCFG_def OFP_DEFAULT_PRIORITY_def
        OFP_FLOW_PERMANENT_def OFP_NO_BUFFER_def
        ofp_type_list_def ofp_action_type_list_def ofp_multipart_types_list_def ofp_error_type_list_def)
  show "list_all (\<lambda>codes. list_all single_bit codes \<and> distinct codes) flag_enums"
    by (simp add: flag_enums_def enum_lists single_bit_def upt_rec)
qed

end
