(* ===== verification/MemPool.thy ===== *)
theory MemPool
  imports Prelude
begin

text \<open>
  \<open>lib/cc_mem_pool.c\<close>: pools of equally sized blocks, one for each value of a byte. A pool is a
  doubly linked list of nodes; the nodes up to \<open>tail\<close> hold the free blocks, the nodes behind it
  are empty, and the first node is never emptied. A block starts with the byte that names its pool
  and the user gets the address behind it. Nodes and blocks live in two stores; an address of a
  block is the block with an offset. An access to something that is not allocated, through the null
  pointer or outside a block is \<open>None\<close>, and so is a loop that does not end. \<open>malloc\<close> is a parameter.
  Every function is one step, so an execution is a sequence of calls that do not overlap. The spin lock
  would give this for \<open>new_mem_node\<close> against itself; \<open>free_mem_node\<close> names a function that does not
  exist to take it (line 59), and \<open>init_mem_list\<close> and \<open>clean_mem_list\<close> do not take it, so that for them
  it is an assumption on the caller.
\<close>

section \<open>Data\<close>

type_synonym node_addr = nat
type_synonym block_addr = "nat \<times> nat"
type_synonym block_store = "nat \<Rightarrow> bytes option"

record mem_node =
  mn_data :: "block_addr option"
  mn_raw_data :: "block_addr option"
  mn_next :: "node_addr option"
  mn_pre :: "node_addr option"

type_synonym node_store = "node_addr \<Rightarrow> mem_node option"

record mem_list =
  ml_head :: "node_addr option"
  ml_tail :: "node_addr option"
  ml_type :: u8
  ml_valid :: u8

definition MAX_MEM_LIST :: nat where "MAX_MEM_LIST = 256"

text \<open>The static variables \<open>mem_list\<close> and \<open>mem_list_init\<close>, and the two stores.\<close>

record mem_pool =
  mp_lists :: "u8 \<Rightarrow> mem_list"
  mp_init :: bool
  mp_nodes :: node_store
  mp_blocks :: block_store

text \<open>
  \<open>malloc\<close> of a node and of a block with its uninitialised contents; it fails, or returns something
  that is not allocated.
\<close>

record pool_malloc =
  pm_node :: "node_store \<Rightarrow> node_addr option"
  pm_block :: "block_store \<Rightarrow> nat \<Rightarrow> (nat \<times> bytes) option"

definition fresh_malloc :: "pool_malloc \<Rightarrow> bool" where
  "fresh_malloc A \<longleftrightarrow>
     (\<forall>N p. pm_node A N = Some p \<longrightarrow> N p = None) \<and>
     (\<forall>B n b junk. pm_block A B n = Some (b, junk) \<longrightarrow> B b = None \<and> length junk = n)"

definition load_byte :: "block_store \<Rightarrow> block_addr \<Rightarrow> u8 option" where
  "load_byte B a = do { bs \<leftarrow> B (fst a); if snd a < length bs then Some (bs ! snd a) else None }"

definition store_byte :: "block_store \<Rightarrow> block_addr \<Rightarrow> u8 \<Rightarrow> block_store option" where
  "store_byte B a v =
     do { bs \<leftarrow> B (fst a);
          if snd a < length bs then Some (B(fst a \<mapsto> bs[snd a := v])) else None }"

definition free_block :: "block_store \<Rightarrow> block_addr \<Rightarrow> block_store option" where
  "free_block B a = (if snd a = 0 \<and> B (fst a) \<noteq> None then Some (B(fst a := None)) else None)"

definition with_list :: "u8 \<Rightarrow> mem_list \<Rightarrow> mem_pool \<Rightarrow> mem_pool" where
  "with_list t l st = st\<lparr> mp_lists := (mp_lists st)(t := l) \<rparr>"

section \<open>Operations\<close>

definition init_all_mem_list :: "mem_pool \<Rightarrow> mem_pool" where
  "init_all_mem_list st =
     fold (\<lambda>i. with_list (of_nat i) \<lparr> ml_head = None, ml_tail = None, ml_type = 0, ml_valid = 0 \<rparr>)
       [0..<MAX_MEM_LIST] st"

definition new_mem_node :: "u8 \<Rightarrow> mem_pool \<Rightarrow> (block_addr option \<times> mem_pool) option" where
  "new_mem_node type st =
    (let l = mp_lists st type in
     if ml_head l = None then Some (None, st)
     else if ml_tail l \<noteq> ml_head l then
       do { tail \<leftarrow> ml_tail l;
            x \<leftarrow> mp_nodes st tail;
            d \<leftarrow> mn_data x;
            let prt = (fst d, snd d + 1);
            let st = st\<lparr> mp_nodes := (mp_nodes st)(tail \<mapsto> x\<lparr> mn_data := None \<rparr>) \<rparr>;
            Some (Some prt, with_list type (l\<lparr> ml_tail := mn_pre x \<rparr>) st) }
     else Some (None, st))"

text \<open>The address is used before it is compared with the null pointer.\<close>

definition free_mem_node :: "block_addr option \<Rightarrow> mem_pool \<Rightarrow> mem_pool option" where
  "free_mem_node addr st =
    do { a \<leftarrow> addr;
         raw \<leftarrow> (case snd a of 0 \<Rightarrow> None | Suc off \<Rightarrow> Some (fst a, off));
         type \<leftarrow> load_byte (mp_blocks st) raw;
         let l = mp_lists st type;
         tail \<leftarrow> ml_tail l;
         x \<leftarrow> mp_nodes st tail;
         (case mn_next x of
            None \<Rightarrow> Some st
          | Some n \<Rightarrow>
              do { y \<leftarrow> mp_nodes st n;
                   let st = st\<lparr> mp_nodes := (mp_nodes st)(n \<mapsto> y\<lparr> mn_data := Some raw \<rparr>) \<rparr>;
                   Some (with_list type (l\<lparr> ml_tail := Some n \<rparr>) st) }) }"

text \<open>
  One iteration of the loop of \<open>init_mem_list\<close>: \<open>False\<close> with the state at \<open>goto err\<close>. When the block
  cannot be allocated the node is freed again before the jump.
\<close>

definition init_step :: "pool_malloc \<Rightarrow> u8 \<Rightarrow> nat \<Rightarrow> mem_pool \<Rightarrow> (bool \<times> mem_pool) option" where
  "init_step A type n st =
    (case pm_node A (mp_nodes st) of
       None \<Rightarrow> Some (False, st)
     | Some p \<Rightarrow>
        (case pm_block A (mp_blocks st) n of
           None \<Rightarrow> Some (False, st)
         | Some (b, junk) \<Rightarrow>
            do { blocks \<leftarrow> store_byte ((mp_blocks st)(b \<mapsto> junk)) (b, 0) type;
                 let N = (mp_nodes st)(p \<mapsto> \<lparr> mn_data = Some (b, 0), mn_raw_data = Some (b, 0),
                                             mn_next = None, mn_pre = None \<rparr>);
                 let st = st\<lparr> mp_blocks := blocks \<rparr>;
                 let l = mp_lists st type;
                 (case ml_head l of
                    None \<Rightarrow>
                      Some (True, with_list type (l\<lparr> ml_head := Some p, ml_tail := Some p \<rparr>)
                                    (st\<lparr> mp_nodes := N \<rparr>))
                  | Some h \<Rightarrow>
                      do { x \<leftarrow> N h;
                           y \<leftarrow> N p;
                           let N = N(h \<mapsto> x\<lparr> mn_next := Some p \<rparr>,
                                     p \<mapsto> y\<lparr> mn_next := mn_next x, mn_pre := Some h \<rparr>);
                           (case mn_next x of
                              None \<Rightarrow> Some (True, st\<lparr> mp_nodes := N \<rparr>)
                            | Some q \<Rightarrow>
                                do { z \<leftarrow> N q;
                                     Some (True, st\<lparr> mp_nodes := N(q \<mapsto> z\<lparr> mn_pre := Some p \<rparr>) \<rparr>) }) }) }))"

fun init_loop :: "pool_malloc \<Rightarrow> u8 \<Rightarrow> nat \<Rightarrow> nat \<Rightarrow> mem_pool \<Rightarrow> (bool \<times> mem_pool) option" where
  "init_loop A type n 0 st = Some (True, st)"
| "init_loop A type n (Suc i) st =
    do { (ok, st) \<leftarrow> init_step A type n st;
         if ok then init_loop A type n i st else Some (False, st) }"

partial_function (option) last_node :: "node_store \<Rightarrow> node_addr \<Rightarrow> node_addr option" where
  "last_node N t = do { x \<leftarrow> N t; (case mn_next x of None \<Rightarrow> Some t | Some n \<Rightarrow> last_node N n) }"

partial_function (option) free_nodes ::
    "node_store \<Rightarrow> block_store \<Rightarrow> node_addr option \<Rightarrow> (node_store \<times> block_store) option" where
  "free_nodes N B head =
    (case head of
       None \<Rightarrow> Some (N, B)
     | Some p \<Rightarrow>
        do { x \<leftarrow> N p;
             B \<leftarrow> (case mn_data x of None \<Rightarrow> Some B | Some d \<Rightarrow> free_block B d);
             free_nodes (N(p := None)) B (mn_next x) })"

text \<open>\<open>length + 1\<close> is an \<open>int\<close>; its overflow is undefined.\<close>

definition init_mem_list ::
    "pool_malloc \<Rightarrow> u8 \<Rightarrow> int \<Rightarrow> int \<Rightarrow> mem_pool \<Rightarrow> (int \<times> mem_pool) option" where
  "init_mem_list A type sz len st =
    (let st = (if mp_init st then st else (init_all_mem_list st)\<lparr> mp_init := True \<rparr>) in
     if type = 0 \<or> sz \<le> 0 \<or> len \<le> 0 then Some (0, st)
     else if ml_valid (mp_lists st type) \<noteq> 0 then Some (1, st)
     else if len \<ge> 2 ^ 31 - 1 then None
     else
       do { let st = with_list type ((mp_lists st type)\<lparr> ml_valid := 1, ml_type := type \<rparr>) st;
            (ok, st) \<leftarrow> init_loop A type (nat sz + 1) (nat (len + 1)) st;
            let l = mp_lists st type;
            if ok then
              do { tail \<leftarrow> ml_tail l;
                   last \<leftarrow> last_node (mp_nodes st) tail;
                   Some (1, with_list type (l\<lparr> ml_tail := Some last, ml_valid := 1 \<rparr>) st) }
            else
              do { (N, B) \<leftarrow> free_nodes (mp_nodes st) (mp_blocks st) (ml_head l);
                   Some (0, with_list type \<lparr> ml_head = None, ml_tail = None, ml_type = 0, ml_valid = 0 \<rparr>
                              (st\<lparr> mp_nodes := N, mp_blocks := B \<rparr>)) } })"

text \<open>
  The loop of \<open>clean_mem_list\<close> over one list; it counts the nodes, the nodes from \<open>tail\<close> on and the
  blocks it frees.
\<close>

partial_function (option) clean_loop ::
    "node_addr option \<Rightarrow> node_store \<Rightarrow> block_store \<Rightarrow> node_addr option \<Rightarrow> int \<Rightarrow> int \<Rightarrow> int \<Rightarrow>
     (node_store \<times> block_store \<times> int \<times> int \<times> int) option" where
  "clean_loop tail N B head num left free_num =
    (case head of
       None \<Rightarrow> Some (N, B, num, left, free_num)
     | Some p \<Rightarrow>
        do { let left = (if Some p = tail then 0 else left);
             x \<leftarrow> N p;
             let left = (if left \<ge> 0 then left + 1 else left);
             (B, free_num) \<leftarrow> (case mn_raw_data x of
                                 None \<Rightarrow> Some (B, free_num)
                               | Some r \<Rightarrow> do { B \<leftarrow> free_block B r; Some (B, free_num + 1) });
             clean_loop tail (N(p := None)) B (mn_next x) (num + 1) left free_num })"

text \<open>What is printed for a list: the nodes, its type, the blocks in use and the blocks freed.\<close>

type_synonym clean_report = "int \<times> u8 \<times> int \<times> int"

definition clean_list :: "u8 \<Rightarrow> mem_pool \<Rightarrow> (clean_report list \<times> mem_pool) option" where
  "clean_list i st =
    (let l = mp_lists st i in
     if ml_valid l = 0 then Some ([], st)
     else do { (N, B, num, left, free_num) \<leftarrow>
                 clean_loop (ml_tail l) (mp_nodes st) (mp_blocks st) (ml_head l) 0 (- 1) 0;
               Some ([(num, ml_type l, left - 1, free_num)],
                 with_list i (l\<lparr> ml_valid := 0, ml_head := None \<rparr>)
                   (st\<lparr> mp_nodes := N, mp_blocks := B \<rparr>)) })"

fun clean_lists :: "nat list \<Rightarrow> mem_pool \<Rightarrow> (clean_report list \<times> mem_pool) option" where
  "clean_lists [] st = Some ([], st)"
| "clean_lists (i # is) st =
    do { (out, st) \<leftarrow> clean_list (of_nat i) st;
         (outs, st) \<leftarrow> clean_lists is st;
         Some (out @ outs, st) }"

definition clean_mem_list :: "mem_pool \<Rightarrow> (clean_report list \<times> mem_pool) option" where
  "clean_mem_list st = clean_lists [0..<MAX_MEM_LIST] st"

section \<open>The list of a pool\<close>

text \<open>
  The nodes of a list in order, with their current blocks \<open>ds\<close> and the blocks \<open>rs\<close> they were made
  with.
\<close>

definition node_at :: "node_addr list \<Rightarrow> nat option list \<Rightarrow> nat list \<Rightarrow> nat \<Rightarrow> mem_node" where
  "node_at ns ds rs i =
     \<lparr> mn_data = map_option (\<lambda>b. (b, 0)) (ds ! i), mn_raw_data = Some (rs ! i, 0),
       mn_next = (if Suc i < length ns then Some (ns ! Suc i) else None),
       mn_pre = (if i = 0 then None else Some (ns ! (i - 1))) \<rparr>"

definition node_list :: "node_store \<Rightarrow> node_addr list \<Rightarrow> nat option list \<Rightarrow> nat list \<Rightarrow> bool" where
  "node_list N ns ds rs \<longleftrightarrow>
     distinct ns \<and> length ds = length ns \<and> length rs = length ns \<and>
     (\<forall>i < length ns. N (ns ! i) = Some (node_at ns ds rs i))"

lemma node_list_at: "node_list N ns ds rs \<Longrightarrow> i < length ns \<Longrightarrow> N (ns ! i) = Some (node_at ns ds rs i)"
  by (simp add: node_list_def)

lemma node_list_cong:
  "(\<And>a. a \<in> set ns \<Longrightarrow> N' a = N a) \<Longrightarrow> node_list N' ns ds rs = node_list N ns ds rs"
  by (auto simp: node_list_def)

lemma node_list_data:
  assumes "node_list N ns ds rs" "i < length ns"
  shows "node_list (N(ns ! i \<mapsto> (node_at ns ds rs i)\<lparr> mn_data := map_option (\<lambda>b. (b, 0)) d \<rparr>))
           ns (ds[i := d]) rs"
  using assms node_list_at [OF assms(1)]
  by (auto simp: node_list_def nth_eq_iff_index_eq) (auto simp: node_at_def nth_list_update)

lemma node_list_insert:
  assumes "node_list N (h # ns) (d # ds) (r # rs)" "p \<notin> set (h # ns)"
  shows "node_list
    (let N' = N(h \<mapsto> (node_at (h # ns) (d # ds) (r # rs) 0)\<lparr> mn_next := Some p \<rparr>,
                p \<mapsto> \<lparr> mn_data = Some (b, 0), mn_raw_data = Some (b, 0),
                      mn_next = (case ns of [] \<Rightarrow> None | q # _ \<Rightarrow> Some q), mn_pre = Some h \<rparr>)
     in case ns of [] \<Rightarrow> N' | q # _ \<Rightarrow> N'(q \<mapsto> (node_at (h # ns) (d # ds) (r # rs) 1)\<lparr> mn_pre := Some p \<rparr>))
    (h # p # ns) (d # Some b # ds) (r # b # rs)"
proof (cases ns)
  case Nil
  with assms show ?thesis by (auto simp: node_list_def node_at_def less_Suc_eq)
next
  case (Cons q qs)
  let ?old = "node_at (h # ns) (d # ds) (r # rs)" and ?new = "node_at (h # p # ns) (d # Some b # ds) (r # b # rs)"
  define N' where "N' = N(h \<mapsto> (?old 0)\<lparr> mn_next := Some p \<rparr>,
      p \<mapsto> \<lparr> mn_data = Some (b, 0), mn_raw_data = Some (b, 0), mn_next = Some q, mn_pre = Some h \<rparr>,
      q \<mapsto> (?old 1)\<lparr> mn_pre := Some p \<rparr>)"
  have len: "length ds = length ns" "length rs = length ns" and dist: "distinct (h # p # ns)"
    using assms by (auto simp: node_list_def)
  have "N' ((h # p # ns) ! i) = Some (?new i)" if i: "i < length (h # p # ns)" for i
  proof -
    consider "i = 0" | "i = 1" | "i = 2" | j where "i = Suc (Suc (Suc j))" "j < length qs"
      using i Cons by (cases i; cases "i - 1"; cases "i - 2") auto
    then show ?thesis
    proof cases
      case 4
      then have "N ((h # ns) ! Suc (Suc j)) = Some (?old (Suc (Suc j)))"
        using assms(1) Cons by (intro node_list_at) auto
      moreover have "qs ! j \<in> set qs" using 4 by simp
      moreover have "?old (Suc (Suc j)) = ?new i" using 4 Cons by (simp add: node_at_def)
      ultimately show ?thesis using 4 dist Cons by (auto simp: N'_def)
    qed (use dist Cons in \<open>auto simp: N'_def node_at_def\<close>)
  qed
  with len dist have "node_list N' (h # p # ns) (d # Some b # ds) (r # b # rs)" by (simp add: node_list_def)
  then show ?thesis using Cons by (simp add: N'_def Let_def)
qed

lemma last_node_list:
  assumes "node_list N ns ds rs" "i < length ns"
  shows "last_node N (ns ! i) = Some (last ns)"
  using assms(2)
proof (induction "length ns - i" arbitrary: i)
  case (Suc n)
  have x: "N (ns ! i) = Some (node_at ns ds rs i)" using assms(1) Suc.prems by (rule node_list_at)
  show ?case
  proof (cases "Suc i < length ns")
    case True
    then have "last_node N (ns ! Suc i) = Some (last ns)" using Suc.hyps by (intro Suc.hyps(1)) auto
    then show ?thesis using True x by (subst last_node.simps) (simp add: node_at_def)
  next
    case False
    then have i: "i = length ns - 1" using Suc.prems by simp
    moreover have "ns \<noteq> []" using Suc.prems by auto
    ultimately have "ns ! i = last ns" by (simp add: last_conv_nth)
    then show ?thesis using False x by (subst last_node.simps) (simp add: node_at_def)
  qed
qed simp

text \<open>The pointer to the node of an index, null behind the last.\<close>

abbreviation node_ptr :: "node_addr list \<Rightarrow> nat \<Rightarrow> node_addr option" where
  "node_ptr ns i \<equiv> (if i < length ns then Some (ns ! i) else None)"

abbreviation without :: "('a \<Rightarrow> 'b option) \<Rightarrow> 'a set \<Rightarrow> 'a \<Rightarrow> 'b option" where
  "without N A \<equiv> (\<lambda>a. if a \<in> A then None else N a)"

lemma without_step: "i < length ns \<Longrightarrow> without (N(ns ! i := None)) (set (drop (Suc i) ns)) = without N (set (drop i ns))"
  by (rule ext) (auto simp flip: Cons_nth_drop_Suc)

lemma free_nodes_list:
  assumes "distinct ns" "distinct rs" "length rs = length ns"
    and "\<And>j. i \<le> j \<Longrightarrow> j < length ns \<Longrightarrow> N (ns ! j) = Some (node_at ns (map Some rs) rs j)"
    and "\<And>j. i \<le> j \<Longrightarrow> j < length ns \<Longrightarrow> B (rs ! j) \<noteq> None"
  shows "free_nodes N B (node_ptr ns i) = Some (without N (set (drop i ns)), without B (set (drop i rs)))"
  using assms(4,5)
proof (induction "length ns - i" arbitrary: i N B)
  case 0
  then show ?case using assms(3) by (simp add: free_nodes.simps)
next
  case (Suc n)
  then have i: "i < length ns" by simp
  have "free_nodes (N(ns ! i := None)) (B(rs ! i := None)) (node_ptr ns (Suc i))
     = Some (without (N(ns ! i := None)) (set (drop (Suc i) ns)), without (B(rs ! i := None)) (set (drop (Suc i) rs)))"
    using Suc.hyps assms(1-3) Suc.prems
    by (intro Suc.hyps(1)) (auto simp: nth_eq_iff_index_eq)
  moreover have "B (rs ! i) \<noteq> None" "N (ns ! i) = Some (node_at ns (map Some rs) rs i)" using Suc.prems i by auto
  ultimately show ?case using i assms(3) without_step [of i ns N] without_step [of i rs B]
    by (subst free_nodes.simps) (auto simp: node_at_def free_block_def)
qed

lemma clean_loop_list:
  assumes "distinct ns" "distinct rs" "length rs = length ns" "k < length ns"
    and "\<And>j. i \<le> j \<Longrightarrow> j < length ns \<Longrightarrow> N (ns ! j) = Some (node_at ns ds rs j)"
    and "\<And>j. i \<le> j \<Longrightarrow> j < length ns \<Longrightarrow> B (rs ! j) \<noteq> None"
    and "left = (if i \<le> k then - 1 else int (i - k))" "i \<le> length ns"
  shows "clean_loop (Some (ns ! k)) N B (node_ptr ns i) num left fn
    = Some (without N (set (drop i ns)), without B (set (drop i rs)),
            num + int (length ns - i), int (length ns - k), fn + int (length ns - i))"
  using assms(5-)
proof (induction "length ns - i" arbitrary: i N B num left fn)
  case 0
  then show ?case using assms(3,4) by (auto simp: clean_loop.simps)
next
  case (Suc n)
  then have i: "i < length ns" by simp
  define l where "l = (if i = k then 0 else left)"
  define l' where "l' = (if l \<ge> 0 then l + 1 else l)"
  have l': "l' = (if Suc i \<le> k then - 1 else int (Suc i - k))" using Suc.prems(3) by (auto simp: l_def l'_def)
  have "clean_loop (Some (ns ! k)) (N(ns ! i := None)) (B(rs ! i := None)) (node_ptr ns (Suc i)) (num + 1) l' (fn + 1)
     = Some (without (N(ns ! i := None)) (set (drop (Suc i) ns)), without (B(rs ! i := None)) (set (drop (Suc i) rs)),
        num + 1 + int (length ns - Suc i), int (length ns - k), fn + 1 + int (length ns - Suc i))"
    using Suc.hyps(2) assms(1-3) Suc.prems(1,2) i
    by (intro Suc.hyps(1) l') (auto simp: nth_eq_iff_index_eq)
  moreover have "B (rs ! i) \<noteq> None" "N (ns ! i) = Some (node_at ns ds rs i)" using Suc.prems i by auto
  moreover have "ns ! i = ns ! k \<longleftrightarrow> i = k" using assms(1,4) i by (simp add: nth_eq_iff_index_eq)
  ultimately show ?case using i assms(3) without_step [of i ns N] without_step [of i rs B]
    by (subst clean_loop.simps)
      (auto simp: node_at_def free_block_def l_def [symmetric] l'_def [symmetric] Let_def cong: if_cong)
qed

section \<open>Pools\<close>

text \<open>
  What a valid pool is made of: its nodes, the free blocks in the order of the nodes (the first one
  is never handed out), all its blocks, and the size of a block for the user.
\<close>

record pool_ghost =
  pg_nodes :: "node_addr list"
  pg_free :: "nat list"
  pg_blocks :: "nat list"
  pg_size :: nat

definition pg_used :: "pool_ghost \<Rightarrow> nat set" where
  "pg_used g = set (pg_blocks g) - set (pg_free g)"

abbreviation free_data :: "nat list \<Rightarrow> nat \<Rightarrow> nat option list" where
  "free_data free n \<equiv> map Some free @ replicate (n - length free) None"

definition pool_shape :: "mem_pool \<Rightarrow> u8 \<Rightarrow> pool_ghost \<Rightarrow> bool" where
  "pool_shape st t g \<longleftrightarrow>
     pg_free g \<noteq> [] \<and> length (pg_free g) \<le> length (pg_nodes g) \<and>
     node_list (mp_nodes st) (pg_nodes g) (free_data (pg_free g) (length (pg_nodes g))) (pg_blocks g) \<and>
     (\<forall>b \<in> set (pg_blocks g). \<exists>bs. mp_blocks st b = Some bs \<and> length bs = Suc (pg_size g) \<and> bs ! 0 = t) \<and>
     mp_lists st t = \<lparr> ml_head = Some (hd (pg_nodes g)), ml_tail = Some (pg_nodes g ! (length (pg_free g) - 1)),
                       ml_type = t, ml_valid = 1 \<rparr>"

definition pool_list :: "mem_pool \<Rightarrow> u8 \<Rightarrow> pool_ghost \<Rightarrow> bool" where
  "pool_list st t g \<longleftrightarrow>
     pool_shape st t g \<and> distinct (pg_blocks g) \<and> distinct (pg_free g) \<and>
     set (pg_free g) \<subseteq> set (pg_blocks g)"

text \<open>Two states that differ only in the pool of one type.\<close>

definition same_but :: "u8 \<Rightarrow> pool_ghost \<Rightarrow> mem_pool \<Rightarrow> mem_pool \<Rightarrow> bool" where
  "same_but t g st st' \<longleftrightarrow>
     mp_init st' = mp_init st \<and> (\<forall>t'. t' \<noteq> t \<longrightarrow> mp_lists st' t' = mp_lists st t') \<and>
     (\<forall>a. a \<notin> set (pg_nodes g) \<longrightarrow> mp_nodes st' a = mp_nodes st a) \<and> mp_blocks st' = mp_blocks st"

lemma pool_list_shape: "pool_list st t g \<Longrightarrow> pool_shape st t g"
  by (simp add: pool_list_def)

lemma pool_list_lengths:
  "pool_list st t g \<Longrightarrow> length (pg_blocks g) = length (pg_nodes g)"
  by (simp add: pool_list_def pool_shape_def node_list_def)

lemma pool_shape_tail:
  assumes "pool_shape st t g"
  shows "mp_nodes st (pg_nodes g ! (length (pg_free g) - 1)) =
    Some (node_at (pg_nodes g) (free_data (pg_free g) (length (pg_nodes g))) (pg_blocks g) (length (pg_free g) - 1))"
proof -
  have "pg_free g \<noteq> []" "length (pg_free g) \<le> length (pg_nodes g)" using assms by (simp_all add: pool_shape_def)
  then have "length (pg_free g) - 1 < length (pg_nodes g)" by (cases "pg_free g") auto
  with assms show ?thesis by (intro node_list_at) (simp_all add: pool_shape_def)
qed

lemma load_type:
  assumes "pool_shape st t g" "b \<in> set (pg_blocks g)"
  shows "load_byte (mp_blocks st) (b, 0) = Some t"
proof -
  obtain bs where "mp_blocks st b = Some bs" "length bs = Suc (pg_size g)" "bs ! 0 = t"
    using assms by (auto simp: pool_shape_def)
  then show ?thesis by (auto simp: load_byte_def intro!: exI [of _ bs])
qed

lemma card_used:
  assumes "pool_list st t g"
  shows "card (pg_used g) = length (pg_nodes g) - length (pg_free g)"
  using assms pool_list_lengths [OF assms]
  by (simp add: pg_used_def pool_list_def pool_shape_def card_Diff_subset distinct_card)

lemma new_mem_node_empty:
  assumes "pool_shape st t g" "length (pg_free g) = 1"
  shows "new_mem_node t st = Some (None, st)"
proof -
  have "pg_nodes g \<noteq> []" using assms by (auto simp: pool_shape_def)
  then show ?thesis using assms by (simp add: new_mem_node_def pool_shape_def hd_conv_nth)
qed

lemma new_mem_node_some:
  assumes g: "pool_shape st t g" and free: "pg_free g = as @ [b]" "as \<noteq> []"
  obtains st' where "new_mem_node t st = Some (Some (b, 1), st')" "pool_shape st' t (g\<lparr> pg_free := as \<rparr>)"
    "same_but t g st st'" "b \<in> set (pg_blocks g) \<longrightarrow> free_mem_node (Some (b, 1)) st' = Some st"
proof -
  let ?ns = "pg_nodes g" and ?k = "length as"
  let ?x = "node_at ?ns (free_data (pg_free g) (length ?ns)) (pg_blocks g) ?k"
  define st' where "st' = with_list t ((mp_lists st t)\<lparr> ml_tail := mn_pre ?x \<rparr>)
    (st\<lparr> mp_nodes := (mp_nodes st)(?ns ! ?k \<mapsto> ?x\<lparr> mn_data := None \<rparr>) \<rparr>)"
  have k: "?k < length ?ns" "0 < ?k" using g free by (auto simp: pool_shape_def)
  then have ns: "?ns \<noteq> []" by auto
  have dist: "distinct ?ns" using g by (simp add: pool_shape_def node_list_def)
  have x: "mp_nodes st (?ns ! ?k) = Some ?x" using pool_shape_tail [OF g] free by simp
  have data: "mn_data ?x = Some (b, 0)" "mn_pre ?x = Some (?ns ! (?k - 1))"
    using free k by (simp_all add: node_at_def nth_append)
  have l: "mp_lists st t = \<lparr> ml_head = Some (hd ?ns), ml_tail = Some (?ns ! ?k), ml_type = t, ml_valid = 1 \<rparr>"
    using g free by (simp add: pool_shape_def)
  have "hd ?ns \<noteq> ?ns ! ?k" using dist k ns by (simp add: hd_conv_nth nth_eq_iff_index_eq)
  then have 1: "new_mem_node t st = Some (Some (b, 1), st')"
    using x data l by (simp add: new_mem_node_def st'_def Let_def)
  have upd: "(free_data (pg_free g) (length ?ns))[?k := None] = free_data as (length ?ns)"
    using free k by (simp add: list_update_append Suc_diff_Suc flip: replicate_Suc)
  have "node_list (mp_nodes st) ?ns (free_data (pg_free g) (length ?ns)) (pg_blocks g)"
    using g by (simp add: pool_shape_def)
  from node_list_data [OF this k(1), of None] upd
  have "node_list (mp_nodes st') ?ns (free_data as (length ?ns)) (pg_blocks g)"
    by (simp add: st'_def with_list_def)
  then have 2: "pool_shape st' t (g\<lparr> pg_free := as \<rparr>)"
    using g free data(2) l by (auto simp: pool_shape_def st'_def with_list_def)
  have 3: "same_but t g st st'" using k by (auto simp: same_but_def st'_def with_list_def)
  have 4: "free_mem_node (Some (b, 1)) st' = Some st" if "b \<in> set (pg_blocks g)"
  proof -
    let ?p = "node_at ?ns (free_data (pg_free g) (length ?ns)) (pg_blocks g) (?k - 1)"
    have pre: "mp_nodes st (?ns ! (?k - 1)) = Some ?p" "mn_next ?p = Some (?ns ! ?k)"
      using node_list_at [of "mp_nodes st" ?ns _ _ "?k - 1"] g k by (auto simp: pool_shape_def node_at_def)
    have ne: "?ns ! (?k - 1) \<noteq> ?ns ! ?k" using dist k by (cases as) (auto simp: nth_eq_iff_index_eq)
    have "load_byte (mp_blocks st) (b, 0) = Some t" by (rule load_type [OF g that])
    moreover have "?x\<lparr> mn_data := Some (b, 0) \<rparr> = ?x" using data(1) by (intro mem_node.equality) simp_all
    moreover have "(mp_nodes st)(?ns ! ?k \<mapsto> ?x) = mp_nodes st" using x by (simp add: fun_upd_idem)
    moreover have "(mp_lists st)(t := (mp_lists st t)\<lparr> ml_tail := Some (?ns ! ?k) \<rparr>) = mp_lists st"
      using l by (simp add: fun_upd_idem)
    ultimately show ?thesis using pre ne data(2)
      by (simp add: free_mem_node_def st'_def with_list_def Let_def)
  qed
  show ?thesis using that 1 2 3 4 by blast
qed

lemma free_mem_node_room:
  assumes g: "pool_shape st t g" and b: "b \<in> set (pg_blocks g)" and room: "length (pg_free g) < length (pg_nodes g)"
  obtains st' where "free_mem_node (Some (b, 1)) st = Some st'"
    "pool_shape st' t (g\<lparr> pg_free := pg_free g @ [b] \<rparr>)" "same_but t g st st'"
    "new_mem_node t st' = Some (Some (b, 1), st)"
proof -
  let ?ns = "pg_nodes g" and ?k = "length (pg_free g)"
  let ?x = "node_at ?ns (free_data (pg_free g) (length ?ns)) (pg_blocks g)"
  have k: "?k < length ?ns" "0 < ?k" using room g by (auto simp: pool_shape_def)
  have l: "mp_lists st t = \<lparr> ml_head = Some (hd ?ns), ml_tail = Some (?ns ! (?k - 1)), ml_type = t, ml_valid = 1 \<rparr>"
    using g by (simp add: pool_shape_def)
  have nl: "node_list (mp_nodes st) ?ns (free_data (pg_free g) (length ?ns)) (pg_blocks g)"
    using g by (simp add: pool_shape_def)
  have tail: "mp_nodes st (?ns ! (?k - 1)) = Some (?x (?k - 1))" "mn_next (?x (?k - 1)) = Some (?ns ! ?k)"
    using node_list_at [OF nl, of "?k - 1"] k by (simp_all add: node_at_def)
  have x: "mp_nodes st (?ns ! ?k) = Some (?x ?k)" by (rule node_list_at [OF nl k(1)])
  obtain st' where st': "free_mem_node (Some (b, 1)) st = Some st'"
    "st' = with_list t ((mp_lists st t)\<lparr> ml_tail := Some (?ns ! ?k) \<rparr>)
       (st\<lparr> mp_nodes := (mp_nodes st)(?ns ! ?k \<mapsto> (?x ?k)\<lparr> mn_data := Some (b, 0) \<rparr>) \<rparr>)"
    using l tail x load_type [OF g b] by (simp add: free_mem_node_def Let_def)
  have "(free_data (pg_free g) (length ?ns))[?k := Some b] = free_data (pg_free g @ [b]) (length ?ns)"
    using k by (cases "length ?ns - ?k") (auto simp: list_update_append diff_Suc split: nat.splits)
  with node_list_data [OF nl k(1), of "Some b"]
  have "node_list (mp_nodes st') ?ns (free_data (pg_free g @ [b]) (length ?ns)) (pg_blocks g)"
    by (simp add: st'(2) with_list_def)
  then have 2: "pool_shape st' t (g\<lparr> pg_free := pg_free g @ [b] \<rparr>)"
    using g k l by (auto simp: pool_shape_def st'(2) with_list_def)
  have 3: "same_but t g st st'" using k by (auto simp: same_but_def st'(2) with_list_def)
  have 4: "new_mem_node t st' = Some (Some (b, 1), st)"
  proof -
    have "distinct ?ns" "?ns \<noteq> []" using nl k by (auto simp: node_list_def)
    then have "hd ?ns \<noteq> ?ns ! ?k" using k by (simp add: hd_conv_nth nth_eq_iff_index_eq)
    moreover have "(?x ?k)\<lparr> mn_data := None \<rparr> = ?x ?k" "mn_pre (?x ?k) = Some (?ns ! (?k - 1))"
      using k by (simp_all add: node_at_def nth_append)
    moreover have "(mp_nodes st)(?ns ! ?k \<mapsto> ?x ?k) = mp_nodes st" using x by (simp add: fun_upd_idem)
    moreover have "(mp_lists st)(t := (mp_lists st t)\<lparr> ml_tail := Some (?ns ! (?k - 1)) \<rparr>) = mp_lists st"
      using l by (simp add: fun_upd_idem)
    ultimately show ?thesis using l
      by (simp add: new_mem_node_def st'(2) with_list_def Let_def)
  qed
  show ?thesis using that st'(1) 2 3 4 by blast
qed

lemma used_room:
  assumes "pool_list st t g" "b \<in> pg_used g"
  shows "length (pg_free g) < length (pg_nodes g)"
proof -
  have "card (pg_used g) > 0" using assms(2) by (simp add: card_gt_0_iff pg_used_def) auto
  then show ?thesis using card_used [OF assms(1)] by simp
qed

lemma new_keeps_list:
  assumes "pool_list st t g" "pg_free g = as @ [b]" "pool_shape st' t (g\<lparr> pg_free := as \<rparr>)"
  shows "pool_list st' t (g\<lparr> pg_free := as \<rparr>)" "pg_used (g\<lparr> pg_free := as \<rparr>) = insert b (pg_used g)" "b \<notin> pg_used g"
  using assms by (auto simp: pool_list_def pg_used_def)

lemma free_keeps_list:
  assumes "pool_list st t g" "b \<in> pg_used g" "pool_shape st' t (g\<lparr> pg_free := pg_free g @ [b] \<rparr>)"
  shows "pool_list st' t (g\<lparr> pg_free := pg_free g @ [b] \<rparr>)"
    "pg_used (g\<lparr> pg_free := pg_free g @ [b] \<rparr>) = pg_used g - {b}"
  using assms by (auto simp: pool_list_def pg_used_def)

lemma free_mem_node_full:
  assumes g: "pool_shape st t g" and b: "b \<in> set (pg_blocks g)" "length (pg_free g) = length (pg_nodes g)"
  shows "free_mem_node (Some (b, 1)) st = Some st"
proof -
  have "mn_next (node_at (pg_nodes g) ds rs (length (pg_free g) - 1)) = None" for ds rs
    using b(2) by (auto simp: node_at_def)
  then show ?thesis using pool_shape_tail [OF g] load_type [OF g b(1)] g
    by (auto simp: free_mem_node_def pool_shape_def Let_def)
qed

section \<open>Making and cleaning a pool\<close>

lemma init_all_lists:
  "init_all_mem_list st = st\<lparr> mp_lists := (\<lambda>_. \<lparr> ml_head = None, ml_tail = None, ml_type = 0, ml_valid = 0 \<rparr>) \<rparr>"
proof -
  let ?l = "\<lparr> ml_head = None, ml_tail = None, ml_type = 0, ml_valid = 0 \<rparr>"
  have *: "fold (\<lambda>i. with_list (of_nat i) ?l) is s
    = s\<lparr> mp_lists := (\<lambda>t. if t \<in> of_nat ` set is then ?l else mp_lists s t) \<rparr>" for "is" s
    by (induction "is" arbitrary: s) (auto simp: with_list_def intro!: mem_pool.equality)
  have "t \<in> of_nat ` set [0..<MAX_MEM_LIST]" for t :: u8
    using unsigned_less [of t, where 'a = nat]
    by (intro image_eqI [of _ _ "unat t"]) (simp_all add: MAX_MEM_LIST_def)
  then show ?thesis by (simp add: init_all_mem_list_def *)
qed

text \<open>
  The pool of type \<open>t\<close> under construction: nodes \<open>ns\<close> and blocks \<open>rs\<close> made since the state \<open>st0\<close>.
\<close>

definition building :: "mem_pool \<Rightarrow> u8 \<Rightarrow> nat \<Rightarrow> node_addr list \<Rightarrow> nat list \<Rightarrow> mem_pool \<Rightarrow> bool" where
  "building st0 t n ns rs st \<longleftrightarrow>
     node_list (mp_nodes st) ns (map Some rs) rs \<and> distinct rs \<and>
     (\<forall>b \<in> set rs. \<exists>bs. mp_blocks st b = Some bs \<and> length bs = n \<and> bs ! 0 = t) \<and>
     without (mp_nodes st) (set ns) = mp_nodes st0 \<and> without (mp_blocks st) (set rs) = mp_blocks st0 \<and>
     mp_init st = mp_init st0 \<and>
     mp_lists st = (mp_lists st0)(t := \<lparr> ml_head = (if ns = [] then None else Some (hd ns)),
       ml_tail = (if ns = [] then ml_tail (mp_lists st0 t) else Some (hd ns)), ml_type = t, ml_valid = 1 \<rparr>)"

lemma without_insert:
  assumes "without M A = M0" "M p = None"
  shows "without (M(p := v)) (insert p A) = M0"
proof (rule ext)
  fix a show "without (M(p := v)) (insert p A) a = M0 a"
    using assms(2) fun_cong [OF assms(1), of a] by (cases "a = p") (auto split: if_splits)
qed

text \<open>\<open>malloc\<close> of a node or of a block of that size fails in some state of the stores.\<close>

definition malloc_fails :: "pool_malloc \<Rightarrow> nat \<Rightarrow> bool" where
  "malloc_fails A n \<longleftrightarrow> (\<exists>N. pm_node A N = None) \<or> (\<exists>B. pm_block A B n = None)"

lemma init_step_building:
  assumes b: "building st0 t n ns rs st" and A: "fresh_malloc A" and n: "0 < n"
  obtains "init_step A t n st = Some (False, st)" "malloc_fails A n"
  | st' ns' rs' where "init_step A t n st = Some (True, st')" "building st0 t n ns' rs' st'"
    "length ns' = Suc (length ns)"
proof -
  consider "init_step A t n st = Some (False, st)" "malloc_fails A n"
    | p b junk where "pm_node A (mp_nodes st) = Some p" "pm_block A (mp_blocks st) n = Some (b, junk)"
    by (cases "pm_node A (mp_nodes st)"; cases "pm_block A (mp_blocks st) n") (auto simp: init_step_def malloc_fails_def)
  then show ?thesis
  proof cases
    case 2
    have fresh: "mp_nodes st p = None" "mp_blocks st b = None" "length junk = n"
      using 2 A by (auto simp: fresh_malloc_def)
    have p: "p \<notin> set ns" using b fresh(1) by (auto simp: building_def node_list_def in_set_conv_nth)
    have br: "b \<notin> set rs" using b fresh(2) by (auto simp: building_def)
    have l: "mp_lists st t = \<lparr> ml_head = (if ns = [] then None else Some (hd ns)),
       ml_tail = (if ns = [] then ml_tail (mp_lists st0 t) else Some (hd ns)), ml_type = t, ml_valid = 1 \<rparr>"
      using b by (simp add: building_def)
    have nl: "node_list (mp_nodes st) ns (map Some rs) rs" using b by (simp add: building_def)
    define B where "B = (mp_blocks st)(b \<mapsto> junk[0 := t])"
    have store: "store_byte ((mp_blocks st)(b \<mapsto> junk)) (b, 0) t = Some B"
      using fresh(3) n by (auto simp: store_byte_def B_def)
    have B: "distinct (b # rs)" "\<forall>c \<in> set (b # rs). \<exists>bs. B c = Some bs \<and> length bs = n \<and> bs ! 0 = t"
      "without B (set (b # rs)) = mp_blocks st0"
    proof -
      show "distinct (b # rs)" using b br by (simp add: building_def)
      show "\<forall>c \<in> set (b # rs). \<exists>bs. B c = Some bs \<and> length bs = n \<and> bs ! 0 = t"
      proof -
        have "junk[0 := t] ! 0 = t" using fresh(3) n by (cases junk) auto
        then show ?thesis using b br fresh(3) by (auto simp: B_def building_def)
      qed
      show "without B (set (b # rs)) = mp_blocks st0"
        using b fresh(2) unfolding B_def list.set by (intro without_insert) (simp_all add: building_def)
    qed
    show ?thesis
    proof (cases ns)
      case Nil
      then have rs: "rs = []" using nl by (simp add: node_list_def)
      define st' where "st' = with_list t ((mp_lists st t)\<lparr> ml_head := Some p, ml_tail := Some p \<rparr>)
        (st\<lparr> mp_blocks := B, mp_nodes := (mp_nodes st)(p \<mapsto> \<lparr> mn_data = Some (b, 0), mn_raw_data = Some (b, 0),
           mn_next = None, mn_pre = None \<rparr>) \<rparr>)"
      have "init_step A t n st = Some (True, st')"
        using 2 store l Nil by (simp add: init_step_def st'_def Let_def)
      moreover have "without (mp_nodes st') (set [p]) = mp_nodes st0"
      proof -
        have "mp_nodes st = mp_nodes st0" using b Nil by (simp add: building_def)
        then show ?thesis using fresh(1) by (auto simp: st'_def with_list_def)
      qed
      then have "building st0 t n [p] [b] st'"
        using b B Nil rs l by (simp add: building_def st'_def with_list_def node_list_def node_at_def cong: if_cong)
      ultimately show ?thesis using that(2) [of st' "[p]" "[b]"] Nil by simp
    next
      case (Cons h hs)
      obtain r rs' where rs: "rs = r # rs'" using nl Cons by (cases rs) (auto simp: node_list_def)
      let ?x = "node_at ns (map Some rs) rs"
      define N where "N = (let N' = (mp_nodes st)(h \<mapsto> (?x 0)\<lparr> mn_next := Some p \<rparr>,
                p \<mapsto> \<lparr> mn_data = Some (b, 0), mn_raw_data = Some (b, 0),
                      mn_next = (case hs of [] \<Rightarrow> None | q # _ \<Rightarrow> Some q), mn_pre = Some h \<rparr>)
        in case hs of [] \<Rightarrow> N' | q # _ \<Rightarrow> N'(q \<mapsto> (?x 1)\<lparr> mn_pre := Some p \<rparr>))"
      define st' where "st' = st\<lparr> mp_blocks := B, mp_nodes := N \<rparr>"
      have nlN: "node_list N (h # p # hs) (Some r # Some b # map Some rs') (r # b # rs')"
        using node_list_insert [of "mp_nodes st" h hs "Some r" "map Some rs'" r rs' p b] nl p
        unfolding N_def Cons rs list.map by simp
      have h: "mp_nodes st h = Some (?x 0)" "p \<noteq> h"
        using node_list_at [OF nl, of 0] Cons p by auto
      have q: "mp_nodes st q = Some (?x 1)" "q \<noteq> h" "q \<noteq> p" if "hs = q # qs" for q qs
        using node_list_at [OF nl, of 1] nl Cons p that by (auto simp: node_list_def)
      have next0: "mn_next (?x 0) = (case hs of [] \<Rightarrow> None | q # _ \<Rightarrow> Some q)"
        using Cons by (auto simp: node_at_def split: list.splits)
      have st': "init_step A t n st = Some (True, st')"
        using 2 store l h q next0 Cons
        by (cases hs) (simp_all add: init_step_def st'_def N_def Let_def)
      have dom: "without N (set (h # p # hs)) = without (mp_nodes st) (set ns)"
        using fresh(1) Cons by (auto simp: N_def Let_def fun_eq_iff split: list.splits)
      have "building st0 t n (h # p # hs) (r # b # rs') st'"
        using b B nlN Cons dom unfolding rs by (simp add: building_def st'_def insert_commute cong: if_cong)
      with st' show ?thesis using that(2) Cons by simp
    qed
  qed (use that in blast)
qed

lemma init_loop_building:
  assumes "building st0 t n ns rs st" "fresh_malloc A" "0 < n"
  obtains fin st' ns' rs' where "init_loop A t n i st = Some (fin, st')" "building st0 t n ns' rs' st'"
    "fin \<Longrightarrow> length ns' = length ns + i" "\<not> fin \<Longrightarrow> malloc_fails A n"
  using assms
proof (induction i arbitrary: thesis st ns rs)
  case 0
  then show ?case by simp
next
  case (Suc i)
  from Suc.prems(2-4) show ?case
  proof (cases rule: init_step_building)
    case 1
    then show ?thesis using Suc.prems(1) [of False st ns rs] Suc.prems(2) by simp
  next
    case (2 st1 ns1 rs1)
    obtain ok st' ns' rs' where "init_loop A t n i st1 = Some (ok, st')" "building st0 t n ns' rs' st'"
      "ok \<Longrightarrow> length ns' = length ns1 + i" "\<not> ok \<Longrightarrow> malloc_fails A n"
      using Suc.IH 2(2) Suc.prems(3,4) by blast
    with 2 show ?thesis using Suc.prems(1) [of ok st' ns' rs'] by simp
  qed
qed

end
