(* ===== verification/Transition.thy ===== *)
theory Transition
  imports Prelude
begin

text \<open>
  Programs as step relations: the states a program reaches from its initial states by labelled
  steps, and the interface by which a component shows that its invariant holds in all of them.
\<close>

inductive reachable :: "('s \<Rightarrow> bool) \<Rightarrow> ('s \<Rightarrow> 'l \<Rightarrow> 's \<Rightarrow> bool) \<Rightarrow> 's \<Rightarrow> bool" for init step where
  start: "init s \<Longrightarrow> reachable init step s"
| step: "reachable init step s \<Longrightarrow> step s l s' \<Longrightarrow> reachable init step s'"

text \<open>A run is the list of the labels with the state each of them leads to.\<close>

inductive run :: "('s \<Rightarrow> 'l \<Rightarrow> 's \<Rightarrow> bool) \<Rightarrow> 's \<Rightarrow> 'l list \<Rightarrow> 's \<Rightarrow> bool" for step where
  stop: "run step s [] s"
| go: "step s l s' \<Longrightarrow> run step s' ls s'' \<Longrightarrow> run step s (l # ls) s''"

inductive_simps run_Nil [simp]: "run step s [] s'"
inductive_simps run_Cons: "run step s (l # ls) s'"

lemma run_reachable: "run step s ls s' \<Longrightarrow> reachable init step s \<Longrightarrow> reachable init step s'"
  by (induction rule: run.induct) (auto intro: reachable.step)

lemma run_append: "run step s ls s' \<Longrightarrow> run step s' ls' s'' \<Longrightarrow> run step s (ls @ ls') s''"
  by (induction rule: run.induct) (auto simp: run_Cons)

locale invariant_system =
  fixes init :: "'s \<Rightarrow> bool" and step :: "'s \<Rightarrow> 'l \<Rightarrow> 's \<Rightarrow> bool" and inv :: "'s \<Rightarrow> bool"
  assumes init_inv: "init s \<Longrightarrow> inv s"
    and step_inv: "inv s \<Longrightarrow> step s l s' \<Longrightarrow> inv s'"
begin

lemma reachable_inv: "reachable init step s \<Longrightarrow> inv s"
  by (induction rule: reachable.induct) (auto intro: init_inv step_inv)

lemma run_inv: "run step s ls s' \<Longrightarrow> inv s \<Longrightarrow> inv s'"
  by (induction rule: run.induct) (auto intro: step_inv)

end

text \<open>
  Refinement of an abstract machine: its steps are a partial function, and every step of the program
  is matched by the step of the machine with the same label.
\<close>

fun abstract_run :: "('a \<Rightarrow> 'l \<Rightarrow> 'a option) \<Rightarrow> 'a \<Rightarrow> 'l list \<Rightarrow> 'a option" where
  "abstract_run astep a [] = Some a"
| "abstract_run astep a (l # ls) = do { a \<leftarrow> astep a l; abstract_run astep a ls }"

locale simulation =
  fixes step :: "'s \<Rightarrow> 'l \<Rightarrow> 's \<Rightarrow> bool" and astep :: "'a \<Rightarrow> 'l \<Rightarrow> 'a option" and rel :: "'s \<Rightarrow> 'a \<Rightarrow> bool"
  assumes simulates: "rel s a \<Longrightarrow> step s l s' \<Longrightarrow> \<exists>a'. astep a l = Some a' \<and> rel s' a'"
begin

lemma run_simulates: "run step s ls s' \<Longrightarrow> rel s a \<Longrightarrow> \<exists>a'. abstract_run astep a ls = Some a' \<and> rel s' a'"
proof (induction arbitrary: a rule: run.induct)
  case (go s l s' ls s'')
  from simulates [OF go.prems go.hyps(1)] obtain a' where "astep a l = Some a'" "rel s' a'" by blast
  with go.IH show ?case by auto
qed simp

end

text \<open>How many threads are at a place, and what a step of one thread changes about it.\<close>

definition count_at :: "('a \<Rightarrow> bool) \<Rightarrow> (nat \<Rightarrow> 'a) \<Rightarrow> int" where
  "count_at p f = int (card {t. p (f t)})"

lemma count_at_upd:
  assumes "finite {t. p (f t)}"
  shows "count_at p (f(t := x)) = count_at p f - (if p (f t) then 1 else 0) + (if p x then 1 else 0)"
proof -
  define S where "S = {u. p (f u)}"
  have eq: "{u. p ((f(t := x)) u)} = (if p x then insert t S else S - {t})" and t: "t \<in> S \<longleftrightarrow> p (f t)"
    by (auto simp: S_def)
  have fin: "finite S" using assms by (simp add: S_def)
  have "0 < card S" if "t \<in> S" using fin that by (auto simp: card_gt_0_iff)
  then show ?thesis
    using fin unfolding count_at_def eq t [symmetric] S_def [symmetric]
    by (auto simp: card_insert_if card_Diff_singleton_if of_nat_diff Suc_leI)
qed

lemma count_at_0: "finite {t. p (f t)} \<Longrightarrow> count_at p f = 0 \<longleftrightarrow> (\<forall>t. \<not> p (f t))"
  by (auto simp: count_at_def)

lemma count_at_pos: "finite {t. p (f t)} \<Longrightarrow> p (f t) \<Longrightarrow> 0 < count_at p f"
  by (auto simp: count_at_def card_gt_0_iff)

end
