(* ===== verification/MemPoolUse.thy ===== *)
theory MemPoolUse
  imports MemPool Transition
begin

text \<open>
  The memory pools of \<open>lib/cc_mem_pool.c\<close> in use: the invariant of all 256 pools together, the calls
  of several threads as steps, and the properties of the pools in every state a program reaches.
\<close>

section \<open>All pools\<close>

text \<open>
  The invariant of the whole state: every list is empty or a pool, different pools share neither
  nodes nor blocks, and everything that is allocated belongs to a pool.
\<close>

type_synonym ghosts = "u8 \<Rightarrow> pool_ghost option"

definition pools_ok :: "mem_pool \<Rightarrow> ghosts \<Rightarrow> bool" where
  "pools_ok st G \<longleftrightarrow>
     (\<forall>t. G t = None \<longrightarrow> ml_head (mp_lists st t) = None \<and> ml_valid (mp_lists st t) = 0) \<and>
     (\<forall>t g. G t = Some g \<longrightarrow> pool_list st t g) \<and>
     (\<forall>t t' g g'. G t = Some g \<longrightarrow> G t' = Some g' \<longrightarrow> t \<noteq> t' \<longrightarrow>
        set (pg_nodes g) \<inter> set (pg_nodes g') = {} \<and> set (pg_blocks g) \<inter> set (pg_blocks g') = {}) \<and>
     (\<forall>a. mp_nodes st a \<noteq> None \<longrightarrow> (\<exists>t g. G t = Some g \<and> a \<in> set (pg_nodes g))) \<and>
     (\<forall>b. mp_blocks st b \<noteq> None \<longrightarrow> (\<exists>t g. G t = Some g \<and> b \<in> set (pg_blocks g))) \<and>
     (mp_init st \<or> G = Map.empty)"

lemma pools_ok_list: "pools_ok st G \<Longrightarrow> G t = Some g \<Longrightarrow> pool_list st t g"
  by (simp add: pools_ok_def)

lemma pools_ok_disjoint:
  "pools_ok st G \<Longrightarrow> G t = Some g \<Longrightarrow> G t' = Some g' \<Longrightarrow> t \<noteq> t' \<Longrightarrow>
     set (pg_nodes g) \<inter> set (pg_nodes g') = {} \<and> set (pg_blocks g) \<inter> set (pg_blocks g') = {}"
  unfolding pools_ok_def by blast

lemma pool_list_live:
  assumes "pool_list st t g"
  shows "a \<in> set (pg_nodes g) \<Longrightarrow> mp_nodes st a \<noteq> None" "b \<in> set (pg_blocks g) \<Longrightarrow> mp_blocks st b \<noteq> None"
proof -
  show "mp_nodes st a \<noteq> None" if "a \<in> set (pg_nodes g)"
    using assms that by (auto simp: pool_list_def pool_shape_def node_list_def in_set_conv_nth [of a])
  show "mp_blocks st b \<noteq> None" if "b \<in> set (pg_blocks g)"
    using assms that by (auto simp: pool_list_def pool_shape_def)
qed

lemma pool_list_frame:
  assumes "pool_list st t g" "mp_lists st' t = mp_lists st t"
    and "\<And>a. a \<in> set (pg_nodes g) \<Longrightarrow> mp_nodes st' a = mp_nodes st a"
    and "\<And>b. b \<in> set (pg_blocks g) \<Longrightarrow> mp_blocks st' b = mp_blocks st b"
  shows "pool_list st' t g"
  using assms node_list_cong [of "pg_nodes g" "mp_nodes st'" "mp_nodes st"]
  by (simp add: pool_list_def pool_shape_def)

text \<open>An operation on one pool keeps the invariant of all.\<close>

lemma pools_ok_update:
  assumes ok: "pools_ok st G" and g: "G t = Some g" and same: "same_but t g st st'"
    and g': "pool_list st' t g'" "pg_nodes g' = pg_nodes g" "pg_blocks g' = pg_blocks g"
  shows "pools_ok st' (G(t \<mapsto> g'))"
proof -
  have other: "pool_list st' u k" if "G u = Some k" "u \<noteq> t" for u k
  proof (rule pool_list_frame [OF pools_ok_list [OF ok that(1)]])
    have "set (pg_nodes k) \<inter> set (pg_nodes g) = {}" using pools_ok_disjoint [OF ok that(1) g that(2)] by simp
    then show "mp_nodes st' a = mp_nodes st a" if "a \<in> set (pg_nodes k)" for a
      using same that by (auto simp: same_but_def)
  qed (use same that in \<open>auto simp: same_but_def\<close>)
  have "mp_nodes st a \<noteq> None" if "mp_nodes st' a \<noteq> None" for a
    using that same pool_list_live(1) [OF pools_ok_list [OF ok g], of a]
    by (cases "a \<in> set (pg_nodes g)") (auto simp: same_but_def)
  then have dom: "\<exists>t g. G t = Some g \<and> a \<in> set (pg_nodes g)" if "mp_nodes st' a \<noteq> None" for a
    using ok that unfolding pools_ok_def by blast
  show ?thesis unfolding pools_ok_def
  proof (intro conjI allI impI)
    fix u assume "(G(t \<mapsto> g')) u = None"
    then show "ml_head (mp_lists st' u) = None" "ml_valid (mp_lists st' u) = 0"
      using ok same by (auto simp: pools_ok_def same_but_def split: if_splits)
  next
    fix u k assume "(G(t \<mapsto> g')) u = Some k"
    then show "pool_list st' u k" using other g' by (auto split: if_splits)
  next
    fix u u' k k' assume "(G(t \<mapsto> g')) u = Some k" "(G(t \<mapsto> g')) u' = Some k'" "u \<noteq> u'"
    then show "set (pg_nodes k) \<inter> set (pg_nodes k') = {}" "set (pg_blocks k) \<inter> set (pg_blocks k') = {}"
      using pools_ok_disjoint [OF ok] g g' by (auto split: if_splits)
  next
    fix a assume "mp_nodes st' a \<noteq> None"
    then obtain u k where "G u = Some k" "a \<in> set (pg_nodes k)" using dom by blast
    then show "\<exists>u k. (G(t \<mapsto> g')) u = Some k \<and> a \<in> set (pg_nodes k)"
      using g g' by (cases "u = t") auto
  next
    fix b assume "mp_blocks st' b \<noteq> None"
    then have "mp_blocks st b \<noteq> None" using same by (simp add: same_but_def)
    then obtain u k where "G u = Some k" "b \<in> set (pg_blocks k)" using ok unfolding pools_ok_def by blast
    then show "\<exists>u k. (G(t \<mapsto> g')) u = Some k \<and> b \<in> set (pg_blocks k)"
      using g g' by (cases "u = t") auto
  next
    show "mp_init st' \<or> G(t \<mapsto> g') = Map.empty"
      using ok g same by (auto simp: pools_ok_def same_but_def)
  qed
qed

lemma pools_ok_none_new: "pools_ok st G \<Longrightarrow> G t = None \<Longrightarrow> new_mem_node t st = Some (None, st)"
  by (simp add: pools_ok_def new_mem_node_def)

lemma pools_ok_new:
  assumes "pools_ok st G" "G t = Some g"
  obtains "new_mem_node t st = Some (None, st)" "length (pg_free g) = 1"
  | b st' g' where "new_mem_node t st = Some (Some (b, 1), st')" "pools_ok st' (G(t \<mapsto> g'))"
      "pg_used g' = insert b (pg_used g)" "b \<notin> pg_used g" "b \<in> set (pg_blocks g)" "length (pg_free g) > 1"
      "g' = g\<lparr> pg_free := butlast (pg_free g) \<rparr>" "mp_blocks st' = mp_blocks st"
      "free_mem_node (Some (b, 1)) st' = Some st" "b = last (pg_free g)"
proof -
  note g = pools_ok_list [OF assms]
  have "pg_free g \<noteq> []" using g by (simp add: pool_list_def pool_shape_def)
  then obtain as b where free: "pg_free g = as @ [b]" by (cases "pg_free g" rule: rev_cases) auto
  show ?thesis
  proof (cases "as = []")
    case True
    then show ?thesis using that(1) new_mem_node_empty [OF pool_list_shape [OF g]] free by simp
  next
    case False
    obtain st' where st': "new_mem_node t st = Some (Some (b, 1), st')"
      "pool_shape st' t (g\<lparr> pg_free := as \<rparr>)" "same_but t g st st'"
      "b \<in> set (pg_blocks g) \<longrightarrow> free_mem_node (Some (b, 1)) st' = Some st"
      by (rule new_mem_node_some [OF pool_list_shape [OF g] free False])
    note new = new_keeps_list [OF g free st'(2)]
    have "pools_ok st' (G(t \<mapsto> g\<lparr> pg_free := as \<rparr>))"
      by (rule pools_ok_update [OF assms st'(3) new(1)]) simp_all
    moreover have "b \<in> set (pg_blocks g)" using g free by (auto simp: pool_list_def)
    moreover have "length (pg_free g) > 1" using free False by simp
    moreover have "mp_blocks st' = mp_blocks st" using st'(3) by (simp add: same_but_def)
    moreover have "g\<lparr> pg_free := as \<rparr> = g\<lparr> pg_free := butlast (pg_free g) \<rparr>" using free by simp
    moreover have "b = last (pg_free g)" using free by simp
    ultimately show ?thesis using that(2) st'(1,4) new(2,3) by blast
  qed
qed

lemma pools_ok_free:
  assumes "pools_ok st G" "G t = Some g" "b \<in> pg_used g"
  obtains st' g' where "free_mem_node (Some (b, 1)) st = Some st'" "pools_ok st' (G(t \<mapsto> g'))"
    "pg_used g' = pg_used g - {b}" "g' = g\<lparr> pg_free := pg_free g @ [b] \<rparr>"
    "new_mem_node t st' = Some (Some (b, 1), st)" "mp_blocks st' = mp_blocks st"
proof -
  note g = pools_ok_list [OF assms(1,2)]
  have b: "b \<in> set (pg_blocks g)" using assms(3) by (simp add: pg_used_def)
  obtain st' where st': "free_mem_node (Some (b, 1)) st = Some st'"
    "pool_shape st' t (g\<lparr> pg_free := pg_free g @ [b] \<rparr>)" "same_but t g st st'"
    "new_mem_node t st' = Some (Some (b, 1), st)"
    by (rule free_mem_node_room [OF pool_list_shape [OF g] b used_room [OF g assms(3)]])
  note free = free_keeps_list [OF g assms(3) st'(2)]
  have "pools_ok st' (G(t \<mapsto> g\<lparr> pg_free := pg_free g @ [b] \<rparr>))"
    by (rule pools_ok_update [OF assms(1,2) st'(3) free(1)]) simp_all
  moreover have "mp_blocks st' = mp_blocks st" using st'(3) by (simp add: same_but_def)
  ultimately show ?thesis using that st'(1,4) free(2) by blast
qed

lemma pools_ok_first_use:
  "pools_ok st G \<Longrightarrow> pools_ok (if mp_init st then st else (init_all_mem_list st)\<lparr> mp_init := True \<rparr>) G"
  by (auto simp: pools_ok_def init_all_lists)

lemma pools_ok_add:
  assumes ok: "pools_ok st G" "G t = None" "mp_init st" "mp_init st'"
    and g: "pool_list st' t g"
    and nodes: "without (mp_nodes st') (set (pg_nodes g)) = mp_nodes st"
    and blocks: "without (mp_blocks st') (set (pg_blocks g)) = mp_blocks st"
    and lists: "\<And>t'. t' \<noteq> t \<Longrightarrow> mp_lists st' t' = mp_lists st t'"
  shows "pools_ok st' (G(t \<mapsto> g))"
proof -
  have disj: "set (pg_nodes k) \<inter> set (pg_nodes g) = {}" "set (pg_blocks k) \<inter> set (pg_blocks g) = {}"
    if "G u = Some k" for u k
  proof -
    have "mp_nodes st a = None" if "a \<in> set (pg_nodes g)" for a using fun_cong [OF nodes, of a] that by simp
    moreover have "mp_blocks st b = None" if "b \<in> set (pg_blocks g)" for b
      using fun_cong [OF blocks, of b] that by simp
    ultimately show "set (pg_nodes k) \<inter> set (pg_nodes g) = {}" "set (pg_blocks k) \<inter> set (pg_blocks g) = {}"
      using pool_list_live [OF pools_ok_list [OF ok(1) that]] by blast+
  qed
  have other: "pool_list st' u k" if "G u = Some k" for u k
  proof (rule pool_list_frame [OF pools_ok_list [OF ok(1) that]])
    show "mp_lists st' u = mp_lists st u" by (rule lists) (use ok(2) that in auto)
    show "mp_nodes st' a = mp_nodes st a" if "a \<in> set (pg_nodes k)" for a
      using that disj(1) [OF \<open>G u = Some k\<close>] nodes [symmetric] by auto
    show "mp_blocks st' b = mp_blocks st b" if "b \<in> set (pg_blocks k)" for b
      using that disj(2) [OF \<open>G u = Some k\<close>] blocks [symmetric] by auto
  qed
  show ?thesis unfolding pools_ok_def
  proof (intro conjI allI impI)
    fix u assume "(G(t \<mapsto> g)) u = None"
    then show "ml_head (mp_lists st' u) = None" "ml_valid (mp_lists st' u) = 0"
      using ok lists by (auto simp: pools_ok_def split: if_splits)
  next
    fix u k assume "(G(t \<mapsto> g)) u = Some k"
    then show "pool_list st' u k" using other g by (auto split: if_splits)
  next
    fix u u' k k' assume *: "(G(t \<mapsto> g)) u = Some k" "(G(t \<mapsto> g)) u' = Some k'" "u \<noteq> u'"
    then show "set (pg_nodes k) \<inter> set (pg_nodes k') = {}" "set (pg_blocks k) \<inter> set (pg_blocks k') = {}"
      using pools_ok_disjoint [OF ok(1), of u k u' k'] disj [of u k] disj [of u' k']
      by (auto split: if_splits)
  next
    fix a assume "mp_nodes st' a \<noteq> None"
    then have "a \<in> set (pg_nodes g) \<or> mp_nodes st a \<noteq> None" using nodes [symmetric] by auto
    then consider "a \<in> set (pg_nodes g)" | u k where "G u = Some k" "a \<in> set (pg_nodes k)"
      using ok(1) unfolding pools_ok_def by blast
    then show "\<exists>u k. (G(t \<mapsto> g)) u = Some k \<and> a \<in> set (pg_nodes k)"
    proof cases
      case (2 u k)
      then show ?thesis using ok(2) by (intro exI [of _ u] exI [of _ k]) auto
    qed (auto intro: exI [of _ t])
  next
    fix b assume "mp_blocks st' b \<noteq> None"
    then have "b \<in> set (pg_blocks g) \<or> mp_blocks st b \<noteq> None" using blocks [symmetric] by auto
    then consider "b \<in> set (pg_blocks g)" | u k where "G u = Some k" "b \<in> set (pg_blocks k)"
      using ok(1) unfolding pools_ok_def by blast
    then show "\<exists>u k. (G(t \<mapsto> g)) u = Some k \<and> b \<in> set (pg_blocks k)"
    proof cases
      case (2 u k)
      then show ?thesis using ok(2) by (intro exI [of _ u] exI [of _ k]) auto
    qed (auto intro: exI [of _ t])
  qed (use ok(4) in simp)
qed

lemma pools_ok_remove:
  assumes ok: "pools_ok st G" "G t = Some g" "mp_init st' = mp_init st"
    and nodes: "mp_nodes st' = without (mp_nodes st) (set (pg_nodes g))"
    and blocks: "mp_blocks st' = without (mp_blocks st) (set (pg_blocks g))"
    and lists: "\<And>t'. t' \<noteq> t \<Longrightarrow> mp_lists st' t' = mp_lists st t'"
    and empty: "ml_head (mp_lists st' t) = None" "ml_valid (mp_lists st' t) = 0"
  shows "pools_ok st' (G(t := None))"
  unfolding pools_ok_def
proof (intro conjI allI impI)
  fix u assume "(G(t := None)) u = None"
  then show "ml_head (mp_lists st' u) = None" "ml_valid (mp_lists st' u) = 0"
    using ok lists empty by (auto simp: pools_ok_def split: if_splits)
next
  fix u k assume *: "(G(t := None)) u = Some k"
  then have u: "G u = Some k" "u \<noteq> t" by (auto split: if_splits)
  note disj = pools_ok_disjoint [OF ok(1) u(1) ok(2) u(2)]
  show "pool_list st' u k"
    by (rule pool_list_frame [OF pools_ok_list [OF ok(1) u(1)]]) (use disj lists u nodes blocks in auto)
next
  fix u u' k k' assume "(G(t := None)) u = Some k" "(G(t := None)) u' = Some k'" "u \<noteq> u'"
  then show "set (pg_nodes k) \<inter> set (pg_nodes k') = {}" "set (pg_blocks k) \<inter> set (pg_blocks k') = {}"
    using pools_ok_disjoint [OF ok(1)] by (auto split: if_splits)
next
  fix a assume "mp_nodes st' a \<noteq> None"
  then have *: "mp_nodes st a \<noteq> None" "a \<notin> set (pg_nodes g)" using nodes by (auto split: if_splits)
  then obtain u k where "G u = Some k" "a \<in> set (pg_nodes k)" using ok(1) unfolding pools_ok_def by blast
  then show "\<exists>u k. (G(t := None)) u = Some k \<and> a \<in> set (pg_nodes k)" using * ok(2)
    by (cases "u = t") auto
next
  fix b assume "mp_blocks st' b \<noteq> None"
  then have *: "mp_blocks st b \<noteq> None" "b \<notin> set (pg_blocks g)" using blocks by (auto split: if_splits)
  then obtain u k where "G u = Some k" "b \<in> set (pg_blocks k)" using ok(1) unfolding pools_ok_def by blast
  then show "\<exists>u k. (G(t := None)) u = Some k \<and> b \<in> set (pg_blocks k)" using * ok(2)
    by (cases "u = t") auto
next
  show "mp_init st' \<or> G(t := None) = Map.empty" using ok by (auto simp: pools_ok_def)
qed

lemma building_free:
  assumes "building st0 t n ns rs st"
  shows "free_nodes (mp_nodes st) (mp_blocks st) (ml_head (mp_lists st t)) = Some (mp_nodes st0, mp_blocks st0)"
proof -
  have b: "distinct ns" "distinct rs" "length rs = length ns"
    "without (mp_nodes st) (set ns) = mp_nodes st0" "without (mp_blocks st) (set rs) = mp_blocks st0"
    "ml_head (mp_lists st t) = node_ptr ns 0"
    using assms by (auto simp: building_def node_list_def hd_conv_nth)
  have "free_nodes (mp_nodes st) (mp_blocks st) (node_ptr ns 0)
    = Some (without (mp_nodes st) (set (drop 0 ns)), without (mp_blocks st) (set (drop 0 rs)))"
    using assms b(1-3) by (intro free_nodes_list) (auto simp: building_def node_list_def set_conv_nth)
  with b(4-6) show ?thesis by simp
qed

lemma building_done:
  assumes b: "building st0 t (Suc n) ns rs st" and ns: "ns \<noteq> []"
    and st': "st' = with_list t ((mp_lists st t)\<lparr> ml_tail := Some (last ns), ml_valid := 1 \<rparr>) st"
  shows "last_node (mp_nodes st) (hd ns) = Some (last ns)"
    "pool_list st' t \<lparr> pg_nodes = ns, pg_free = rs, pg_blocks = rs, pg_size = n \<rparr>"
proof -
  have nl: "node_list (mp_nodes st) ns (map Some rs) rs" using b by (simp add: building_def)
  from last_node_list [OF nl, of 0] ns show "last_node (mp_nodes st) (hd ns) = Some (last ns)"
    by (simp add: hd_conv_nth)
  have len: "length rs = length ns" "rs \<noteq> []" using nl ns by (auto simp: node_list_def)
  show "pool_list st' t \<lparr> pg_nodes = ns, pg_free = rs, pg_blocks = rs, pg_size = n \<rparr>"
    using b nl ns len unfolding st'
    by (simp add: pool_list_def pool_shape_def building_def with_list_def last_conv_nth)
qed

lemma pools_ok_make:
  assumes A: "fresh_malloc A" and ok: "pools_ok st G" "G t = None"
    and args: "t \<noteq> 0" "0 < sz" "0 < len" "len < 2 ^ 31 - 1"
  obtains st' where "init_mem_list A t sz len st = Some (0, st')" "pools_ok st' G"
      "mp_nodes st' = mp_nodes st" "mp_blocks st' = mp_blocks st" "malloc_fails A (nat sz + 1)"
  | st' g where "init_mem_list A t sz len st = Some (1, st')" "pools_ok st' (G(t \<mapsto> g))" "pg_used g = {}"
      "length (pg_nodes g) = nat len + 1" "pg_size g = nat sz" "length (pg_free g) = nat len + 1"
proof -
  define st1 where "st1 = (if mp_init st then st else (init_all_mem_list st)\<lparr> mp_init := True \<rparr>)"
  have ok1: "pools_ok st1 G" unfolding st1_def by (rule pools_ok_first_use [OF ok(1)])
  have same: "mp_nodes st1 = mp_nodes st" "mp_blocks st1 = mp_blocks st" "mp_init st1"
    by (auto simp: st1_def init_all_lists)
  have l: "ml_head (mp_lists st1 t) = None" "ml_valid (mp_lists st1 t) = 0"
    using ok1 ok(2) by (auto simp: pools_ok_def)
  define st2 where "st2 = with_list t ((mp_lists st1 t)\<lparr> ml_valid := 1, ml_type := t \<rparr>) st1"
  have "(mp_lists st1 t)\<lparr> ml_valid := 1, ml_type := t \<rparr>
      = \<lparr> ml_head = None, ml_tail = ml_tail (mp_lists st1 t), ml_type = t, ml_valid = 1 \<rparr>"
    using l by (intro mem_list.equality) simp_all
  then have "building st1 t (nat sz + 1) [] [] st2"
    by (simp add: building_def st2_def with_list_def node_list_def)
  then obtain fin st3 ns rs where st3: "init_loop A t (nat sz + 1) (nat (len + 1)) st2 = Some (fin, st3)"
    "building st1 t (nat sz + 1) ns rs st3" "fin \<Longrightarrow> length ns = nat (len + 1)" "\<not> fin \<Longrightarrow> malloc_fails A (nat sz + 1)"
    using A by (rule init_loop_building) auto
  have run: "init_mem_list A t sz len st = do {
      let l = mp_lists st3 t;
      if fin then
        do { tail \<leftarrow> ml_tail l;
             last \<leftarrow> last_node (mp_nodes st3) tail;
             Some (1, with_list t (l\<lparr> ml_tail := Some last, ml_valid := 1 \<rparr>) st3) }
      else
        do { (N, B) \<leftarrow> free_nodes (mp_nodes st3) (mp_blocks st3) (ml_head l);
             Some (0, with_list t \<lparr> ml_head = None, ml_tail = None, ml_type = 0, ml_valid = 0 \<rparr>
                        (st3\<lparr> mp_nodes := N, mp_blocks := B \<rparr>)) } }"
    using args l(2) st3(1) by (simp add: init_mem_list_def st1_def [symmetric] st2_def [symmetric] Let_def)
  show ?thesis
  proof (cases fin)
    case True
    then have ns: "length ns = nat len + 1" "ns \<noteq> []" using st3(3) args by auto
    define st' where "st' = with_list t ((mp_lists st3 t)\<lparr> ml_tail := Some (last ns), ml_valid := 1 \<rparr>) st3"
    define g where "g = \<lparr> pg_nodes = ns, pg_free = rs, pg_blocks = rs, pg_size = nat sz \<rparr>"
    note fin = building_done [of st1 t "nat sz" ns rs st3, OF _ ns(2) st'_def]
    have "ml_tail (mp_lists st3 t) = Some (hd ns)" using st3(2) ns(2) by (simp add: building_def)
    then have r: "init_mem_list A t sz len st = Some (1, st')"
      using run True fin(1) st3(2) by (simp add: st'_def Let_def)
    have "pools_ok st' (G(t \<mapsto> g))"
    proof (rule pools_ok_add [OF ok1 ok(2) same(3)])
      show "pool_list st' t g" using fin(2) st3(2) by (simp add: g_def)
    qed (use st3(2) same(3) in \<open>auto simp: building_def st'_def with_list_def g_def cong: if_cong\<close>)
    moreover have "length rs = length ns" using st3(2) by (simp add: building_def node_list_def)
    ultimately show ?thesis using that(2) [OF r, of g] ns(1) by (simp add: g_def pg_used_def)
  next
    case False
    define st' where "st' = with_list t \<lparr> ml_head = None, ml_tail = None, ml_type = 0, ml_valid = 0 \<rparr>
      (st3\<lparr> mp_nodes := mp_nodes st1, mp_blocks := mp_blocks st1 \<rparr>)"
    have r: "init_mem_list A t sz len st = Some (0, st')"
      using run False building_free [OF st3(2)] by (simp add: st'_def Let_def)
    have lists: "mp_lists st' u = mp_lists st1 u" if "u \<noteq> t" for u
      using st3(2) that by (simp add: building_def st'_def with_list_def)
    have "pools_ok st' G"
    proof -
      have "pool_list st' u k" if "G u = Some k" for u k
        by (rule pool_list_frame [OF pools_ok_list [OF ok1 that]])
          (use lists ok(2) that in \<open>auto simp: st'_def with_list_def\<close>)
      moreover have "ml_head (mp_lists st' u) = None \<and> ml_valid (mp_lists st' u) = 0" if "G u = None" for u
        using lists ok1 that by (cases "u = t") (auto simp: st'_def with_list_def pools_ok_def)
      moreover have "mp_nodes st' = mp_nodes st1" "mp_blocks st' = mp_blocks st1" "mp_init st'"
        using st3(2) same(3) by (auto simp: st'_def with_list_def building_def)
      ultimately show ?thesis using ok1 by (simp add: pools_ok_def)
    qed
    then show ?thesis using that(1) [OF r] same st3(4) [OF False] by (simp add: st'_def with_list_def)
  qed
qed

text \<open>What is printed for the lists \<open>is\<close>.\<close>

definition clean_reports :: "ghosts \<Rightarrow> nat list \<Rightarrow> clean_report list" where
  "clean_reports G is = concat (map (\<lambda>i. case G (of_nat i) of
     None \<Rightarrow> []
   | Some g \<Rightarrow> [(int (length (pg_nodes g)), of_nat i, int (card (pg_used g)), int (length (pg_nodes g)))]) is)"

lemma clean_list_pool:
  assumes ok: "pools_ok st G" "G i = Some g"
  obtains st' where "clean_list i st
      = Some ([(int (length (pg_nodes g)), i, int (card (pg_used g)), int (length (pg_nodes g)))], st')"
    "pools_ok st' (G(i := None))"
proof -
  note g = pools_ok_list [OF ok]
  let ?ns = "pg_nodes g" and ?k = "length (pg_free g) - 1"
  have shape: "pg_free g \<noteq> []" "length (pg_free g) \<le> length ?ns"
    "node_list (mp_nodes st) ?ns (free_data (pg_free g) (length ?ns)) (pg_blocks g)"
    using g by (simp_all add: pool_list_def pool_shape_def)
  then have k: "?k < length ?ns" by (cases "pg_free g") auto
  then have ns: "hd ?ns = ?ns ! 0" by (cases ?ns) auto
  have l: "mp_lists st i = \<lparr> ml_head = Some (hd ?ns), ml_tail = Some (?ns ! ?k), ml_type = i, ml_valid = 1 \<rparr>"
    using g by (simp add: pool_list_def pool_shape_def)
  have loop: "clean_loop (Some (?ns ! ?k)) (mp_nodes st) (mp_blocks st) (node_ptr ?ns 0) 0 (- 1) 0
    = Some (without (mp_nodes st) (set (drop 0 ?ns)), without (mp_blocks st) (set (drop 0 (pg_blocks g))),
            0 + int (length ?ns - 0), int (length ?ns - ?k), 0 + int (length ?ns - 0))"
  proof (rule clean_loop_list)
    show "distinct (pg_nodes g)" "length (pg_blocks g) = length (pg_nodes g)"
      using shape(3) by (auto simp: node_list_def)
    show "distinct (pg_blocks g)" using g by (simp add: pool_list_def)
    show "mp_blocks st (pg_blocks g ! j) \<noteq> None" if "j < length (pg_nodes g)" for j
      by (rule pool_list_live [OF g]) (use that pool_list_lengths [OF g] in simp)
  qed (use k node_list_at [OF shape(3)] in auto)
  define st' where "st' = with_list i ((mp_lists st i)\<lparr> ml_valid := 0, ml_head := None \<rparr>)
    (st\<lparr> mp_nodes := without (mp_nodes st) (set ?ns), mp_blocks := without (mp_blocks st) (set (pg_blocks g)) \<rparr>)"
  have "int (length ?ns - ?k) - 1 = int (card (pg_used g))"
    using card_used [OF g] shape(1,2) by (cases "pg_free g") auto
  then have "clean_list i st
      = Some ([(int (length ?ns), i, int (card (pg_used g)), int (length ?ns))], st')"
    using loop k ns l by (cases "length ?ns") (simp_all add: clean_list_def st'_def Let_def)
  moreover have "pools_ok st' (G(i := None))"
    by (rule pools_ok_remove [OF ok]) (simp_all add: st'_def with_list_def)
  ultimately show ?thesis using that by blast
qed

lemma clean_lists_pools:
  assumes "pools_ok st G" "distinct (map of_nat is :: u8 list)"
  obtains st' where "clean_lists is st = Some (clean_reports G is, st')"
    "pools_ok st' (\<lambda>t. if t \<in> of_nat ` set is then None else G t)"
  using assms
proof (induction "is" arbitrary: thesis st G)
  case Nil
  then show ?case by (simp add: clean_reports_def)
next
  case (Cons i "is")
  let ?i = "of_nat i :: u8"
  obtain st1 where st1: "clean_list ?i st = Some (clean_reports G [i], st1)" "pools_ok st1 (G(?i := None))"
  proof (cases "G ?i")
    case None
    with Cons.prems(2) have "clean_list ?i st = Some ([], st)" by (simp add: clean_list_def pools_ok_def)
    moreover have "G(?i := None) = G" using None by auto
    ultimately show ?thesis using that [of st] Cons.prems(2) None by (simp add: clean_reports_def)
  next
    case (Some g)
    then show ?thesis using clean_list_pool [OF Cons.prems(2) Some] that by (auto simp: clean_reports_def)
  qed
  obtain st2 where st2: "clean_lists is st1 = Some (clean_reports (G(?i := None)) is, st2)"
    "pools_ok st2 (\<lambda>t. if t \<in> of_nat ` set is then None else (G(?i := None)) t)"
  proof (rule Cons.IH [OF _ st1(2)])
    show "distinct (map of_nat is :: u8 list)" using Cons.prems(3) by simp
  qed (rule that)
  have "?i \<notin> of_nat ` set is" using Cons.prems(3) by auto
  then have "clean_reports (G(?i := None)) is = clean_reports G is"
    unfolding clean_reports_def by (intro arg_cong [where f = concat] map_cong) (auto simp: image_iff)
  then have "clean_lists (i # is) st = Some (clean_reports G (i # is), st2)"
    using st1(1) st2(1) by (simp add: clean_reports_def)
  moreover have "(\<lambda>t. if t \<in> of_nat ` set is then None else (G(?i := None)) t)
      = (\<lambda>t. if t \<in> of_nat ` set (i # is) then None else G t)" by auto
  ultimately show ?case using st2(2) by (intro Cons.prems(1)) simp_all
qed

lemma distinct_types: "distinct (map of_nat [0..<MAX_MEM_LIST] :: u8 list)"
proof -
  have "inj_on (of_nat :: nat \<Rightarrow> u8) {0..<MAX_MEM_LIST}"
    by (rule inj_on_inverseI [where g = unat]) (simp add: MAX_MEM_LIST_def unat_of_nat take_bit_nat_eq_self)
  then show ?thesis by (simp add: distinct_map)
qed

lemma type_in_range: "t \<in> of_nat ` set [0..<MAX_MEM_LIST]" for t :: u8
  using unsigned_less [of t, where 'a = nat]
  by (intro image_eqI [of _ _ "unat t"]) (simp_all add: MAX_MEM_LIST_def)

lemma pools_ok_clean:
  assumes "pools_ok st G"
  obtains st' where "clean_mem_list st = Some (clean_reports G [0..<MAX_MEM_LIST], st')"
    "pools_ok st' Map.empty" "mp_nodes st' = Map.empty" "mp_blocks st' = Map.empty"
proof -
  obtain st' where st': "clean_mem_list st = Some (clean_reports G [0..<MAX_MEM_LIST], st')"
    "pools_ok st' (\<lambda>t. if t \<in> of_nat ` set [0..<MAX_MEM_LIST] then None else G t)"
    using clean_lists_pools [OF assms distinct_types] by (auto simp: clean_mem_list_def)
  then have ok: "pools_ok st' Map.empty" by (simp only: type_in_range if_True)
  then have "mp_nodes st' = Map.empty" "mp_blocks st' = Map.empty" by (auto simp: pools_ok_def)
  with that st'(1) ok show ?thesis by blast
qed

section \<open>Executions\<close>

text \<open>
  A state of the program is the state of the pools with the set of the blocks its threads hold. A
  thread frees and writes only blocks it holds; a clean-up takes all blocks away. Lists are made with
  a \<open>malloc\<close> that keeps its promise.
\<close>

datatype pool_call =
    New_node u8 "block_addr option"
  | Free_node block_addr
  | Write block_addr nat u8
  | Init_list u8 int int int
  | Clean "clean_report list"

inductive pool_step ::
    "pool_malloc \<Rightarrow> mem_pool \<times> block_addr set \<Rightarrow> pool_call \<Rightarrow> mem_pool \<times> block_addr set \<Rightarrow> bool" for A where
  new_node: "new_mem_node t st = Some (r, st') \<Longrightarrow>
    pool_step A (st, H) (New_node t r) (st', H \<union> set_option r)"
| free_node: "a \<in> H \<Longrightarrow> free_mem_node (Some a) st = Some st' \<Longrightarrow> pool_step A (st, H) (Free_node a) (st', H - {a})"
| write_node: "a \<in> H \<Longrightarrow> store_byte (mp_blocks st) (fst a, snd a + i) v = Some B \<Longrightarrow>
    pool_step A (st, H) (Write a i v) (st\<lparr> mp_blocks := B \<rparr>, H)"
| init_list: "fresh_malloc A \<Longrightarrow> init_mem_list A t sz len st = Some (r, st') \<Longrightarrow> pool_step A (st, H) (Init_list t sz len r) (st', H)"
| clean: "clean_mem_list st = Some (out, st') \<Longrightarrow> pool_step A (st, H) (Clean out) (st', {})"

inductive_cases pool_stepE: "pool_step A s l s'"

definition pool_start :: "mem_pool \<times> block_addr set \<Rightarrow> bool" where
  "pool_start s \<longleftrightarrow> s =
     (\<lparr> mp_lists = (\<lambda>_. \<lparr> ml_head = None, ml_tail = None, ml_type = 0, ml_valid = 0 \<rparr>), mp_init = False,
        mp_nodes = Map.empty, mp_blocks = Map.empty \<rparr>, {})"

definition held :: "ghosts \<Rightarrow> block_addr set" where
  "held G = {(b, 1) | b. \<exists>t g. G t = Some g \<and> b \<in> pg_used g}"

definition pool_inv :: "mem_pool \<times> block_addr set \<Rightarrow> bool" where
  "pool_inv s \<longleftrightarrow> (\<exists>G. pools_ok (fst s) G \<and> snd s = held G)"

lemma held_split: "held (G(t \<mapsto> g)) = (\<lambda>b. (b, 1)) ` pg_used g \<union> held (G(t := None))"
proof (intro equalityI subsetI)
  fix x assume "x \<in> held (G(t \<mapsto> g))"
  then obtain b u k where "x = (b, 1)" "(G(t \<mapsto> g)) u = Some k" "b \<in> pg_used k" by (auto simp: held_def)
  then show "x \<in> (\<lambda>b. (b, 1)) ` pg_used g \<union> held (G(t := None))"
    by (cases "u = t") (auto simp: held_def intro!: exI [of _ u])
next
  fix x assume "x \<in> (\<lambda>b. (b, 1)) ` pg_used g \<union> held (G(t := None))"
  then consider b where "x = (b, 1)" "b \<in> pg_used g"
    | b u k where "x = (b, 1)" "u \<noteq> t" "G u = Some k" "b \<in> pg_used k"
    by (auto simp: held_def split: if_splits)
  then show "x \<in> held (G(t \<mapsto> g))"
  proof cases
    case (2 b u k)
    then show ?thesis by (auto simp: held_def intro!: exI [of _ u])
  qed (auto simp: held_def intro!: exI [of _ t])
qed

lemma held_update:
  assumes "pools_ok st G" "G t = Some g" "b \<in> set (pg_blocks g)"
  shows "pg_used g' = insert b (pg_used g) \<Longrightarrow> held (G(t \<mapsto> g')) = insert (b, 1) (held G)"
    "pg_used g' = pg_used g - {b} \<Longrightarrow> held (G(t \<mapsto> g')) = held G - {(b, 1)}"
proof -
  have G: "held G = (\<lambda>b. (b, 1)) ` pg_used g \<union> held (G(t := None))"
    using held_split [of G t g] assms(2) by (simp add: fun_upd_idem)
  have "(b, 1) \<notin> held (G(t := None))"
  proof
    assume "(b, 1) \<in> held (G(t := None))"
    then obtain u k where "G u = Some k" "u \<noteq> t" "b \<in> pg_used k" by (auto simp: held_def split: if_splits)
    with pools_ok_disjoint [OF assms(1,2)] assms(3) show False by (fastforce simp: pg_used_def)
  qed
  then show "pg_used g' = insert b (pg_used g) \<Longrightarrow> held (G(t \<mapsto> g')) = insert (b, 1) (held G)"
    "pg_used g' = pg_used g - {b} \<Longrightarrow> held (G(t \<mapsto> g')) = held G - {(b, 1)}"
    using G by (auto simp: held_split)
qed

lemma held_fresh:
  assumes "pools_ok st G" "G t = Some g" "b \<in> set (pg_blocks g)" "b \<notin> pg_used g"
  shows "(b, 1) \<notin> held G"
proof
  assume "(b, 1) \<in> held G"
  then obtain u k where k: "G u = Some k" "b \<in> pg_used k" by (auto simp: held_def)
  then have "u \<noteq> t" using assms(2,4) by auto
  with pools_ok_disjoint [OF assms(1,2) k(1)] assms(3) k(2) show False by (auto simp: pg_used_def)
qed

lemma held_used:
  assumes "a \<in> held G"
  obtains t g b where "a = (b, 1)" "G t = Some g" "b \<in> pg_used g"
  using assms by (auto simp: held_def)

text \<open>A write behind the type byte of a block keeps everything the pools rely on.\<close>

lemma pools_ok_write:
  assumes "pools_ok st G" "store_byte (mp_blocks st) (b, Suc i) v = Some B"
  shows "pools_ok (st\<lparr> mp_blocks := B \<rparr>) G"
proof -
  obtain bs where bs: "mp_blocks st b = Some bs" "B = (mp_blocks st)(b \<mapsto> bs[Suc i := v])"
    using assms(2) by (auto simp: store_byte_def split: if_splits)
  then have "pool_list (st\<lparr> mp_blocks := B \<rparr>) t g" if "pool_list st t g" for t g
    using that by (fastforce simp: pool_list_def pool_shape_def)
  moreover have "B c \<noteq> None \<longleftrightarrow> mp_blocks st c \<noteq> None" for c using bs by simp
  ultimately show ?thesis using assms(1) by (simp add: pools_ok_def)
qed

lemma init_mem_list_refused:
  assumes "pools_ok st G" "init_mem_list A t sz len st = Some (r, st')"
    and "t = 0 \<or> sz \<le> 0 \<or> len \<le> 0 \<or> G t \<noteq> None"
  shows "pools_ok st' G \<and> mp_nodes st' = mp_nodes st \<and> mp_blocks st' = mp_blocks st"
proof -
  define st1 where "st1 = (if mp_init st then st else (init_all_mem_list st)\<lparr> mp_init := True \<rparr>)"
  have ok: "pools_ok st1 G" unfolding st1_def by (rule pools_ok_first_use [OF assms(1)])
  have "ml_valid (mp_lists st1 t) = 1" if "G t \<noteq> None"
    using ok that by (auto simp: pools_ok_def pool_list_def pool_shape_def)
  with assms(2,3) have "st' = st1"
    by (auto simp: init_mem_list_def st1_def [symmetric] Let_def split: if_splits)
  with ok show ?thesis by (auto simp: st1_def init_all_lists)
qed

lemma init_mem_list_keeps:
  assumes "fresh_malloc A" "pools_ok st G" "init_mem_list A t sz len st = Some (r, st')"
  shows "\<exists>G'. pools_ok st' G' \<and> held G' = held G"
proof (cases "t = 0 \<or> sz \<le> 0 \<or> len \<le> 0 \<or> G t \<noteq> None")
  case True
  with init_mem_list_refused [OF assms(2,3)] show ?thesis by blast
next
  case False
  then have ok: "pools_ok st G" "G t = None" "t \<noteq> 0" "0 < sz" "0 < len" using assms(2) by auto
  have "ml_valid (mp_lists (if mp_init st then st else (init_all_mem_list st)\<lparr> mp_init := True \<rparr>) t) = 0"
    using pools_ok_first_use [OF ok(1)] ok(2) by (simp add: pools_ok_def)
  then have len: "len < 2 ^ 31 - 1" using assms(3) ok(3-5)
    by (auto simp: init_mem_list_def Let_def split: if_splits)
  show ?thesis
  proof (cases rule: pools_ok_make [OF assms(1) ok len])
    case (1 st'')
    then show ?thesis using assms(3) by auto
  next
    case (2 st'' g)
    have "held (G(t \<mapsto> g)) = held G"
      using 2(3) ok(2) by (simp add: held_split fun_upd_idem)
    then show ?thesis using 2(1,2) assms(3) by auto
  qed
qed

lemma pool_start_inv: "pool_start s \<Longrightarrow> pool_inv s"
  by (auto simp: pool_start_def pool_inv_def pools_ok_def held_def intro!: exI [of _ Map.empty])

lemma pool_step_inv:
  assumes "pool_inv s" "pool_step A s l s'"
  shows "pool_inv s'"
  using assms(2)
proof cases
  case (new_node t st r st' H)
  then obtain G where G: "pools_ok st G" "H = held G" using assms(1) by (auto simp: pool_inv_def)
  show ?thesis
  proof (cases "G t")
    case None
    with new_node G pools_ok_none_new [OF G(1)] show ?thesis by (auto simp: pool_inv_def)
  next
    case (Some g)
    show ?thesis
    proof (cases rule: pools_ok_new [OF G(1) Some])
      case 1
      with new_node G show ?thesis by (auto simp: pool_inv_def)
    next
      case (2 b st'' g')
      with new_node G held_update(1) [OF G(1) Some 2(5,3)] show ?thesis by (auto simp: pool_inv_def)
    qed
  qed
next
  case (free_node a H st st')
  then obtain G where G: "pools_ok st G" "H = held G" using assms(1) by (auto simp: pool_inv_def)
  obtain t g b where a: "a = (b, 1)" "G t = Some g" "b \<in> pg_used g"
    using free_node(4) G(2) by (auto elim: held_used)
  obtain st'' g' where "free_mem_node (Some (b, 1)) st = Some st''" "pools_ok st'' (G(t \<mapsto> g'))"
    "pg_used g' = pg_used g - {b}"
    by (rule pools_ok_free [OF G(1) a(2,3)])
  moreover have "b \<in> set (pg_blocks g)" using a(3) by (simp add: pg_used_def)
  ultimately show ?thesis using held_update(2) [OF G(1) a(2)] free_node G(2) a(1)
    by (auto simp: pool_inv_def)
next
  case (write_node a H st i v B)
  then obtain G where G: "pools_ok st G" "H = held G" using assms(1) by (auto simp: pool_inv_def)
  obtain b where "a = (b, 1)" using write_node(4) G(2) by (auto elim: held_used)
  with pools_ok_write [OF G(1), of b i v B] write_node G(2) show ?thesis by (auto simp: pool_inv_def)
next
  case (init_list t sz len st r st' H)
  then obtain G where G: "pools_ok st G" "H = held G" using assms(1) by (auto simp: pool_inv_def)
  from init_mem_list_keeps [OF init_list(4) G(1) init_list(5)] show ?thesis
    using init_list G(2) by (auto simp: pool_inv_def)
next
  case (clean st out st' H)
  then obtain G where G: "pools_ok st G" using assms(1) by (auto simp: pool_inv_def)
  obtain st'' where "clean_mem_list st = Some (clean_reports G [0..<MAX_MEM_LIST], st'')" "pools_ok st'' Map.empty"
    by (rule pools_ok_clean [OF G])
  with clean show ?thesis by (auto simp: pool_inv_def held_def)
qed

interpretation pools: invariant_system pool_start "pool_step A" pool_inv for A
  by unfold_locales (auto intro: pool_start_inv pool_step_inv)

lemma reachable_pools:
  assumes "reachable pool_start (pool_step A) (st, H)"
  obtains G where "pools_ok st G" "H = held G"
  using pools.reachable_inv [OF assms] by (auto simp: pool_inv_def)

section \<open>Properties\<close>

text \<open>
  C7. Safety of the pools. In every sequence of calls, \<open>new_mem_node\<close> returns the null pointer and
  changes nothing, or it returns an allocated block that nobody holds, whose type byte is the requested
  type; freeing a block that is held and cleaning up go through. The first two change the contents of no
  block. None of the three uses memory that is not allocated, and no loop runs forever.
\<close>

theorem mem_pool_safe:
  assumes "reachable pool_start (pool_step A) (st, H)"
  shows "(\<exists>r st'. new_mem_node t st = Some (r, st') \<and>
            (r = None \<and> st' = st \<or>
             (\<exists>b. r = Some (b, 1) \<and> (b, 1) \<notin> H \<and> load_byte (mp_blocks st') (b, 0) = Some t \<and>
                  mp_blocks st' = mp_blocks st))) \<and>
         (\<forall>a \<in> H. \<exists>st'. free_mem_node (Some a) st = Some st' \<and> mp_blocks st' = mp_blocks st) \<and>
         (\<exists>out st'. clean_mem_list st = Some (out, st'))"
proof -
  obtain G where G: "pools_ok st G" "H = held G" using assms by (rule reachable_pools)
  have new: "\<exists>r st'. new_mem_node t st = Some (r, st') \<and>
      (r = None \<and> st' = st \<or> (\<exists>b. r = Some (b, 1) \<and> (b, 1) \<notin> H \<and> load_byte (mp_blocks st') (b, 0) = Some t \<and>
        mp_blocks st' = mp_blocks st))"
  proof (cases "G t")
    case None
    then show ?thesis using pools_ok_none_new [OF G(1)] by simp
  next
    case (Some g)
    show ?thesis
    proof (cases rule: pools_ok_new [OF G(1) Some])
      case (2 b st' g')
      have "(b, 1) \<notin> H" using held_fresh [OF G(1) Some 2(5,4)] G(2) by simp
      moreover have "load_byte (mp_blocks st') (b, 0) = Some t"
        using load_type [OF pool_list_shape [OF pools_ok_list [OF G(1) Some]] 2(5)] 2(8) by simp
      ultimately show ?thesis using 2(1,8) by simp
    qed simp
  qed
  have "\<exists>st'. free_mem_node (Some a) st = Some st' \<and> mp_blocks st' = mp_blocks st" if "a \<in> H" for a
  proof -
    from that obtain t g b where "a = (b, 1)" "G t = Some g" "b \<in> pg_used g" using G(2) by (auto elim: held_used)
    with pools_ok_free [OF G(1)] show ?thesis by metis
  qed
  with new pools_ok_clean [OF G(1)] show ?thesis by metis
qed

section \<open>A concrete execution\<close>

text \<open>
  An allocator with a few places, and the state after making a pool with two blocks and taking one.
\<close>

definition few_places :: pool_malloc where
  "few_places =
    \<lparr> pm_node = (\<lambda>N. List.find (\<lambda>p. N p = None) [0..<10]),
      pm_block = (\<lambda>B n. map_option (\<lambda>b. (b, replicate n 0xaa)) (List.find (\<lambda>b. B b = None) [0..<10])) \<rparr>"

declare last_node.simps [code] free_nodes.simps [code] clean_loop.simps [code]

lemma few_places_fresh [simp]: "fresh_malloc few_places"
  by (auto simp: fresh_malloc_def few_places_def find_Some_iff)

definition pool0 :: mem_pool where
  "pool0 = \<lparr> mp_lists = (\<lambda>_. \<lparr> ml_head = None, ml_tail = None, ml_type = 0, ml_valid = 0 \<rparr>), mp_init = False,
             mp_nodes = Map.empty, mp_blocks = Map.empty \<rparr>"

definition pool1 :: mem_pool where "pool1 = snd (the (init_mem_list few_places 7 4 2 pool0))"
definition pool2 :: mem_pool where "pool2 = snd (the (new_mem_node 7 pool1))"

lemma pool1: "init_mem_list few_places 7 4 2 pool0 = Some (1, pool1)"
proof -
  have "map_option fst (init_mem_list few_places 7 4 2 pool0) = Some 1" by code_simp
  then show ?thesis by (auto simp: pool1_def)
qed

lemma pool2: "new_mem_node 7 pool1 = Some (Some (1, 1), pool2)"
proof -
  have "map_option fst (new_mem_node 7 pool1) = Some (Some (1, 1))" by code_simp
  then show ?thesis by (auto simp: pool2_def)
qed

lemma pools_reached:
  "reachable pool_start (pool_step few_places) (pool0, {})"
  "reachable pool_start (pool_step few_places) (pool1, {})"
  "reachable pool_start (pool_step few_places) (pool2, {(1, 1)})"
proof -
  show 0: "reachable pool_start (pool_step few_places) (pool0, {})"
    by (rule reachable.start) (simp add: pool_start_def pool0_def)
  show 1: "reachable pool_start (pool_step few_places) (pool1, {})"
    by (rule reachable.step [OF 0 pool_step.init_list [OF few_places_fresh pool1]])
  show "reachable pool_start (pool_step few_places) (pool2, {(1, 1)})"
    using reachable.step [OF 1 pool_step.new_node [OF pool2]] by simp
qed

lemma mem_pool_safe_witness:
  "(\<exists>r st'. new_mem_node 7 pool2 = Some (r, st') \<and>
      (r = None \<and> st' = pool2 \<or>
       (\<exists>b. r = Some (b, 1) \<and> (b, 1) \<notin> {(1, 1 :: nat)} \<and> load_byte (mp_blocks st') (b, 0) = Some 7 \<and>
            mp_blocks st' = mp_blocks pool2))) \<and>
   (\<exists>st'. free_mem_node (Some (1, 1)) pool2 = Some st' \<and> mp_blocks st' = mp_blocks pool2) \<and>
   (\<exists>out st'. clean_mem_list pool2 = Some (out, st'))"
  using mem_pool_safe [OF pools_reached(3), of 7] by (simp only: ball_simps simp_thms)

text \<open>
  C25. Allocation and release are inverse to each other. Releasing a held block and asking for a
  block of its type gives the same block and the state before; releasing what was just allocated
  restores the state before the allocation.
\<close>

theorem mem_pool_inverse:
  assumes "reachable pool_start (pool_step A) (st, H)"
  shows "(\<forall>a \<in> H. \<exists>t st'. load_byte (mp_blocks st) (fst a, 0) = Some t \<and>
            free_mem_node (Some a) st = Some st' \<and> new_mem_node t st' = Some (Some a, st)) \<and>
         (\<forall>t p st'. new_mem_node t st = Some (Some p, st') \<longrightarrow> free_mem_node (Some p) st' = Some st)"
proof (intro conjI ballI allI impI)
  obtain G where G: "pools_ok st G" "H = held G" using assms by (rule reachable_pools)
  {
    fix a assume "a \<in> H"
    then obtain t g b where a: "a = (b, 1)" "G t = Some g" "b \<in> pg_used g" using G(2) by (auto elim: held_used)
    obtain st' where "free_mem_node (Some (b, 1)) st = Some st'" "new_mem_node t st' = Some (Some (b, 1), st)"
      by (rule pools_ok_free [OF G(1) a(2,3)])
    moreover have "load_byte (mp_blocks st) (b, 0) = Some t"
      by (rule load_type [OF pool_list_shape [OF pools_ok_list [OF G(1) a(2)]]]) (use a(3) in \<open>simp add: pg_used_def\<close>)
    ultimately show "\<exists>t st'. load_byte (mp_blocks st) (fst a, 0) = Some t \<and>
            free_mem_node (Some a) st = Some st' \<and> new_mem_node t st' = Some (Some a, st)"
      using a(1) by auto
  next
    fix t p st' assume new: "new_mem_node t st = Some (Some p, st')"
    then obtain g where g: "G t = Some g" using pools_ok_none_new [OF G(1), of t] by (cases "G t") auto
    show "free_mem_node (Some p) st' = Some st"
      by (cases rule: pools_ok_new [OF G(1) g]) (use new in auto)
  }
qed

lemma mem_pool_inverse_witness:
  "\<exists>t st'. load_byte (mp_blocks pool2) (fst (1 :: nat, 1 :: nat), 0) = Some t \<and>
      free_mem_node (Some (1, 1)) pool2 = Some st' \<and> new_mem_node t st' = Some (Some (1, 1), pool2)"
  using conjunct1 [OF mem_pool_inverse [OF pools_reached(3)]] by (simp only: ball_simps simp_thms)









text \<open>
  C38. Freeing a held block twice is not noticed as long as another block of the pool is in use: the block enters
  the pool twice, and the next two allocations return the same address.
\<close>

theorem mem_pool_double_free:
  assumes "reachable pool_start (pool_step A) (st, H)" "a \<in> H" "c \<in> H" "a \<noteq> c"
    and "load_byte (mp_blocks st) (fst a, 0) = Some t" "load_byte (mp_blocks st) (fst c, 0) = Some t"
  shows "\<exists>st1 st2 st3 st4. free_mem_node (Some a) st = Some st1 \<and> free_mem_node (Some a) st1 = Some st2 \<and>
           new_mem_node t st2 = Some (Some a, st3) \<and> new_mem_node t st3 = Some (Some a, st4)"
proof -
  obtain G where G: "pools_ok st G" "H = held G" using assms(1) by (rule reachable_pools)
  have used: "\<exists>b g. x = (b, 1) \<and> G t = Some g \<and> b \<in> pg_used g"
    if x: "x \<in> H" "load_byte (mp_blocks st) (fst x, 0) = Some t" for x
  proof -
    obtain u g b where b: "x = (b, 1)" "G u = Some g" "b \<in> pg_used g" using x(1) G(2) by (auto elim: held_used)
    have "load_byte (mp_blocks st) (b, 0) = Some u"
      by (rule load_type [OF pool_list_shape [OF pools_ok_list [OF G(1) b(2)]]])
        (use b(3) in \<open>simp add: pg_used_def\<close>)
    then show ?thesis using b x(2) by auto
  qed
  obtain b g where b: "a = (b, 1)" "G t = Some g" "b \<in> pg_used g" using used [OF assms(2,5)] by auto
  obtain d where d: "c = (d, 1)" "d \<in> pg_used g" using used [OF assms(3,6)] b(2) by auto
  note g = pools_ok_list [OF G(1) b(2)]
  have blk: "b \<in> set (pg_blocks g)" using b(3) by (simp add: pg_used_def)
  have "card {b, d} \<le> card (pg_used g)" by (rule card_mono) (use b d in \<open>auto simp: pg_used_def\<close>)
  then have room: "length (pg_free g) + 2 \<le> length (pg_nodes g)"
    using card_used [OF g] b(1) d(1) assms(4) by simp
  then have r1: "length (pg_free g) < length (pg_nodes g)" by simp
  obtain st1 where st1: "free_mem_node (Some (b, 1)) st = Some st1"
    "pool_shape st1 t (g\<lparr> pg_free := pg_free g @ [b] \<rparr>)" "new_mem_node t st1 = Some (Some (b, 1), st)"
    by (rule free_mem_node_room [OF pool_list_shape [OF g] blk r1])
  obtain st2 where st2: "free_mem_node (Some (b, 1)) st1 = Some st2" "new_mem_node t st2 = Some (Some (b, 1), st1)"
    by (rule free_mem_node_room [OF st1(2), of b]) (use room blk in simp_all)
  show ?thesis using st1(1,3) st2 b(1) by auto
qed

definition pool3 :: mem_pool where "pool3 = snd (the (new_mem_node 7 pool2))"

lemma mem_pool_double_free_witness:
  "\<exists>st1 st2 st3 st4. free_mem_node (Some (1, 1)) pool3 = Some st1 \<and> free_mem_node (Some (1, 1)) st1 = Some st2 \<and>
     new_mem_node 7 st2 = Some (Some (1, 1), st3) \<and> new_mem_node 7 st3 = Some (Some (1, 1), st4)"
proof (rule mem_pool_double_free)
  have "map_option fst (new_mem_node 7 pool2) = Some (Some (2, 1))" by code_simp
  then have "new_mem_node 7 pool2 = Some (Some (2, 1), pool3)" by (auto simp: pool3_def)
  from reachable.step [OF pools_reached(3) pool_step.new_node [OF this]]
  show "reachable pool_start (pool_step few_places) (pool3, {(1, 1), (2, 1)})" by (simp add: insert_commute)
  show "load_byte (mp_blocks pool3) (fst (1 :: nat, 1 :: nat), 0) = Some 7"
    "load_byte (mp_blocks pool3) (fst (2 :: nat, 1 :: nat), 0) = Some 7" by code_simp+
qed simp_all

end
