(* ===== verification/SlabPages.thy ===== *)
theory SlabPages
  imports Prelude
begin

text \<open>
  The pages of the slab allocator, \<open>src/cc_ncx_slab.c\<close>: the array of page descriptors, the circular
  doubly linked lists through them, and the allocation of runs of pages. A pointer to a descriptor is a
  \<open>slab_node\<close>: the head of the free list, the head of a slot or an entry of the array. The member
  \<open>prev\<close>, a pointer with a tag in its two lowest bits, is the pair of both.
\<close>

section \<open>Descriptors\<close>

datatype slab_node = Slab_free | Slab_slot nat | Slab_page nat

record slab_page =
  sp_slab :: u64
  sp_next :: "slab_node option"
  sp_prev :: "slab_node option \<times> nat"

definition NCX_SLAB_PAGE :: nat where "NCX_SLAB_PAGE = 0"
definition NCX_SLAB_BIG :: nat where "NCX_SLAB_BIG = 1"
definition NCX_SLAB_EXACT :: nat where "NCX_SLAB_EXACT = 2"
definition NCX_SLAB_SMALL :: nat where "NCX_SLAB_SMALL = 3"

definition NCX_SLAB_PAGE_FREE :: u64 where "NCX_SLAB_PAGE_FREE = 0"
definition NCX_SLAB_PAGE_BUSY :: u64 where "NCX_SLAB_PAGE_BUSY = 0xffffffffffffffff"
definition NCX_SLAB_PAGE_START :: u64 where "NCX_SLAB_PAGE_START = 0x8000000000000000"

lemmas slab_tags = NCX_SLAB_PAGE_def NCX_SLAB_BIG_def NCX_SLAB_EXACT_def NCX_SLAB_SMALL_def

text \<open>
  The pool. \<open>sl_pages\<close> is the number of entries the array of descriptors has room for, \<open>bitmaps\<close> the words
  at the start of each page.
\<close>

record slab_pool =
  min_size :: nat
  min_shift :: nat
  sl_pages :: nat
  nodes :: "slab_node \<Rightarrow> slab_page"
  sl_start :: nat
  sl_end :: nat
  bitmaps :: "nat \<Rightarrow> nat \<Rightarrow> u64"

definition slab_node_at :: "slab_node \<Rightarrow> slab_page \<Rightarrow> slab_pool \<Rightarrow> slab_pool" where
  "slab_node_at n x s = s\<lparr> nodes := (nodes s)(n := x) \<rparr>"

definition set_slab :: "slab_node \<Rightarrow> u64 \<Rightarrow> slab_pool \<Rightarrow> slab_pool" where
  "set_slab n v s = slab_node_at n ((nodes s n)\<lparr> sp_slab := v \<rparr>) s"

definition set_next :: "slab_node \<Rightarrow> slab_node option \<Rightarrow> slab_pool \<Rightarrow> slab_pool" where
  "set_next n v s = slab_node_at n ((nodes s n)\<lparr> sp_next := v \<rparr>) s"

definition set_prev :: "slab_node \<Rightarrow> slab_node option \<times> nat \<Rightarrow> slab_pool \<Rightarrow> slab_pool" where
  "set_prev n v s = slab_node_at n ((nodes s n)\<lparr> sp_prev := v \<rparr>) s"

lemmas node_defs = slab_node_at_def set_slab_def set_next_def set_prev_def

definition page_index :: "slab_node \<Rightarrow> nat option" where
  "page_index n = (case n of Slab_page i \<Rightarrow> Some i | _ \<Rightarrow> None)"

section \<open>Allocating and freeing pages\<close>

text \<open>The search of \<open>ncx_slab_alloc_pages\<close> through the free list.\<close>

partial_function (option) find_pages :: "slab_pool \<Rightarrow> nat \<Rightarrow> slab_node \<Rightarrow> slab_node option option" where
  "find_pages s pages page =
    (if page = Slab_free then Some None
     else if pages \<le> unat (sp_slab (nodes s page)) then Some (Some page)
     else do { n \<leftarrow> sp_next (nodes s page); find_pages s pages n })"

declare find_pages.simps [code]

text \<open>The loop that marks the pages behind the first one.\<close>

fun mark_busy :: "nat \<Rightarrow> nat \<Rightarrow> slab_pool \<Rightarrow> slab_pool option" where
  "mark_busy p 0 s = Some s"
| "mark_busy p (Suc k) s =
    (if p < sl_pages s then
       mark_busy (p + 1) k (slab_node_at (Slab_page p)
         \<lparr> sp_slab = NCX_SLAB_PAGE_BUSY, sp_next = None, sp_prev = (None, NCX_SLAB_PAGE) \<rparr> s)
     else None)"

text \<open>\<open>ncx_slab_alloc_pages\<close> behind the search: the block at \<open>h\<close> is split when it is longer.\<close>

definition take_pages :: "nat \<Rightarrow> nat \<Rightarrow> slab_pool \<Rightarrow> slab_pool option" where
  "take_pages h pages s =
    (let page = nodes s (Slab_page h) in
     do { p \<leftarrow> (if snd (sp_prev page) = 0 then fst (sp_prev page) else None);
          nxt \<leftarrow> sp_next page;
          s \<leftarrow> (if unat (sp_slab page) > pages then
                  if sl_pages s \<le> h + pages then None
                  else
                    let s = slab_node_at (Slab_page (h + pages))
                              \<lparr> sp_slab = sp_slab page - of_nat pages, sp_next = Some nxt, sp_prev = sp_prev page \<rparr> s;
                        s = set_next p (Some (Slab_page (h + pages))) s
                    in Some (set_prev nxt (Some (Slab_page (h + pages)), 0) s)
                else Some (set_prev nxt (sp_prev page) (set_next p (Some nxt) s)));
          mark_busy (h + 1) (pages - 1)
            (slab_node_at (Slab_page h) \<lparr> sp_slab = of_nat pages OR NCX_SLAB_PAGE_START, sp_next = None,
                                     sp_prev = (None, NCX_SLAB_PAGE) \<rparr> s) })"

definition ncx_slab_alloc_pages :: "slab_pool \<Rightarrow> nat \<Rightarrow> (nat option \<times> slab_pool) option" where
  "ncx_slab_alloc_pages s pages =
    do { first \<leftarrow> sp_next (nodes s Slab_free);
         r \<leftarrow> find_pages s pages first;
         (case r of
            None \<Rightarrow> Some (None, s)
          | Some page \<Rightarrow>
              if pages = 0 then None
              else do { h \<leftarrow> page_index page; s \<leftarrow> take_pages h pages s; Some (Some h, s) }) }"

text \<open>The call of \<open>memset\<close> in \<open>ncx_slab_free_pages\<close>.\<close>

fun clear_pages :: "nat \<Rightarrow> nat \<Rightarrow> slab_pool \<Rightarrow> slab_pool option" where
  "clear_pages p 0 s = Some s"
| "clear_pages p (Suc k) s =
    (if p < sl_pages s then
       clear_pages (p + 1) k (slab_node_at (Slab_page p) \<lparr> sp_slab = 0, sp_next = None, sp_prev = (None, 0) \<rparr> s)
     else None)"

text \<open>Taking a page out of the list it is in; the tag of the pointer to its predecessor is masked off.\<close>

definition unlink_page :: "slab_node \<Rightarrow> slab_pool \<Rightarrow> slab_pool option" where
  "unlink_page page s =
    do { p \<leftarrow> fst (sp_prev (nodes s page));
         nxt \<leftarrow> sp_next (nodes s page);
         Some (set_prev nxt (sp_prev (nodes s page)) (set_next p (Some nxt) s)) }"

text \<open>The end of \<open>ncx_slab_free_pages\<close>: the page becomes the first of the free list.\<close>

definition link_free :: "slab_node \<Rightarrow> slab_pool \<Rightarrow> slab_pool option" where
  "link_free page s =
    (let s = set_prev page (Some Slab_free, 0) s in
     do { nxt \<leftarrow> sp_next (nodes s Slab_free);
          let s = set_next page (Some nxt) s;
          let s = set_prev nxt (Some page, 0) s;
          Some (set_next Slab_free (Some page) s) })"

definition ncx_slab_free_pages :: "slab_pool \<Rightarrow> nat \<Rightarrow> nat \<Rightarrow> slab_pool option" where
  "ncx_slab_free_pages s h pages =
    (if pages = 0 then None
     else
       do { let s = set_slab (Slab_page h) (of_nat pages) s;
            s \<leftarrow> clear_pages (h + 1) (pages - 1) s;
            s \<leftarrow> (if sp_next (nodes s (Slab_page h)) \<noteq> None then unlink_page (Slab_page h) s else Some s);
            link_free (Slab_page h) s })"

lemma slab_node_at_simps [simp]:
  "nodes (slab_node_at n x s) = (nodes s)(n := x)"
  "nodes (set_slab n v s) = (nodes s)(n := (nodes s n)\<lparr> sp_slab := v \<rparr>)"
  "nodes (set_next n y s) = (nodes s)(n := (nodes s n)\<lparr> sp_next := y \<rparr>)"
  "nodes (set_prev n z s) = (nodes s)(n := (nodes s n)\<lparr> sp_prev := z \<rparr>)"
  by (simp_all add: node_defs)

text \<open>Everything but the descriptors is the same.\<close>

definition same_pool :: "slab_pool \<Rightarrow> slab_pool \<Rightarrow> bool" where
  "same_pool s s' \<longleftrightarrow> s' = s\<lparr> nodes := nodes s' \<rparr>"

lemma same_pool_fields:
  assumes "same_pool s s'"
  shows "min_size s' = min_size s" "min_shift s' = min_shift s" "sl_pages s' = sl_pages s"
    "sl_start s' = sl_start s" "sl_end s' = sl_end s" "bitmaps s' = bitmaps s"
  using arg_cong [OF assms [unfolded same_pool_def], of min_size] arg_cong [OF assms [unfolded same_pool_def], of min_shift]
    arg_cong [OF assms [unfolded same_pool_def], of sl_pages] arg_cong [OF assms [unfolded same_pool_def], of sl_start]
    arg_cong [OF assms [unfolded same_pool_def], of sl_end] arg_cong [OF assms [unfolded same_pool_def], of bitmaps]
  by simp_all

lemma same_pool_refl [simp]: "same_pool s s"
  by (simp add: same_pool_def)

lemma same_pool_trans [trans]: "same_pool s s' \<Longrightarrow> same_pool s' s'' \<Longrightarrow> same_pool s s''"
  unfolding same_pool_def by (metis slab_pool.surjective slab_pool.update_convs(4))

lemma same_pool_node [simp]:
  "same_pool s (slab_node_at n x s)" "same_pool s (set_slab n v s)" "same_pool s (set_next n y s)" "same_pool s (set_prev n z s)"
  by (simp_all add: same_pool_def node_defs)


section \<open>Circular lists\<close>

text \<open>
  \<open>links M a t xs z\<close>: from \<open>a\<close> on, the pointers \<open>next\<close> lead through \<open>xs\<close> to \<open>z\<close>, and each of \<open>xs\<close>
  points back with tag \<open>t\<close>. A ring leads back to its head.
\<close>

fun links :: "(slab_node \<Rightarrow> slab_page) \<Rightarrow> slab_node \<Rightarrow> nat \<Rightarrow> slab_node list \<Rightarrow> slab_node \<Rightarrow> bool" where
  "links M a t [] z \<longleftrightarrow> sp_next (M a) = Some z"
| "links M a t (x # xs) z \<longleftrightarrow> sp_next (M a) = Some x \<and> sp_prev (M x) = (Some a, t) \<and> links M x t xs z"

definition ring :: "(slab_node \<Rightarrow> slab_page) \<Rightarrow> slab_node \<Rightarrow> nat \<Rightarrow> slab_node list \<Rightarrow> bool" where
  "ring M h t xs \<longleftrightarrow> distinct (h # xs) \<and> links M h t xs h"

lemma links_append:
  "links M a t (xs @ y # ys) z \<longleftrightarrow> links M a t xs y \<and> sp_prev (M y) = (Some (last (a # xs)), t) \<and> links M y t ys z"
  by (induction xs arbitrary: a) auto

lemma links_cong:
  assumes "\<And>n. n \<in> set (a # xs) \<Longrightarrow> sp_next (M' n) = sp_next (M n)" "\<And>n. n \<in> set xs \<Longrightarrow> sp_prev (M' n) = sp_prev (M n)"
  shows "links M' a t xs z \<longleftrightarrow> links M a t xs z"
  using assms by (induction xs arbitrary: a) auto

lemma links_first: "links M a t xs z \<Longrightarrow> sp_next (M a) = Some (hd (xs @ [z]))"
  by (cases xs) auto

text \<open>The last pointer of a path can be led elsewhere.\<close>

lemma links_redirect:
  assumes "links M a t xs z" "distinct (a # xs)"
    and "\<And>n. n \<in> set (a # xs) \<Longrightarrow> n \<noteq> last (a # xs) \<Longrightarrow> sp_next (M' n) = sp_next (M n)"
    and "sp_next (M' (last (a # xs))) = Some y" "\<And>n. n \<in> set xs \<Longrightarrow> sp_prev (M' n) = sp_prev (M n)"
  shows "links M' a t xs y"
  using assms
proof (induction xs arbitrary: a)
  case (Cons x xs)
  have "sp_next (M' a) = sp_next (M a)" using Cons.prems(2) by (intro Cons.prems(3)) auto
  moreover have "links M' x t xs y"
    by (rule Cons.IH) (use Cons.prems in auto)
  ultimately show ?case using Cons.prems(1,5) by simp
qed simp

lemma ring_cong:
  assumes "\<And>n. n \<in> set (h # xs) \<Longrightarrow> sp_next (M' n) = sp_next (M n)" "\<And>n. n \<in> set xs \<Longrightarrow> sp_prev (M' n) = sp_prev (M n)"
  shows "ring M' h t xs \<longleftrightarrow> ring M h t xs"
  unfolding ring_def using links_cong [OF assms] by simp

lemma ring_first: "ring M h t xs \<Longrightarrow> sp_next (M h) = Some (hd (xs @ [h]))"
  by (auto simp: ring_def dest: links_first)

lemma ring_at:
  assumes "ring M h t (as @ x # bs)"
  shows "sp_next (M x) = Some (hd (bs @ [h]))" "sp_prev (M x) = (Some (last (h # as)), t)"
  using assms by (auto simp: ring_def links_append dest: links_first)

text \<open>Inserting behind the head, removing, and replacing an element.\<close>

lemma ring_insert:
  assumes "ring M h t xs" "x \<notin> set (h # xs)"
    and "sp_next (M' x) = Some (hd (xs @ [h]))" "sp_prev (M' x) = (Some h, t)" "sp_next (M' h) = Some x"
    and "\<And>n. n \<in> set xs \<Longrightarrow> sp_next (M' n) = sp_next (M n)"
    and "\<And>n. n \<in> set xs \<Longrightarrow> sp_prev (M' n) = (if n = hd xs then (Some x, t) else sp_prev (M n))"
  shows "ring M' h t (x # xs)"
proof (cases xs)
  case Nil
  then show ?thesis using assms by (simp add: ring_def)
next
  case (Cons y ys)
  have "links M y t ys h" "distinct (h # y # ys)" using assms(1) Cons by (simp_all add: ring_def)
  moreover have "sp_next (M' n) = sp_next (M n)" if "n \<in> set (y # ys)" for n using that assms(6) Cons by simp
  moreover have "sp_prev (M' n) = sp_prev (M n)" if "n \<in> set ys" for n
    using that assms(7) [of n] Cons calculation(2) by auto
  ultimately have "links M' y t ys h" using links_cong [of y ys M' M] by blast
  moreover have "sp_prev (M' y) = (Some x, t)" using assms(7) [of y] Cons by simp
  ultimately show ?thesis using assms(1-5) Cons by (auto simp: ring_def)
qed

lemma ring_remove:
  assumes "ring M h t (as @ x # bs)"
    and "sp_next (M' (last (h # as))) = Some (hd (bs @ [h]))"
    and "\<And>n. n \<in> set (h # as @ bs) \<Longrightarrow> n \<noteq> last (h # as) \<Longrightarrow> sp_next (M' n) = sp_next (M n)"
    and "bs \<noteq> [] \<Longrightarrow> sp_prev (M' (hd bs)) = (Some (last (h # as)), t)"
    and "\<And>n. n \<in> set (as @ bs) \<Longrightarrow> (bs \<noteq> [] \<Longrightarrow> n \<noteq> hd bs) \<Longrightarrow> sp_prev (M' n) = sp_prev (M n)"
  shows "ring M' h t (as @ bs)"
proof -
  have d: "distinct (h # as @ x # bs)" and l: "links M h t as x" "links M x t bs h"
    using assms(1) by (simp_all add: ring_def links_append)
  have p: "last (h # as) \<in> set (h # as)" by (rule last_in_set) simp
  have front: "sp_prev (M' n) = sp_prev (M n)" if "n \<in> set as" for n
    using that d by (intro assms(5)) (auto dest: hd_in_set)
  have first: "links M' h t as (hd (bs @ [h]))"
    using l(1) by (rule links_redirect) (use d assms(2,3) front in auto)
  show ?thesis
  proof (cases bs)
    case Nil
    then show ?thesis using first d by (simp add: ring_def)
  next
    case (Cons y ys)
    have "links M y t ys h" using l(2) Cons by simp
    moreover have "sp_next (M' n) = sp_next (M n)" if "n \<in> set (y # ys)" for n
      by (rule assms(3)) (use that p d Cons in \<open>auto simp del: last.simps\<close>)
    moreover have "sp_prev (M' n) = sp_prev (M n)" if "n \<in> set ys" for n
      using that assms(5) [of n] d Cons by auto
    ultimately have "links M' y t ys h" using links_cong [of y ys M' M] by blast
    then show ?thesis using first d assms(4) Cons by (auto simp: ring_def links_append)
  qed
qed

lemma ring_replace:
  assumes "ring M h t (as @ x # bs)" "r \<notin> set (h # as @ bs)"
    and "sp_next (M' (last (h # as))) = Some r" "sp_prev (M' r) = (Some (last (h # as)), t)"
    and "sp_next (M' r) = Some (hd (bs @ [h]))"
    and "\<And>n. n \<in> set (h # as @ bs) \<Longrightarrow> n \<noteq> last (h # as) \<Longrightarrow> sp_next (M' n) = sp_next (M n)"
    and "bs \<noteq> [] \<Longrightarrow> sp_prev (M' (hd bs)) = (Some r, t)"
    and "\<And>n. n \<in> set (as @ bs) \<Longrightarrow> (bs \<noteq> [] \<Longrightarrow> n \<noteq> hd bs) \<Longrightarrow> sp_prev (M' n) = sp_prev (M n)"
  shows "ring M' h t (as @ r # bs)"
proof -
  have d: "distinct (h # as @ x # bs)" and l: "links M h t as x" "links M x t bs h"
    using assms(1) by (simp_all add: ring_def links_append)
  have p: "last (h # as) \<in> set (h # as)" by (rule last_in_set) simp
  have front: "sp_prev (M' n) = sp_prev (M n)" if "n \<in> set as" for n
    using that d by (intro assms(8)) (auto dest: hd_in_set)
  have first: "links M' h t as r"
    using l(1) by (rule links_redirect) (use d assms(3,6) front in auto)
  have "links M' r t bs h"
  proof (cases bs)
    case Nil
    then show ?thesis using assms(5) by simp
  next
    case (Cons y ys)
    have "links M y t ys h" using l(2) Cons by simp
    moreover have "sp_next (M' n) = sp_next (M n)" if "n \<in> set (y # ys)" for n
      by (rule assms(6)) (use that p d Cons in \<open>auto simp del: last.simps\<close>)
    moreover have "sp_prev (M' n) = sp_prev (M n)" if "n \<in> set ys" for n
      using that assms(8) [of n] d Cons by auto
    ultimately have "links M' y t ys h" using links_cong [of y ys M' M] by blast
    then show ?thesis using assms(5,7) Cons by simp
  qed
  then show ?thesis using first d assms(2,4) by (auto simp: ring_def links_append)
qed


section \<open>Blocks of pages\<close>

text \<open>
  The pages fall into blocks, a first page with a length, each free or in use. They are disjoint and cover
  all \<open>N\<close> pages.
\<close>

type_synonym blocks = "nat \<Rightarrow> (nat \<times> bool) option"

definition blocks_ok :: "nat \<Rightarrow> blocks \<Rightarrow> bool" where
  "blocks_ok N B \<longleftrightarrow> (\<forall>h l u. B h = Some (l, u) \<longrightarrow> 0 < l \<and> h + l \<le> N) \<and>
     (\<forall>h l u h' l' u'. B h = Some (l, u) \<longrightarrow> B h' = Some (l', u') \<longrightarrow> h < h' \<longrightarrow> h + l \<le> h') \<and>
     (\<forall>i < N. \<exists>h l u. B h = Some (l, u) \<and> h \<le> i \<and> i < h + l)"

definition free_heads :: "blocks \<Rightarrow> nat set" where
  "free_heads B = {h. \<exists>l. B h = Some (l, True)}"

lemma block_in: "blocks_ok N B \<Longrightarrow> B h = Some (l, u) \<Longrightarrow> 0 < l \<and> h + l \<le> N"
  unfolding blocks_ok_def by blast

lemma block_next: "blocks_ok N B \<Longrightarrow> B h = Some (l, u) \<Longrightarrow> B h' = Some (l', u') \<Longrightarrow> h < h' \<Longrightarrow> h + l \<le> h'"
  unfolding blocks_ok_def by blast

lemma block_cover: "blocks_ok N B \<Longrightarrow> i < N \<Longrightarrow> \<exists>h l u. B h = Some (l, u) \<and> h \<le> i \<and> i < h + l"
  unfolding blocks_ok_def by blast

lemma block_disjoint:
  assumes "blocks_ok N B" "B h = Some (l, u)" "B h' = Some (l', u')" "h \<le> i" "i < h + l" "h' \<le> i" "i < h' + l'"
  shows "h = h'"
  using block_next [OF assms(1-3)] block_next [OF assms(1,3,2)] assms(4-7) by (cases h h' rule: linorder_cases) auto

lemma block_inner: "blocks_ok N B \<Longrightarrow> B h = Some (l, u) \<Longrightarrow> h < i \<Longrightarrow> i < h + l \<Longrightarrow> B i = None"
  using block_next [of N B h l u i] by (cases "B i") fastforce+

lemma blocks_update:
  assumes "blocks_ok N B" "B h = Some (l, u)"
  shows "blocks_ok N (B(h \<mapsto> (l, u')))"
proof -
  have same: "\<exists>v'. B i = Some (k, v')" if "(B(h \<mapsto> (l, u'))) i = Some (k, v)" for i k v
    using that assms(2) by (auto split: if_splits)
  show ?thesis
    unfolding blocks_ok_def
  proof (intro conjI allI impI)
    show "0 < k" "i + k \<le> N" if "(B(h \<mapsto> (l, u'))) i = Some (k, v)" for i k v
      using same [OF that] block_in [OF assms(1)] by blast+
    show "i + k \<le> j" if "(B(h \<mapsto> (l, u'))) i = Some (k, v)" "(B(h \<mapsto> (l, u'))) j = Some (k', v')" "i < j" for i k v j k' v'
      using same [OF that(1)] same [OF that(2)] block_next [OF assms(1)] that(3) by blast
    show "\<exists>j k v. (B(h \<mapsto> (l, u'))) j = Some (k, v) \<and> j \<le> i \<and> i < j + k" if lt: "i < N" for i
    proof -
      obtain j k v where "B j = Some (k, v)" "j \<le> i" "i < j + k" using block_cover [OF assms(1) lt] by blast
      then show ?thesis using assms(2) by (cases "j = h") auto
    qed
  qed
qed

lemma blocks_split:
  assumes "blocks_ok N B" "B h = Some (l, u)" "0 < m" "m < l"
  shows "blocks_ok N (B(h \<mapsto> (m, u1), h + m \<mapsto> (l - m, u2)))"
proof -
  let ?B = "B(h \<mapsto> (m, u1), h + m \<mapsto> (l - m, u2))"
  have inner: "B (h + m) = None" using block_inner [OF assms(1,2), of "h + m"] assms(3,4) by simp
  have split: "i = h \<and> k = m \<or> i = h + m \<and> k = l - m \<or> i \<noteq> h \<and> i \<noteq> h + m \<and> B i = Some (k, v)"
    if "?B i = Some (k, v)" for i k v
    using that assms(3) by (auto split: if_splits)
  show ?thesis
    unfolding blocks_ok_def
  proof (intro conjI allI impI)
    show "0 < k" "i + k \<le> N" if "?B i = Some (k, v)" for i k v
      using split [OF that] block_in [OF assms(1)] block_in [OF assms(1,2)] assms(3,4) by force+
    show "i + k \<le> j" if "?B i = Some (k, v)" "?B j = Some (k', v')" "i < j" for i k v j k' v'
    proof -
      have "B i = Some (k, v) \<Longrightarrow> i < h \<Longrightarrow> i + k \<le> h" "B j = Some (k', v') \<Longrightarrow> h < j \<Longrightarrow> h + l \<le> j"
        "B i = Some (k, v) \<Longrightarrow> B j = Some (k', v') \<Longrightarrow> i + k \<le> j" "B i = Some (k, v) \<Longrightarrow> h < i \<Longrightarrow> h + l \<le> i"
        using block_next [OF assms(1)] assms(2) that(3) by blast+
      then show ?thesis using split [OF that(1)] split [OF that(2)] that(3) assms(3,4)
        by (elim disjE conjE; cases "i < h"; cases "h < j") auto
    qed
    show "\<exists>j k v. ?B j = Some (k, v) \<and> j \<le> i \<and> i < j + k" if lt: "i < N" for i
    proof -
      obtain j k v where j: "B j = Some (k, v)" "j \<le> i" "i < j + k" using block_cover [OF assms(1) lt] by blast
      show ?thesis
      proof (cases "j = h")
        case True
        with j assms(2) have "k = l" by simp
        with j True assms(3,4) show ?thesis
          by (cases "i < h + m") (force intro: exI [of _ h] exI [of _ "h + m"])+
      next
        case False
        with j inner show ?thesis by (intro exI [of _ j] exI [of _ k] exI [of _ v]) auto
      qed
    qed
  qed
qed

section \<open>The invariant of the pages\<close>

abbreviation zero_page :: slab_page where
  "zero_page \<equiv> \<lparr> sp_slab = 0, sp_next = None, sp_prev = (None, 0) \<rparr>"

abbreviation busy_page :: slab_page where
  "busy_page \<equiv> \<lparr> sp_slab = NCX_SLAB_PAGE_BUSY, sp_next = None, sp_prev = (None, 0) \<rparr>"

definition pages_inv :: "(slab_node \<Rightarrow> slab_page) \<Rightarrow> nat \<Rightarrow> blocks \<Rightarrow> nat list \<Rightarrow> bool" where
  "pages_inv M N B fl \<longleftrightarrow> blocks_ok N B \<and> N < 2 ^ 63 \<and> set fl = free_heads B \<and>
     ring M Slab_free 0 (map Slab_page fl) \<and>
     (\<forall>h l. B h = Some (l, True) \<longrightarrow> sp_slab (M (Slab_page h)) = of_nat l \<and>
        (\<forall>i. h < i \<longrightarrow> i < h + l \<longrightarrow> M (Slab_page i) = zero_page)) \<and>
     (\<forall>h l i. B h = Some (l, False) \<longrightarrow> h < i \<longrightarrow> i < h + l \<longrightarrow> M (Slab_page i) = busy_page)"

text \<open>The descriptors the page allocator owns: all but the first of each block in use.\<close>

definition page_nodes :: "nat \<Rightarrow> blocks \<Rightarrow> slab_node set" where
  "page_nodes N B = insert Slab_free {n. \<exists>i < N. n = Slab_page i \<and> (\<nexists>l. B i = Some (l, False))}"

lemma pages_inv_cong:
  assumes "\<And>n. n \<in> page_nodes N B \<Longrightarrow> M' n = M n" "pages_inv M N B fl"
  shows "pages_inv M' N B fl"
proof -
  have ok: "blocks_ok N B" and fl: "set fl = free_heads B" using assms(2) by (simp_all add: pages_inv_def)
  have heads: "M' (Slab_page h) = M (Slab_page h)" if "B h = Some (l, True)" for h l
    using that block_in [OF ok that] by (intro assms(1)) (auto simp: page_nodes_def)
  have inner: "M' (Slab_page i) = M (Slab_page i)" if "B h = Some (l, u)" "h < i" "i < h + l" for h l u i
    using that block_in [OF ok that(1)] block_inner [OF ok that] by (intro assms(1)) (auto simp: page_nodes_def)
  have "M' n = M n" if "n \<in> set (Slab_free # map Slab_page fl)" for n
    using that fl heads assms(1) [of Slab_free] by (auto simp: free_heads_def page_nodes_def)
  then have "ring M' Slab_free 0 (map Slab_page fl) \<longleftrightarrow> ring M Slab_free 0 (map Slab_page fl)"
    by (intro ring_cong) simp_all
  then show ?thesis using assms(2) unfolding pages_inv_def by (auto simp: heads inner)
qed


section \<open>What the operations on pages do\<close>

definition fill :: "(slab_node \<Rightarrow> slab_page) \<Rightarrow> nat \<Rightarrow> nat \<Rightarrow> slab_page \<Rightarrow> slab_node \<Rightarrow> slab_page" where
  "fill M p k x n = (case n of Slab_page i \<Rightarrow> if p \<le> i \<and> i < p + k then x else M n | _ \<Rightarrow> M n)"

lemma fill_simps [simp]:
  "fill M p k x Slab_free = M Slab_free" "fill M p k x (Slab_slot j) = M (Slab_slot j)"
  "fill M p k x (Slab_page i) = (if p \<le> i \<and> i < p + k then x else M (Slab_page i))"
  by (simp_all add: fill_def)

lemma fill_Suc: "fill (M(Slab_page p := x)) (Suc p) k x = fill M p (Suc k) x"
proof
  show "fill (M(Slab_page p := x)) (Suc p) k x n = fill M p (Suc k) x n" for n
    by (cases n) (auto simp: Suc_le_eq)
qed

lemma fill_0 [simp]: "fill M p 0 x = M"
proof
  show "fill M p 0 x n = M n" for n by (cases n) auto
qed

lemma mark_busy_eq: "p + k \<le> sl_pages s \<Longrightarrow> mark_busy p k s = Some (s\<lparr> nodes := fill (nodes s) p k busy_page \<rparr>)"
proof (induction k arbitrary: p s)
  case (Suc k)
  let ?s = "slab_node_at (Slab_page p) busy_page s"
  have "mark_busy (Suc p) k ?s = Some (?s\<lparr> nodes := fill (nodes ?s) (Suc p) k busy_page \<rparr>)"
    using Suc.prems by (intro Suc.IH) (simp add: slab_node_at_def)
  then show ?case using Suc.prems by (simp add: NCX_SLAB_PAGE_def fill_Suc) (simp add: slab_node_at_def)
qed simp

lemma clear_pages_eq: "p + k \<le> sl_pages s \<Longrightarrow> clear_pages p k s = Some (s\<lparr> nodes := fill (nodes s) p k zero_page \<rparr>)"
proof (induction k arbitrary: p s)
  case (Suc k)
  let ?s = "slab_node_at (Slab_page p) zero_page s"
  have "clear_pages (Suc p) k ?s = Some (?s\<lparr> nodes := fill (nodes ?s) (Suc p) k zero_page \<rparr>)"
    using Suc.prems by (intro Suc.IH) (simp add: slab_node_at_def)
  then show ?case using Suc.prems by (simp add: fill_Suc) (simp add: slab_node_at_def)
qed simp

lemma find_pages_list:
  assumes "links (nodes s) a t (map Slab_page ys) Slab_free"
  shows "find_pages s pages (hd (map Slab_page ys @ [Slab_free])) =
    Some (map_option Slab_page (List.find (\<lambda>h. pages \<le> unat (sp_slab (nodes s (Slab_page h)))) ys))"
  using assms
proof (induction ys arbitrary: a)
  case Nil
  then show ?case by (subst find_pages.simps) simp
next
  case (Cons y ys)
  then have l: "links (nodes s) (Slab_page y) t (map Slab_page ys) Slab_free" by simp
  show ?case
    using Cons.IH [OF l] links_first [OF l] by (subst find_pages.simps) simp
qed

lemma unat_block:
  assumes "pages_inv M N B fl" "B h = Some (l, True)"
  shows "unat (sp_slab (M (Slab_page h))) = l"
proof -
  have "l \<le> N" using assms block_in [of N B h l True] by (simp add: pages_inv_def)
  then show ?thesis using assms by (auto simp: pages_inv_def intro: unat_of_nat_small)
qed

text \<open>The blocks and the free list after the first \<open>m\<close> pages of a free block were taken.\<close>

definition take_block :: "nat \<Rightarrow> nat \<Rightarrow> nat \<Rightarrow> blocks \<Rightarrow> blocks" where
  "take_block h m l B = (if m < l then B(h \<mapsto> (m, False), h + m \<mapsto> (l - m, True)) else B(h \<mapsto> (m, False)))"

definition take_list :: "nat \<Rightarrow> nat \<Rightarrow> nat \<Rightarrow> nat list" where
  "take_list h m l = (if m < l then [h + m] else [])"

definition used_page :: "nat \<Rightarrow> slab_page" where
  "used_page m = \<lparr> sp_slab = of_nat m OR NCX_SLAB_PAGE_START, sp_next = None, sp_prev = (None, 0) \<rparr>"

text \<open>The descriptors when the block at \<open>h\<close> stands between \<open>p\<close> and \<open>nxt\<close> in the free list.\<close>

definition taken_nodes ::
    "slab_node \<Rightarrow> slab_node \<Rightarrow> nat \<Rightarrow> nat \<Rightarrow> nat \<Rightarrow> (slab_node \<Rightarrow> slab_page) \<Rightarrow> slab_node \<Rightarrow> slab_page" where
  "taken_nodes p nxt h m l M =
    (let r = (if m < l then Slab_page (h + m) else nxt);
         q = (if m < l then r else p);
         M = (if m < l then M(r := \<lparr> sp_slab = of_nat (l - m), sp_next = Some nxt, sp_prev = (Some p, 0) \<rparr>) else M);
         M = M(p := (M p)\<lparr> sp_next := Some r \<rparr>);
         M = M(nxt := (M nxt)\<lparr> sp_prev := (Some q, 0) \<rparr>)
     in fill (M(Slab_page h := used_page m)) (h + 1) (m - 1) busy_page)"

lemma take_pages_eq:
  assumes "pages_inv (nodes s) N B (as @ h # bs)" "B h = Some (l, True)" "0 < m" "m \<le> l" "N \<le> sl_pages s"
  shows "take_pages h m s = Some (s\<lparr> nodes :=
    taken_nodes (last (Slab_free # map Slab_page as)) (hd (map Slab_page bs @ [Slab_free])) h m l (nodes s) \<rparr>)"
proof -
  have ring: "ring (nodes s) Slab_free 0 (map Slab_page as @ Slab_page h # map Slab_page bs)"
    using assms(1) by (simp add: pages_inv_def)
  note at = ring_at [OF ring] and len = unat_block [OF assms(1,2)]
  have "h + l \<le> N" using assms(1) block_in [of N B h l True] assms(2) by (simp add: pages_inv_def)
  then have room: "h + l \<le> sl_pages s" using assms(5) by simp
  have slab: "sp_slab (nodes s (Slab_page h)) - of_nat m = of_nat (l - m)"
    using assms(1,2,4) by (simp add: pages_inv_def of_nat_diff)
  define p where "p = last (Slab_free # map Slab_page as)"
  define nxt where "nxt = hd (map Slab_page bs @ [Slab_free])"
  show ?thesis
    using at len room assms(3,4) slab unfolding p_def [symmetric] nxt_def [symmetric]
    by (cases "m < l")
      (simp_all add: take_pages_def Let_def taken_nodes_def mark_busy_eq NCX_SLAB_PAGE_def used_page_def node_defs)
qed

text \<open>\<open>taken_nodes\<close> place by place.\<close>

definition outside :: "nat \<Rightarrow> nat \<Rightarrow> slab_node \<Rightarrow> bool" where
  "outside h l n \<longleftrightarrow> (\<forall>i. n = Slab_page i \<longrightarrow> \<not> (h \<le> i \<and> i < h + l))"

lemma taken_outside:
  assumes "outside h l p" "outside h l nxt" "0 < m" "m \<le> l" "outside h l n"
  shows "sp_slab (taken_nodes p nxt h m l M n) = sp_slab (M n)"
    "sp_next (taken_nodes p nxt h m l M n) = (if n = p then Some (if m < l then Slab_page (h + m) else nxt) else sp_next (M n))"
    "sp_prev (taken_nodes p nxt h m l M n) =
      (if n = nxt then (Some (if m < l then Slab_page (h + m) else p), 0) else sp_prev (M n))"
proof -
  have h: "n \<noteq> Slab_page h" "p \<noteq> Slab_page h" "nxt \<noteq> Slab_page h"
    "m < l \<Longrightarrow> n \<noteq> Slab_page (h + m) \<and> p \<noteq> Slab_page (h + m) \<and> nxt \<noteq> Slab_page (h + m)"
    using assms by (auto simp: outside_def)
  have f: "fill X (Suc h) (m - Suc 0) x n = X n" for X x
    using assms(4,5) by (cases n) (auto simp: outside_def)
  show "sp_slab (taken_nodes p nxt h m l M n) = sp_slab (M n)"
    "sp_next (taken_nodes p nxt h m l M n) = (if n = p then Some (if m < l then Slab_page (h + m) else nxt) else sp_next (M n))"
    "sp_prev (taken_nodes p nxt h m l M n) =
      (if n = nxt then (Some (if m < l then Slab_page (h + m) else p), 0) else sp_prev (M n))"
    using h by (simp_all add: taken_nodes_def Let_def f)
qed

lemma taken_inside:
  assumes "outside h l p" "outside h l nxt" "0 < m" "m \<le> l"
  shows "taken_nodes p nxt h m l M (Slab_page h) = used_page m"
    "h < i \<Longrightarrow> i < h + m \<Longrightarrow> taken_nodes p nxt h m l M (Slab_page i) = busy_page"
    "m < l \<Longrightarrow> taken_nodes p nxt h m l M (Slab_page (h + m)) =
      \<lparr> sp_slab = of_nat (l - m), sp_next = Some nxt, sp_prev = (Some p, 0) \<rparr>"
    "h + m < i \<Longrightarrow> i < h + l \<Longrightarrow> taken_nodes p nxt h m l M (Slab_page i) = M (Slab_page i)"
  using assms by (auto simp: taken_nodes_def Let_def outside_def)


lemma taken_same:
  assumes "outside h l p" "outside h l nxt" "0 < m" "m \<le> l" "outside h l n" "n \<noteq> p" "n \<noteq> nxt"
  shows "taken_nodes p nxt h m l M n = M n"
  using taken_outside [OF assms(1-5), of M] assms(6,7) by (intro slab_page.equality) simp_all

text \<open>Other blocks and their pages lie outside of a block, and so do the neighbours in the free list.\<close>

lemma outside_block:
  assumes "blocks_ok N B" "B h = Some (l, u)" "B h' = Some (l', u')" "h' \<noteq> h" "h' \<le> i" "i < h' + l'"
  shows "outside h l (Slab_page i)"
  using block_disjoint [OF assms(1-3), of i] assms(4-6) by (auto simp: outside_def)

lemma free_list_nodes:
  assumes "pages_inv M N B (as @ h # bs)"
  shows "n \<in> set (Slab_free # map Slab_page (as @ bs)) \<Longrightarrow> n = Slab_free \<or> (\<exists>h' l'. n = Slab_page h' \<and> h' \<noteq> h \<and> B h' = Some (l', True))"
proof -
  assume n: "n \<in> set (Slab_free # map Slab_page (as @ bs))"
  have d: "h \<notin> set (as @ bs)" "set (as @ h # bs) = free_heads B"
    using assms by (auto simp: pages_inv_def ring_def distinct_map)
  show ?thesis
  proof (cases "n = Slab_free")
    case False
    then obtain h' where h': "n = Slab_page h'" "h' \<in> set (as @ bs)" using n by auto
    then have "h' \<in> free_heads B" using d(2) by auto
    then show ?thesis using h' d(1) by (auto simp: free_heads_def)
  qed simp
qed

lemma free_list_outside:
  assumes "pages_inv M N B (as @ h # bs)" "B h = Some (l, u)" "n \<in> set (Slab_free # map Slab_page (as @ bs))"
  shows "outside h l n"
proof -
  have ok: "blocks_ok N B" using assms(1) by (simp add: pages_inv_def)
  consider "n = Slab_free" | h' l' where "n = Slab_page h'" "h' \<noteq> h" "B h' = Some (l', True)"
    using free_list_nodes [OF assms(1,3)] by blast
  then show ?thesis
  proof cases
    case 2
    then show ?thesis using outside_block [OF ok assms(2) 2(3,2), of h'] block_in [OF ok 2(3)] by simp
  qed (simp add: outside_def)
qed

lemma neighbours:
  "last (Slab_free # map Slab_page as) \<in> set (Slab_free # map Slab_page (as @ bs))"
  "hd (map Slab_page bs @ [Slab_free]) \<in> set (Slab_free # map Slab_page (as @ bs))"
proof -
  show "last (Slab_free # map Slab_page as) \<in> set (Slab_free # map Slab_page (as @ bs))"
    using last_in_set [of "Slab_free # map Slab_page as"] by (auto simp del: last.simps)
  show "hd (map Slab_page bs @ [Slab_free]) \<in> set (Slab_free # map Slab_page (as @ bs))"
    using hd_in_set [of "map Slab_page bs @ [Slab_free]"] by auto
qed

lemma take_blocks:
  assumes "blocks_ok N B" "B h = Some (l, True)" "0 < m" "m \<le> l"
  shows "blocks_ok N (take_block h m l B)"
  using blocks_update [OF assms(1,2), of False] blocks_split [OF assms(1-3), of False True] assms(4)
  by (auto simp: take_block_def)

lemma take_free_heads:
  assumes "blocks_ok N B" "B h = Some (l, True)" "0 < m" "m \<le> l"
  shows "free_heads (take_block h m l B) = free_heads B - {h} \<union> set (take_list h m l)"
  using assms(2-4) by (auto simp: take_block_def take_list_def free_heads_def)

lemma take_ring:
  assumes "pages_inv M N B (as @ h # bs)" "B h = Some (l, True)" "0 < m" "m \<le> l"
  defines "p \<equiv> last (Slab_free # map Slab_page as)" and "nxt \<equiv> hd (map Slab_page bs @ [Slab_free])"
  shows "ring (taken_nodes p nxt h m l M) Slab_free 0 (map Slab_page (as @ take_list h m l @ bs))"
proof -
  let ?M = "taken_nodes p nxt h m l M"
  have ring: "ring M Slab_free 0 (map Slab_page as @ Slab_page h # map Slab_page bs)"
    using assms(1) by (simp add: pages_inv_def)
  have out: "outside h l n" if "n \<in> set (Slab_free # map Slab_page as @ map Slab_page bs)" for n
    by (rule free_list_outside [OF assms(1,2)]) (use that in auto)
  have first: "nxt = hd (map Slab_page bs)" if "bs \<noteq> []" using that by (simp add: nxt_def)
  have pin: "p \<in> set (Slab_free # map Slab_page as @ map Slab_page bs)"
    using neighbours(1) [of "as" bs] unfolding p_def map_append by simp
  have nxtin: "nxt \<in> set (Slab_free # map Slab_page as @ map Slab_page bs)"
    using neighbours(2) [of bs "as"] unfolding nxt_def map_append by simp
  note p = out [OF pin] and nxt = out [OF nxtin]
  note at = taken_outside [OF p nxt assms(3,4)]
  note inner = taken_inside(3) [OF p nxt assms(3,4)]
  have nxt_last: "n = nxt \<Longrightarrow> bs \<noteq> []" if "n \<in> set (map Slab_page as @ map Slab_page bs)" for n
    using that by (auto simp: nxt_def)
  show ?thesis
  proof (cases "m < l")
    case True
    have "ring ?M Slab_free 0 (map Slab_page as @ Slab_page (h + m) # map Slab_page bs)"
    proof (rule ring_replace [OF ring], goal_cases)
      case 1
      show ?case using out [of "Slab_page (h + m)"] True by (auto simp: outside_def)
    next
      case 2
      show ?case unfolding p_def [symmetric] nxt_def [symmetric] using at(2) [OF p] True by simp
    next
      case 3
      show ?case unfolding p_def [symmetric] nxt_def [symmetric] using inner [OF True] by simp
    next
      case 4
      show ?case unfolding p_def [symmetric] nxt_def [symmetric] using inner [OF True] by simp
    next
      case (5 n)
      then show ?case unfolding p_def [symmetric] nxt_def [symmetric] using at(2) [OF out [OF 5(1)]] by simp
    next
      case 6
      then have "bs \<noteq> []" by simp
      then show ?case using at(3) [OF nxt] True first by simp
    next
      case (7 n)
      have "n \<noteq> nxt"
      proof
        assume "n = nxt"
        with nxt_last [OF 7(1)] first 7(2) show False by simp
      qed
      moreover have "outside h l n" by (rule out) (use 7(1) in auto)
      ultimately show ?case using at(3) [of n] by simp
    qed
    then show ?thesis using True by (simp add: take_list_def)
  next
    case False
    have "ring ?M Slab_free 0 (map Slab_page as @ map Slab_page bs)"
    proof (rule ring_remove [OF ring], goal_cases)
      case 1
      show ?case unfolding p_def [symmetric] nxt_def [symmetric] using at(2) [OF p] False by simp
    next
      case (2 n)
      then show ?case unfolding p_def [symmetric] nxt_def [symmetric] using at(2) [OF out [OF 2(1)]] by simp
    next
      case 3
      then have "bs \<noteq> []" by simp
      then show ?case unfolding p_def [symmetric] nxt_def [symmetric] using at(3) [OF nxt] False first by simp
    next
      case (4 n)
      have "n \<noteq> nxt"
      proof
        assume "n = nxt"
        with nxt_last [OF 4(1)] first 4(2) show False by simp
      qed
      moreover have "outside h l n" by (rule out) (use 4(1) in auto)
      ultimately show ?case using at(3) [of n] by simp
    qed
    then show ?thesis using False by (simp add: take_list_def)
  qed
qed

lemma taken_inv:
  assumes inv: "pages_inv M N B (as @ h # bs)" and B: "B h = Some (l, True)" and m: "0 < m" "m \<le> l"
  defines "p \<equiv> last (Slab_free # map Slab_page as)" and "nxt \<equiv> hd (map Slab_page bs @ [Slab_free])"
  shows "pages_inv (taken_nodes p nxt h m l M) N (take_block h m l B) (as @ take_list h m l @ bs)"
proof -
  let ?M = "taken_nodes p nxt h m l M" and ?B = "take_block h m l B"
  have ok: "blocks_ok N B" and N: "N < 2 ^ 63" and heads: "set (as @ h # bs) = free_heads B"
    and d: "distinct (as @ h # bs)"
    using inv by (auto simp: pages_inv_def ring_def distinct_map)
  have pin: "p \<in> set (Slab_free # map Slab_page (as @ bs))" and nxtin: "nxt \<in> set (Slab_free # map Slab_page (as @ bs))"
    unfolding p_def nxt_def by (rule neighbours)+
  note p = free_list_outside [OF inv B pin] and nxt = free_list_outside [OF inv B nxtin]
  note ins = taken_inside [OF p nxt m]
  have old: "?B j = Some (k, u) \<Longrightarrow> j \<noteq> h \<Longrightarrow> j \<noteq> h + m \<or> m = l \<Longrightarrow> B j = Some (k, u)" for j k u
    using m by (auto simp: take_block_def split: if_splits)
  have new: "?B h = Some (m, False)" "m < l \<Longrightarrow> ?B (h + m) = Some (l - m, True)"
    using m by (auto simp: take_block_def)
  have same: "?M (Slab_page i) = M (Slab_page i)" if "B j = Some (k, u)" "j \<noteq> h" "j < i" "i < j + k" for i j k u
  proof (rule taken_same [OF p nxt m])
    show "outside h l (Slab_page i)" using outside_block [OF ok B that(1,2)] that(3,4) by simp
    have "B i = None" using block_inner [OF ok that(1,3,4)] .
    then show "Slab_page i \<noteq> p" "Slab_page i \<noteq> nxt"
      using free_list_nodes [OF inv pin] free_list_nodes [OF inv nxtin] by auto
  qed
  have slab: "sp_slab (?M (Slab_page j)) = sp_slab (M (Slab_page j))" if "B j = Some (k, u)" "j \<noteq> h" for j k u
    using taken_outside(1) [OF p nxt m outside_block [OF ok B that]] block_in [OF ok that(1)] by simp
  have free: "sp_slab (?M (Slab_page j)) = of_nat k \<and> (\<forall>i. j < i \<longrightarrow> i < j + k \<longrightarrow> ?M (Slab_page i) = zero_page)"
    if j: "?B j = Some (k, True)" for j k
  proof (cases "j = h + m \<and> m < l")
    case True
    then have "?M (Slab_page i) = M (Slab_page i)" "M (Slab_page i) = zero_page" if "j < i" "i < j + k" for i
      using that new(2) j ins(4) [of i] inv B by (auto simp: pages_inv_def)
    then show ?thesis using True ins(3) new(2) j by auto
  next
    case False
    have jh: "j \<noteq> h" using j new(1) by auto
    with False m old [OF j] have Bj: "B j = Some (k, True)" by auto
    show ?thesis using slab [OF Bj jh] same [OF Bj jh] inv Bj by (simp add: pages_inv_def)
  qed
  have used: "?M (Slab_page i) = busy_page" if j: "?B j = Some (k, False)" "j < i" "i < j + k" for i j k
  proof (cases "j = h")
    case True
    then show ?thesis using new(1) j ins(2) [of i] by simp
  next
    case False
    have "j \<noteq> h + m \<or> m = l" using new(2) j(1) m by (cases "m = l") auto
    from old [OF j(1) False this] have Bj: "B j = Some (k, False)" .
    show ?thesis using same [OF Bj False j(2,3)] inv Bj j(2,3) by (simp add: pages_inv_def)
  qed
  have "set (as @ take_list h m l @ bs) = free_heads ?B"
    using take_free_heads [OF ok B m] heads d by auto
  then show ?thesis
    unfolding pages_inv_def
    using take_blocks [OF ok B m] N take_ring [OF inv B m] free used by (simp add: p_def nxt_def)
qed

lemma outside_page_nodes:
  assumes "B h = Some (l, True)" "blocks_ok N B" "n \<notin> page_nodes N B"
  shows "outside h l n"
proof -
  have "Slab_page i \<in> page_nodes N B" if "h \<le> i" "i < h + l" for i
    using that assms(1) block_in [OF assms(2,1)] block_inner [OF assms(2,1), of i]
    by (cases "i = h") (auto simp: page_nodes_def)
  then show ?thesis using assms(3) by (auto simp: outside_def)
qed

lemma free_nodes_page_nodes:
  assumes "pages_inv M N B fl" "n \<in> set (Slab_free # map Slab_page fl)"
  shows "n \<in> page_nodes N B"
proof (cases "n = Slab_free")
  case False
  then obtain h where "n = Slab_page h" "h \<in> set fl" using assms(2) by auto
  moreover obtain l where B: "B h = Some (l, True)" using assms(1) calculation(2) by (auto simp: pages_inv_def free_heads_def)
  ultimately show ?thesis using block_in [of N B h l True] assms(1) by (auto simp: page_nodes_def pages_inv_def)
qed (simp add: page_nodes_def)

section \<open>The contract of the page allocator\<close>

lemma alloc_pages_found:
  assumes inv: "pages_inv (nodes s) N B fl" and N: "N \<le> sl_pages s" and m: "0 < m"
    and some: "B h0 = Some (l0, True)" "m \<le> l0"
  obtains h l as bs s' where "fl = as @ h # bs" "B h = Some (l, True)" "m \<le> l"
    "ncx_slab_alloc_pages s m = Some (Some h, s')" "same_pool s s'"
    "pages_inv (nodes s') N (take_block h m l B) (as @ take_list h m l @ bs)"
    "nodes s' (Slab_page h) = used_page m" "\<And>n. n \<notin> page_nodes N B \<Longrightarrow> nodes s' n = nodes s n"
proof -
  let ?P = "\<lambda>h. m \<le> unat (sp_slab (nodes s (Slab_page h)))"
  have ok: "blocks_ok N B" and ring: "ring (nodes s) Slab_free 0 (map Slab_page fl)" and heads: "set fl = free_heads B"
    using inv by (simp_all add: pages_inv_def)
  have len: "\<exists>k. B j = Some (k, True) \<and> unat (sp_slab (nodes s (Slab_page j))) = k" if "j \<in> set fl" for j
    using that heads unat_block [OF inv] by (auto simp: free_heads_def)
  have "h0 \<in> set fl" "?P h0" using heads some unat_block [OF inv some(1)] by (auto simp: free_heads_def)
  then obtain as h bs where split: "fl = as @ h # bs" "?P h" "\<forall>j \<in> set as. \<not> ?P j"
    using split_list_first_prop [of fl ?P] by auto
  then have find: "List.find ?P fl = Some h" by (subst split(1), induction "as" arbitrary: fl) auto
  obtain l where B: "B h = Some (l, True)" "m \<le> l" using len [of h] split(1,2) by auto
  define p where "p = last (Slab_free # map Slab_page as)"
  define nxt where "nxt = hd (map Slab_page bs @ [Slab_free])"
  define s' where "s' = s\<lparr> nodes := taken_nodes p nxt h m l (nodes s) \<rparr>"
  have inv': "pages_inv (nodes s) N B (as @ h # bs)" using inv split(1) by simp
  have take: "take_pages h m s = Some s'"
    using take_pages_eq [OF inv' B(1) m B(2) N] by (simp add: s'_def p_def nxt_def)
  have first: "sp_next (nodes s Slab_free) = Some (hd (map Slab_page fl @ [Slab_free]))"
    using ring_first [OF ring] .
  have "find_pages s m (hd (map Slab_page fl @ [Slab_free])) = Some (Some (Slab_page h))"
    using find_pages_list [of s Slab_free 0 fl m] ring find by (simp add: ring_def)
  then have alloc: "ncx_slab_alloc_pages s m = Some (Some h, s')"
    using first take m by (simp add: ncx_slab_alloc_pages_def page_index_def)
  have pin: "p \<in> set (Slab_free # map Slab_page (as @ bs))" and nxtin: "nxt \<in> set (Slab_free # map Slab_page (as @ bs))"
    unfolding p_def nxt_def by (rule neighbours)+
  note p = free_list_outside [OF inv' B(1) pin] and nxt = free_list_outside [OF inv' B(1) nxtin]
  have sub: "set (Slab_free # map Slab_page (as @ bs)) \<subseteq> set (Slab_free # map Slab_page fl)"
    using split(1) by auto
  note owned = free_nodes_page_nodes [OF inv subsetD [OF sub pin]] free_nodes_page_nodes [OF inv subsetD [OF sub nxtin]]
  have frame: "nodes s' n = nodes s n" if n: "n \<notin> page_nodes N B" for n
  proof -
    have "n \<noteq> p" "n \<noteq> nxt" using owned n by auto
    then show ?thesis
      using taken_same [OF p nxt m B(2) outside_page_nodes [OF B(1) ok n], of "nodes s"] by (simp add: s'_def)
  qed
  show ?thesis
  proof (rule that [OF split(1) B alloc])
    show "same_pool s s'" by (simp add: s'_def same_pool_def)
    show "pages_inv (nodes s') N (take_block h m l B) (as @ take_list h m l @ bs)"
      using taken_inv [OF inv' B(1) m B(2)] by (simp add: s'_def p_def nxt_def)
    show "nodes s' (Slab_page h) = used_page m"
      using taken_inside(1) [OF p nxt m B(2)] by (simp add: s'_def)
  qed (rule frame)
qed

lemma alloc_pages_none:
  assumes inv: "pages_inv (nodes s) N B fl" and none: "\<And>h l. B h = Some (l, True) \<Longrightarrow> l < m"
  shows "ncx_slab_alloc_pages s m = Some (None, s)"
proof -
  let ?P = "\<lambda>h. m \<le> unat (sp_slab (nodes s (Slab_page h)))"
  have ring: "ring (nodes s) Slab_free 0 (map Slab_page fl)" using inv by (simp add: pages_inv_def)
  have "\<not> ?P j" if "j \<in> set fl" for j
    using that inv unat_block [OF inv] none by (auto simp: pages_inv_def free_heads_def not_le)
  then have "List.find ?P fl = None" by (simp add: find_None_iff)
  then have "find_pages s m (hd (map Slab_page fl @ [Slab_free])) = Some None"
    using find_pages_list [of s Slab_free 0 fl m] ring by (simp add: ring_def)
  then show ?thesis using ring_first [OF ring] by (simp add: ncx_slab_alloc_pages_def)
qed

text \<open>Linking a page into the free list, and the rest of \<open>ncx_slab_free_pages\<close>.\<close>

lemma link_free_inv:
  assumes inv: "pages_inv M N B fl" and B: "B h = Some (l, False)"
    and slab: "sp_slab (nodes s (Slab_page h)) = of_nat l"
    and inner: "\<And>i. h < i \<Longrightarrow> i < h + l \<Longrightarrow> nodes s (Slab_page i) = zero_page"
    and same: "\<And>n. n \<in> page_nodes N B \<Longrightarrow> outside h l n \<Longrightarrow> nodes s n = M n"
  obtains s' where "link_free (Slab_page h) s = Some s'" "same_pool s s'"
    "pages_inv (nodes s') N (B(h \<mapsto> (l, True))) (h # fl)"
    "\<And>n. n \<notin> page_nodes N (B(h \<mapsto> (l, True))) \<Longrightarrow> nodes s' n = nodes s n"
proof -
  let ?B = "B(h \<mapsto> (l, True))"
  have ok: "blocks_ok N B" and ring: "ring M Slab_free 0 (map Slab_page fl)" and heads: "set fl = free_heads B"
    and N: "N < 2 ^ 63"
    using inv by (simp_all add: pages_inv_def)
  define nxt where "nxt = hd (map Slab_page fl @ [Slab_free])"
  have free: "n \<in> page_nodes N B \<and> outside h l n" if n: "n \<in> set (Slab_free # map Slab_page fl)" for n
  proof
    show "n \<in> page_nodes N B" by (rule free_nodes_page_nodes [OF inv n])
    show "outside h l n"
    proof (cases "n = Slab_free")
      case False
      then obtain j k where j: "n = Slab_page j" "B j = Some (k, True)"
        using n heads by (auto simp: free_heads_def)
      moreover have "j \<noteq> h" using j(2) B by auto
      ultimately show ?thesis using outside_block [OF ok B j(2), of j] block_in [OF ok j(2)] by simp
    qed (simp add: outside_def)
  qed
  have l: "0 < l" "h + l \<le> N" using block_in [OF ok B] by simp_all
  have hout: "n \<noteq> Slab_page h" if "outside h l n" for n using that l by (auto simp: outside_def)
  have ring': "ring (nodes s) Slab_free 0 (map Slab_page fl)"
    using ring by (subst ring_cong [of _ _ _ M]) (use free same in auto)
  have nxt_in: "nxt \<in> set (Slab_free # map Slab_page fl)"
    using hd_in_set [of "map Slab_page fl @ [Slab_free]"] by (auto simp: nxt_def)
  define M1 where "M1 = (nodes s)(Slab_page h := (nodes s (Slab_page h))\<lparr> sp_prev := (Some Slab_free, 0), sp_next := Some nxt \<rparr>)"
  define M2 where "M2 = M1(nxt := (M1 nxt)\<lparr> sp_prev := (Some (Slab_page h), 0) \<rparr>)"
  define M3 where "M3 = M2(Slab_free := (M2 Slab_free)\<lparr> sp_next := Some (Slab_page h) \<rparr>)"
  have nh: "nxt \<noteq> Slab_page h" using free [OF nxt_in] hout by blast
  have link: "link_free (Slab_page h) s = Some (s\<lparr> nodes := M3 \<rparr>)"
    using ring_first [OF ring'] unfolding nxt_def [symmetric]
    by (simp add: link_free_def Let_def M3_def M2_def M1_def node_defs)
  have at: "M3 n = (if n = Slab_page h then (nodes s n)\<lparr> sp_next := Some nxt, sp_prev := (Some Slab_free, 0) \<rparr>
      else (nodes s n)\<lparr> sp_next := (if n = Slab_free then Some (Slab_page h) else sp_next (nodes s n)),
             sp_prev := (if n = nxt then (Some (Slab_page h), 0) else sp_prev (nodes s n)) \<rparr>)" for n
    using nh by (intro slab_page.equality) (auto simp: M3_def M2_def M1_def)
  have untouched: "M3 n = nodes s n" if "n \<noteq> Slab_page h" "n \<notin> set (Slab_free # map Slab_page fl)" for n
    using that nxt_in at [of n] by (auto intro: slab_page.equality)
  have "ring M3 Slab_free 0 (Slab_page h # map Slab_page fl)"
  proof (rule ring_insert [OF ring'], goal_cases)
    case 1
    show ?case using free [of "Slab_page h"] hout [of "Slab_page h"] by auto
  next
    case (5 n)
    then have "n \<noteq> Slab_free" "n \<noteq> Slab_page h" using ring' free [of n] hout [of n] by (auto simp: ring_def)
    then show ?case using at [of n] by simp
  next
    case (6 n)
    then have "n \<noteq> Slab_free" "n \<noteq> Slab_page h" using ring' free [of n] hout [of n] by (auto simp: ring_def)
    moreover have "nxt = hd (map Slab_page fl)" using 6 by (cases fl) (simp_all add: nxt_def)
    ultimately show ?case using at [of n] by simp
  qed (simp_all add: at nxt_def)
  then have 1: "ring M3 Slab_free 0 (map Slab_page (h # fl))" by simp
  have 2: "sp_slab (M3 (Slab_page j)) = of_nat k \<and> (\<forall>i. j < i \<longrightarrow> i < j + k \<longrightarrow> M3 (Slab_page i) = zero_page)"
    if j: "?B j = Some (k, True)" for j k
  proof (cases "j = h")
    case True
    moreover have "M3 (Slab_page i) = zero_page" if i: "h < i" "i < h + l" for i
    proof -
      have "Slab_page i \<notin> set (Slab_free # map Slab_page fl)" using free [of "Slab_page i"] i by (auto simp: outside_def)
      then show ?thesis using untouched [of "Slab_page i"] inner [OF i] i by simp
    qed
    ultimately show ?thesis using j slab by (simp add: at)
  next
    case False
    then have Bj: "B j = Some (k, True)" using j by simp
    have jin: "Slab_page j \<in> set (Slab_free # map Slab_page fl)" using heads Bj by (auto simp: free_heads_def)
    have "sp_slab (M3 (Slab_page j)) = sp_slab (M (Slab_page j))"
      using at [of "Slab_page j"] False same free [OF jin] by simp
    moreover have "M3 (Slab_page i) = M (Slab_page i)" if i: "j < i" "i < j + k" for i
    proof -
      have Bi: "B i = None" using block_inner [OF ok Bj i] .
      then have "Slab_page i \<notin> set (Slab_free # map Slab_page fl)" using heads by (auto simp: free_heads_def)
      moreover have "i \<noteq> h" using Bi B by auto
      moreover have "Slab_page i \<in> page_nodes N B" using Bi i block_in [OF ok Bj] by (auto simp: page_nodes_def)
      moreover have "outside h l (Slab_page i)" using outside_block [OF ok B Bj False] i by simp
      ultimately show ?thesis using untouched [of "Slab_page i"] same by simp
    qed
    ultimately show ?thesis using inv Bj by (simp add: pages_inv_def)
  qed
  have 3: "M3 (Slab_page i) = busy_page" if j: "?B j = Some (k, False)" "j < i" "i < j + k" for j k i
  proof -
    have jh: "j \<noteq> h" and Bj: "B j = Some (k, False)" using j(1) by (auto split: if_splits)
    have Bi: "B i = None" using block_inner [OF ok Bj j(2,3)] .
    then have "Slab_page i \<notin> set (Slab_free # map Slab_page fl)" using heads by (auto simp: free_heads_def)
    moreover have "i \<noteq> h" using Bi B by auto
    moreover have "Slab_page i \<in> page_nodes N B" using Bi j block_in [OF ok Bj] by (auto simp: page_nodes_def)
    moreover have "outside h l (Slab_page i)" using outside_block [OF ok B Bj jh] j by simp
    ultimately have "M3 (Slab_page i) = M (Slab_page i)" using untouched [of "Slab_page i"] same by simp
    then show ?thesis using inv Bj j by (simp add: pages_inv_def)
  qed
  have new: "pages_inv M3 N ?B (h # fl)"
    unfolding pages_inv_def
    using blocks_update [OF ok B, of True] N heads 1 2 3 by (auto simp: free_heads_def)
  show ?thesis
  proof (rule that [OF link])
    show "same_pool s (s\<lparr> nodes := M3 \<rparr>)" by (simp add: same_pool_def)
    show "pages_inv (nodes (s\<lparr> nodes := M3 \<rparr>)) N ?B (h # fl)" using new by simp
    show "nodes (s\<lparr> nodes := M3 \<rparr>) n = nodes s n" if n: "n \<notin> page_nodes N ?B" for n
      using untouched [of n] free_nodes_page_nodes [OF new, of n] n by auto
  qed
qed

text \<open>A run of pages is freed, \<open>next\<close> of its first page being \<open>NULL\<close>.\<close>

lemma free_pages_run:
  assumes inv: "pages_inv (nodes s) N B fl" and N: "N \<le> sl_pages s" and B: "B h = Some (l, False)"
    and out: "sp_next (nodes s (Slab_page h)) = None"
  obtains s' where "ncx_slab_free_pages s h l = Some s'" "same_pool s s'"
    "pages_inv (nodes s') N (B(h \<mapsto> (l, True))) (h # fl)"
    "\<And>n. n \<notin> page_nodes N (B(h \<mapsto> (l, True))) \<Longrightarrow> nodes s' n = nodes s n"
proof -
  let ?s = "set_slab (Slab_page h) (of_nat l) s"
  have ok: "blocks_ok N B" using inv by (simp add: pages_inv_def)
  have l: "0 < l" "h + l \<le> N" using block_in [OF ok B] by simp_all
  define s1 where "s1 = ?s\<lparr> nodes := fill (nodes ?s) (h + 1) (l - 1) zero_page \<rparr>"
  have clear: "clear_pages (h + 1) (l - 1) ?s = Some s1"
    using l N by (subst clear_pages_eq) (simp_all add: s1_def node_defs)
  have head: "sp_slab (nodes s1 (Slab_page h)) = of_nat l" "sp_next (nodes s1 (Slab_page h)) = None"
    using out by (simp_all add: s1_def)
  have same1: "nodes s1 n = nodes s n" if "outside h l n" for n
    using that l by (cases n) (auto simp: s1_def outside_def)
  have same2: "n \<in> page_nodes N B \<Longrightarrow> outside h l n \<Longrightarrow> nodes s1 n = nodes s n" for n
    by (rule same1)
  have inner: "h < i \<Longrightarrow> i < h + l \<Longrightarrow> nodes s1 (Slab_page i) = zero_page" for i by (simp add: s1_def)
  obtain s' where s': "link_free (Slab_page h) s1 = Some s'" "same_pool s1 s'"
    "pages_inv (nodes s') N (B(h \<mapsto> (l, True))) (h # fl)"
    "\<And>n. n \<notin> page_nodes N (B(h \<mapsto> (l, True))) \<Longrightarrow> nodes s' n = nodes s1 n"
    using link_free_inv [OF inv B head(1) inner same2] by blast
  show ?thesis
  proof (rule that [OF _ _ s'(3)])
    show "ncx_slab_free_pages s h l = Some s'"
      using l clear head s'(1) by (simp add: ncx_slab_free_pages_def Let_def)
    show "same_pool s s'" by (rule same_pool_trans [OF _ s'(2)]) (simp add: s1_def same_pool_def node_defs)
    fix n assume n: "n \<notin> page_nodes N (B(h \<mapsto> (l, True)))"
    have "outside h l n"
      by (rule outside_page_nodes [OF _ blocks_update [OF ok B, of True] n]) simp
    then show "nodes s' n = nodes s n" using s'(4) [OF n] same1 by simp
  qed
qed

text \<open>A single page is freed that stands in the ring of a slot.\<close>

lemma free_pages_ring:
  assumes inv: "pages_inv (nodes s) N B fl" and B: "B h = Some (1, False)"
    and ring: "ring (nodes s) g t (xs @ Slab_page h # ys)"
    and slot: "\<And>n. n \<in> set (g # xs @ ys) \<Longrightarrow> n \<notin> page_nodes N B"
  obtains s' where "ncx_slab_free_pages s h 1 = Some s'" "same_pool s s'"
    "pages_inv (nodes s') N (B(h \<mapsto> (1, True))) (h # fl)"
    "ring (nodes s') g t (xs @ ys)"
    "\<And>n. n \<notin> page_nodes N (B(h \<mapsto> (1, True))) \<Longrightarrow> n \<notin> set (g # xs @ ys) \<Longrightarrow> nodes s' n = nodes s n"
    "\<And>n. n \<noteq> Slab_page h \<Longrightarrow> n \<notin> page_nodes N B \<Longrightarrow> sp_slab (nodes s' n) = sp_slab (nodes s n)"
proof -
  let ?s = "set_slab (Slab_page h) 1 s" and ?B = "B(h \<mapsto> (1, True))"
  have ok: "blocks_ok N B" using inv by (simp add: pages_inv_def)
  have d: "distinct (g # xs @ Slab_page h # ys)" using ring by (simp add: ring_def)
  define p where "p = last (g # xs)"
  define nxt where "nxt = hd (ys @ [g])"
  have pin: "p \<in> set (g # xs @ ys)" unfolding p_def using last_in_set [of "g # xs"] by auto
  have nxtin: "nxt \<in> set (g # xs @ ys)" unfolding nxt_def using hd_in_set [of "ys @ [g]"] by auto
  have at: "sp_next (nodes s (Slab_page h)) = Some nxt" "sp_prev (nodes s (Slab_page h)) = (Some p, t)"
    using ring_at [OF ring] by (simp_all add: p_def nxt_def)
  have away: "p \<noteq> Slab_page h" "nxt \<noteq> Slab_page h" using pin nxtin d by auto
  define s1 where "s1 = set_prev nxt (Some p, t) (set_next p (Some nxt) ?s)"
  have unlink: "unlink_page (Slab_page h) ?s = Some s1"
    using at by (simp add: unlink_page_def s1_def)
  have nodes1: "sp_slab (nodes s1 n) = (if n = Slab_page h then 1 else sp_slab (nodes s n))"
    "sp_next (nodes s1 n) = (if n = p then Some nxt else sp_next (nodes s n))"
    "sp_prev (nodes s1 n) = (if n = nxt then (Some p, t) else sp_prev (nodes s n))" for n
    using away by (auto simp: s1_def)
  have same1: "nodes s1 n = nodes s n" if "n \<noteq> Slab_page h" "n \<notin> set (g # xs @ ys)" for n
    using that pin nxtin nodes1 [of n] by (intro slab_page.equality) auto
  have slab1: "sp_slab (nodes s1 (Slab_page h)) = of_nat 1" by (simp add: nodes1)
  have same2: "nodes s1 n = nodes s n" if n: "n \<in> page_nodes N B" "outside h 1 n" for n
    using n(2) slot [of n] n(1) by (intro same1) (auto simp: outside_def)
  obtain s' where s': "link_free (Slab_page h) s1 = Some s'" "same_pool s1 s'" "pages_inv (nodes s') N ?B (h # fl)"
    "\<And>n. n \<notin> page_nodes N ?B \<Longrightarrow> nodes s' n = nodes s1 n"
    using link_free_inv [OF inv B slab1 _ same2] by auto
  have grow: "n \<notin> page_nodes N ?B" if "n \<noteq> Slab_page h" "n \<notin> page_nodes N B" for n
    using that by (auto simp: page_nodes_def split: if_splits)
  have in_ring: "nodes s' n = nodes s1 n" if "n \<in> set (g # xs @ ys)" for n
    using s'(4) [of n] grow [of n] slot [OF that] that d by auto
  have ring1: "ring (nodes s1) g t (xs @ ys)"
  proof (rule ring_remove [OF ring], goal_cases)
    case 1
    show ?case unfolding p_def [symmetric] nxt_def [symmetric] by (simp add: nodes1)
  next
    case (2 n)
    then show ?case unfolding p_def [symmetric] by (simp add: nodes1)
  next
    case 3
    then show ?case unfolding p_def [symmetric] using nodes1(3) [of nxt] by (simp add: nxt_def)
  next
    case (4 n)
    have "n \<noteq> nxt"
    proof
      assume n: "n = nxt"
      then have "ys \<noteq> []" using 4(1) d by (auto simp: nxt_def)
      then show False using 4(2) n by (simp add: nxt_def)
    qed
    then show ?case by (simp add: nodes1)
  qed
  show ?thesis
  proof (rule that [OF _ _ s'(3)])
    show "ncx_slab_free_pages s h 1 = Some s'"
      using at unlink s'(1) by (simp add: ncx_slab_free_pages_def Let_def)
    show "same_pool s s'" by (rule same_pool_trans [OF _ s'(2)]) (simp add: s1_def same_pool_def node_defs)
    show "ring (nodes s') g t (xs @ ys)"
      using ring1 by (subst ring_cong [of _ _ _ "nodes s1"]) (simp_all add: in_ring)
    show "nodes s' n = nodes s n" if "n \<notin> page_nodes N ?B" "n \<notin> set (g # xs @ ys)" for n
    proof -
      have "n \<noteq> Slab_page h" using that(1) block_in [OF ok B] by (auto simp: page_nodes_def)
      then show ?thesis using s'(4) [OF that(1)] same1 that(2) by simp
    qed
    show "sp_slab (nodes s' n) = sp_slab (nodes s n)" if "n \<noteq> Slab_page h" "n \<notin> page_nodes N B" for n
      using s'(4) [OF grow [OF that]] nodes1(1) [of n] that by simp
  qed
qed


text \<open>A run that is free already is freed again: it moves to the front of the free list.\<close>

lemma free_pages_again:
  assumes inv: "pages_inv (nodes s) N B fl" and N: "N \<le> sl_pages s" and B: "B h = Some (l, True)"
  obtains s' fl' where "ncx_slab_free_pages s h l = Some s'" "same_pool s s'" "pages_inv (nodes s') N B fl'"
    "\<And>n. n \<notin> page_nodes N B \<Longrightarrow> nodes s' n = nodes s n"
proof -
  have ok: "blocks_ok N B" using inv by (simp add: pages_inv_def)
  have l: "0 < l" "h + l \<le> N" using block_in [OF ok B] by simp_all
  have "h \<in> set fl" using inv B by (auto simp: pages_inv_def free_heads_def)
  then obtain as bs where split: "fl = as @ h # bs" by (auto dest: split_list)
  have inv': "pages_inv (nodes s) N B (as @ h # bs)" using inv split by simp
  have ring: "ring (nodes s) Slab_free 0 (map Slab_page as @ Slab_page h # map Slab_page bs)"
    using inv' by (simp add: pages_inv_def)
  define p where "p = last (Slab_free # map Slab_page as)"
  define nxt where "nxt = hd (map Slab_page bs @ [Slab_free])"
  have pin: "p \<in> set (Slab_free # map Slab_page (as @ bs))" and nxtin: "nxt \<in> set (Slab_free # map Slab_page (as @ bs))"
    unfolding p_def nxt_def by (rule neighbours)+
  note p = free_list_outside [OF inv' B pin] and nxt = free_list_outside [OF inv' B nxtin]
  have sub: "set (Slab_free # map Slab_page (as @ bs)) \<subseteq> set (Slab_free # map Slab_page fl)" using split by auto
  note owned = free_nodes_page_nodes [OF inv subsetD [OF sub pin]] free_nodes_page_nodes [OF inv subsetD [OF sub nxtin]]
  have at: "sp_next (nodes s (Slab_page h)) = Some nxt" "sp_prev (nodes s (Slab_page h)) = (Some p, 0)"
    using ring_at [OF ring] by (simp_all add: p_def nxt_def)
  have slab: "sp_slab (nodes s (Slab_page h)) = of_nat l"
    and zero: "\<And>i. h < i \<Longrightarrow> i < h + l \<Longrightarrow> nodes s (Slab_page i) = zero_page"
    using inv B by (simp_all add: pages_inv_def)
  let ?s = "set_slab (Slab_page h) (of_nat l) s"
  have same: "nodes ?s = nodes s" using slab by (auto simp: fun_eq_iff)
  have "fill (nodes s) (h + 1) (l - 1) zero_page = nodes s"
  proof
    show "fill (nodes s) (h + 1) (l - 1) zero_page n = nodes s n" for n using zero l by (cases n) auto
  qed
  then have clear: "clear_pages (h + 1) (l - 1) ?s = Some s"
    using l N same by (subst clear_pages_eq) (simp_all add: node_defs)
  have away: "p \<noteq> Slab_page h" "nxt \<noteq> Slab_page h" using p nxt l by (auto simp: outside_def)
  define s1 where "s1 = set_prev nxt (Some p, 0) (set_next p (Some nxt) s)"
  have unlink: "unlink_page (Slab_page h) s = Some s1" using at by (simp add: unlink_page_def s1_def)
  have nodes1: "sp_slab (nodes s1 n) = sp_slab (nodes s n)"
    "sp_next (nodes s1 n) = (if n = p then Some nxt else sp_next (nodes s n))"
    "sp_prev (nodes s1 n) = (if n = nxt then (Some p, 0) else sp_prev (nodes s n))" for n
    by (auto simp: s1_def)
  have same1: "nodes s1 n = nodes s n" if "n \<noteq> p" "n \<noteq> nxt" for n
    using that nodes1 [of n] by (intro slab_page.equality) simp_all
  let ?M = "taken_nodes p nxt h l l (nodes s)" and ?B = "B(h \<mapsto> (l, False))"
  have taken: "pages_inv ?M N ?B (as @ bs)"
    using taken_inv [OF inv' B l(1) order_refl] by (simp add: p_def nxt_def take_block_def take_list_def)
  have slab1: "sp_slab (nodes s1 (Slab_page h)) = of_nat l" by (simp add: nodes1 slab)
  have inner1: "nodes s1 (Slab_page i) = zero_page" if "h < i" "i < h + l" for i
  proof -
    have "Slab_page i \<noteq> p" "Slab_page i \<noteq> nxt" using that p nxt by (auto simp: outside_def)
    then show ?thesis using same1 zero [OF that] by simp
  qed
  have same2: "nodes s1 n = ?M n" if "n \<in> page_nodes N ?B" "outside h l n" for n
    using taken_outside [OF p nxt l(1) order_refl that(2), of "nodes s"] nodes1 [of n]
    by (intro slab_page.equality) simp_all
  obtain s' where s': "link_free (Slab_page h) s1 = Some s'" "same_pool s1 s'" "pages_inv (nodes s') N (?B(h \<mapsto> (l, True))) (h # as @ bs)"
      "\<And>n. n \<notin> page_nodes N (?B(h \<mapsto> (l, True))) \<Longrightarrow> nodes s' n = nodes s1 n"
    using link_free_inv [OF taken _ slab1 inner1 same2] by auto
  have B': "?B(h \<mapsto> (l, True)) = B" using B by auto
  show ?thesis
  proof (rule that)
    show "ncx_slab_free_pages s h l = Some s'"
      using l clear at unlink s'(1) by (simp add: ncx_slab_free_pages_def Let_def)
    show "same_pool s s'" by (rule same_pool_trans [OF _ s'(2)]) (simp add: s1_def same_pool_def node_defs)
    show "pages_inv (nodes s') N B (h # as @ bs)" using s'(3) B' by simp
    fix n assume n: "n \<notin> page_nodes N B"
    then have "n \<noteq> p" "n \<noteq> nxt" using owned by auto
    then show "nodes s' n = nodes s n" using s'(4) [of n] n B' same1 by simp
  qed
qed

end
