(* ===== verification/Slab.thy ===== *)
theory Slab
  imports SlabPages
begin

text \<open>
  Chunks of the slab allocator, \<open>src/cc_ncx_slab.c\<close>: the pool of \<open>ncx_slab_init\<close>, the allocation and
  release of chunks in pages of three kinds (\<open>SMALL\<close>: a bitmap in the page, \<open>EXACT\<close>: the member \<open>slab\<close> is
  the bitmap, \<open>BIG\<close>: its upper half), and the statistics. Addresses are natural numbers, 0 is \<open>NULL\<close>. An
  operation is \<open>None\<close> where the code leaves the array of descriptors, follows \<open>NULL\<close> or shifts too far.
\<close>

section \<open>The globals of the file\<close>

record slab_globals =
  ncx_slab_max_size :: nat
  ncx_slab_exact_size :: nat
  ncx_slab_exact_shift :: nat
  ncx_pagesize :: nat
  ncx_pagesize_shift :: nat

definition NCX_SLAB_SHIFT_MASK :: u64 where "NCX_SLAB_SHIFT_MASK = 0x000000000000000f"
definition NCX_SLAB_MAP_MASK :: u64 where "NCX_SLAB_MAP_MASK = 0xffffffff00000000"
definition NCX_SLAB_MAP_SHIFT :: nat where "NCX_SLAB_MAP_SHIFT = 32"
definition NCX_SLAB_BUSY :: u64 where "NCX_SLAB_BUSY = 0xffffffffffffffff"

text \<open>The loops that count shifts to the right, \<open>for (...; n >>= 1; shift++)\<close>.\<close>

fun shift_loop :: "nat \<Rightarrow> nat \<Rightarrow> nat" where
  "shift_loop n k = (let n = n div 2 in if n = 0 then k else shift_loop n (k + 1))"

declare shift_loop.simps [simp del]

text \<open>The beginning of \<open>ncx_slab_init\<close>, which is all of \<open>ncx_slab_dummy_init\<close>; \<open>psize\<close> is what \<open>getpagesize\<close> returns.\<close>

definition ncx_slab_dummy_init :: "nat \<Rightarrow> slab_globals \<Rightarrow> slab_globals" where
  "ncx_slab_dummy_init psize g =
    (let g = g\<lparr> ncx_pagesize := psize, ncx_pagesize_shift := shift_loop psize 0 \<rparr>
     in if ncx_slab_max_size g = 0 then
          let g = g\<lparr> ncx_slab_max_size := psize div 2, ncx_slab_exact_size := psize div (8 * 8) \<rparr>
          in g\<lparr> ncx_slab_exact_shift := shift_loop (ncx_slab_exact_size g) (ncx_slab_exact_shift g) \<rparr>
        else g)"

section \<open>Initialisation\<close>

text \<open>\<open>sizeof(ncx_slab_pool_t)\<close> and \<open>sizeof(ncx_slab_page_t)\<close>; \<open>ncx_align_ptr\<close> for a power of two.\<close>

definition sizeof_slab_pool :: nat where "sizeof_slab_pool = 80"
definition sizeof_slab_page :: nat where "sizeof_slab_page = 24"

definition ncx_align_ptr :: "nat \<Rightarrow> nat \<Rightarrow> nat" where
  "ncx_align_ptr p a = (p + (a - 1)) div a * a"

fun init_slots :: "nat \<Rightarrow> nat \<Rightarrow> slab_pool \<Rightarrow> slab_pool" where
  "init_slots i 0 s = s"
| "init_slots i (Suc k) s =
    init_slots (i + 1) k (slab_node_at (Slab_slot i) \<lparr> sp_slab = 0, sp_next = Some (Slab_slot i), sp_prev = (None, 0) \<rparr> s)"

text \<open>
  The members \<open>min_shift\<close> and \<open>end\<close> are set by the caller, \<open>pool\<close> is its address. \<open>None\<close>: the descriptors do
  not fit in front of \<open>end\<close>, or a shift is too large. The difference \<open>end - start\<close> is converted to an
  unsigned number before the division.
\<close>

definition ncx_slab_init :: "nat \<Rightarrow> nat \<Rightarrow> slab_globals \<Rightarrow> slab_pool \<Rightarrow> (slab_globals \<times> slab_pool) option" where
  "ncx_slab_init psize pool g s =
    (let g = ncx_slab_dummy_init psize g;
         p = pool + sizeof_slab_pool;
         size = sl_end s - p;
         n = ncx_pagesize_shift g - min_shift s;
         pages = size div (ncx_pagesize g + sizeof_slab_page);
         q = p + n * sizeof_slab_page
     in if ncx_pagesize_shift g < min_shift s \<or> 31 \<le> min_shift s \<or> sl_end s < q + max 1 pages * sizeof_slab_page then None
        else
          let s = s\<lparr> min_size := 2 ^ min_shift s \<rparr>;
              s = init_slots 0 n s;
              s = s\<lparr> sl_pages := pages, nodes := fill (nodes s) 0 pages zero_page \<rparr>;
              s = set_prev Slab_free (None, 0) s;
              s = set_next Slab_free (Some (Slab_page 0)) s;
              s = set_slab (Slab_page 0) (of_nat pages) s;
              s = set_next (Slab_page 0) (Some Slab_free) s;
              s = set_prev (Slab_page 0) (Some Slab_free, 0) s;
              s = s\<lparr> sl_start := ncx_align_ptr (q + pages * sizeof_slab_page) (ncx_pagesize g) \<rparr>;
              m = int pages - (int (sl_end s) - int (sl_start s)) mod 2 ^ 64 div int (ncx_pagesize g);
              s = (if 0 < m then set_slab (Slab_page 0) (of_nat (pages - nat m)) s else s)
          in Some (g, s))"

section \<open>Allocating chunks\<close>

text \<open>\<open>1 << (ncx_pagesize_shift - shift)\<close>, the number of chunks of a page; the words of its bitmap; the chunks it takes.\<close>

definition chunk_count :: "slab_globals \<Rightarrow> nat \<Rightarrow> nat option" where
  "chunk_count g shift =
    (if shift \<le> ncx_pagesize_shift g \<and> ncx_pagesize_shift g - shift < 31 then Some (2 ^ (ncx_pagesize_shift g - shift)) else None)"

definition bitmap_chunks :: "nat \<Rightarrow> nat \<Rightarrow> nat" where
  "bitmap_chunks count shift = (let n = count div 8 div 2 ^ shift in if n = 0 then 1 else n)"

definition set_bitmap :: "nat \<Rightarrow> nat \<Rightarrow> u64 \<Rightarrow> slab_pool \<Rightarrow> slab_pool" where
  "set_bitmap h n w s = s\<lparr> bitmaps := (bitmaps s)(h := (bitmaps s h)(n := w)) \<rparr>"

definition chunk_address :: "slab_globals \<Rightarrow> nat \<Rightarrow> nat \<Rightarrow> nat \<Rightarrow> slab_pool \<Rightarrow> nat" where
  "chunk_address g h shift k s = sl_start s + h * 2 ^ ncx_pagesize_shift g + k * 2 ^ shift"

text \<open>The loops over the bits of a word, \<open>for (m = 1, i = 0; m; m <<= 1, i++)\<close>, and over the words of a bitmap.\<close>

function scan_word :: "u64 \<Rightarrow> nat \<Rightarrow> nat option" where
  "scan_word w i = (if 64 \<le> i then None else if w AND push_bit i 1 \<noteq> 0 then scan_word w (i + 1) else Some i)"
  by auto
termination by (relation "measure (\<lambda>(w, i). 64 - i)") auto

declare scan_word.simps [simp del]

function small_chunk :: "(nat \<Rightarrow> u64) \<Rightarrow> nat \<Rightarrow> nat \<Rightarrow> (nat \<times> nat) option" where
  "small_chunk bitmap words n =
    (if words \<le> n then None
     else if bitmap n \<noteq> NCX_SLAB_BUSY then
       (case scan_word (bitmap n) 0 of Some i \<Rightarrow> Some (n, i) | None \<Rightarrow> small_chunk bitmap words (n + 1))
     else small_chunk bitmap words (n + 1))"
  by auto
termination by (relation "measure (\<lambda>(b, m, n). m - n)") auto

declare small_chunk.simps [simp del]

text \<open>A full page leaves the ring of its slot.\<close>

definition retire_page :: "nat \<Rightarrow> slab_node \<Rightarrow> slab_pool \<Rightarrow> slab_pool option" where
  "retire_page tag page s =
    do { s \<leftarrow> unlink_page page s; Some (set_prev page (None, tag) (set_next page None s)) }"

definition small_take :: "slab_globals \<Rightarrow> nat \<Rightarrow> nat \<Rightarrow> nat \<Rightarrow> nat \<Rightarrow> nat \<Rightarrow> slab_pool \<Rightarrow> (nat \<times> slab_pool) option" where
  "small_take g h shift words n i s =
    (let w = bitmaps s h n OR push_bit i 1;
         s = set_bitmap h n w s;
         p = chunk_address g h shift (n * 64 + i) s
     in if w = NCX_SLAB_BUSY \<and> list_all (\<lambda>j. bitmaps s h j = NCX_SLAB_BUSY) [n + 1 ..< words]
        then do { s \<leftarrow> retire_page NCX_SLAB_SMALL (Slab_page h) s; Some (p, s) }
        else Some (p, s))"

definition exact_take :: "slab_globals \<Rightarrow> nat \<Rightarrow> nat \<Rightarrow> nat \<Rightarrow> slab_pool \<Rightarrow> (nat \<times> slab_pool) option" where
  "exact_take g h shift i s =
    (let w = sp_slab (nodes s (Slab_page h)) OR push_bit i 1;
         s = set_slab (Slab_page h) w s;
         p = chunk_address g h shift i s
     in if w = NCX_SLAB_BUSY
        then do { s \<leftarrow> retire_page NCX_SLAB_EXACT (Slab_page h) s; Some (p, s) }
        else Some (p, s))"

definition big_take :: "slab_globals \<Rightarrow> nat \<Rightarrow> nat \<Rightarrow> u64 \<Rightarrow> nat \<Rightarrow> slab_pool \<Rightarrow> (nat \<times> slab_pool) option" where
  "big_take g h shift full i s =
    (let w = sp_slab (nodes s (Slab_page h)) OR push_bit (NCX_SLAB_MAP_SHIFT + i) 1;
         s = set_slab (Slab_page h) w s;
         p = chunk_address g h shift i s
     in if w AND NCX_SLAB_MAP_MASK = full
        then do { s \<leftarrow> retire_page NCX_SLAB_BIG (Slab_page h) s; Some (p, s) }
        else Some (p, s))"

function big_scan :: "u64 \<Rightarrow> u64 \<Rightarrow> nat \<Rightarrow> nat option" where
  "big_scan w full i =
    (if 64 \<le> NCX_SLAB_MAP_SHIFT + i \<or> push_bit (NCX_SLAB_MAP_SHIFT + i) 1 AND full = 0 then None
     else if w AND push_bit (NCX_SLAB_MAP_SHIFT + i) 1 \<noteq> 0 then big_scan w full (i + 1) else Some i)"
  by auto
termination by (relation "measure (\<lambda>(w, m, i). 64 - i)") (auto simp: NCX_SLAB_MAP_SHIFT_def)

declare big_scan.simps [simp del]

text \<open>
  The three loops over the pages of a slot. \<open>Some None\<close>: the loop ended at \<open>NULL\<close>. A pointer that is not
  to an entry of the array has no page.
\<close>

partial_function (option) small_loop :: "slab_globals \<Rightarrow> nat \<Rightarrow> slab_node \<Rightarrow> slab_pool \<Rightarrow> (nat \<times> slab_pool) option option" where
  "small_loop g shift page s =
    do { h \<leftarrow> page_index page;
         count \<leftarrow> chunk_count g shift;
         (case small_chunk (bitmaps s h) (count div 64) 0 of
            Some (n, i) \<Rightarrow> do { r \<leftarrow> small_take g h shift (count div 64) n i s; Some (Some r) }
          | None \<Rightarrow> (case sp_next (nodes s page) of None \<Rightarrow> Some None | Some page \<Rightarrow> small_loop g shift page s)) }"

partial_function (option) exact_loop :: "slab_globals \<Rightarrow> nat \<Rightarrow> slab_node \<Rightarrow> slab_pool \<Rightarrow> (nat \<times> slab_pool) option option" where
  "exact_loop g shift page s =
    do { h \<leftarrow> page_index page;
         (case (if sp_slab (nodes s page) \<noteq> NCX_SLAB_BUSY then scan_word (sp_slab (nodes s page)) 0 else None) of
            Some i \<Rightarrow> do { r \<leftarrow> exact_take g h shift i s; Some (Some r) }
          | None \<Rightarrow> (case sp_next (nodes s page) of None \<Rightarrow> Some None | Some page \<Rightarrow> exact_loop g shift page s)) }"

definition big_mask :: "slab_globals \<Rightarrow> u64 \<Rightarrow> u64 option" where
  "big_mask g slab =
    do { n \<leftarrow> chunk_count g (unat (slab AND NCX_SLAB_SHIFT_MASK));
         (if n < 64 then Some (push_bit NCX_SLAB_MAP_SHIFT (push_bit n 1 - 1)) else None) }"

partial_function (option) big_loop :: "slab_globals \<Rightarrow> nat \<Rightarrow> u64 \<Rightarrow> slab_node \<Rightarrow> slab_pool \<Rightarrow> (nat \<times> slab_pool) option option" where
  "big_loop g shift full page s =
    do { h \<leftarrow> page_index page;
         (case (if sp_slab (nodes s page) AND NCX_SLAB_MAP_MASK \<noteq> full then big_scan (sp_slab (nodes s page)) full 0 else None) of
            Some i \<Rightarrow> do { r \<leftarrow> big_take g h shift full i s; Some (Some r) }
          | None \<Rightarrow> (case sp_next (nodes s page) of None \<Rightarrow> Some None | Some page \<Rightarrow> big_loop g shift full page s)) }"

declare small_loop.simps [code] exact_loop.simps [code] big_loop.simps [code]

text \<open>A page taken from the free list becomes the only one of its slot.\<close>

definition slot_page :: "nat \<Rightarrow> nat \<Rightarrow> nat \<Rightarrow> u64 \<Rightarrow> slab_pool \<Rightarrow> slab_pool" where
  "slot_page slot tag h slab s =
    (let s = set_slab (Slab_page h) slab s;
         s = set_next (Slab_page h) (Some (Slab_slot slot)) s;
         s = set_prev (Slab_page h) (Some (Slab_slot slot), tag) s
     in set_next (Slab_slot slot) (Some (Slab_page h)) s)"

fun clear_bitmap :: "nat \<Rightarrow> nat \<Rightarrow> nat \<Rightarrow> slab_pool \<Rightarrow> slab_pool" where
  "clear_bitmap h i 0 s = s"
| "clear_bitmap h i (Suc k) s = clear_bitmap h (i + 1) k (set_bitmap h i 0 s)"

definition small_new :: "slab_globals \<Rightarrow> nat \<Rightarrow> nat \<Rightarrow> nat \<Rightarrow> slab_pool \<Rightarrow> (nat \<times> slab_pool) option" where
  "small_new g shift slot h s =
    do { count \<leftarrow> chunk_count g shift;
         let n = bitmap_chunks count shift in
         if 30 \<le> n then None
         else
           let s = set_bitmap h 0 (push_bit n 2 - 1) s;
               s = clear_bitmap h 1 (count div 64 - 1) s;
               s = slot_page slot NCX_SLAB_SMALL h (of_nat shift) s
           in Some (chunk_address g h shift n s, s) }"

definition exact_new :: "slab_globals \<Rightarrow> nat \<Rightarrow> nat \<Rightarrow> slab_pool \<Rightarrow> (nat \<times> slab_pool) option" where
  "exact_new g slot h s = Some (chunk_address g h 0 0 s, slot_page slot NCX_SLAB_EXACT h 1 s)"

definition big_new :: "slab_globals \<Rightarrow> nat \<Rightarrow> nat \<Rightarrow> nat \<Rightarrow> slab_pool \<Rightarrow> (nat \<times> slab_pool) option" where
  "big_new g shift slot h s =
    Some (chunk_address g h 0 0 s, slot_page slot NCX_SLAB_BIG h (push_bit NCX_SLAB_MAP_SHIFT 1 OR of_nat shift) s)"

definition new_page :: "slab_globals \<Rightarrow> nat \<Rightarrow> nat \<Rightarrow> slab_pool \<Rightarrow> (nat \<times> slab_pool) option" where
  "new_page g shift slot s =
    do { (page, s) \<leftarrow> ncx_slab_alloc_pages s 1;
         (case page of
            None \<Rightarrow> Some (0, s)
          | Some h \<Rightarrow>
              if shift < ncx_slab_exact_shift g then small_new g shift slot h s
              else if shift = ncx_slab_exact_shift g then exact_new g slot h s
              else big_new g shift slot h s) }"

definition slot_loop :: "slab_globals \<Rightarrow> nat \<Rightarrow> slab_node \<Rightarrow> slab_pool \<Rightarrow> (nat \<times> slab_pool) option option" where
  "slot_loop g shift page s =
    (if shift < ncx_slab_exact_shift g then small_loop g shift page s
     else if shift = ncx_slab_exact_shift g then exact_loop g shift page s
     else do { full \<leftarrow> big_mask g (sp_slab (nodes s page)); big_loop g shift full page s })"

text \<open>The exponent of the chunk size for a request.\<close>

definition chunk_shift :: "slab_pool \<Rightarrow> nat \<Rightarrow> nat" where
  "chunk_shift s len = (if min_size s < len then shift_loop (len - 1) 1 else min_shift s)"

definition ncx_slab_alloc_locked :: "slab_globals \<Rightarrow> slab_pool \<Rightarrow> nat \<Rightarrow> (nat \<times> slab_pool) option" where
  "ncx_slab_alloc_locked g s len =
    (if ncx_slab_max_size g \<le> len then
       do { (page, s) \<leftarrow> ncx_slab_alloc_pages s
              (len div 2 ^ ncx_pagesize_shift g + (if len mod ncx_pagesize g \<noteq> 0 then 1 else 0));
            Some (case page of Some h \<Rightarrow> chunk_address g h 0 0 s | None \<Rightarrow> 0, s) }
     else
       let shift = chunk_shift s len; slot = shift - min_shift s in
       if shift < min_shift s \<or> ncx_pagesize_shift g - min_shift s \<le> slot then None
       else
         do { page \<leftarrow> sp_next (nodes s (Slab_slot slot));
              r \<leftarrow> (if sp_next (nodes s page) \<noteq> Some page then slot_loop g shift page s else Some None);
              (case r of Some r \<Rightarrow> Some r | None \<Rightarrow> new_page g shift slot s) })"

text \<open>The macros of the lock are empty.\<close>

definition ncx_slab_alloc :: "slab_globals \<Rightarrow> slab_pool \<Rightarrow> nat \<Rightarrow> (nat \<times> slab_pool) option" where
  "ncx_slab_alloc g s len = ncx_slab_alloc_locked g s len"

section \<open>Freeing\<close>

text \<open>How \<open>ncx_slab_free_locked\<close> ends; all but the first are the messages it logs.\<close>

datatype slab_free_result = Slab_freed | Outside_of_pool | Wrong_chunk | Chunk_already_free | Page_already_free | Wrong_page

text \<open>A page that was full joins the ring of its slot again.\<close>

definition revive_page :: "nat \<Rightarrow> nat \<Rightarrow> slab_node \<Rightarrow> slab_pool \<Rightarrow> slab_pool option" where
  "revive_page slot tag page s =
    do { let s = set_next page (sp_next (nodes s (Slab_slot slot))) s;
         let s = set_next (Slab_slot slot) (Some page) s;
         let s = set_prev page (Some (Slab_slot slot), tag) s;
         nxt \<leftarrow> sp_next (nodes s page);
         Some (set_prev nxt (Some page, tag) s) }"

definition free_small :: "slab_globals \<Rightarrow> nat \<Rightarrow> nat \<Rightarrow> slab_pool \<Rightarrow> (slab_free_result \<times> slab_pool) option" where
  "free_small g h p s =
    (let page = Slab_page h;
         shift = unat (sp_slab (nodes s page) AND NCX_SLAB_SHIFT_MASK);
         k = p mod ncx_pagesize g div 2 ^ shift;
         m = push_bit (k mod 64) 1
     in if p mod 2 ^ shift \<noteq> 0 then Some (Wrong_chunk, s)
        else if bitmaps s h (k div 64) AND m = 0 then Some (Chunk_already_free, s)
        else
          do { s \<leftarrow> (if sp_next (nodes s page) = None then
                       if shift < min_shift s then None else revive_page (shift - min_shift s) NCX_SLAB_SMALL page s
                     else Some s);
               let s = set_bitmap h (k div 64) (bitmaps s h (k div 64) AND NOT m) s;
               count \<leftarrow> chunk_count g shift;
               let n = bitmap_chunks count shift in
               if 64 \<le> n then None
               else if bitmaps s h 0 AND NOT (push_bit n 1 - 1) \<noteq> 0 then Some (Slab_freed, s)
               else if \<not> list_all (\<lambda>j. bitmaps s h j = 0) [1 ..< count div 64] then Some (Slab_freed, s)
               else do { s \<leftarrow> ncx_slab_free_pages s h 1; Some (Slab_freed, s) } })"

definition free_exact :: "slab_globals \<Rightarrow> nat \<Rightarrow> nat \<Rightarrow> slab_pool \<Rightarrow> (slab_free_result \<times> slab_pool) option" where
  "free_exact g h p s =
    (let page = Slab_page h;
         slab = sp_slab (nodes s page);
         k = p mod ncx_pagesize g div 2 ^ ncx_slab_exact_shift g;
         m = push_bit k 1
     in if 64 \<le> k then None
        else if p mod ncx_slab_exact_size g \<noteq> 0 then Some (Wrong_chunk, s)
        else if slab AND m = 0 then Some (Chunk_already_free, s)
        else
          do { s \<leftarrow> (if slab = NCX_SLAB_BUSY then
                       if ncx_slab_exact_shift g < min_shift s then None
                       else revive_page (ncx_slab_exact_shift g - min_shift s) NCX_SLAB_EXACT page s
                     else Some s);
               let s = set_slab page (sp_slab (nodes s page) AND NOT m) s;
               if sp_slab (nodes s page) \<noteq> 0 then Some (Slab_freed, s)
               else do { s \<leftarrow> ncx_slab_free_pages s h 1; Some (Slab_freed, s) } })"

definition free_big :: "slab_globals \<Rightarrow> nat \<Rightarrow> nat \<Rightarrow> slab_pool \<Rightarrow> (slab_free_result \<times> slab_pool) option" where
  "free_big g h p s =
    (let page = Slab_page h;
         slab = sp_slab (nodes s page);
         shift = unat (slab AND NCX_SLAB_SHIFT_MASK);
         k = p mod ncx_pagesize g div 2 ^ shift + NCX_SLAB_MAP_SHIFT;
         m = push_bit k 1
     in if p mod 2 ^ shift \<noteq> 0 then Some (Wrong_chunk, s)
        else if 64 \<le> k then None
        else if slab AND m = 0 then Some (Chunk_already_free, s)
        else
          do { s \<leftarrow> (if sp_next (nodes s page) = None then
                       if shift < min_shift s then None else revive_page (shift - min_shift s) NCX_SLAB_BIG page s
                     else Some s);
               let s = set_slab page (sp_slab (nodes s page) AND NOT m) s;
               if sp_slab (nodes s page) AND NCX_SLAB_MAP_MASK \<noteq> 0 then Some (Slab_freed, s)
               else do { s \<leftarrow> ncx_slab_free_pages s h 1; Some (Slab_freed, s) } })"

definition free_run :: "slab_globals \<Rightarrow> nat \<Rightarrow> nat \<Rightarrow> slab_pool \<Rightarrow> (slab_free_result \<times> slab_pool) option" where
  "free_run g h p s =
    (let slab = sp_slab (nodes s (Slab_page h)) in
     if p mod ncx_pagesize g \<noteq> 0 then Some (Wrong_chunk, s)
     else if slab = NCX_SLAB_PAGE_FREE then Some (Page_already_free, s)
     else if slab = NCX_SLAB_PAGE_BUSY then Some (Wrong_page, s)
     else do { s \<leftarrow> ncx_slab_free_pages s h (unat (slab AND NOT NCX_SLAB_PAGE_START)); Some (Slab_freed, s) })"

definition ncx_slab_free_locked :: "slab_globals \<Rightarrow> slab_pool \<Rightarrow> nat \<Rightarrow> (slab_free_result \<times> slab_pool) option" where
  "ncx_slab_free_locked g s p =
    (if p < sl_start s \<or> sl_end s < p then Some (Outside_of_pool, s)
     else
       let h = (p - sl_start s) div 2 ^ ncx_pagesize_shift g;
           type = snd (sp_prev (nodes s (Slab_page h)))
       in if sl_pages s \<le> h then None
          else if type = NCX_SLAB_SMALL then free_small g h p s
          else if type = NCX_SLAB_EXACT then free_exact g h p s
          else if type = NCX_SLAB_BIG then free_big g h p s
          else free_run g h p s)"

definition ncx_slab_free :: "slab_globals \<Rightarrow> slab_pool \<Rightarrow> nat \<Rightarrow> (slab_free_result \<times> slab_pool) option" where
  "ncx_slab_free g s p = ncx_slab_free_locked g s p"

end
