(* ===== verification/SlabInv.thy ===== *)
theory SlabInv
  imports Slab
begin

text \<open>
  The invariant of the slab pool for pages of 4096 bytes, and the steps that keep it: a chunk is marked or
  cleared, a full page leaves the ring of its slot and joins it again, a page comes from the free list and
  goes back.
\<close>

section \<open>Pages divided into chunks\<close>

definition page4k :: slab_globals where
  "page4k = \<lparr> ncx_slab_max_size = 2048, ncx_slab_exact_size = 64, ncx_slab_exact_shift = 6,
     ncx_pagesize = 4096, ncx_pagesize_shift = 12 \<rparr>"

lemma page4k_simps [simp]:
  "ncx_slab_max_size page4k = 2048" "ncx_slab_exact_size page4k = 64" "ncx_slab_exact_shift page4k = 6"
  "ncx_pagesize page4k = 4096" "ncx_pagesize_shift page4k = 12"
  by (simp_all add: page4k_def)

definition chunks :: "nat \<Rightarrow> nat" where "chunks sh = 2 ^ (12 - sh)"

definition reserved :: "nat \<Rightarrow> nat" where
  "reserved sh = (if sh < 6 then bitmap_chunks (chunks sh) sh else 0)"

definition tag_of :: "nat \<Rightarrow> nat" where
  "tag_of sh = (if sh < 6 then NCX_SLAB_SMALL else if sh = 6 then NCX_SLAB_EXACT else NCX_SLAB_BIG)"

abbreviation all_chunks :: "nat \<Rightarrow> nat set" where "all_chunks sh \<equiv> {..<chunks sh}"

text \<open>A page in use is a run of pages, or it is divided into chunks of \<open>2 ^ sh\<close> bytes of which the set \<open>U\<close> is taken.\<close>

type_synonym kinds = "nat \<Rightarrow> (nat \<times> nat set) option"

definition encodes :: "slab_pool \<Rightarrow> nat \<Rightarrow> nat \<Rightarrow> nat set \<Rightarrow> bool" where
  "encodes s h sh U \<longleftrightarrow>
    (let slab = sp_slab (nodes s (Slab_page h)) in
     if sh < 6 then slab = of_nat sh \<and> (\<forall>k < chunks sh. k \<in> U \<longleftrightarrow> bit (bitmaps s h (k div 64)) (k mod 64))
     else if sh = 6 then \<forall>k < 64. k \<in> U \<longleftrightarrow> bit slab k
     else slab AND NCX_SLAB_SHIFT_MASK = of_nat sh \<and> (\<forall>i. 4 \<le> i \<longrightarrow> (bit slab i \<longleftrightarrow> 32 \<le> i \<and> i - 32 \<in> U)))"

definition chunk_ok :: "slab_pool \<Rightarrow> nat \<Rightarrow> nat \<Rightarrow> nat set \<Rightarrow> bool" where
  "chunk_ok s h sh U \<longleftrightarrow> encodes s h sh U \<and> U \<subseteq> all_chunks sh \<and> {..<reserved sh} \<subseteq> U \<and> \<not> U \<subseteq> {..<reserved sh}"

lemma encodes_cong:
  "sp_slab (nodes s' (Slab_page h)) = sp_slab (nodes s (Slab_page h)) \<Longrightarrow> bitmaps s' h = bitmaps s h \<Longrightarrow>
    encodes s' h sh U \<longleftrightarrow> encodes s h sh U"
  by (simp add: encodes_def)

lemma chunk_ok_cong:
  "sp_slab (nodes s' (Slab_page h)) = sp_slab (nodes s (Slab_page h)) \<Longrightarrow> bitmaps s' h = bitmaps s h \<Longrightarrow>
    chunk_ok s' h sh U \<longleftrightarrow> chunk_ok s h sh U"
  by (simp add: chunk_ok_def cong: encodes_cong)

section \<open>The invariant\<close>

text \<open>
  In the ring of a slot are the pages of its chunk size that are not full; in the midst of an operation also
  those of \<open>X\<close>.
\<close>

definition ringed :: "nat set \<Rightarrow> kinds \<Rightarrow> nat \<Rightarrow> nat set" where
  "ringed X K sh = {h. \<exists>U. K h = Some (sh, U) \<and> (U \<noteq> all_chunks sh \<or> h \<in> X)}"

definition pool_ok :: "nat \<Rightarrow> slab_pool \<Rightarrow> bool" where
  "pool_ok N s \<longleftrightarrow> 3 \<le> min_shift s \<and> min_shift s < 12 \<and> min_size s = 2 ^ min_shift s \<and> N \<le> sl_pages s \<and>
     0 < sl_start s \<and> sl_start s mod 4096 = 0 \<and> sl_start s + N * 4096 \<le> sl_end s \<and> sl_end s < 2 ^ 64"

definition kinds_ok :: "nat set \<Rightarrow> blocks \<Rightarrow> kinds \<Rightarrow> slab_pool \<Rightarrow> bool" where
  "kinds_ok X B K s \<longleftrightarrow> (\<forall>h sh U. K h = Some (sh, U) \<longrightarrow>
     B h = Some (1, False) \<and> min_shift s \<le> sh \<and> sh < 12 \<and> chunk_ok s h sh U \<and>
     (U = all_chunks sh \<longrightarrow> h \<notin> X \<longrightarrow>
        sp_next (nodes s (Slab_page h)) = None \<and> sp_prev (nodes s (Slab_page h)) = (None, tag_of sh)))"

definition runs_ok :: "blocks \<Rightarrow> kinds \<Rightarrow> slab_pool \<Rightarrow> bool" where
  "runs_ok B K s \<longleftrightarrow> (\<forall>h l. B h = Some (l, False) \<longrightarrow> K h = None \<longrightarrow> nodes s (Slab_page h) = used_page l)"

definition slot_ring :: "nat set \<Rightarrow> kinds \<Rightarrow> slab_pool \<Rightarrow> nat \<Rightarrow> bool" where
  "slot_ring X K s sh \<longleftrightarrow>
    (\<exists>xs. ring (nodes s) (Slab_slot (sh - min_shift s)) (tag_of sh) (map Slab_page xs) \<and> set xs = ringed X K sh)"

definition slab_inv_at :: "nat set \<Rightarrow> nat \<Rightarrow> blocks \<Rightarrow> kinds \<Rightarrow> slab_pool \<Rightarrow> bool" where
  "slab_inv_at X N B K s \<longleftrightarrow> pool_ok N s \<and> (\<exists>fl. pages_inv (nodes s) N B fl) \<and> kinds_ok X B K s \<and> runs_ok B K s \<and>
     (\<forall>sh. min_shift s \<le> sh \<longrightarrow> sh < 12 \<longrightarrow> slot_ring X K s sh)"

definition slab_inv :: "nat \<Rightarrow> blocks \<Rightarrow> kinds \<Rightarrow> slab_pool \<Rightarrow> bool" where
  "slab_inv N B K s \<longleftrightarrow> slab_inv_at {} N B K s"

definition same_fields :: "slab_pool \<Rightarrow> slab_pool \<Rightarrow> bool" where
  "same_fields s s' \<longleftrightarrow> min_size s' = min_size s \<and> min_shift s' = min_shift s \<and> sl_pages s' = sl_pages s \<and>
     sl_start s' = sl_start s \<and> sl_end s' = sl_end s"

lemma same_pool_same_fields: "same_pool s s' \<Longrightarrow> same_fields s s'"
  by (simp add: same_fields_def same_pool_fields)

lemma pool_ok_cong: "same_fields s s' \<Longrightarrow> pool_ok N s \<Longrightarrow> pool_ok N s'"
  by (simp add: same_fields_def pool_ok_def)

text \<open>A step that touches one page \<open>h\<close>, the ring of one chunk size and the free list keeps the invariant of the rest.\<close>

lemma slab_inv_frame:
  assumes inv: "slab_inv_at X N B K s" and X: "X \<subseteq> {h}" "X' \<subseteq> {h}" and fields: "same_fields s s'"
    and pages: "pages_inv (nodes s') N B' fl"
    and K: "\<And>i. i \<noteq> h \<Longrightarrow> K' i = K i" "\<And>sh' U. K h = Some (sh', U) \<Longrightarrow> sh' = sh"
    and B: "\<And>i. i \<noteq> h \<Longrightarrow> K i \<noteq> None \<Longrightarrow> B' i = B i" "\<And>i l. i \<noteq> h \<Longrightarrow> B' i = Some (l, False) \<Longrightarrow> B i = Some (l, False)"
    and away: "\<And>i l. i \<noteq> h \<Longrightarrow> B i = Some (l, False) \<Longrightarrow> B' i = Some (l, False) \<Longrightarrow> i \<notin> ringed {} K sh \<Longrightarrow>
        nodes s' (Slab_page i) = nodes s (Slab_page i)"
    and slab: "\<And>i. i \<noteq> h \<Longrightarrow> K i \<noteq> None \<Longrightarrow> sp_slab (nodes s' (Slab_page i)) = sp_slab (nodes s (Slab_page i))"
    and maps: "\<And>i. i \<noteq> h \<Longrightarrow> bitmaps s' i = bitmaps s i"
    and slots: "\<And>sh'. min_shift s \<le> sh' \<Longrightarrow> sh' < 12 \<Longrightarrow> sh' \<noteq> sh \<Longrightarrow>
        nodes s' (Slab_slot (sh' - min_shift s)) = nodes s (Slab_slot (sh' - min_shift s))"
    and ring: "min_shift s \<le> sh \<Longrightarrow> sh < 12 \<Longrightarrow> slot_ring X' K' s' sh"
    and chunk: "\<And>sh' U. K' h = Some (sh', U) \<Longrightarrow> sh' = sh \<and> B' h = Some (1, False) \<and> min_shift s \<le> sh \<and> sh < 12 \<and>
        chunk_ok s' h sh U \<and> (U = all_chunks sh \<longrightarrow> h \<notin> X' \<longrightarrow>
          sp_next (nodes s' (Slab_page h)) = None \<and> sp_prev (nodes s' (Slab_page h)) = (None, tag_of sh))"
    and run: "\<And>l. B' h = Some (l, False) \<Longrightarrow> K' h = None \<Longrightarrow> nodes s' (Slab_page h) = used_page l"
  shows "slab_inv_at X' N B' K' s'"
proof -
  have ms: "min_shift s' = min_shift s" using fields by (simp add: same_fields_def)
  have ko: "kinds_ok X B K s" and ro: "runs_ok B K s" and po: "pool_ok N s" using inv by (simp_all add: slab_inv_at_def)
  have kind: "B' i = Some (1, False)" "B i = Some (1, False)" "min_shift s \<le> si" "si < 12" "chunk_ok s' i si U"
    if i: "i \<noteq> h" "K i = Some (si, U)" for i si U
    using ko i B(1) [OF i(1)] chunk_ok_cong [OF slab [OF i(1)] maps [OF i(1)]] unfolding kinds_ok_def by auto
  have "kinds_ok X' B' K' s'"
    unfolding kinds_ok_def ms
  proof (intro allI impI)
    fix i si U assume Ki: "K' i = Some (si, U)"
    show "B' i = Some (1, False) \<and> min_shift s \<le> si \<and> si < 12 \<and> chunk_ok s' i si U \<and>
      (U = all_chunks si \<longrightarrow> i \<notin> X' \<longrightarrow>
        sp_next (nodes s' (Slab_page i)) = None \<and> sp_prev (nodes s' (Slab_page i)) = (None, tag_of si))"
    proof (cases "i = h")
      case True
      then show ?thesis using chunk Ki by auto
    next
      case False
      then have i: "K i = Some (si, U)" using Ki K(1) by simp
      have "nodes s' (Slab_page i) = nodes s (Slab_page i)" if "U = all_chunks si"
        using away [OF False kind(2,1) [OF False i]] that i by (auto simp: ringed_def)
      then show ?thesis using kind [OF False i] ko i X False unfolding kinds_ok_def by auto
    qed
  qed
  moreover have "runs_ok B' K' s'"
    unfolding runs_ok_def
  proof (intro allI impI)
    fix i l assume i: "B' i = Some (l, False)" "K' i = None"
    show "nodes s' (Slab_page i) = used_page l"
    proof (cases "i = h")
      case True
      then show ?thesis using run i by simp
    next
      case False
      then have "B i = Some (l, False)" "K i = None" using B(2) K(1) i by auto
      moreover from this have "nodes s' (Slab_page i) = nodes s (Slab_page i)"
        using away [OF False _ i(1)] by (auto simp: ringed_def)
      ultimately show ?thesis using ro by (simp add: runs_ok_def)
    qed
  qed
  moreover have "slot_ring X' K' s' si" if si: "min_shift s \<le> si" "si < 12" for si
  proof (cases "si = sh")
    case True
    then show ?thesis using ring si by simp
  next
    case False
    obtain xs where xs: "ring (nodes s) (Slab_slot (si - min_shift s)) (tag_of si) (map Slab_page xs)" "set xs = ringed X K si"
      using inv si by (auto simp: slab_inv_at_def slot_ring_def)
    have "ringed X' K' si = ringed X K si"
    proof (rule set_eqI)
      fix i
      show "i \<in> ringed X' K' si \<longleftrightarrow> i \<in> ringed X K si"
      proof (cases "i = h")
        case True
        have "K h \<noteq> Some (si, U)" "K' h \<noteq> Some (si, U)" for U using K(2) [of si U] chunk [of si U] False by blast+
        then show ?thesis using True by (simp add: ringed_def)
      next
        case F: False
        then have "i \<notin> X" "i \<notin> X'" using X by auto
        then show ?thesis using K(1) [OF F] by (simp add: ringed_def)
      qed
    qed
    moreover have "nodes s' n = nodes s n" if n: "n \<in> set (Slab_slot (si - min_shift s) # map Slab_page xs)" for n
    proof (cases "n = Slab_slot (si - min_shift s)")
      case True
      then show ?thesis using slots [OF si False] by simp
    next
      case F: False
      then obtain i U where i: "n = Slab_page i" "K i = Some (si, U)" using n xs(2) by (auto simp: ringed_def)
      then have "i \<noteq> h" "i \<notin> ringed {} K sh" using K(2) False by (auto simp: ringed_def)
      then show ?thesis using away [of i 1] kind(1,2) [of i] i by simp
    qed
    moreover from this have "ring (nodes s') (Slab_slot (si - min_shift s)) (tag_of si) (map Slab_page xs)"
      using xs(1) by (subst ring_cong [of _ _ _ "nodes s"]) auto
    ultimately show ?thesis using xs(2) unfolding slot_ring_def ms by auto
  qed
  ultimately show ?thesis using pool_ok_cong [OF fields po] pages by (auto simp: slab_inv_at_def ms)
qed


lemma slab_inv_parts:
  assumes "slab_inv_at X N B K s"
  shows "pool_ok N s" "\<exists>fl. pages_inv (nodes s) N B fl" "kinds_ok X B K s" "runs_ok B K s"
    "min_shift s \<le> sh \<Longrightarrow> sh < 12 \<Longrightarrow> slot_ring X K s sh"
  using assms by (simp_all add: slab_inv_at_def)

lemma slab_inv_kind:
  assumes "slab_inv_at X N B K s" "K h = Some (sh, U)"
  shows "B h = Some (1, False)" "min_shift s \<le> sh" "sh < 12" "chunk_ok s h sh U"
    "U = all_chunks sh \<Longrightarrow> h \<notin> X \<Longrightarrow>
      sp_next (nodes s (Slab_page h)) = None \<and> sp_prev (nodes s (Slab_page h)) = (None, tag_of sh)"
  using slab_inv_parts(3) [OF assms(1)] assms(2) by (auto simp: kinds_ok_def)

lemma slab_inv_blocks: "slab_inv_at X N B K s \<Longrightarrow> blocks_ok N B"
  by (auto simp: slab_inv_at_def pages_inv_def)

lemma not_page_nodes [simp]: "Slab_slot j \<notin> page_nodes N B" "B h = Some (l, False) \<Longrightarrow> Slab_page h \<notin> page_nodes N B"
  by (auto simp: page_nodes_def)

lemma ringed_kind: "i \<in> ringed X K sh \<Longrightarrow> \<exists>U. K i = Some (sh, U)"
  by (auto simp: ringed_def)

text \<open>The place of a page in the ring of its slot.\<close>

lemma slot_ring_split:
  assumes "slot_ring X K s sh" "h \<in> ringed X K sh"
  obtains as bs where
    "ring (nodes s) (Slab_slot (sh - min_shift s)) (tag_of sh) (map Slab_page as @ Slab_page h # map Slab_page bs)"
    "set (as @ bs) = ringed X K sh - {h}"
proof -
  obtain xs where xs: "ring (nodes s) (Slab_slot (sh - min_shift s)) (tag_of sh) (map Slab_page xs)" "set xs = ringed X K sh"
    using assms(1) by (auto simp: slot_ring_def)
  then obtain as bs where split: "xs = as @ h # bs" using assms(2) split_list [of h xs] by auto
  have "distinct xs" using xs(1) by (simp add: ring_def distinct_map)
  then have "set (as @ bs) = ringed X K sh - {h}" using xs(2) split by auto
  then show ?thesis using that [of "as" bs] xs(1) split by simp
qed

text \<open>A change of the bitmap of one page.\<close>

definition slab_step :: "nat \<Rightarrow> slab_pool \<Rightarrow> slab_pool \<Rightarrow> bool" where
  "slab_step h s s1 \<longleftrightarrow> same_fields s s1 \<and>
     (\<forall>n. sp_next (nodes s1 n) = sp_next (nodes s n) \<and> sp_prev (nodes s1 n) = sp_prev (nodes s n)) \<and>
     (\<forall>n. n \<noteq> Slab_page h \<longrightarrow> nodes s1 n = nodes s n) \<and> (\<forall>i. i \<noteq> h \<longrightarrow> bitmaps s1 i = bitmaps s i)"

lemma slab_step_set [simp]: "slab_step h s (set_slab (Slab_page h) w s)" "slab_step h s (set_bitmap h n w s)"
  by (simp_all add: slab_step_def same_fields_def node_defs set_bitmap_def)

lemma slab_step_inv:
  assumes inv: "slab_inv_at {h} N B K s" and K: "K h = Some (sh, U)" and step: "slab_step h s s1" and ok: "chunk_ok s1 h sh U'"
  shows "slab_inv_at {h} N B (K(h \<mapsto> (sh, U'))) s1"
proof -
  note kind = slab_inv_kind [OF inv K]
  have fields: "same_fields s s1" and link: "\<And>n. sp_next (nodes s1 n) = sp_next (nodes s n)" "\<And>n. sp_prev (nodes s1 n) = sp_prev (nodes s n)"
    and others: "\<And>n. n \<noteq> Slab_page h \<Longrightarrow> nodes s1 n = nodes s n" "\<And>i. i \<noteq> h \<Longrightarrow> bitmaps s1 i = bitmaps s i"
    using step by (simp_all add: slab_step_def)
  obtain fl where fl: "pages_inv (nodes s) N B fl" using slab_inv_parts(2) [OF inv] by blast
  have pages: "pages_inv (nodes s1) N B fl"
    by (rule pages_inv_cong [OF others(1) fl]) (use kind(1) in auto)
  have ms: "min_shift s1 = min_shift s" using fields by (simp add: same_fields_def)
  have "ringed {h} (K(h \<mapsto> (sh, U'))) sh = ringed {h} K sh" using K by (auto simp: ringed_def)
  moreover have "ring (nodes s1) g t xs = ring (nodes s) g t xs" for g t xs
    by (rule ring_cong) (simp_all add: link)
  ultimately have ring: "slot_ring {h} (K(h \<mapsto> (sh, U'))) s1 sh"
    using slab_inv_parts(5) [OF inv kind(2,3)] by (simp add: slot_ring_def ms)
  show ?thesis
    by (rule slab_inv_frame [OF inv _ _ fields pages, where sh = sh])
      (use K kind ok others ring in \<open>auto simp: kind(1)\<close>)
qed

lemma slab_inv_not_full:
  assumes "K h = Some (sh, U)" "U \<noteq> all_chunks sh"
  shows "slab_inv_at {h} N B K s \<longleftrightarrow> slab_inv_at {} N B K s"
proof -
  have r: "ringed {h} K sh' = ringed {} K sh'" for sh' using assms by (auto simp: ringed_def)
  have k: "kinds_ok {h} B K s \<longleftrightarrow> kinds_ok {} B K s" unfolding kinds_ok_def
    by (intro iff_allI imp_cong refl conj_cong) (use assms in auto)
  show ?thesis by (simp add: slab_inv_at_def slot_ring_def r k)
qed

text \<open>Pages of one slot change places in the ring.\<close>

lemma relink_inv:
  assumes inv: "slab_inv_at X N B K s" and X: "X \<subseteq> {h}" "X' \<subseteq> {h}" and K: "K h = Some (sh, U)" and same: "same_pool s s'"
    and slab: "\<And>n. sp_slab (nodes s' n) = sp_slab (nodes s n)"
    and away: "\<And>n. n \<notin> insert (Slab_slot (sh - min_shift s)) (Slab_page ` insert h (ringed {} K sh)) \<Longrightarrow> nodes s' n = nodes s n"
    and ring: "slot_ring X' K s' sh"
    and full: "U = all_chunks sh \<Longrightarrow> h \<notin> X' \<Longrightarrow>
      sp_next (nodes s' (Slab_page h)) = None \<and> sp_prev (nodes s' (Slab_page h)) = (None, tag_of sh)"
  shows "slab_inv_at X' N B K s'"
proof -
  note kind = slab_inv_kind [OF inv K]
  obtain fl where fl: "pages_inv (nodes s) N B fl" using slab_inv_parts(2) [OF inv] by blast
  have pages: "pages_inv (nodes s') N B fl"
  proof (rule pages_inv_cong [OF _ fl])
    fix n assume n: "n \<in> page_nodes N B"
    have "B i = Some (1, False)" if "i \<in> ringed {} K sh" for i
      using slab_inv_kind(1) [OF inv] ringed_kind [OF that] by blast
    then show "nodes s' n = nodes s n" using n kind(1) by (intro away) (auto simp: page_nodes_def)
  qed
  have bits: "bitmaps s' = bitmaps s" using same_pool_fields [OF same] by simp
  show ?thesis
  proof (rule slab_inv_frame [OF inv X same_pool_same_fields [OF same] pages, where sh = sh], goal_cases)
    case (5 i l)
    then show ?case by (intro away) auto
  next
    case (9)
    then show ?case using ring by simp
  next
    case (8 sh')
    then show ?case using kind(2) by (intro away) auto
  next
    case (10 sh' U')
    then show ?case using K kind full chunk_ok_cong [OF slab fun_cong [OF bits]] by auto
  qed (use K slab bits in auto)
qed

lemma retire_inv:
  assumes inv: "slab_inv_at {h} N B K s" and K: "K h = Some (sh, all_chunks sh)"
  obtains s' where "retire_page (tag_of sh) (Slab_page h) s = Some s'" "slab_inv_at {} N B K s'" "same_pool s s'"
proof -
  note kind = slab_inv_kind [OF inv K]
  let ?g = "Slab_slot (sh - min_shift s)" and ?t = "tag_of sh"
  have in_ring: "h \<in> ringed {h} K sh" using K by (simp add: ringed_def)
  obtain as bs where ring: "ring (nodes s) ?g ?t (map Slab_page as @ Slab_page h # map Slab_page bs)"
    and set: "set (as @ bs) = ringed {h} K sh - {h}"
    using slot_ring_split [OF slab_inv_parts(5) [OF inv kind(2,3)] in_ring] by blast
  have members: "ringed {h} K sh - {h} = ringed {} K sh" using K by (auto simp: ringed_def)
  define p where "p = last (?g # map Slab_page as)"
  define nxt where "nxt = hd (map Slab_page bs @ [?g])"
  have at: "sp_next (nodes s (Slab_page h)) = Some nxt" "sp_prev (nodes s (Slab_page h)) = (Some p, ?t)"
    using ring_at [OF ring] by (simp_all add: p_def nxt_def)
  have pin: "p \<in> insert ?g (Slab_page ` set (as @ bs))"
    unfolding p_def using last_in_set [of "?g # map Slab_page as"] by (auto simp del: last.simps)
  have nxtin: "nxt \<in> insert ?g (Slab_page ` set (as @ bs))"
    unfolding nxt_def using hd_in_set [of "map Slab_page bs @ [?g]"] by auto
  have away: "p \<noteq> Slab_page h" "nxt \<noteq> Slab_page h" using pin nxtin set by auto
  define s' where "s' = set_prev (Slab_page h) (None, ?t) (set_next (Slab_page h) None
    (set_prev nxt (Some p, ?t) (set_next p (Some nxt) s)))"
  have retire: "retire_page ?t (Slab_page h) s = Some s'"
    using at by (simp add: retire_page_def unlink_page_def s'_def)
  have nodes: "sp_slab (nodes s' n) = sp_slab (nodes s n)"
    "sp_next (nodes s' n) = (if n = Slab_page h then None else if n = p then Some nxt else sp_next (nodes s n))"
    "sp_prev (nodes s' n) = (if n = Slab_page h then (None, ?t) else if n = nxt then (Some p, ?t) else sp_prev (nodes s n))" for n
    using away by (auto simp: s'_def)
  have other: "n \<noteq> Slab_page h" if "n \<in> set (?g # map Slab_page as @ map Slab_page bs)" for n
    using that set by auto
  have d: "distinct (?g # map Slab_page as @ Slab_page h # map Slab_page bs)" using ring by (simp add: ring_def)
  have "ring (nodes s') ?g ?t (map Slab_page as @ map Slab_page bs)"
  proof (rule ring_remove [OF ring], goal_cases)
    case 1
    show ?case unfolding p_def [symmetric] nxt_def [symmetric] using away by (simp add: nodes)
  next
    case (2 n)
    then show ?case unfolding p_def [symmetric] using other [OF 2(1)] by (simp add: nodes)
  next
    case 3
    then show ?case unfolding p_def [symmetric] using nodes(3) [of nxt] away by (simp add: nxt_def)
  next
    case (4 n)
    have "n \<noteq> nxt"
    proof
      assume n: "n = nxt"
      then have "bs \<noteq> []" using 4(1) by (auto simp: nxt_def)
      then show False using 4(2) n by (simp add: nxt_def)
    qed
    then show ?case using other [of n] 4(1) by (simp add: nodes)
  qed
  then have "ring (nodes s') ?g ?t (map Slab_page (as @ bs))" by simp
  moreover have same: "same_pool s s'" by (simp add: s'_def same_pool_def node_defs)
  ultimately have ring': "slot_ring {} K s' sh"
    using set members unfolding slot_ring_def same_pool_fields(2) [OF same] by blast
  have "slab_inv_at {} N B K s'"
  proof (rule relink_inv [OF inv _ _ K same nodes(1) _ ring'])
    fix n assume n: "n \<notin> insert ?g (Slab_page ` insert h (ringed {} K sh))"
    then have "n \<noteq> p" "n \<noteq> nxt" "n \<noteq> Slab_page h" using pin nxtin set members by auto
    then show "nodes s' n = nodes s n" using nodes [of n] by (intro slab_page.equality) simp_all
  qed (simp_all add: nodes)
  then show ?thesis using that retire same by blast
qed

lemma revive_inv:
  assumes inv: "slab_inv_at {} N B K s" and K: "K h = Some (sh, all_chunks sh)"
  obtains s' where "revive_page (sh - min_shift s) (tag_of sh) (Slab_page h) s = Some s'" "slab_inv_at {h} N B K s'"
    "same_pool s s'" "\<And>n. sp_slab (nodes s' n) = sp_slab (nodes s n)"
proof -
  note kind = slab_inv_kind [OF inv K]
  let ?g = "Slab_slot (sh - min_shift s)" and ?t = "tag_of sh"
  obtain xs where ring: "ring (nodes s) ?g ?t (map Slab_page xs)" and set: "set xs = ringed {} K sh"
    using slab_inv_parts(5) [OF inv kind(2,3)] by (auto simp: slot_ring_def)
  have out: "h \<notin> set xs" using set K by (simp add: ringed_def)
  define nxt where "nxt = hd (map Slab_page xs @ [?g])"
  have nxtin: "nxt \<in> insert ?g (Slab_page ` set xs)"
    unfolding nxt_def using hd_in_set [of "map Slab_page xs @ [?g]"] by auto
  have away: "nxt \<noteq> Slab_page h" using nxtin out by auto
  define s' where "s' = set_prev nxt (Some (Slab_page h), ?t) (set_prev (Slab_page h) (Some ?g, ?t)
    (set_next ?g (Some (Slab_page h)) (set_next (Slab_page h) (Some nxt) s)))"
  have revive: "revive_page (sh - min_shift s) ?t (Slab_page h) s = Some s'"
    using ring_first [OF ring] unfolding nxt_def [symmetric] by (simp add: revive_page_def Let_def s'_def)
  have nodes: "sp_slab (nodes s' n) = sp_slab (nodes s n)"
    "sp_next (nodes s' n) = (if n = ?g then Some (Slab_page h) else if n = Slab_page h then Some nxt else sp_next (nodes s n))"
    "sp_prev (nodes s' n) = (if n = nxt then (Some (Slab_page h), ?t) else if n = Slab_page h then (Some ?g, ?t) else sp_prev (nodes s n))" for n
    using away by (auto simp: s'_def)
  have "ring (nodes s') ?g ?t (Slab_page h # map Slab_page xs)"
  proof (rule ring_insert [OF ring], goal_cases)
    case 1
    show ?case using out by auto
  next
    case 2
    show ?case by (simp add: nodes nxt_def)
  next
    case (5 n)
    then show ?case using out by (auto simp: nodes)
  next
    case (6 n)
    moreover have "n = nxt \<longleftrightarrow> n = hd (map Slab_page xs)" using 6 by (cases xs) (simp_all add: nxt_def)
    moreover have "n \<noteq> Slab_page h" using 6 out by auto
    ultimately show ?case by (simp add: nodes)
  qed (use away in \<open>simp_all add: nodes\<close>)
  then have "ring (nodes s') ?g ?t (map Slab_page (h # xs))" by simp
  moreover have "set (h # xs) = ringed {h} K sh" using set K by (auto simp: ringed_def)
  moreover have same: "same_pool s s'" by (simp add: s'_def same_pool_def node_defs)
  ultimately have ring': "slot_ring {h} K s' sh"
    unfolding slot_ring_def same_pool_fields(2) [OF same] by blast
  have "slab_inv_at {h} N B K s'"
  proof (rule relink_inv [OF inv _ _ K same nodes(1) _ ring'])
    fix n assume n: "n \<notin> insert ?g (Slab_page ` insert h (ringed {} K sh))"
    then have "n \<noteq> nxt" "n \<noteq> ?g" "n \<noteq> Slab_page h" using nxtin set by auto
    then show "nodes s' n = nodes s n" using nodes [of n] by (intro slab_page.equality) simp_all
  qed simp_all
  then show ?thesis using that revive same nodes(1) by blast
qed

section \<open>Pages come and go\<close>

lemma take_block_cases:
  assumes "blocks_ok N B" "B h = Some (l, True)" "0 < m" "m \<le> l"
  shows "take_block h m l B h = Some (m, False)"
    "i \<noteq> h \<Longrightarrow> take_block h m l B i = Some (k, False) \<Longrightarrow> B i = Some (k, False)"
    "i \<noteq> h \<Longrightarrow> B i = Some (k, u) \<Longrightarrow> take_block h m l B i = Some (k, u)"
  using assms block_inner [OF assms(1,2), of "h + m"] by (auto simp: take_block_def split: if_splits)

lemma free_block_kind: "slab_inv_at X N B K s \<Longrightarrow> B h = Some (l, True) \<Longrightarrow> K h = None"
  using slab_inv_kind(1) [of X N B K s h] by (cases "K h") auto

text \<open>A run of pages is taken.\<close>

lemma take_run_inv:
  assumes inv: "slab_inv_at {} N B K s" and B: "B h = Some (l, True)" and m: "0 < m" "m \<le> l"
    and same: "same_pool s s'" and pages: "pages_inv (nodes s') N (take_block h m l B) fl"
    and head: "nodes s' (Slab_page h) = used_page m" and away: "\<And>n. n \<notin> page_nodes N B \<Longrightarrow> nodes s' n = nodes s n"
  shows "slab_inv_at {} N (take_block h m l B) K s'"
proof -
  note cases = take_block_cases [OF slab_inv_blocks [OF inv] B m]
  have kind: "B i = Some (1, False)" if "K i \<noteq> None" for i
    using slab_inv_kind(1) [OF inv] that by force
  show ?thesis
  proof (rule slab_inv_frame [OF inv _ _ same_pool_same_fields [OF same] pages, where sh = 12 and h = h], goal_cases)
    case (3 i)
    then show ?case by simp
  next
    case (4 sh' U)
    then show ?case using free_block_kind [OF inv B] by simp
  next
    case (5 i)
    then show ?case using cases(3) kind by simp
  next
    case (6 i k)
    then show ?case by (rule cases(2))
  next
    case (7 i k)
    then show ?case by (intro away) simp
  next
    case (8 i)
    then show ?case using away [of "Slab_page i"] kind [of i] by simp
  next
    case (10 sh')
    then show ?case by (intro away) simp
  next
    case (12 sh' U)
    then show ?case using free_block_kind [OF inv B] by simp
  qed (use same_pool_fields [OF same] head cases(1) in simp_all)
qed

text \<open>A run of pages is freed.\<close>

lemma free_run_inv:
  assumes inv: "slab_inv_at {} N B K s" and B: "B h = Some (l, False)" and K: "K h = None"
    and same: "same_pool s s'" and pages: "pages_inv (nodes s') N (B(h \<mapsto> (l, True))) fl"
    and away: "\<And>n. n \<notin> page_nodes N (B(h \<mapsto> (l, True))) \<Longrightarrow> nodes s' n = nodes s n"
  shows "slab_inv_at {} N (B(h \<mapsto> (l, True))) K s'"
proof -
  have kind: "B i = Some (1, False)" if "K i \<noteq> None" for i
    using slab_inv_kind(1) [OF inv] that by force
  have out: "Slab_page i \<notin> page_nodes N (B(h \<mapsto> (l, True)))" if "i \<noteq> h" "B i = Some (k, False)" for i k
    using that by simp
  show ?thesis
  proof (rule slab_inv_frame [OF inv _ _ same_pool_same_fields [OF same] pages, where sh = 12 and h = h], goal_cases)
    case (7 i k)
    then show ?case by (intro away out) auto
  next
    case (8 i)
    then show ?case using away [OF out [of i 1]] kind [of i] by simp
  next
    case (10 sh')
    then show ?case by (intro away) simp
  qed (use K same_pool_fields [OF same] in simp_all)
qed

text \<open>A page is taken and divided into chunks.\<close>

lemma slot_page_inv:
  assumes inv: "slab_inv_at {} N B K s" and sh: "min_shift s \<le> sh" "sh < 12" and empty: "ringed {} K sh = {}"
    and B: "B h = Some (l, True)" and pages: "pages_inv (nodes s1) N (take_block h 1 l B) fl"
    and away: "\<And>n. n \<notin> page_nodes N B \<Longrightarrow> nodes s1 n = nodes s n"
    and nodes: "nodes s' = nodes (slot_page (sh - min_shift s) (tag_of sh) h w s1)"
    and fields: "same_fields s s'" and bits: "\<And>i. i \<noteq> h \<Longrightarrow> bitmaps s' i = bitmaps s i"
    and chunk: "chunk_ok s' h sh U" "U \<noteq> all_chunks sh"
  shows "slab_inv_at {} N (take_block h 1 l B) (K(h \<mapsto> (sh, U))) s'"
proof -
  let ?g = "Slab_slot (sh - min_shift s)" and ?B = "take_block h 1 l B"
  have l: "1 \<le> l" using block_in [OF slab_inv_blocks [OF inv] B] by simp
  note cases = take_block_cases [OF slab_inv_blocks [OF inv] B _ l, simplified]
  have kind: "B i = Some (1, False)" if "K i \<noteq> None" for i
    using slab_inv_kind(1) [OF inv] that by force
  have ms: "min_shift s' = min_shift s" using fields by (simp add: same_fields_def)
  have at: "nodes s' n = (if n = ?g then (nodes s1 n)\<lparr> sp_next := Some (Slab_page h) \<rparr>
    else if n = Slab_page h then \<lparr> sp_slab = w, sp_next = Some ?g, sp_prev = (Some ?g, tag_of sh) \<rparr> else nodes s1 n)" for n
    by (simp add: nodes slot_page_def Let_def)
  have others: "nodes s' n = nodes s n" if "n \<noteq> ?g" "n \<noteq> Slab_page h" "n \<notin> page_nodes N B" for n
    using that at [of n] away by simp
  have page: "Slab_page h \<in> page_nodes N ?B \<longleftrightarrow> False" using cases(1) by simp
  have pages': "pages_inv (nodes s') N ?B fl"
    by (rule pages_inv_cong [OF _ pages]) (use page at in auto)
  have "ringed {} (K(h \<mapsto> (sh, U))) sh = {h}"
    using empty chunk(2) by (auto simp: ringed_def)
  then have ring: "slot_ring {} (K(h \<mapsto> (sh, U))) s' sh"
    unfolding slot_ring_def ms by (intro exI [of _ "[h]"]) (simp add: ring_def at)
  show ?thesis
  proof (rule slab_inv_frame [OF inv _ _ fields pages', where sh = sh and h = h], goal_cases)
    case (4 sh' U)
    then show ?case using free_block_kind [OF inv B] by simp
  next
    case (5 i)
    then show ?case using cases(3) kind by simp
  next
    case (6 i k)
    then show ?case using cases(2) by simp
  next
    case (7 i k)
    then show ?case by (intro others) simp_all
  next
    case (8 i)
    then show ?case using others [of "Slab_page i"] kind [of i] by simp
  next
    case (10 sh')
    then show ?case using sh by (intro others) auto
  next
    case (12 sh' U')
    then show ?case using chunk sh cases(1) by (auto split: if_splits)
  qed (use bits ring in simp_all)
qed

text \<open>The last chunk of a page is cleared: the page goes back to the free list.\<close>

lemma free_page_inv:
  assumes inv: "slab_inv_at {h} N B K s" and K: "K h = Some (sh, U)" and step: "slab_step h s s1"
  obtains s' where "ncx_slab_free_pages s1 h 1 = Some s'" "slab_inv_at {} N (B(h \<mapsto> (1, True))) (K(h := None)) s'"
    "same_pool s1 s'"
proof -
  note kind = slab_inv_kind [OF inv K]
  let ?g = "Slab_slot (sh - min_shift s)" and ?t = "tag_of sh" and ?B = "B(h \<mapsto> (1, True))" and ?K = "K(h := None)"
  have fields: "same_fields s s1" and link: "\<And>n. sp_next (nodes s1 n) = sp_next (nodes s n)" "\<And>n. sp_prev (nodes s1 n) = sp_prev (nodes s n)"
    and others: "\<And>n. n \<noteq> Slab_page h \<Longrightarrow> nodes s1 n = nodes s n" "\<And>i. i \<noteq> h \<Longrightarrow> bitmaps s1 i = bitmaps s i"
    using step by (simp_all add: slab_step_def)
  have in_ring: "h \<in> ringed {h} K sh" using K by (simp add: ringed_def)
  obtain as bs where ring: "ring (nodes s) ?g ?t (map Slab_page as @ Slab_page h # map Slab_page bs)"
    and set: "set (as @ bs) = ringed {h} K sh - {h}"
    using slot_ring_split [OF slab_inv_parts(5) [OF inv kind(2,3)] in_ring] by blast
  have members: "ringed {h} K sh - {h} = ringed {} ?K sh" "ringed {h} K sh - {h} \<subseteq> ringed {} K sh"
    using K by (auto simp: ringed_def)
  obtain fl where fl: "pages_inv (nodes s) N B fl" using slab_inv_parts(2) [OF inv] by blast
  have pages: "pages_inv (nodes s1) N B fl"
    by (rule pages_inv_cong [OF others(1) fl]) (use kind(1) in auto)
  have ring1: "ring (nodes s1) ?g ?t (map Slab_page as @ Slab_page h # map Slab_page bs)"
    using ring by (subst ring_cong [of _ _ _ "nodes s"]) (simp_all add: link)
  have one: "B i = Some (1, False)" if "K i \<noteq> None" for i
    using slab_inv_kind(1) [OF inv] that by force
  have slot: "n \<notin> page_nodes N B" if n: "n \<in> set (?g # map Slab_page as @ map Slab_page bs)" for n
  proof (cases "n = ?g")
    case False
    then obtain i where "n = Slab_page i" "i \<in> set (as @ bs)" using n by auto
    then have "i \<in> ringed {h} K sh" using set by blast
    then have "B i = Some (1, False)" using one [of i] ringed_kind by fastforce
    then show ?thesis using \<open>n = Slab_page i\<close> by simp
  qed simp
  obtain s' where s': "ncx_slab_free_pages s1 h 1 = Some s'" "same_pool s1 s'" "pages_inv (nodes s') N ?B (h # fl)"
    "ring (nodes s') ?g ?t (map Slab_page as @ map Slab_page bs)"
    "\<And>n. n \<notin> page_nodes N ?B \<Longrightarrow> n \<notin> set (?g # map Slab_page as @ map Slab_page bs) \<Longrightarrow> nodes s' n = nodes s1 n"
    "\<And>n. n \<noteq> Slab_page h \<Longrightarrow> n \<notin> page_nodes N B \<Longrightarrow> sp_slab (nodes s' n) = sp_slab (nodes s1 n)"
    using free_pages_ring [OF pages kind(1) ring1 slot] by blast
  have fields': "same_fields s s'" using fields s'(2) by (auto simp: same_fields_def same_pool_fields)
  have ms: "min_shift s' = min_shift s" using fields' by (simp add: same_fields_def)
  have "ring (nodes s') ?g ?t (map Slab_page (as @ bs))" using s'(4) by simp
  then have ring': "slot_ring {} ?K s' sh" unfolding slot_ring_def ms using set members(1) by blast
  have "slab_inv_at {} N ?B ?K s'"
  proof (rule slab_inv_frame [OF inv _ _ fields' s'(3), where sh = sh and h = h], goal_cases)
    case (7 i k)
    then have "i \<notin> set (as @ bs)" using set members(2) by blast
    then show ?case using s'(5) [of "Slab_page i"] 7 others(1) by auto
  next
    case (8 i)
    then show ?case using s'(6) [of "Slab_page i"] one [of i] others(1) by simp
  next
    case (9 i)
    then show ?case using same_pool_fields [OF s'(2)] others(2) by simp
  next
    case (10 sh')
    then have "Slab_slot (sh' - min_shift s) \<noteq> ?g" using kind(2) by auto
    then show ?case using s'(5) [of "Slab_slot (sh' - min_shift s)"] others(1) by auto
  qed (use K ring' one in simp_all)
  then show ?thesis using that s'(1,2) by blast
qed

end
