(* ===== verification/SlabChunks.thy ===== *)
theory SlabChunks
  imports SlabInv
begin

text \<open>
  The bitmaps of chunks: what the scans of the code find, and that setting and clearing a bit adds and removes
  a chunk. On that ground every allocation and release is one of the steps of the invariant.
\<close>

section \<open>Scanning words\<close>

declare push_bit_of_1 [simp del]

lemma and_push_bit: "(w :: u64) AND push_bit i 1 \<noteq> 0 \<longleftrightarrow> bit w i"
  by (simp add: bit_iff_and_push_bit_not_eq_0)

lemma busy_word: "(w = NCX_SLAB_BUSY) \<longleftrightarrow> (\<forall>k < 64. bit w k)"
proof -
  have "NCX_SLAB_BUSY = - 1" by (simp add: NCX_SLAB_BUSY_def)
  moreover have "w = - 1 \<longleftrightarrow> (\<forall>k < 64. bit w k)" by (simp add: bit_eq_iff [of w])
  ultimately show ?thesis by simp
qed

lemma scan_word_found:
  "\<exists>j. i \<le> j \<and> j < 64 \<and> \<not> bit w j \<Longrightarrow>
    \<exists>k. scan_word w i = Some k \<and> i \<le> k \<and> k < 64 \<and> \<not> bit w k \<and> (\<forall>j. i \<le> j \<longrightarrow> j < k \<longrightarrow> bit w j)"
proof (induction w i rule: scan_word.induct)
  case (1 w i)
  show ?case
  proof (cases "bit w i")
    case True
    obtain j where j: "i \<le> j" "j < 64" "\<not> bit w j" using 1(2) by blast
    with True have "Suc i \<le> j" by (cases "i = j") auto
    then have "\<exists>k. scan_word w (i + 1) = Some k \<and> i + 1 \<le> k \<and> k < 64 \<and> \<not> bit w k \<and> (\<forall>j. i + 1 \<le> j \<longrightarrow> j < k \<longrightarrow> bit w j)"
      using j True by (intro 1(1)) (auto simp: and_push_bit)
    then obtain k where k: "scan_word w (i + 1) = Some k" "i + 1 \<le> k" "k < 64" "\<not> bit w k"
        "\<And>j. i + 1 \<le> j \<Longrightarrow> j < k \<Longrightarrow> bit w j" by blast
    have "bit w j" if "i \<le> j" "j < k" for j using k(5) [of j] that True by (cases "i = j") auto
    moreover have "scan_word w i = Some k" using k True by (subst scan_word.simps) (simp add: and_push_bit)
    ultimately show ?thesis using k by auto
  next
    case False
    then show ?thesis using 1(2) by (subst scan_word.simps) (auto simp: and_push_bit)
  qed
qed

lemma small_chunk_found:
  "\<exists>j. n \<le> j \<and> j < w \<and> b j \<noteq> NCX_SLAB_BUSY \<Longrightarrow>
    \<exists>m i. small_chunk b w n = Some (m, i) \<and> n \<le> m \<and> m < w \<and> i < 64 \<and> \<not> bit (b m) i \<and>
      (\<forall>j. n \<le> j \<longrightarrow> j < m \<longrightarrow> b j = NCX_SLAB_BUSY)"
proof (induction b w n rule: small_chunk.induct)
  case (1 b w n)
  show ?case
  proof (cases "b n = NCX_SLAB_BUSY")
    case True
    obtain j where j: "n \<le> j" "j < w" "b j \<noteq> NCX_SLAB_BUSY" using 1(3) by blast
    with True have "Suc n \<le> j" by (cases "n = j") auto
    then obtain m i where m: "small_chunk b w (n + 1) = Some (m, i)" "n + 1 \<le> m" "m < w" "i < 64" "\<not> bit (b m) i"
        "\<And>j. n + 1 \<le> j \<Longrightarrow> j < m \<Longrightarrow> b j = NCX_SLAB_BUSY"
      using 1(2) j True by force
    have "b j = NCX_SLAB_BUSY" if "n \<le> j" "j < m" for j using m(6) [of j] that True by (cases "n = j") auto
    moreover have "small_chunk b w n = Some (m, i)" using m True by (subst small_chunk.simps) simp
    ultimately show ?thesis using m by auto
  next
    case False
    then have "\<exists>j. 0 \<le> j \<and> j < 64 \<and> \<not> bit (b n) j" by (simp add: busy_word)
    from scan_word_found [OF this] obtain k where k: "scan_word (b n) 0 = Some k" "k < 64" "\<not> bit (b n) k" by blast
    have "n < w" using 1(3) by auto
    then have "small_chunk b w n = Some (n, k)" using k False by (subst small_chunk.simps) simp
    then show ?thesis using k \<open>n < w\<close> by auto
  qed
qed

section \<open>The three kinds of pages\<close>

lemma chunk_count_page4k [simp]: "sh < 12 \<Longrightarrow> chunk_count page4k sh = Some (chunks sh)"
  by (simp add: chunk_count_def chunks_def)

text \<open>\<open>SMALL\<close>: the bitmap has \<open>chunks sh div 64\<close> words.\<close>

lemma small_words: "sh < 6 \<Longrightarrow> chunks sh = 64 * (chunks sh div 64) \<and> 2 \<le> chunks sh div 64"
proof -
  assume sh: "sh < 6"
  then have "(2 :: nat) ^ (12 - sh) = 2 ^ (6 + (6 - sh))" by (simp add: nat_diff_split)
  also have "\<dots> = 64 * 2 ^ (6 - sh)" by (simp add: power_add)
  finally have "chunks sh = 64 * 2 ^ (6 - sh)" by (simp add: chunks_def)
  moreover have "(2 :: nat) ^ 1 \<le> 2 ^ (6 - sh)" using sh by (intro power_increasing) auto
  ultimately show ?thesis by simp
qed

lemma small_index: "sh < 6 \<Longrightarrow> k < chunks sh \<Longrightarrow> k div 64 < chunks sh div 64"
  using small_words [of sh] by (simp add: div_less_iff_less_mult mult.commute)

lemma encodes_small:
  "sh < 6 \<Longrightarrow> encodes s h sh U \<longleftrightarrow> sp_slab (nodes s (Slab_page h)) = of_nat sh \<and>
    (\<forall>k < chunks sh. k \<in> U \<longleftrightarrow> bit (bitmaps s h (k div 64)) (k mod 64))"
  by (simp add: encodes_def)

lemma bitmaps_set_bitmap [simp]: "bitmaps (set_bitmap h n w s) h = (bitmaps s h)(n := w)" "nodes (set_bitmap h n w s) = nodes s"
  by (simp_all add: set_bitmap_def)

lemma small_set:
  assumes "sh < 6" "encodes s h sh U" "i < 64"
  shows "encodes (set_bitmap h n (bitmaps s h n OR push_bit i 1) s) h sh (insert (n * 64 + i) U)"
proof -
  have eq: "k = n * 64 + i \<longleftrightarrow> k div 64 = n \<and> k mod 64 = i" for k using assms(3) by auto
  have "k \<in> insert (n * 64 + i) U \<longleftrightarrow>
      bit (((bitmaps s h)(n := bitmaps s h n OR push_bit i 1)) (k div 64)) (k mod 64)" if "k < chunks sh" for k
    using assms that eq [of k] by (auto simp: encodes_small bit_or_iff bit_push_bit_iff bit_1_iff)
  then show ?thesis using assms(1,2) by (simp add: encodes_small)
qed

lemma small_clear:
  assumes "sh < 6" "encodes s h sh U"
  shows "encodes (set_bitmap h (k div 64) (bitmaps s h (k div 64) AND NOT (push_bit (k mod 64) 1)) s) h sh (U - {k})"
proof -
  have eq: "j = k \<longleftrightarrow> j div 64 = k div 64 \<and> j mod 64 = k mod 64" for j by (metis div_mult_mod_eq)
  have "j \<in> U - {k} \<longleftrightarrow>
      bit (((bitmaps s h)(k div 64 := bitmaps s h (k div 64) AND NOT (push_bit (k mod 64) 1))) (j div 64)) (j mod 64)"
    if "j < chunks sh" for j
    using assms that eq [of j] by (auto simp: encodes_small bit_and_iff bit_not_iff bit_push_bit_iff bit_1_iff)
  then show ?thesis using assms by (simp add: encodes_small)
qed

lemma small_full:
  assumes "sh < 6" "encodes s h sh U" "U \<subseteq> all_chunks sh"
  shows "U = all_chunks sh \<longleftrightarrow> (\<forall>n < chunks sh div 64. bitmaps s h n = NCX_SLAB_BUSY)"
proof
  assume U: "U = all_chunks sh"
  show "\<forall>n < chunks sh div 64. bitmaps s h n = NCX_SLAB_BUSY"
  proof (intro allI impI)
    fix n assume n: "n < chunks sh div 64"
    have "bit (bitmaps s h n) i" if i: "i < 64" for i
    proof -
      have "n * 64 + i < chunks sh" using n i small_words [OF assms(1)] by linarith
      then have "n * 64 + i \<in> U" using U by simp
      then show ?thesis using assms(1,2) \<open>n * 64 + i < chunks sh\<close> i by (auto simp: encodes_small)
    qed
    then show "bitmaps s h n = NCX_SLAB_BUSY" by (simp add: busy_word)
  qed
next
  assume busy: "\<forall>n < chunks sh div 64. bitmaps s h n = NCX_SLAB_BUSY"
  have "k \<in> U" if k: "k < chunks sh" for k
    using busy small_index [OF assms(1) k] assms(1,2) k by (simp add: encodes_small busy_word)
  then show "U = all_chunks sh" using assms(3) by auto
qed

text \<open>\<open>EXACT\<close>.\<close>

lemma chunks_exact [simp]: "chunks 6 = 64"
  by (simp add: chunks_def)

lemma encodes_exact: "encodes s h 6 U \<longleftrightarrow> (\<forall>k < 64. k \<in> U \<longleftrightarrow> bit (sp_slab (nodes s (Slab_page h))) k)"
  by (simp add: encodes_def)

lemma exact_set:
  assumes "encodes s h 6 U"
  shows "encodes (set_slab (Slab_page h) (sp_slab (nodes s (Slab_page h)) OR push_bit i 1) s) h 6 (insert i U)"
  using assms by (auto simp: encodes_exact bit_or_iff bit_push_bit_iff bit_1_iff)

lemma exact_clear:
  assumes "encodes s h 6 U"
  shows "encodes (set_slab (Slab_page h) (sp_slab (nodes s (Slab_page h)) AND NOT (push_bit i 1)) s) h 6 (U - {i})"
  using assms by (auto simp: encodes_exact bit_and_iff bit_not_iff bit_push_bit_iff bit_1_iff)

lemma exact_full:
  assumes "encodes s h 6 U" "U \<subseteq> all_chunks 6"
  shows "U = all_chunks 6 \<longleftrightarrow> sp_slab (nodes s (Slab_page h)) = NCX_SLAB_BUSY"
  using assms by (auto simp: encodes_exact busy_word)

lemma exact_empty:
  assumes "encodes s h 6 U" "U \<subseteq> all_chunks 6"
  shows "sp_slab (nodes s (Slab_page h)) = 0 \<longleftrightarrow> U = {}"
  using assms by (auto simp: encodes_exact bit_eq_iff [of _ 0])

text \<open>\<open>BIG\<close>: the bitmap is the upper half of the word, the exponent its lowest four bits.\<close>

lemma map_mask: "bit NCX_SLAB_MAP_MASK i \<longleftrightarrow> 32 \<le> i \<and> i < 64"
proof -
  have eq: "NCX_SLAB_MAP_MASK = NOT (Bit_Operations.mask 32)"
    by (simp add: NCX_SLAB_MAP_MASK_def mask_eq_exp_minus_1 not_eq_complement)
  show ?thesis unfolding eq by (auto simp: bit_not_iff bit_mask_iff)
qed

lemma shift_mask: "bit NCX_SLAB_SHIFT_MASK i \<longleftrightarrow> i < 4"
proof -
  have eq: "NCX_SLAB_SHIFT_MASK = Bit_Operations.mask 4" by (simp add: NCX_SLAB_SHIFT_MASK_def mask_eq_exp_minus_1)
  show ?thesis unfolding eq by (auto simp: bit_mask_iff)
qed

lemma encodes_big:
  "6 < sh \<Longrightarrow> encodes s h sh U \<longleftrightarrow> sp_slab (nodes s (Slab_page h)) AND NCX_SLAB_SHIFT_MASK = of_nat sh \<and>
    (\<forall>i \<ge> 4. bit (sp_slab (nodes s (Slab_page h))) i \<longleftrightarrow> 32 \<le> i \<and> i - 32 \<in> U)"
  by (simp add: encodes_def Let_def)

lemma big_chunks: "6 < sh \<Longrightarrow> chunks sh \<le> 32"
proof -
  assume "6 < sh"
  then have "(2 :: nat) ^ (12 - sh) \<le> 2 ^ 5" by (intro power_increasing) auto
  then show ?thesis by (simp add: chunks_def)
qed

lemma big_shift:
  assumes "6 < sh" "sh < 12" "encodes s h sh U"
  shows "unat (sp_slab (nodes s (Slab_page h)) AND NCX_SLAB_SHIFT_MASK) = sh"
  using assms by (simp add: encodes_big)

definition full_map :: "nat \<Rightarrow> u64" where
  "full_map sh = push_bit NCX_SLAB_MAP_SHIFT (push_bit (chunks sh) 1 - 1)"

lemma bit_full_map: "6 < sh \<Longrightarrow> bit (full_map sh) i \<longleftrightarrow> 32 \<le> i \<and> i < 32 + chunks sh"
proof -
  assume "6 < sh"
  then have c: "chunks sh \<le> 32" by (rule big_chunks)
  have "full_map sh = push_bit 32 (Bit_Operations.mask (chunks sh))"
    by (simp add: full_map_def NCX_SLAB_MAP_SHIFT_def mask_eq_exp_minus_1 push_bit_eq_mult)
  then show ?thesis using c by (auto simp: bit_push_bit_iff bit_mask_iff)
qed

lemma big_mask_page4k:
  assumes "6 < sh" "sh < 12" "encodes s h sh U"
  shows "big_mask page4k (sp_slab (nodes s (Slab_page h))) = Some (full_map sh)"
  using big_shift [OF assms] big_chunks [OF assms(1)] assms(2) by (simp add: big_mask_def full_map_def)

lemma big_set:
  assumes "6 < sh" "encodes s h sh U" "k < 32"
  shows "encodes (set_slab (Slab_page h) (sp_slab (nodes s (Slab_page h)) OR push_bit (NCX_SLAB_MAP_SHIFT + k) 1) s) h sh (insert k U)"
proof -
  let ?w = "sp_slab (nodes s (Slab_page h))"
  have "(?w OR push_bit (32 + k) 1) AND NCX_SLAB_SHIFT_MASK = ?w AND NCX_SLAB_SHIFT_MASK"
    by (rule bit_word_eqI) (auto simp: bit_simps shift_mask)
  then show ?thesis using assms
    by (auto simp: encodes_big NCX_SLAB_MAP_SHIFT_def bit_or_iff bit_push_bit_iff bit_1_iff)
qed

lemma big_clear:
  assumes "6 < sh" "encodes s h sh U"
  shows "encodes (set_slab (Slab_page h) (sp_slab (nodes s (Slab_page h)) AND NOT (push_bit (k + NCX_SLAB_MAP_SHIFT) 1)) s) h sh (U - {k})"
proof -
  let ?w = "sp_slab (nodes s (Slab_page h))"
  have "(?w AND NOT (push_bit (k + 32) 1)) AND NCX_SLAB_SHIFT_MASK = ?w AND NCX_SLAB_SHIFT_MASK"
    by (rule bit_word_eqI) (auto simp: bit_simps shift_mask)
  moreover have "i < 64" if "32 \<le> i" "i - 32 \<in> U" for i
  proof -
    have "bit ?w i" using assms that by (simp add: encodes_big)
    then show ?thesis using bit_imp_le_length [of ?w i] by simp
  qed
  ultimately show ?thesis using assms
    by (auto simp: encodes_big NCX_SLAB_MAP_SHIFT_def bit_and_iff bit_not_iff bit_push_bit_iff bit_1_iff)
qed

lemma big_full:
  assumes "6 < sh" "encodes s h sh U" "U \<subseteq> all_chunks sh"
  shows "U = all_chunks sh \<longleftrightarrow> sp_slab (nodes s (Slab_page h)) AND NCX_SLAB_MAP_MASK = full_map sh"
proof -
  have "sp_slab (nodes s (Slab_page h)) AND NCX_SLAB_MAP_MASK = full_map sh \<longleftrightarrow>
      (\<forall>i < 64. bit (sp_slab (nodes s (Slab_page h)) AND NCX_SLAB_MAP_MASK) i = bit (full_map sh) i)"
    by (simp add: bit_eq_iff [of _ "full_map sh"])
  also have "\<dots> \<longleftrightarrow> (\<forall>i < 64. 32 \<le> i \<longrightarrow> (i - 32 \<in> U \<longleftrightarrow> i < 32 + chunks sh))"
    using assms(1,2) by (intro all_cong) (auto simp: encodes_big bit_and_iff map_mask bit_full_map)
  also have "\<dots> \<longleftrightarrow> U = all_chunks sh"
  proof
    assume *: "\<forall>i < 64. 32 \<le> i \<longrightarrow> (i - 32 \<in> U \<longleftrightarrow> i < 32 + chunks sh)"
    have "k \<in> U" if "k < chunks sh" for k
      using * [rule_format, of "32 + k"] that big_chunks [OF assms(1)] by simp
    then show "U = all_chunks sh" using assms(3) by auto
  qed auto
  finally show ?thesis by simp
qed

lemma big_empty:
  assumes "6 < sh" "encodes s h sh U" "U \<subseteq> all_chunks sh"
  shows "sp_slab (nodes s (Slab_page h)) AND NCX_SLAB_MAP_MASK = 0 \<longleftrightarrow> U = {}"
proof -
  have "sp_slab (nodes s (Slab_page h)) AND NCX_SLAB_MAP_MASK = 0 \<longleftrightarrow>
      (\<forall>i < 64. \<not> bit (sp_slab (nodes s (Slab_page h)) AND NCX_SLAB_MAP_MASK) i)"
    by (simp add: bit_eq_iff [of _ 0])
  also have "\<dots> \<longleftrightarrow> (\<forall>i < 64. 32 \<le> i \<longrightarrow> i - 32 \<notin> U)"
    using assms(1,2) by (intro all_cong) (auto simp: encodes_big bit_and_iff map_mask)
  also have "\<dots> \<longleftrightarrow> U = {}"
  proof
    assume *: "\<forall>i < 64. 32 \<le> i \<longrightarrow> i - 32 \<notin> U"
    have "k \<notin> U" if "k < chunks sh" for k
      using * [rule_format, of "32 + k"] that big_chunks [OF assms(1)] by simp
    then show "U = {}" using assms(3) by auto
  qed auto
  finally show ?thesis .
qed

lemma big_scan_found:
  assumes "6 < sh"
  shows "\<exists>j. i \<le> j \<and> j < chunks sh \<and> \<not> bit w (32 + j) \<Longrightarrow>
    \<exists>k. big_scan w (full_map sh) i = Some k \<and> i \<le> k \<and> k < chunks sh \<and> \<not> bit w (32 + k) \<and> (\<forall>j. i \<le> j \<longrightarrow> j < k \<longrightarrow> bit w (32 + j))"
proof (induction w "full_map sh" i rule: big_scan.induct)
  case (1 w i)
  have inside: "\<not> 64 \<le> NCX_SLAB_MAP_SHIFT + i" "push_bit (NCX_SLAB_MAP_SHIFT + i) 1 AND full_map sh \<noteq> 0"
  proof -
    have "i < chunks sh" using 1(2) by auto
    then show "\<not> 64 \<le> NCX_SLAB_MAP_SHIFT + i" "push_bit (NCX_SLAB_MAP_SHIFT + i) 1 AND full_map sh \<noteq> 0"
      using big_chunks [OF assms] bit_full_map [OF assms, of "32 + i"]
      by (simp_all add: NCX_SLAB_MAP_SHIFT_def and.commute [of "push_bit _ _"] and_push_bit)
  qed
  show ?case
  proof (cases "bit w (32 + i)")
    case True
    obtain j where j: "i \<le> j" "j < chunks sh" "\<not> bit w (32 + j)" using 1(2) by blast
    with True have "Suc i \<le> j" by (cases "i = j") auto
    then have "\<exists>k. big_scan w (full_map sh) (i + 1) = Some k \<and> i + 1 \<le> k \<and> k < chunks sh \<and> \<not> bit w (32 + k) \<and>
        (\<forall>j. i + 1 \<le> j \<longrightarrow> j < k \<longrightarrow> bit w (32 + j))"
      using j True inside by (intro 1(1)) (auto simp: and_push_bit NCX_SLAB_MAP_SHIFT_def)
    then obtain k where k: "big_scan w (full_map sh) (i + 1) = Some k" "i + 1 \<le> k" "k < chunks sh" "\<not> bit w (32 + k)"
        "\<And>j. i + 1 \<le> j \<Longrightarrow> j < k \<Longrightarrow> bit w (32 + j)" by blast
    have "bit w (32 + j)" if "i \<le> j" "j < k" for j using k(5) [of j] that True by (cases "i = j") auto
    moreover have "big_scan w (full_map sh) i = Some k"
      using k True inside by (subst big_scan.simps) (simp add: and_push_bit NCX_SLAB_MAP_SHIFT_def)
    ultimately show ?thesis using k by auto
  next
    case False
    then have "big_scan w (full_map sh) i = Some i"
      using inside by (subst big_scan.simps) (simp add: and_push_bit NCX_SLAB_MAP_SHIFT_def)
    then show ?thesis using 1(2) False by auto
  qed
qed

section \<open>Marking a chunk\<close>

lemma mark_chunk:
  assumes inv: "slab_inv_at {} N B K s" and K: "K h = Some (sh, U)" and k: "k < chunks sh" "k \<notin> U"
    and step: "slab_step h s s1" and enc: "encodes s1 h sh (insert k U)"
  obtains s' where "(if insert k U = all_chunks sh then retire_page (tag_of sh) (Slab_page h) s1 else Some s1) = Some s'"
    "slab_inv_at {} N B (K(h \<mapsto> (sh, insert k U))) s'" "same_fields s s'"
proof -
  have ok: "chunk_ok s h sh U" using slab_inv_kind [OF inv K] by simp
  have "U \<noteq> all_chunks sh" using k by auto
  then have inv': "slab_inv_at {h} N B K s" using slab_inv_not_full [of K h sh U] K inv by simp
  have ok1: "chunk_ok s1 h sh (insert k U)" using ok enc k by (auto simp: chunk_ok_def)
  note inv1 = slab_step_inv [OF inv' K step ok1]
  have K1: "(K(h \<mapsto> (sh, insert k U))) h = Some (sh, insert k U)" by simp
  have fields: "same_fields s s1" using step by (simp add: slab_step_def)
  show ?thesis
  proof (cases "insert k U = all_chunks sh")
    case True
    then obtain s' where s': "retire_page (tag_of sh) (Slab_page h) s1 = Some s'"
        "slab_inv_at {} N B (K(h \<mapsto> (sh, insert k U))) s'" "same_pool s1 s'"
      using retire_inv [OF inv1, of sh] by auto
    have "same_fields s s'" using fields s'(3) by (simp add: same_fields_def same_pool_fields)
    then show ?thesis using that [of s'] s' True by simp
  next
    case False
    then show ?thesis using that [of s1] slab_inv_not_full [of "K(h \<mapsto> (sh, insert k U))", OF K1 False] inv1 fields by simp
  qed
qed

lemma small_take_eq:
  assumes "sh < 6" "encodes s h sh U" "U \<subseteq> all_chunks sh" "n < chunks sh div 64" "i < 64"
    and "\<forall>j < n. bitmaps s h j = NCX_SLAB_BUSY"
  defines "s1 \<equiv> set_bitmap h n (bitmaps s h n OR push_bit i 1) s"
  shows "small_take g h sh (chunks sh div 64) n i s =
    map_option (Pair (chunk_address g h sh (n * 64 + i) s))
      (if insert (n * 64 + i) U = all_chunks sh then retire_page (tag_of sh) (Slab_page h) s1 else Some s1)"
proof -
  let ?w = "chunks sh div 64"
  have "n * 64 + i < chunks sh" using small_words [OF assms(1)] assms(4,5) by linarith
  then have "insert (n * 64 + i) U = all_chunks sh \<longleftrightarrow> (\<forall>m < ?w. bitmaps s1 h m = NCX_SLAB_BUSY)"
    using small_full [OF assms(1) small_set [OF assms(1,2,5)], of n] assms(3) unfolding s1_def by auto
  also have "\<dots> \<longleftrightarrow> bitmaps s1 h n = NCX_SLAB_BUSY \<and> list_all (\<lambda>j. bitmaps s1 h j = NCX_SLAB_BUSY) [n + 1 ..< ?w]"
  proof -
    have "bitmaps s1 h m = NCX_SLAB_BUSY" if "m < n" for m using that assms(6) by (simp add: s1_def)
    then have "bitmaps s1 h m = NCX_SLAB_BUSY" if "bitmaps s1 h n = NCX_SLAB_BUSY"
        "\<forall>j. n + 1 \<le> j \<and> j < ?w \<longrightarrow> bitmaps s1 h j = NCX_SLAB_BUSY" "m < ?w" for m
      using that by (cases m n rule: linorder_cases) auto
    then show ?thesis using assms(4) by (auto simp: list_all_iff)
  qed
  finally have cond: "insert (n * 64 + i) U = all_chunks sh \<longleftrightarrow>
    bitmaps s h n OR push_bit i 1 = NCX_SLAB_BUSY \<and> list_all (\<lambda>j. bitmaps s1 h j = NCX_SLAB_BUSY) [n + 1 ..< ?w]"
    by (simp add: s1_def)
  have "chunk_address g h sh k s1 = chunk_address g h sh k s" for k
    by (simp add: s1_def set_bitmap_def chunk_address_def)
  then show ?thesis
    unfolding small_take_def Let_def s1_def [symmetric]
    using cond assms(1) by (simp add: tag_of_def map_option_case) (auto split: option.splits)
qed

lemma exact_take_eq:
  assumes "encodes s h 6 U" "U \<subseteq> all_chunks 6" "i < 64"
  defines "s1 \<equiv> set_slab (Slab_page h) (sp_slab (nodes s (Slab_page h)) OR push_bit i 1) s"
  shows "exact_take g h 6 i s = map_option (Pair (chunk_address g h 6 i s))
      (if insert i U = all_chunks 6 then retire_page (tag_of 6) (Slab_page h) s1 else Some s1)"
proof -
  have "insert i U = all_chunks 6 \<longleftrightarrow> sp_slab (nodes s (Slab_page h)) OR push_bit i 1 = NCX_SLAB_BUSY"
    using exact_full [OF exact_set [OF assms(1)], of i] assms(2,3) by simp
  moreover have "chunk_address g h 6 i s1 = chunk_address g h 6 i s"
    by (simp add: s1_def node_defs chunk_address_def)
  ultimately show ?thesis
    unfolding exact_take_def Let_def s1_def [symmetric] by (auto simp: tag_of_def map_option_case split: option.splits)
qed

lemma big_take_eq:
  assumes "6 < sh" "encodes s h sh U" "U \<subseteq> all_chunks sh" "i < chunks sh"
  defines "s1 \<equiv> set_slab (Slab_page h) (sp_slab (nodes s (Slab_page h)) OR push_bit (NCX_SLAB_MAP_SHIFT + i) 1) s"
  shows "big_take g h sh (full_map sh) i s = map_option (Pair (chunk_address g h sh i s))
      (if insert i U = all_chunks sh then retire_page (tag_of sh) (Slab_page h) s1 else Some s1)"
proof -
  have "i < 32" using assms(4) big_chunks [OF assms(1)] by simp
  note enc = big_set [OF assms(1,2) this]
  have "insert i U = all_chunks sh \<longleftrightarrow>
      (sp_slab (nodes s (Slab_page h)) OR push_bit (NCX_SLAB_MAP_SHIFT + i) 1) AND NCX_SLAB_MAP_MASK = full_map sh"
    using big_full [OF assms(1) enc] assms(3,4) by simp
  moreover have "chunk_address g h sh i s1 = chunk_address g h sh i s"
    by (simp add: s1_def node_defs chunk_address_def)
  ultimately show ?thesis
    unfolding big_take_def Let_def s1_def [symmetric] using assms(1)
    by (auto simp: tag_of_def map_option_case split: option.splits)
qed

text \<open>The loops over the pages of a slot end at the first page.\<close>

lemma slot_loop_found:
  assumes inv: "slab_inv_at {} N B K s" and K: "K h = Some (sh, U)" and U: "U \<noteq> all_chunks sh"
  obtains k s' where "k < chunks sh" "k \<notin> U"
    "slot_loop page4k sh (Slab_page h) s = Some (Some (chunk_address page4k h sh k s, s'))"
    "slab_inv_at {} N B (K(h \<mapsto> (sh, insert k U))) s'" "same_fields s s'"
proof -
  note kind = slab_inv_kind [OF inv K]
  have enc: "encodes s h sh U" and sub: "U \<subseteq> all_chunks sh" using kind(4) by (simp_all add: chunk_ok_def)
  consider "sh < 6" | "sh = 6" | "6 < sh" by linarith
  then show ?thesis
  proof cases
    case 1
    let ?w = "chunks sh div 64"
    have "\<exists>j. 0 \<le> j \<and> j < ?w \<and> bitmaps s h j \<noteq> NCX_SLAB_BUSY" using small_full [OF 1 enc sub] U by auto
    then obtain n i where n: "small_chunk (bitmaps s h) ?w 0 = Some (n, i)" "n < ?w" "i < 64" "\<not> bit (bitmaps s h n) i"
        "\<forall>j < n. bitmaps s h j = NCX_SLAB_BUSY"
      using small_chunk_found [of 0 ?w "bitmaps s h"] by auto
    let ?k = "n * 64 + i"
    have k: "?k < chunks sh" using small_words [OF 1] n(2,3) by linarith
    moreover from this have new: "?k \<notin> U" using enc 1 n(3,4) by (simp add: encodes_small)
    ultimately obtain s' where s': "(if insert ?k U = all_chunks sh then retire_page (tag_of sh) (Slab_page h)
        (set_bitmap h n (bitmaps s h n OR push_bit i 1) s) else Some (set_bitmap h n (bitmaps s h n OR push_bit i 1) s)) = Some s'"
        "slab_inv_at {} N B (K(h \<mapsto> (sh, insert ?k U))) s'" "same_fields s s'"
      using mark_chunk [OF inv K _ _ slab_step_set(2) small_set [OF 1 enc n(3)]] by blast
    have "small_loop page4k sh (Slab_page h) s = Some (Some (chunk_address page4k h sh ?k s, s'))"
      using n small_take_eq [OF 1 enc sub n(2,3,5)] s'(1) 1
      by (subst small_loop.simps) (simp add: page_index_def)
    then show ?thesis using that [OF k new _ s'(2,3)] 1 by (simp add: slot_loop_def)
  next
    case 2
    let ?w = "sp_slab (nodes s (Slab_page h))"
    have w: "?w \<noteq> NCX_SLAB_BUSY" using exact_full enc sub U 2 by blast
    then have "\<exists>j. 0 \<le> j \<and> j < 64 \<and> \<not> bit ?w j" by (simp add: busy_word)
    from scan_word_found [OF this] obtain k where k: "scan_word ?w 0 = Some k" "k < 64" "\<not> bit ?w k" by blast
    then have k': "k < chunks sh" "k \<notin> U" using enc 2 by (simp_all add: encodes_exact)
    then obtain s' where s': "(if insert k U = all_chunks sh then retire_page (tag_of sh) (Slab_page h)
        (set_slab (Slab_page h) (?w OR push_bit k 1) s) else Some (set_slab (Slab_page h) (?w OR push_bit k 1) s)) = Some s'"
        "slab_inv_at {} N B (K(h \<mapsto> (sh, insert k U))) s'" "same_fields s s'"
      using mark_chunk [OF inv K _ _ slab_step_set(1)] exact_set enc 2 by blast
    have "exact_loop page4k sh (Slab_page h) s = Some (Some (chunk_address page4k h sh k s, s'))"
      using w k exact_take_eq [of s h U k page4k] enc [unfolded 2] sub [unfolded 2] s'(1) [unfolded 2] unfolding 2
      by (subst exact_loop.simps) (simp add: page_index_def)
    then show ?thesis using that [OF k' _ s'(2,3)] 2 by (simp add: slot_loop_def)
  next
    case 3
    let ?w = "sp_slab (nodes s (Slab_page h))"
    have w: "?w AND NCX_SLAB_MAP_MASK \<noteq> full_map sh" using big_full [OF 3 enc sub] U by simp
    obtain j where j: "j < chunks sh" "j \<notin> U" using U sub by auto
    then have "\<not> bit ?w (32 + j)" using enc 3 by (simp add: encodes_big)
    then have "\<exists>j. 0 \<le> j \<and> j < chunks sh \<and> \<not> bit ?w (32 + j)" using j by blast
    from big_scan_found [OF 3 this] obtain k where k: "big_scan ?w (full_map sh) 0 = Some k" "k < chunks sh" "\<not> bit ?w (32 + k)"
      by blast
    then have new: "k \<notin> U" using enc 3 by (simp add: encodes_big)
    have "k < 32" using k(2) big_chunks [OF 3] by simp
    note s' = mark_chunk [OF inv K k(2) new slab_step_set(1) big_set [OF 3 enc this]]
    obtain s' where s': "(if insert k U = all_chunks sh then retire_page (tag_of sh) (Slab_page h)
        (set_slab (Slab_page h) (?w OR push_bit (NCX_SLAB_MAP_SHIFT + k) 1) s)
        else Some (set_slab (Slab_page h) (?w OR push_bit (NCX_SLAB_MAP_SHIFT + k) 1) s)) = Some s'"
        "slab_inv_at {} N B (K(h \<mapsto> (sh, insert k U))) s'" "same_fields s s'"
      by (rule s')
    have "big_loop page4k sh (full_map sh) (Slab_page h) s = Some (Some (chunk_address page4k h sh k s, s'))"
      using w k big_take_eq [OF 3 enc sub k(2)] s'(1)
      by (subst big_loop.simps) (simp add: page_index_def)
    then show ?thesis using that [OF k(2) new _ s'(2,3)] 3 big_mask_page4k [OF 3 kind(3) enc] by (simp add: slot_loop_def)
  qed
qed


section \<open>A new page of chunks\<close>

lemma reserved_values: "reserved 3 = 8" "reserved 4 = 2" "reserved 5 = 1" "6 \<le> sh \<Longrightarrow> reserved sh = 0"
  by (simp_all add: reserved_def bitmap_chunks_def chunks_def Let_def)

lemma reserved_bounds: "3 \<le> sh \<Longrightarrow> sh < 12 \<Longrightarrow> reserved sh + 1 < chunks sh \<and> reserved sh \<le> 8"
proof -
  assume sh: "3 \<le> sh" "sh < 12"
  then consider "sh = 3" | "sh = 4" | "sh = 5" | "6 \<le> sh" by linarith
  then show ?thesis
  proof cases
    case 4
    have "(2 :: nat) ^ 1 \<le> 2 ^ (12 - sh)" using sh by (intro power_increasing) auto
    moreover have "reserved sh = 0" by (rule reserved_values(4) [OF 4])
    ultimately show ?thesis by (simp add: chunks_def)
  qed (simp_all add: reserved_values chunks_def)
qed

lemma clear_bitmap_fields:
  "nodes (clear_bitmap h i k s) = nodes s" "same_fields s (clear_bitmap h i k s)"
  "j \<noteq> h \<Longrightarrow> bitmaps (clear_bitmap h i k s) j = bitmaps s j"
  "bitmaps (clear_bitmap h i k s) h m = (if i \<le> m \<and> m < i + k then 0 else bitmaps s h m)"
  by (induction k arbitrary: i s) (auto simp: set_bitmap_def same_fields_def)

lemma slot_page_fields [simp]:
  "bitmaps (slot_page j t h w s) = bitmaps s" "same_fields s (slot_page j t h w s)"
  "sl_start (slot_page j t h w s) = sl_start s"
  "sp_slab (nodes (slot_page j t h w s) (Slab_page h)) = w"
  by (simp_all add: slot_page_def Let_def node_defs same_fields_def)

text \<open>What the three ways to begin a page of chunks have in common: the first chunk behind the bitmap is taken.\<close>

lemma new_chunks:
  fixes h :: nat
  assumes sh: "3 \<le> sh" "sh < 12" and j: "j = sh - min_shift s"
  defines "r \<equiv> (if sh < 6 then small_new page4k sh j h s else if sh = 6 then exact_new page4k j h s else big_new page4k sh j h s)"
  obtains s' w where "r = Some (chunk_address page4k h sh (reserved sh) s, s')"
    "nodes s' = nodes (slot_page j (tag_of sh) h w s)" "same_fields s s'" "\<And>i. i \<noteq> h \<Longrightarrow> bitmaps s' i = bitmaps s i"
    "chunk_ok s' h sh {..<reserved sh + 1}"
proof -
  note bounds = reserved_bounds [OF sh]
  have ok: "chunk_ok s' h sh {..<reserved sh + 1}" if "encodes s' h sh {..<reserved sh + 1}" for s'
    using that bounds by (auto simp: chunk_ok_def)
  consider "sh < 6" | "sh = 6" | "6 < sh" by linarith
  then show ?thesis
  proof cases
    case 1
    let ?n = "reserved sh"
    define b where "b = set_bitmap h 0 (push_bit ?n 2 - 1) s"
    define c where "c = clear_bitmap h 1 (chunks sh div 64 - 1) b"
    define s' where "s' = slot_page j NCX_SLAB_SMALL h (of_nat sh) c"
    have count: "bitmap_chunks (chunks sh) sh = ?n" using 1 by (simp add: reserved_def)
    have start: "sl_start s' = sl_start s" by (simp add: s'_def c_def b_def)
        (simp add: clear_bitmap_fields(2) [unfolded same_fields_def] set_bitmap_def)
    have r: "r = Some (chunk_address page4k h sh ?n s, s')"
      using 1 sh bounds count start
      by (simp add: r_def small_new_def Let_def s'_def c_def b_def chunk_address_def)
    have bits: "bitmaps s' h m = (if m = 0 then push_bit ?n 2 - 1 else if m < chunks sh div 64 then 0 else bitmaps s h m)" for m
      by (auto simp: s'_def c_def b_def clear_bitmap_fields(4))
    have "push_bit ?n 2 - 1 = (Bit_Operations.mask (Suc ?n) :: u64)"
      by (simp add: mask_eq_exp_minus_1 push_bit_eq_mult)
    then have low: "bit (push_bit ?n 2 - 1 :: u64) i \<longleftrightarrow> i < Suc ?n" for i
      using bounds by (simp only:) (auto simp: bit_mask_iff)
    have "k \<in> {..<?n + 1} \<longleftrightarrow> bit (bitmaps s' h (k div 64)) (k mod 64)" if "k < chunks sh" for k
      using that small_index [OF 1 that] bounds low [of "k mod 64"] bits [of "k div 64"] by (cases "k div 64 = 0") auto
    then have "encodes s' h sh {..<?n + 1}" using 1 by (simp add: encodes_small s'_def)
    moreover have "nodes s' = nodes (slot_page j (tag_of sh) h (of_nat sh) s)"
      using 1 by (simp add: s'_def c_def b_def slot_page_def tag_of_def Let_def clear_bitmap_fields)
    moreover have "same_fields s s'"
      using clear_bitmap_fields(2) [of b h 1 "chunks sh div 64 - 1"] slot_page_fields(2) [of c j NCX_SLAB_SMALL h "of_nat sh"]
      by (simp add: same_fields_def s'_def c_def b_def set_bitmap_def)
    moreover have "bitmaps s' i = bitmaps s i" if "i \<noteq> h" for i
      using that by (simp add: s'_def c_def b_def clear_bitmap_fields(3) set_bitmap_def)
    ultimately show ?thesis using that [OF r] ok by blast
  next
    case 2
    let ?s = "slot_page j NCX_SLAB_EXACT h 1 s"
    have "encodes ?s h sh {..<reserved sh + 1}" using 2 by (auto simp: encodes_exact reserved_values bit_1_iff)
    moreover have "r = Some (chunk_address page4k h sh (reserved sh) s, ?s)"
      using 2 by (simp add: r_def exact_new_def chunk_address_def reserved_values)
    ultimately show ?thesis using that [of ?s 1] ok 2 by (simp add: tag_of_def)
  next
    case 3
    let ?w = "push_bit NCX_SLAB_MAP_SHIFT 1 OR of_nat sh :: u64"
    let ?s = "slot_page j NCX_SLAB_BIG h ?w s"
    have nat: "take_bit 4 sh = sh" using sh by (simp add: take_bit_nat_eq_self)
    have bits: "bit sh i \<Longrightarrow> i < 4" for i
      by (subst (asm) nat [symmetric]) (simp add: bit_take_bit_iff)
    have bit: "bit (of_nat sh :: u64) i \<Longrightarrow> i < 4" for i
      by (rule bits) (simp add: bit_simps)
    have "?w AND NCX_SLAB_SHIFT_MASK = of_nat sh"
      by (rule bit_word_eqI) (auto simp: bit_simps shift_mask NCX_SLAB_MAP_SHIFT_def dest: bit bits)
    moreover have "bit ?w i \<longleftrightarrow> 32 \<le> i \<and> i - 32 \<in> {..<reserved sh + 1}" if "4 \<le> i" for i
    proof -
      have "\<not> bit (of_nat sh :: u64) i" using bit [of i] that by auto
      then show ?thesis using 3 by (auto simp: bit_simps NCX_SLAB_MAP_SHIFT_def reserved_values)
    qed
    ultimately have "encodes ?s h sh {..<reserved sh + 1}" using 3 by (simp add: encodes_big)
    moreover have "r = Some (chunk_address page4k h sh (reserved sh) s, ?s)"
      using 3 by (simp add: r_def big_new_def chunk_address_def reserved_values)
    ultimately show ?thesis using that [of ?s ?w] ok 3 by (simp add: tag_of_def)
  qed
qed

section \<open>Sizes\<close>

lemma shift_loop_log: "0 < n \<Longrightarrow> \<exists>e. shift_loop n k = k + e \<and> 2 ^ e \<le> n \<and> n < 2 ^ (e + 1)"
proof (induction n k rule: shift_loop.induct)
  case (1 n k)
  show ?case
  proof (cases "n div 2 = 0")
    case True
    then have "n = 1" using 1(2) by simp
    then show ?thesis by (subst shift_loop.simps) simp
  next
    case False
    then obtain e where e: "shift_loop (n div 2) (k + 1) = k + 1 + e" "2 ^ e \<le> n div 2" "n div 2 < 2 ^ (e + 1)"
      using 1(1) by auto
    have "shift_loop n k = k + (e + 1)" using e(1) False by (subst shift_loop.simps) simp
    moreover have "2 ^ (e + 1) \<le> n" "n < 2 ^ (e + 1 + 1)" using e(2,3) by simp_all
    ultimately show ?thesis by blast
  qed
qed

lemma chunk_shift_bounds:
  assumes "pool_ok N s" "len < 2048"
  shows "min_shift s \<le> chunk_shift s len" "chunk_shift s len < 12" "len \<le> 2 ^ chunk_shift s len"
proof -
  have ok: "3 \<le> min_shift s" "min_shift s < 12" "min_size s = 2 ^ min_shift s" using assms(1) by (simp_all add: pool_ok_def)
  have *: "min_shift s \<le> chunk_shift s len \<and> chunk_shift s len < 12 \<and> len \<le> 2 ^ chunk_shift s len"
  proof (cases "2 ^ min_shift s < len")
    case True
    then have "1 < len" using one_le_power [of "2 :: nat" "min_shift s"] by linarith
    then obtain e where e: "shift_loop (len - 1) 1 = 1 + e" "2 ^ e \<le> len - 1" "len - 1 < 2 ^ (e + 1)"
      using shift_loop_log [of "len - 1" 1] by auto
    have "(2 :: nat) ^ e < 2 ^ 11" using e(2) assms(2) by simp
    then have "e < 11" by (rule power_less_imp_less_exp [rotated]) simp
    moreover have "(2 :: nat) ^ min_shift s < 2 ^ (e + 1)" using True e(3) by simp
    then have "min_shift s < e + 1" by (rule power_less_imp_less_exp [rotated]) simp
    ultimately show ?thesis using e True ok(3) by (simp add: chunk_shift_def)
  qed (use ok in \<open>simp add: chunk_shift_def\<close>)
  then show "min_shift s \<le> chunk_shift s len" "chunk_shift s len < 12" "len \<le> 2 ^ chunk_shift s len" by simp_all
qed

end
