(* ===== verification/SlabAlloc.thy ===== *)
theory SlabAlloc
  imports SlabChunks
begin

text \<open>
  What the slab allocator promises: the regions handed out are disjoint, lie in the pool and outside of the
  bitmaps; an allocation adds one that is long enough or fails and changes nothing, a release removes it.
\<close>

section \<open>The regions handed out\<close>

definition runs :: "blocks \<Rightarrow> kinds \<Rightarrow> (nat \<times> nat) set" where
  "runs B K = {(h, l). B h = Some (l, False) \<and> K h = None}"

definition taken_chunks :: "kinds \<Rightarrow> (nat \<times> nat \<times> nat) set" where
  "taken_chunks K = {(h, sh, k). \<exists>U. K h = Some (sh, U) \<and> k \<in> U \<and> reserved sh \<le> k}"

definition run_region :: "nat \<Rightarrow> nat \<times> nat \<Rightarrow> nat \<times> nat" where
  "run_region start = (\<lambda>(h, l). (start + h * 4096, l * 4096))"

definition chunk_region :: "nat \<Rightarrow> nat \<times> nat \<times> nat \<Rightarrow> nat \<times> nat" where
  "chunk_region start = (\<lambda>(h, sh, k). (start + h * 4096 + k * 2 ^ sh, 2 ^ sh))"

definition live :: "slab_pool \<Rightarrow> blocks \<Rightarrow> kinds \<Rightarrow> (nat \<times> nat) set" where
  "live s B K = run_region (sl_start s) ` runs B K \<union> chunk_region (sl_start s) ` taken_chunks K"

lemma live_cases:
  assumes "(p, n) \<in> live s B K"
  obtains (run) h l where "p = sl_start s + h * 4096" "n = l * 4096" "B h = Some (l, False)" "K h = None"
  | (chunk) h sh U k where "p = sl_start s + h * 4096 + k * 2 ^ sh" "n = 2 ^ sh" "K h = Some (sh, U)" "k \<in> U" "reserved sh \<le> k"
  using assms by (auto simp: live_def runs_def taken_chunks_def run_region_def chunk_region_def)

lemma chunk_bytes: "sh < 12 \<Longrightarrow> chunks sh * 2 ^ sh = 4096"
  by (simp add: chunks_def flip: power_add)

lemma chunk_inside:
  assumes "sh < 12" "k < chunks sh"
  shows "k * 2 ^ sh + 2 ^ sh \<le> 4096"
proof -
  have "Suc k * 2 ^ sh \<le> chunks sh * 2 ^ sh" using assms(2) by (intro mult_le_mono1) simp
  then show ?thesis using chunk_bytes [OF assms(1)] by simp
qed

lemma live_block:
  assumes inv: "slab_inv N B K s" and "(p, n) \<in> live s B K"
  obtains h l where "B h = Some (l, False)" "sl_start s + h * 4096 \<le> p" "p + n \<le> sl_start s + (h + l) * 4096" "0 < n"
  using assms(2)
proof (cases rule: live_cases)
  case (run h l)
  then show ?thesis using that [of h l] block_in [OF slab_inv_blocks [OF inv [unfolded slab_inv_def]], of h l False] by simp
next
  case (chunk h sh U k)
  note kind = slab_inv_kind [OF inv [unfolded slab_inv_def] chunk(3)]
  have "k < chunks sh" using kind(4) chunk(4) by (auto simp: chunk_ok_def)
  from chunk_inside [OF kind(3) this] show ?thesis using that [of h 1] chunk kind(1) by simp
qed

lemma page_blocks:
  assumes "blocks_ok N B" "B h = Some (l, u)" "B h' = Some (l', u')" "s + h * 4096 \<le> p" "p < s + (h + l) * 4096"
    "s + h' * 4096 \<le> p" "p < s + (h' + l') * (4096 :: nat)"
  shows "h = h'"
proof -
  let ?i = "(p - s) div 4096"
  have "h \<le> ?i" "h' \<le> ?i" using assms(4,6) by (simp_all add: less_eq_div_iff_mult_less_eq)
  moreover have "?i < h + l" "?i < h' + l'" using assms(4-7) by (simp_all add: div_less_iff_less_mult)
  ultimately show ?thesis using block_disjoint [OF assms(1-3)] by simp
qed

text \<open>A region handed out in the pages of a block is all of a run or a chunk of the page.\<close>

lemma live_at:
  assumes inv: "slab_inv N B K s" and live: "(p, n) \<in> live s B K" and B: "B h = Some (l, u)"
    and p: "sl_start s + h * 4096 \<le> p" "p < sl_start s + (h + l) * 4096"
  shows "\<not> u \<and> (K h = None \<and> p = sl_start s + h * 4096 \<and> n = l * 4096 \<or>
    (\<exists>sh U k. K h = Some (sh, U) \<and> k \<in> U \<and> reserved sh \<le> k \<and> p = sl_start s + h * 4096 + k * 2 ^ sh \<and> n = 2 ^ sh))"
  using live
proof (cases rule: live_cases)
  case (run h' l')
  have ok: "blocks_ok N B" using slab_inv_blocks inv unfolding slab_inv_def by blast
  have "h = h'"
    by (rule page_blocks [OF ok B run(3) p]) (use run block_in [OF ok run(3)] in auto)
  then show ?thesis using run B by simp
next
  case (chunk h' sh U k)
  note kind = slab_inv_kind [OF inv [unfolded slab_inv_def] chunk(3)]
  have ok: "blocks_ok N B" using slab_inv_blocks inv unfolding slab_inv_def by blast
  have "k < chunks sh" using kind(4) chunk(4) by (auto simp: chunk_ok_def)
  from chunk_inside [OF kind(3) this] have "k * 2 ^ sh < 4096" using zero_less_power [of "2 :: nat" sh] by linarith
  then have "h = h'" by (intro page_blocks [OF ok B kind(1) p]) (use chunk(1) in auto)
  then show ?thesis using chunk B kind(1) by auto
qed

lemma live_disjoint:
  assumes inv: "slab_inv N B K s" and "(p, n) \<in> live s B K" "(q, m) \<in> live s B K" "(p, n) \<noteq> (q, m)" "p \<le> q"
  shows "p + n \<le> q"
proof -
  have ok: "blocks_ok N B" using slab_inv_blocks inv unfolding slab_inv_def by blast
  obtain h l where h: "B h = Some (l, False)" "sl_start s + h * 4096 \<le> p" "p + n \<le> sl_start s + (h + l) * 4096" "0 < n"
    by (rule live_block [OF inv assms(2)])
  obtain h' l' where h': "B h' = Some (l', False)" "sl_start s + h' * 4096 \<le> q" "q + m \<le> sl_start s + (h' + l') * 4096" "0 < m"
    by (rule live_block [OF inv assms(3)])
  show ?thesis
  proof (cases "h = h'")
    case True
    from live_at [OF inv assms(2) h(1,2)] h have p: "K h = None \<and> p = sl_start s + h * 4096 \<and> n = l * 4096 \<or>
        (\<exists>sh U k. K h = Some (sh, U) \<and> k \<in> U \<and> reserved sh \<le> k \<and> p = sl_start s + h * 4096 + k * 2 ^ sh \<and> n = 2 ^ sh)"
      by simp
    from live_at [OF inv assms(3) h'(1,2)] h' have q: "K h = None \<and> q = sl_start s + h * 4096 \<and> m = l * 4096 \<or>
        (\<exists>sh U k. K h = Some (sh, U) \<and> k \<in> U \<and> reserved sh \<le> k \<and> q = sl_start s + h * 4096 + k * 2 ^ sh \<and> m = 2 ^ sh)"
      using True h(1) by simp
    show ?thesis
    proof (cases "K h")
      case None
      then show ?thesis using p q assms(4) by simp
    next
      case (Some x)
      obtain sh U where x: "x = (sh, U)" by (cases x)
      obtain k where k: "p = sl_start s + h * 4096 + k * 2 ^ sh" "n = 2 ^ sh" using p Some x by auto
      obtain k' where k': "q = sl_start s + h * 4096 + k' * 2 ^ sh" "m = 2 ^ sh" using q Some x by auto
      have "k < k'" using k k' assms(4,5) by (cases k k' rule: linorder_cases) auto
      then have "Suc k * 2 ^ sh \<le> k' * 2 ^ sh" by (intro mult_le_mono1) simp
      then show ?thesis using k k' by simp
    qed
  next
    case False
    then consider "h < h'" | "h' < h" by linarith
    then show ?thesis
    proof cases
      case 1
      then have "(h + l) * 4096 \<le> h' * (4096 :: nat)" using block_next [OF ok h(1) h'(1)] by (intro mult_le_mono1) simp
      then show ?thesis using h h' by linarith
    next
      case 2
      then have "(h' + l') * 4096 \<le> h * (4096 :: nat)" using block_next [OF ok h'(1) h(1)] by (intro mult_le_mono1) simp
      then show ?thesis using h h' assms(5) by linarith
    qed
  qed
qed

lemma live_bounds:
  assumes inv: "slab_inv N B K s" and "(p, n) \<in> live s B K"
  shows "0 < n" "0 < p" "sl_start s \<le> p" "p + n \<le> sl_end s"
proof -
  have ok: "blocks_ok N B" and po: "pool_ok N s" using slab_inv_blocks inv by (auto simp: slab_inv_def slab_inv_at_def)
  obtain h l where h: "B h = Some (l, False)" "sl_start s + h * 4096 \<le> p" "p + n \<le> sl_start s + (h + l) * 4096" "0 < n"
    by (rule live_block [OF assms])
  have "(h + l) * 4096 \<le> N * (4096 :: nat)" using block_in [OF ok h(1)] by (intro mult_le_mono1) simp
  then show "0 < n" "0 < p" "sl_start s \<le> p" "p + n \<le> sl_end s" using h po by (simp_all add: pool_ok_def)
qed

section \<open>Allocation\<close>

lemma take_block_used:
  assumes "blocks_ok N B" "B h = Some (l, True)" "0 < m" "m \<le> l"
  shows "take_block h m l B i = Some (k, False) \<longleftrightarrow> i = h \<and> k = m \<or> B i = Some (k, False)"
proof (cases "i = h")
  case True
  then show ?thesis using take_block_cases(1) [OF assms] assms(2) by auto
next
  case False
  have "take_block h m l B i = Some (k, False) \<longleftrightarrow> B i = Some (k, False)"
    by (rule iffI) (rule take_block_cases(2,3) [OF assms False], assumption)+
  then show ?thesis using False by simp
qed

lemma live_take:
  assumes "blocks_ok N B" "B h = Some (l, True)" "0 < m" "m \<le> l" "K h = None" "sl_start s' = sl_start s"
  shows "live s' (take_block h m l B) K = insert (sl_start s + h * 4096, m * 4096) (live s B K)"
proof -
  have "runs (take_block h m l B) K = insert (h, m) (runs B K)"
    using assms(5) by (auto simp: runs_def take_block_used [OF assms(1-4)])
  then show ?thesis using assms(6) by (simp add: live_def run_region_def)
qed

lemma live_mark:
  assumes "K h = Some (sh, U)" "reserved sh \<le> k" "sl_start s' = sl_start s"
  shows "live s' B (K(h \<mapsto> (sh, insert k U))) = insert (sl_start s + h * 4096 + k * 2 ^ sh, 2 ^ sh) (live s B K)"
proof -
  let ?K = "K(h \<mapsto> (sh, insert k U))"
  have "runs B ?K = runs B K" using assms(1) by (auto simp: runs_def split: if_splits)
  moreover have "taken_chunks ?K = insert (h, sh, k) (taken_chunks K)"
  proof (rule set_eqI, clarify)
    show "(i, sh', k') \<in> taken_chunks ?K \<longleftrightarrow> (i, sh', k') \<in> insert (h, sh, k) (taken_chunks K)" for i sh' k'
      using assms(1,2) by (cases "i = h") (auto simp: taken_chunks_def)
  qed
  ultimately show ?thesis using assms(3) by (simp add: live_def chunk_region_def)
qed

lemma live_new:
  assumes "blocks_ok N B" "B h = Some (l, True)" "K h = None" "sl_start s' = sl_start s"
  shows "live s' (take_block h 1 l B) (K(h \<mapsto> (sh, {..<reserved sh + 1}))) =
    insert (sl_start s + h * 4096 + reserved sh * 2 ^ sh, 2 ^ sh) (live s B K)"
proof -
  have l: "1 \<le> l" using block_in [OF assms(1,2)] by simp
  let ?K = "K(h \<mapsto> (sh, {..<reserved sh + 1}))"
  have "take_block h 1 l B i = Some (k, False) \<and> ?K i = None \<longleftrightarrow> B i = Some (k, False) \<and> K i = None" for i k
    using assms(2) by (cases "i = h") (simp_all add: take_block_used [OF assms(1,2) _ l, simplified])
  then have "runs (take_block h 1 l B) ?K = runs B K" unfolding runs_def by simp
  moreover have "taken_chunks ?K = insert (h, sh, reserved sh) (taken_chunks K)"
  proof (rule set_eqI, clarify)
    show "(i, sh', k') \<in> taken_chunks ?K \<longleftrightarrow> (i, sh', k') \<in> insert (h, sh, reserved sh) (taken_chunks K)" for i sh' k'
      using assms(3) by (cases "i = h") (auto simp: taken_chunks_def)
  qed
  ultimately show ?thesis using assms(4) by (simp add: live_def chunk_region_def)
qed

text \<open>What is free is not handed out.\<close>

lemma free_block_not_live:
  assumes inv: "slab_inv N B K s" and B: "B h = Some (l, True)" and p: "sl_start s + h * 4096 \<le> p" "p < sl_start s + (h + l) * 4096"
  shows "(p, n) \<notin> live s B K"
  using live_at [OF inv _ B p, of n] by auto

lemma free_chunk_not_live:
  assumes inv: "slab_inv N B K s" and K: "K h = Some (sh, U)" and k: "k < chunks sh" "k \<notin> U"
  shows "(sl_start s + h * 4096 + k * 2 ^ sh, n) \<notin> live s B K"
proof
  assume live: "(sl_start s + h * 4096 + k * 2 ^ sh, n) \<in> live s B K"
  note kind = slab_inv_kind [OF inv [unfolded slab_inv_def] K]
  have "k * 2 ^ sh < 4096" using chunk_inside [OF kind(3) k(1)] zero_less_power [of "2 :: nat" sh] by linarith
  then obtain k' where "k' \<in> U" "k' * 2 ^ sh = k * 2 ^ sh"
    using live_at [OF inv live kind(1)] K by auto
  then show False using k(2) by simp
qed

definition pages_for :: "nat \<Rightarrow> nat" where
  "pages_for len = len div 4096 + (if len mod 4096 \<noteq> 0 then 1 else 0)"

lemma pages_for_enough: "len \<le> pages_for len * 4096"
  unfolding pages_for_def using div_mult_mod_eq [of len 4096] by (auto simp: algebra_simps)

text \<open>A request finds a place or fails and changes nothing; it fails only when there is no place.\<close>

definition no_place :: "slab_pool \<Rightarrow> blocks \<Rightarrow> kinds \<Rightarrow> nat \<Rightarrow> bool" where
  "no_place s B K len \<longleftrightarrow>
    (if len < 2048 then ringed {} K (chunk_shift s len) = {} \<and> free_heads B = {}
     else \<forall>h l. B h = Some (l, True) \<longrightarrow> l < pages_for len)"

lemma alloc_run:
  assumes inv: "slab_inv N B K s" and len: "2048 \<le> len"
  shows "(no_place s B K len \<and> ncx_slab_alloc page4k s len = Some (0, s)) \<or>
    (\<exists>p s' B' K' n. \<not> no_place s B K len \<and> ncx_slab_alloc page4k s len = Some (p, s') \<and> slab_inv N B' K' s' \<and> same_fields s s' \<and> p \<noteq> 0 \<and>
       len \<le> n \<and> (p, n) \<notin> live s B K \<and> live s' B' K' = insert (p, n) (live s B K))"
proof -
  have inv': "slab_inv_at {} N B K s" using inv by (simp add: slab_inv_def)
  obtain fl where fl: "pages_inv (nodes s) N B fl" using slab_inv_parts(2) [OF inv'] by blast
  have po: "pool_ok N s" using slab_inv_parts(1) [OF inv'] .
  have m: "0 < pages_for len" using len pages_for_enough [of len] by (cases "pages_for len") auto
  have eq: "ncx_slab_alloc page4k s len = do { (page, s) \<leftarrow> ncx_slab_alloc_pages s (pages_for len);
      Some (case page of Some h \<Rightarrow> chunk_address page4k h 0 0 s | None \<Rightarrow> 0, s) }"
    using len by (simp add: ncx_slab_alloc_def ncx_slab_alloc_locked_def pages_for_def)
  show ?thesis
  proof (cases "no_place s B K len")
    case True
    then have "ncx_slab_alloc_pages s (pages_for len) = Some (None, s)"
      using alloc_pages_none [OF fl] len by (simp add: no_place_def)
    then show ?thesis using True eq by simp
  next
    case False
    then obtain h0 l0 where h0: "B h0 = Some (l0, True)" "pages_for len \<le> l0" using len by (auto simp: no_place_def not_less)
    have N: "N \<le> sl_pages s" using po by (simp add: pool_ok_def)
    obtain h l as bs s' where s': "fl = as @ h # bs" "B h = Some (l, True)" "pages_for len \<le> l"
        "ncx_slab_alloc_pages s (pages_for len) = Some (Some h, s')" "same_pool s s'"
        "pages_inv (nodes s') N (take_block h (pages_for len) l B) (as @ take_list h (pages_for len) l @ bs)"
        "nodes s' (Slab_page h) = used_page (pages_for len)" "\<And>n. n \<notin> page_nodes N B \<Longrightarrow> nodes s' n = nodes s n"
      by (rule alloc_pages_found [OF fl N m h0]) (rule that; assumption)
    let ?p = "sl_start s + h * 4096"
    have inv2: "slab_inv N (take_block h (pages_for len) l B) K s'"
      using take_run_inv [OF inv' s'(2) m s'(3,5,6,7,8)] by (simp add: slab_inv_def)
    have K: "K h = None" by (rule free_block_kind [OF inv' s'(2)])
    have start: "sl_start s' = sl_start s" using same_pool_fields [OF s'(5)] by simp
    have live: "live s' (take_block h (pages_for len) l B) K = insert (?p, pages_for len * 4096) (live s B K)"
      by (rule live_take [where K = K and h = h, OF slab_inv_blocks [OF inv'] s'(2) m s'(3) K start])
    have new: "(?p, pages_for len * 4096) \<notin> live s B K"
      using free_block_not_live [OF inv s'(2)] m s'(3) by simp
    have alloc: "ncx_slab_alloc page4k s len = Some (?p, s')"
      using eq s'(4) start by (simp add: chunk_address_def)
    have "?p \<noteq> 0" using po by (simp add: pool_ok_def)
    then show ?thesis using alloc inv2 same_pool_same_fields [OF s'(5)] live new pages_for_enough [of len] False by blast
  qed
qed

lemma alloc_chunk:
  assumes inv: "slab_inv N B K s" and len: "len < 2048"
  shows "(no_place s B K len \<and> ncx_slab_alloc page4k s len = Some (0, s)) \<or>
    (\<exists>p s' B' K' n. \<not> no_place s B K len \<and> ncx_slab_alloc page4k s len = Some (p, s') \<and> slab_inv N B' K' s' \<and> same_fields s s' \<and> p \<noteq> 0 \<and>
       len \<le> n \<and> (p, n) \<notin> live s B K \<and> live s' B' K' = insert (p, n) (live s B K))"
proof -
  have inv': "slab_inv_at {} N B K s" using inv by (simp add: slab_inv_def)
  have po: "pool_ok N s" using slab_inv_parts(1) [OF inv'] .
  define sh where "sh = chunk_shift s len"
  define j where "j = sh - min_shift s"
  note sh = chunk_shift_bounds [OF po len, folded sh_def]
  have sh3: "3 \<le> sh" using sh(1) po by (simp add: pool_ok_def)
  obtain xs where ring: "ring (nodes s) (Slab_slot j) (tag_of sh) (map Slab_page xs)" and xs: "set xs = ringed {} K sh"
    using slab_inv_parts(5) [OF inv' sh(1,2)] by (auto simp: slot_ring_def j_def)
  have slot: "\<not> (sh < min_shift s \<or> 12 - min_shift s \<le> j)" using sh by (auto simp: j_def)
  show ?thesis
  proof (cases xs)
    case (Cons h ys)
    then have "h \<in> ringed {} K sh" using xs by auto
    then obtain U where K: "K h = Some (sh, U)" "U \<noteq> all_chunks sh" by (auto simp: ringed_def)
    obtain k s' where k: "k < chunks sh" "k \<notin> U"
        "slot_loop page4k sh (Slab_page h) s = Some (Some (chunk_address page4k h sh k s, s'))"
        "slab_inv_at {} N B (K(h \<mapsto> (sh, insert k U))) s'" "same_fields s s'"
      by (rule slot_loop_found [OF inv' K])
    have first: "sp_next (nodes s (Slab_slot j)) = Some (Slab_page h)" using ring_first [OF ring] Cons by simp
    have "sp_next (nodes s (Slab_page h)) = Some (hd (map Slab_page ys @ [Slab_slot j]))"
      using ring_at(1) [of "nodes s" "Slab_slot j" "tag_of sh" "[]" "Slab_page h" "map Slab_page ys"] ring Cons by simp
    moreover have "hd (map Slab_page ys @ [Slab_slot j]) \<noteq> Slab_page h"
      using ring Cons by (cases ys) (auto simp: ring_def)
    ultimately have other: "sp_next (nodes s (Slab_page h)) \<noteq> Some (Slab_page h)" by simp
    have alloc: "ncx_slab_alloc page4k s len = Some (chunk_address page4k h sh k s, s')"
      using len slot first other k(3)
      by (simp add: ncx_slab_alloc_def ncx_slab_alloc_locked_def Let_def flip: sh_def j_def)
    have addr: "chunk_address page4k h sh k s = sl_start s + h * 4096 + k * 2 ^ sh" by (simp add: chunk_address_def)
    have start: "sl_start s' = sl_start s" using k(5) by (simp add: same_fields_def)
    have "{..<reserved sh} \<subseteq> U" using slab_inv_kind(4) [OF inv' K(1)] by (simp add: chunk_ok_def)
    then have r: "reserved sh \<le> k" using k(2) by (meson lessThan_iff not_less subsetD)
    have live: "live s' B (K(h \<mapsto> (sh, insert k U))) = insert (chunk_address page4k h sh k s, 2 ^ sh) (live s B K)"
      unfolding addr by (rule live_mark [of K h, OF K(1) r start])
    have new: "(chunk_address page4k h sh k s, 2 ^ sh) \<notin> live s B K"
      unfolding addr by (rule free_chunk_not_live [OF inv K(1) k(1,2)])
    have "chunk_address page4k h sh k s \<noteq> 0" using po by (simp add: addr pool_ok_def)
    moreover have "slab_inv N B (K(h \<mapsto> (sh, insert k U))) s'" using k(4) by (simp add: slab_inv_def)
    moreover have "\<not> no_place s B K len" using len \<open>h \<in> ringed {} K sh\<close> by (auto simp: no_place_def sh_def)
    ultimately show ?thesis using alloc k(5) live new sh(3) by blast
  next
    case Nil
    then have first: "sp_next (nodes s (Slab_slot j)) = Some (Slab_slot j)" using ring_first [OF ring] by simp
    then have eq: "ncx_slab_alloc page4k s len = new_page page4k sh j s"
      using len slot by (simp add: ncx_slab_alloc_def ncx_slab_alloc_locked_def Let_def flip: sh_def j_def)
    obtain fl where fl: "pages_inv (nodes s) N B fl" using slab_inv_parts(2) [OF inv'] by blast
    have empty: "ringed {} K sh = {}" using xs Nil by simp
    show ?thesis
    proof (cases "free_heads B = {}")
      case True
      then have "ncx_slab_alloc_pages s 1 = Some (None, s)"
        by (intro alloc_pages_none [OF fl]) (auto simp: free_heads_def)
      then have "ncx_slab_alloc page4k s len = Some (0, s)" using eq by (simp add: new_page_def)
      moreover have "no_place s B K len" using True empty len by (simp add: no_place_def sh_def)
      ultimately show ?thesis by blast
    next
      case False
      then obtain h0 l0 where h0: "B h0 = Some (l0, True)" by (auto simp: free_heads_def)
      then have one: "1 \<le> l0" using block_in [OF slab_inv_blocks [OF inv'] h0] by simp
      have N: "N \<le> sl_pages s" using po by (simp add: pool_ok_def)
      obtain h l as bs s1 where s1: "fl = as @ h # bs" "B h = Some (l, True)" "1 \<le> l"
          "ncx_slab_alloc_pages s 1 = Some (Some h, s1)" "same_pool s s1"
          "pages_inv (nodes s1) N (take_block h 1 l B) (as @ take_list h 1 l @ bs)"
          "nodes s1 (Slab_page h) = used_page 1" "\<And>n. n \<notin> page_nodes N B \<Longrightarrow> nodes s1 n = nodes s n"
        by (rule alloc_pages_found [OF fl N zero_less_one h0 one]) (rule that; assumption)
      note same1 = same_pool_fields [OF s1(5)]
      have j1: "j = sh - min_shift s1" by (simp add: j_def same1)
      obtain s' w where s': "(if sh < 6 then small_new page4k sh j h s1 else if sh = 6 then exact_new page4k j h s1
            else big_new page4k sh j h s1) = Some (chunk_address page4k h sh (reserved sh) s1, s')"
          "nodes s' = nodes (slot_page j (tag_of sh) h w s1)" "same_fields s1 s'" "\<And>i. i \<noteq> h \<Longrightarrow> bitmaps s' i = bitmaps s1 i"
          "chunk_ok s' h sh {..<reserved sh + 1}"
        by (rule new_chunks [where h = h, OF sh3 sh(2) j1]) (rule that; assumption)
      have fields: "same_fields s s'" using s'(3) same1 by (simp add: same_fields_def)
      have bits: "bitmaps s' i = bitmaps s i" if "i \<noteq> h" for i using s'(4) [OF that] same1 by simp
      have some: "{..<reserved sh + 1} \<noteq> all_chunks sh" using reserved_bounds [OF sh3 sh(2)] by auto
      let ?B = "take_block h 1 l B" and ?K = "K(h \<mapsto> (sh, {..<reserved sh + 1}))"
      have inv2: "slab_inv N ?B ?K s'"
        using slot_page_inv [OF inv' sh(1,2) empty s1(2,6,8) s'(2) [unfolded j_def] fields bits s'(5) some] by (simp add: slab_inv_def)
      have addr: "chunk_address page4k h sh (reserved sh) s1 = sl_start s + h * 4096 + reserved sh * 2 ^ sh"
        by (simp add: chunk_address_def same1)
      have alloc: "ncx_slab_alloc page4k s len = Some (sl_start s + h * 4096 + reserved sh * 2 ^ sh, s')"
        unfolding eq new_page_def using s1(4) s'(1) addr by (cases sh "6 :: nat" rule: linorder_cases) simp_all
      have live: "live s' ?B ?K = insert (sl_start s + h * 4096 + reserved sh * 2 ^ sh, 2 ^ sh) (live s B K)"
        by (rule live_new [where K = K and h = h, OF slab_inv_blocks [OF inv'] s1(2) free_block_kind [OF inv' s1(2)]])
          (use fields in \<open>simp add: same_fields_def\<close>)
      have "reserved sh * 2 ^ sh + 2 ^ sh \<le> 4096"
        using reserved_bounds [OF sh3 sh(2)] by (intro chunk_inside sh(2)) simp
      then have "reserved sh * 2 ^ sh < 4096" using zero_less_power [of "2 :: nat" sh] by linarith
      then have new: "(sl_start s + h * 4096 + reserved sh * 2 ^ sh, 2 ^ sh) \<notin> live s B K"
        using s1(3) by (intro free_block_not_live [OF inv s1(2)]) auto
      have "\<not> no_place s B K len" using False len by (simp add: no_place_def)
      moreover have "sl_start s + h * 4096 + reserved sh * 2 ^ sh \<noteq> 0" using po by (simp add: pool_ok_def)
      ultimately show ?thesis using alloc inv2 fields live new sh(3) by blast
    qed
  qed
qed

section \<open>Release\<close>

lemma kind_links:
  assumes inv: "slab_inv N B K s" and K: "K h = Some (sh, U)"
  shows "snd (sp_prev (nodes s (Slab_page h))) = tag_of sh" "sp_next (nodes s (Slab_page h)) = None \<longleftrightarrow> U = all_chunks sh"
proof -
  have inv': "slab_inv_at {} N B K s" using inv by (simp add: slab_inv_def)
  note kind = slab_inv_kind [OF inv' K]
  have "snd (sp_prev (nodes s (Slab_page h))) = tag_of sh \<and> (sp_next (nodes s (Slab_page h)) = None \<longleftrightarrow> U = all_chunks sh)"
  proof (cases "U = all_chunks sh")
    case True
    then show ?thesis using kind(5) by simp
  next
    case False
    then have "h \<in> ringed {} K sh" using K by (simp add: ringed_def)
    then obtain as bs where ring: "ring (nodes s) (Slab_slot (sh - min_shift s)) (tag_of sh) (map Slab_page as @ Slab_page h # map Slab_page bs)"
      using slot_ring_split [OF slab_inv_parts(5) [OF inv' kind(2,3)]] by blast
    show ?thesis using ring_at [OF ring] False by simp
  qed
  then show "snd (sp_prev (nodes s (Slab_page h))) = tag_of sh" "sp_next (nodes s (Slab_page h)) = None \<longleftrightarrow> U = all_chunks sh" by simp_all
qed

text \<open>The page and the chunk of an address.\<close>

lemma address_page:
  assumes "pool_ok N s" "h < N" "x < 4096" and p: "p = sl_start s + h * 4096 + x"
  shows "\<not> (p < sl_start s \<or> sl_end s < p)" "(p - sl_start s) div 4096 = h" "p mod 4096 = x" "h < sl_pages s"
proof -
  have "(h + 1) * 4096 \<le> N * (4096 :: nat)" using assms(2) by (intro mult_le_mono1) simp
  then show "\<not> (p < sl_start s \<or> sl_end s < p)" using assms(1,3) by (simp add: p pool_ok_def)
  show "(p - sl_start s) div 4096 = h" "h < sl_pages s" using assms by (simp_all add: pool_ok_def)
  obtain c where "sl_start s = 4096 * c" using assms(1) by (auto simp: pool_ok_def)
  then have "p = x + (c + h) * 4096" by (simp add: p algebra_simps)
  then have "p mod 4096 = x mod 4096" by (simp only: mod_mult_self1)
  then show "p mod 4096 = x" using assms(3) by simp
qed

lemma address_chunk:
  assumes "sh < 12" "k < chunks sh" "(p :: nat) mod 4096 = k * 2 ^ sh"
  shows "p mod 2 ^ sh = 0" "p mod 4096 div 2 ^ sh = k"
proof -
  have "(2 :: nat) ^ sh dvd 2 ^ 12" using assms(1) by (intro le_imp_power_dvd) simp
  then have "p mod 2 ^ sh = p mod 4096 mod 2 ^ sh" by (simp add: mod_mod_cancel)
  then show "p mod 2 ^ sh = 0" "p mod 4096 div 2 ^ sh = k" using assms(3) by simp_all
qed

lemma small_empty:
  assumes sh: "sh < 6" "3 \<le> sh" and enc: "encodes s h sh U" and sub: "U \<subseteq> all_chunks sh"
  shows "U \<subseteq> {..<reserved sh} \<longleftrightarrow>
    bitmaps s h 0 AND NOT (push_bit (reserved sh) 1 - 1) = 0 \<and> list_all (\<lambda>j. bitmaps s h j = 0) [1 ..< chunks sh div 64]"
proof -
  let ?w = "chunks sh div 64" and ?n = "reserved sh"
  note words = small_words [OF sh(1)] and bounds = reserved_bounds [of sh]
  have n: "?n \<le> 8" using bounds sh by simp
  have low: "push_bit ?n 1 - 1 = (Bit_Operations.mask ?n :: u64)" by (simp add: mask_eq_exp_minus_1 push_bit_eq_mult)
  have at: "n * 64 + i \<in> U \<longleftrightarrow> bit (bitmaps s h n) i" if "n < ?w" "i < 64" for n i
  proof -
    have "n * 64 + i < chunks sh" using words that by linarith
    then show ?thesis using enc sh(1) that(2) by (simp add: encodes_small)
  qed
  have first: "bitmaps s h 0 AND NOT (push_bit ?n 1 - 1) = 0 \<longleftrightarrow> (\<forall>i < 64. ?n \<le> i \<longrightarrow> \<not> bit (bitmaps s h 0) i)"
    unfolding low by (auto simp: bit_eq_iff [of _ 0] bit_simps)
  have rest: "bitmaps s h j = 0 \<longleftrightarrow> (\<forall>i < 64. \<not> bit (bitmaps s h j) i)" for j
    by (auto simp: bit_eq_iff [of _ 0])
  show ?thesis
    unfolding first list_all_iff rest
  proof (intro iffI conjI ballI allI impI)
    assume U: "U \<subseteq> {..<?n}"
    show "\<not> bit (bitmaps s h 0) i" if "i < 64" "?n \<le> i" for i
      using at [of 0 i] that words U by auto
    show "\<not> bit (bitmaps s h j) i" if "j \<in> set [1..<?w]" "i < 64" for j i
    proof -
      have "?n \<le> j * 64 + i" using that(1) n by auto
      then show ?thesis using at [of j i] that U by auto
    qed
  next
    assume *: "(\<forall>i < 64. ?n \<le> i \<longrightarrow> \<not> bit (bitmaps s h 0) i) \<and> (\<forall>j \<in> set [1..<?w]. \<forall>i < 64. \<not> bit (bitmaps s h j) i)"
    show "U \<subseteq> {..<?n}"
    proof
      fix k assume k: "k \<in> U"
      then have "k < chunks sh" using sub by auto
      then have w: "k div 64 < ?w" by (rule small_index [OF sh(1)])
      then have b: "bit (bitmaps s h (k div 64)) (k mod 64)" using at [of "k div 64" "k mod 64"] k by simp
      then have "k div 64 \<notin> set [1..<?w]" using * by auto
      then have "k < 64" using w by (cases "k < 64") (auto simp: div_eq_0_iff)
      then show "k \<in> {..<?n}" using * b by (cases "?n \<le> k") auto
    qed
  qed
qed

text \<open>Clearing the bit of a chunk handed out, whatever the kind of its page.\<close>

lemma clear_chunk:
  assumes inv: "slab_inv N B K s" and K: "K h = Some (sh, U)" and k: "k \<in> U" "reserved sh \<le> k"
    and clr: "\<And>t. encodes t h sh U \<Longrightarrow> slab_step h t (clr t) \<and> encodes (clr t) h sh (U - {k})"
  obtains t s' B' K' where
    "(if U = all_chunks sh then revive_page (sh - min_shift s) (tag_of sh) (Slab_page h) s else Some s) = Some t"
    "encodes t h sh U" "same_pool s t" "\<And>n. sp_slab (nodes t n) = sp_slab (nodes s n)"
    "(if U - {k} \<subseteq> {..<reserved sh} then ncx_slab_free_pages (clr t) h 1 else Some (clr t)) = Some s'"
    "slab_inv N B' K' s'" "live s' B' K' = live s B K - {(sl_start s + h * 4096 + k * 2 ^ sh, 2 ^ sh)}" "same_fields s s'"
proof -
  have inv': "slab_inv_at {} N B K s" using inv by (simp add: slab_inv_def)
  note kind = slab_inv_kind [OF inv' K]
  have enc: "encodes s h sh U" and sub: "U \<subseteq> all_chunks sh" and res: "{..<reserved sh} \<subseteq> U" using kind(4) by (simp_all add: chunk_ok_def)
  have kc: "k < chunks sh" using k(1) sub by auto
  obtain t where t: "(if U = all_chunks sh then revive_page (sh - min_shift s) (tag_of sh) (Slab_page h) s else Some s) = Some t"
      "slab_inv_at {h} N B K t" "same_pool s t" "\<And>n. sp_slab (nodes t n) = sp_slab (nodes s n)"
  proof (cases "U = all_chunks sh")
    case True
    with K have "K h = Some (sh, all_chunks sh)" by simp
    then obtain t where "revive_page (sh - min_shift s) (tag_of sh) (Slab_page h) s = Some t" "slab_inv_at {h} N B K t"
        "same_pool s t" "\<And>n. sp_slab (nodes t n) = sp_slab (nodes s n)"
      using revive_inv [OF inv'] by blast
    then show ?thesis using that [of t] True by simp
  next
    case False
    then show ?thesis using that [of s] inv' slab_inv_not_full [of K h sh U] K by simp
  qed
  have enc_t: "encodes t h sh U"
    using enc encodes_cong [of t h s sh U] t(4) same_pool_fields [OF t(3)] by simp
  have step: "slab_step h t (clr t)" and enc': "encodes (clr t) h sh (U - {k})" using clr [OF enc_t] by simp_all
  have fields: "same_fields s (clr t)" using step same_pool_fields [OF t(3)] by (simp add: slab_step_def same_fields_def)
  then have start: "sl_start (clr t) = sl_start s" by (simp add: same_fields_def)
  let ?r = "(sl_start s + h * 4096 + k * 2 ^ sh, 2 ^ sh) :: nat \<times> nat"
  show ?thesis
  proof (cases "U - {k} \<subseteq> {..<reserved sh}")
    case True
    obtain s' where s': "ncx_slab_free_pages (clr t) h 1 = Some s'"
        "slab_inv_at {} N (B(h \<mapsto> (1, True))) (K(h := None)) s'" "same_pool (clr t) s'"
      using free_page_inv [OF t(2) K step] by blast
    have start': "sl_start s' = sl_start s" using start same_pool_fields [OF s'(3)] by simp
    have "runs (B(h \<mapsto> (1, True))) (K(h := None)) = runs B K" using K by (auto simp: runs_def split: if_splits)
    moreover have "taken_chunks K = insert (h, sh, k) (taken_chunks (K(h := None)))"
    proof (rule set_eqI, clarify)
      fix i sh' k'
      have "k' \<in> U \<and> reserved sh \<le> k' \<longleftrightarrow> k' = k" using k True by (cases "k' = k") auto
      then show "(i, sh', k') \<in> taken_chunks K \<longleftrightarrow> (i, sh', k') \<in> insert (h, sh, k) (taken_chunks (K(h := None)))"
        using K by (cases "i = h") (auto simp: taken_chunks_def)
    qed
    ultimately have live: "live s B K = insert ?r (live s' (B(h \<mapsto> (1, True))) (K(h := None)))"
      by (simp add: live_def chunk_region_def start')
    have "k * 2 ^ sh < 4096" using chunk_inside [OF kind(3) kc] zero_less_power [of "2 :: nat" sh] by linarith
    then have "?r \<notin> live s' (B(h \<mapsto> (1, True))) (K(h := None))"
      using free_block_not_live [of N "B(h \<mapsto> (1, True))" "K(h := None)" s' h 1] s'(2) start' by (simp add: slab_inv_def)
    then have "live s' (B(h \<mapsto> (1, True))) (K(h := None)) = live s B K - {?r}" using live by auto
    moreover have "same_fields s s'" using fields same_pool_fields [OF s'(3)] by (simp add: same_fields_def)
    ultimately show ?thesis using that [OF t(1) enc_t t(3,4) _ _] True s'(1,2) by (simp add: slab_inv_def)
  next
    case False
    let ?K = "K(h \<mapsto> (sh, U - {k}))"
    have "{..<reserved sh} \<subseteq> U - {k}" using res k(2) by auto
    then have "chunk_ok (clr t) h sh (U - {k})" using False enc' sub by (auto simp: chunk_ok_def)
    from slab_step_inv [OF t(2) K step this] have "slab_inv_at {h} N B ?K (clr t)" .
    moreover have "U - {k} \<noteq> all_chunks sh" using k sub by auto
    ultimately have inv2: "slab_inv N B ?K (clr t)" using slab_inv_not_full [of ?K h sh "U - {k}"] by (simp add: slab_inv_def)
    have "K = ?K(h \<mapsto> (sh, insert k (U - {k})))" using K k(1) by (auto simp: insert_absorb)
    then have live: "live s B K = insert ?r (live (clr t) B ?K)"
      using live_mark [of ?K h sh "U - {k}" k s "clr t" B] k(2) start by simp
    have "?r \<notin> live (clr t) B ?K"
      using free_chunk_not_live [OF inv2, of h sh "U - {k}" k] kc start by simp
    then have "live (clr t) B ?K = live s B K - {?r}" using live by auto
    then show ?thesis using that [OF t(1) enc_t t(3,4) _ inv2] False fields by simp
  qed
qed

lemma small_shift: "sh < 16 \<Longrightarrow> unat (of_nat sh AND NCX_SLAB_SHIFT_MASK) = sh"
proof -
  assume sh: "sh < 16"
  have "NCX_SLAB_SHIFT_MASK = Bit_Operations.mask 4" by (simp add: NCX_SLAB_SHIFT_MASK_def mask_eq_exp_minus_1)
  then have "of_nat sh AND NCX_SLAB_SHIFT_MASK = (of_nat (take_bit 4 sh) :: u64)"
    by (simp only: of_nat_take_bit) (simp only: take_bit_eq_mask)
  then show ?thesis using sh by (simp add: take_bit_nat_eq_self)
qed

lemma free_chunk_ok:
  assumes inv: "slab_inv N B K s" and K: "K h = Some (sh, U)" and k: "k \<in> U" "reserved sh \<le> k"
    and p: "p = sl_start s + h * 4096 + k * 2 ^ sh"
  shows "\<exists>s' B' K'. ncx_slab_free page4k s p = Some (Slab_freed, s') \<and> slab_inv N B' K' s' \<and> same_fields s s' \<and>
    live s' B' K' = live s B K - {(p, 2 ^ sh)}"
proof -
  have inv': "slab_inv_at {} N B K s" using inv by (simp add: slab_inv_def)
  note kind = slab_inv_kind [OF inv' K] and links = kind_links [OF inv K]
  have po: "pool_ok N s" using slab_inv_parts(1) [OF inv'] .
  have enc: "encodes s h sh U" and sub: "U \<subseteq> all_chunks sh" using kind(4) by (simp_all add: chunk_ok_def)
  have sh3: "3 \<le> sh" using kind(2) po by (simp add: pool_ok_def)
  have kc: "k < chunks sh" using k(1) sub by auto
  have x: "k * 2 ^ sh < 4096" using chunk_inside [OF kind(3) kc] zero_less_power [of "2 :: nat" sh] by linarith
  have h: "h < N" using block_in [OF slab_inv_blocks [OF inv'] kind(1)] by simp
  note page = address_page [OF po h x p]
  note addr = address_chunk [OF kind(3) kc page(3)]
  have locked: "ncx_slab_free page4k s p = (if sh < 6 then free_small page4k h p s
      else if sh = 6 then free_exact page4k h p s else free_big page4k h p s)"
    using page(1,2,4) links(1) by (simp add: ncx_slab_free_def ncx_slab_free_locked_def Let_def tag_of_def slab_tags)
  let ?next = "if U = all_chunks sh then revive_page (sh - min_shift s) (tag_of sh) (Slab_page h) s else Some s"
  let ?goal = "\<exists>s' B' K'. ncx_slab_free page4k s p = Some (Slab_freed, s') \<and> slab_inv N B' K' s' \<and> same_fields s s' \<and>
    live s' B' K' = live s B K - {(p, 2 ^ sh)}"
  consider "sh < 6" | "sh = 6" | "6 < sh" by linarith
  then show ?thesis
  proof cases
    case 1
    define clr where "clr t = set_bitmap h (k div 64) (bitmaps t h (k div 64) AND NOT (push_bit (k mod 64) 1)) t" for t
    have clr: "slab_step h t (clr t) \<and> encodes (clr t) h sh (U - {k})" if "encodes t h sh U" for t
      using small_clear [OF 1 that] by (simp add: clr_def)
    obtain t s' B' K' where t: "?next = Some t" "encodes t h sh U" "same_pool s t" "\<And>n. sp_slab (nodes t n) = sp_slab (nodes s n)"
        and s': "(if U - {k} \<subseteq> {..<reserved sh} then ncx_slab_free_pages (clr t) h 1 else Some (clr t)) = Some s'"
        "slab_inv N B' K' s'" "live s' B' K' = live s B K - {(sl_start s + h * 4096 + k * 2 ^ sh, 2 ^ sh)}" "same_fields s s'"
      by (rule clear_chunk [OF inv K k clr], assumption) (rule that; assumption)
    have shift: "unat (sp_slab (nodes s (Slab_page h)) AND NCX_SLAB_SHIFT_MASK) = sh"
      using enc 1 small_shift [of sh] by (simp add: encodes_small)
    have bit: "bitmaps s h (k div 64) AND push_bit (k mod 64) 1 \<noteq> 0"
      using enc 1 k(1) kc by (simp add: and_push_bit encodes_small)
    have empty: "U - {k} \<subseteq> {..<reserved sh} \<longleftrightarrow> bitmaps (clr t) h 0 AND NOT (push_bit (reserved sh) 1 - 1) = 0 \<and>
        list_all (\<lambda>j. bitmaps (clr t) h j = 0) [1 ..< chunks sh div 64]"
      using small_empty [OF 1 sh3 conjunct2 [OF clr [OF t(2)]]] sub by auto
    have count: "bitmap_chunks (chunks sh) sh = reserved sh" using 1 by (simp add: reserved_def)
    have n: "\<not> 64 \<le> reserved sh" using reserved_bounds [OF sh3 kind(3)] by simp
    have joined: "(if sp_next (nodes s (Slab_page h)) = None then
        if sh < min_shift s then None else revive_page (sh - min_shift s) NCX_SLAB_SMALL (Slab_page h) s else Some s) = Some t"
      using t(1) links(2) kind(2) 1 by (auto simp: tag_of_def split: if_splits)
    have "free_small page4k h p s = Some (Slab_freed, s')"
      using s'(1) empty unfolding free_small_def Let_def shift page4k_simps addr
      by (auto simp: addr bit joined clr_def [symmetric] kind(3) count n split: if_splits)
    then show ?thesis using locked 1 s'(2,3,4) p by auto
  next
    case 2
    define clr where "clr t = set_slab (Slab_page h) (sp_slab (nodes t (Slab_page h)) AND NOT (push_bit k 1)) t" for t
    have clr: "slab_step h t (clr t) \<and> encodes (clr t) h sh (U - {k})" if "encodes t h sh U" for t
      using exact_clear that unfolding 2 clr_def by simp
    obtain t s' B' K' where t: "?next = Some t" "encodes t h sh U" "same_pool s t" "\<And>n. sp_slab (nodes t n) = sp_slab (nodes s n)"
        and s': "(if U - {k} \<subseteq> {..<reserved sh} then ncx_slab_free_pages (clr t) h 1 else Some (clr t)) = Some s'"
        "slab_inv N B' K' s'" "live s' B' K' = live s B K - {(sl_start s + h * 4096 + k * 2 ^ sh, 2 ^ sh)}" "same_fields s s'"
      by (rule clear_chunk [OF inv K k clr], assumption) (rule that; assumption)
    have bit: "sp_slab (nodes s (Slab_page h)) AND push_bit k 1 \<noteq> 0"
      using enc 2 k(1) kc by (simp add: and_push_bit encodes_exact)
    have empty: "U - {k} \<subseteq> {..<reserved sh} \<longleftrightarrow> sp_slab (nodes (clr t) (Slab_page h)) = 0"
      using exact_empty [of "clr t" h "U - {k}"] clr [OF t(2)] sub unfolding 2 reserved_values(4) [OF order_refl] by auto
    have full: "sp_slab (nodes s (Slab_page h)) = NCX_SLAB_BUSY \<longleftrightarrow> U = all_chunks sh"
      using exact_full enc sub unfolding 2 by blast
    have joined: "(if sp_slab (nodes s (Slab_page h)) = NCX_SLAB_BUSY then
        if 6 < min_shift s then None else revive_page (6 - min_shift s) NCX_SLAB_EXACT (Slab_page h) s else Some s) = Some t"
      using t(1) full kind(2) 2 by (auto simp: tag_of_def split: if_splits)
    have "free_exact page4k h p s = Some (Slab_freed, s')"
      using s'(1) empty kc addr unfolding free_exact_def Let_def page4k_simps 2
      by (auto simp: bit joined clr_def [symmetric] split: if_splits)
    then show ?thesis using locked 2 s'(2,3,4) p by auto
  next
    case 3
    define clr where "clr t = set_slab (Slab_page h) (sp_slab (nodes t (Slab_page h)) AND NOT (push_bit (k + NCX_SLAB_MAP_SHIFT) 1)) t" for t
    have clr: "slab_step h t (clr t) \<and> encodes (clr t) h sh (U - {k})" if "encodes t h sh U" for t
      using big_clear [OF 3 that] by (simp add: clr_def)
    obtain t s' B' K' where t: "?next = Some t" "encodes t h sh U" "same_pool s t" "\<And>n. sp_slab (nodes t n) = sp_slab (nodes s n)"
        and s': "(if U - {k} \<subseteq> {..<reserved sh} then ncx_slab_free_pages (clr t) h 1 else Some (clr t)) = Some s'"
        "slab_inv N B' K' s'" "live s' B' K' = live s B K - {(sl_start s + h * 4096 + k * 2 ^ sh, 2 ^ sh)}" "same_fields s s'"
      by (rule clear_chunk [OF inv K k clr], assumption) (rule that; assumption)
    note shift = big_shift [OF 3 kind(3) enc]
    have bit: "sp_slab (nodes s (Slab_page h)) AND push_bit (k + NCX_SLAB_MAP_SHIFT) 1 \<noteq> 0"
      using enc 3 k(1) kc by (simp add: and_push_bit encodes_big NCX_SLAB_MAP_SHIFT_def)
    have r: "reserved sh = 0" using reserved_values(4) [of sh] 3 by simp
    have empty: "U - {k} \<subseteq> {..<reserved sh} \<longleftrightarrow> sp_slab (nodes (clr t) (Slab_page h)) AND NCX_SLAB_MAP_MASK = 0"
      using big_empty [OF 3, of "clr t" h "U - {k}"] clr [OF t(2)] sub unfolding r by auto
    have joined: "(if sp_next (nodes s (Slab_page h)) = None then
        if sh < min_shift s then None else revive_page (sh - min_shift s) NCX_SLAB_BIG (Slab_page h) s else Some s) = Some t"
      using t(1) links(2) kind(2) 3 by (auto simp: tag_of_def split: if_splits)
    have "\<not> 64 \<le> k + NCX_SLAB_MAP_SHIFT" using kc big_chunks [OF 3] by (simp add: NCX_SLAB_MAP_SHIFT_def)
    then have "free_big page4k h p s = Some (Slab_freed, s')"
      using s'(1) empty unfolding free_big_def Let_def shift page4k_simps addr
      by (auto simp: addr bit joined clr_def [symmetric] split: if_splits)
    then show ?thesis using locked 3 s'(2,3,4) p by auto
  qed
qed

section \<open>Release of any pointer\<close>

lemma page_limit: "pool_ok N s \<Longrightarrow> N < 2 ^ 52"
  by (simp add: pool_ok_def)

lemma used_page_word:
  assumes "0 < l" "l < 2 ^ 52"
  defines "w \<equiv> of_nat l OR NCX_SLAB_PAGE_START"
  shows "w \<noteq> NCX_SLAB_PAGE_FREE" "w \<noteq> NCX_SLAB_PAGE_BUSY" "unat (w AND NOT NCX_SLAB_PAGE_START) = l"
proof -
  have start: "bit NCX_SLAB_PAGE_START i \<longleftrightarrow> i = 63" for i
  proof -
    have eq: "NCX_SLAB_PAGE_START = push_bit 63 1" by (simp add: NCX_SLAB_PAGE_START_def push_bit_eq_mult)
    show ?thesis unfolding eq by (auto simp: bit_simps)
  qed
  have nat: "take_bit 52 l = l" using assms(2) by (simp add: take_bit_nat_eq_self)
  have low: "bit l i \<Longrightarrow> i < 52" for i by (subst (asm) nat [symmetric]) (simp add: bit_take_bit_iff)
  have bits: "bit w i \<longleftrightarrow> i = 63 \<or> i < 64 \<and> bit l i" for i
    by (auto simp: w_def bit_or_iff start bit_simps)
  have "bit w 63" by (simp add: bits)
  then show "w \<noteq> NCX_SLAB_PAGE_FREE" by (auto simp: NCX_SLAB_PAGE_FREE_def)
  have "\<not> bit w 60" using low [of 60] by (auto simp: bits)
  moreover have "bit NCX_SLAB_PAGE_BUSY 60"
  proof -
    have eq: "NCX_SLAB_PAGE_BUSY = - 1" by (simp add: NCX_SLAB_PAGE_BUSY_def)
    show ?thesis unfolding eq by simp
  qed
  ultimately show "w \<noteq> NCX_SLAB_PAGE_BUSY" by auto
  have "w AND NOT NCX_SLAB_PAGE_START = of_nat l"
    by (rule bit_word_eqI) (auto simp: bit_and_iff bit_not_iff bits start bit_simps dest: low)
  then show "unat (w AND NOT NCX_SLAB_PAGE_START) = l" using assms(2) by (simp add: unat_of_nat_small)
qed

text \<open>A pointer to the beginning of a run that is in use.\<close>

lemma free_run_ok:
  assumes inv: "slab_inv N B K s" and B: "B h = Some (l, False)" and K: "K h = None" and p: "p = sl_start s + h * 4096"
  shows "\<exists>s' B' K'. ncx_slab_free page4k s p = Some (Slab_freed, s') \<and> slab_inv N B' K' s' \<and> same_fields s s' \<and>
    live s' B' K' = live s B K - {(p, l * 4096)}"
proof -
  have inv': "slab_inv_at {} N B K s" using inv by (simp add: slab_inv_def)
  have po: "pool_ok N s" using slab_inv_parts(1) [OF inv'] .
  have ok: "blocks_ok N B" using slab_inv_blocks [OF inv'] .
  have l: "0 < l" "h + l \<le> N" using block_in [OF ok B] by simp_all
  have "l < 2 ^ 52" using l(2) page_limit [OF po] by simp
  note word = used_page_word [OF l(1) this]
  have h: "h < N" using l by simp
  have p0: "p = sl_start s + h * 4096 + 0" using p by simp
  note page = address_page [OF po h _ p0]
  have node: "nodes s (Slab_page h) = used_page l" using slab_inv_parts(4) [OF inv'] B K by (simp add: runs_ok_def)
  obtain fl where fl: "pages_inv (nodes s) N B fl" using slab_inv_parts(2) [OF inv'] by blast
  have N: "N \<le> sl_pages s" using po by (simp add: pool_ok_def)
  have out: "sp_next (nodes s (Slab_page h)) = None" by (simp add: node used_page_def)
  let ?B = "B(h \<mapsto> (l, True))"
  obtain s' where s': "ncx_slab_free_pages s h l = Some s'" "same_pool s s'" "pages_inv (nodes s') N ?B (h # fl)"
      "\<And>n. n \<notin> page_nodes N ?B \<Longrightarrow> nodes s' n = nodes s n"
    by (rule free_pages_run [OF fl N B out]) (rule that; assumption)
  have inv2: "slab_inv N ?B K s'"
    using free_run_inv [OF inv' B K s'(2,3,4)] by (simp add: slab_inv_def)
  have start: "sl_start s' = sl_start s" using same_pool_fields [OF s'(2)] by simp
  have "ncx_slab_free page4k s p = Some (Slab_freed, s')"
    using page s'(1) word node
    by (simp add: ncx_slab_free_def ncx_slab_free_locked_def Let_def free_run_def slab_tags used_page_def)
  moreover have "live s' ?B K = live s B K - {(p, l * 4096)}"
  proof -
    have "runs B K = insert (h, l) (runs ?B K)" using B K by (auto simp: runs_def split: if_splits)
    then have "live s B K = insert (p, l * 4096) (live s' ?B K)" by (simp add: live_def run_region_def start p)
    moreover have "(p, l * 4096) \<notin> live s' ?B K"
      using free_block_not_live [OF inv2, of h l p "l * 4096"] l start p by simp
    ultimately show ?thesis by auto
  qed
  ultimately show ?thesis using inv2 same_pool_same_fields [OF s'(2)] by blast
qed

lemma free_page_word:
  assumes "unat w = l" "0 < l" "l < 2 ^ 52"
  shows "w \<noteq> NCX_SLAB_PAGE_FREE" "w \<noteq> NCX_SLAB_PAGE_BUSY"
  using assms by (auto simp: NCX_SLAB_PAGE_FREE_def NCX_SLAB_PAGE_BUSY_def)

text \<open>A run that is free is freed again without harm.\<close>

lemma free_again_ok:
  assumes inv: "slab_inv N B K s" and B: "B h = Some (l, True)" and p: "p = sl_start s + h * 4096"
  shows "\<exists>s'. ncx_slab_free page4k s p = Some (Slab_freed, s') \<and> slab_inv N B K s' \<and> same_fields s s' \<and> live s' B K = live s B K"
proof -
  have inv': "slab_inv_at {} N B K s" using inv by (simp add: slab_inv_def)
  have po: "pool_ok N s" using slab_inv_parts(1) [OF inv'] .
  have ok: "blocks_ok N B" using slab_inv_blocks [OF inv'] .
  have l: "0 < l" "h + l \<le> N" using block_in [OF ok B] by simp_all
  have lt: "l < 2 ^ 52" using l(2) page_limit [OF po] by simp
  have h: "h < N" using l by simp
  have p0: "p = sl_start s + h * 4096 + 0" using p by simp
  note page = address_page [OF po h _ p0]
  obtain fl where fl: "pages_inv (nodes s) N B fl" using slab_inv_parts(2) [OF inv'] by blast
  have N: "N \<le> sl_pages s" using po by (simp add: pool_ok_def)
  have slab: "sp_slab (nodes s (Slab_page h)) = of_nat l" using fl B by (simp add: pages_inv_def)
  have "h \<in> set fl" using fl B by (auto simp: pages_inv_def free_heads_def)
  then obtain as bs where split: "fl = as @ h # bs" by (auto dest: split_list)
  have "ring (nodes s) Slab_free 0 (map Slab_page as @ Slab_page h # map Slab_page bs)"
    using fl split by (simp add: pages_inv_def)
  then have tag: "snd (sp_prev (nodes s (Slab_page h))) = 0" using ring_at(2) by fastforce
  obtain s' fl' where s': "ncx_slab_free_pages s h l = Some s'" "same_pool s s'" "pages_inv (nodes s') N B fl'"
      "\<And>n. n \<notin> page_nodes N B \<Longrightarrow> nodes s' n = nodes s n"
    by (rule free_pages_again [OF fl N B]) (rule that; assumption)
  note same = same_pool_fields [OF s'(2)]
  have K: "K h = None" by (rule free_block_kind [OF inv' B])
  have kind: "B i = Some (1, False)" if "K i \<noteq> None" for i using slab_inv_kind(1) [OF inv'] that by force
  have "slab_inv_at {} N B K s'"
  proof (rule slab_inv_frame [OF inv' _ _ same_pool_same_fields [OF s'(2)] s'(3), where sh = 12 and h = h], goal_cases)
    case (7 i k)
    then show ?case by (intro s'(4)) simp
  next
    case (8 i)
    then show ?case using s'(4) [of "Slab_page i"] kind [of i] by simp
  next
    case (10 sh')
    then show ?case by (intro s'(4)) simp
  qed (use K B same in simp_all)
  moreover have "ncx_slab_free page4k s p = Some (Slab_freed, s')"
  proof -
    have small: "unat (of_nat l :: u64) = l" using lt by (simp add: unat_of_nat_small)
    note free_page_word [OF small l(1) lt]
    moreover have "unat (of_nat l AND NOT NCX_SLAB_PAGE_START) = l"
    proof -
      have "(of_nat l :: u64) AND NOT NCX_SLAB_PAGE_START = (of_nat l OR NCX_SLAB_PAGE_START) AND NOT NCX_SLAB_PAGE_START"
      proof (rule bit_word_eqI)
        have eq: "NCX_SLAB_PAGE_START = push_bit 63 1" by (simp add: NCX_SLAB_PAGE_START_def push_bit_eq_mult)
        show "bit ((of_nat l :: u64) AND NOT NCX_SLAB_PAGE_START) i =
          bit ((of_nat l OR NCX_SLAB_PAGE_START) AND NOT NCX_SLAB_PAGE_START) i" for i
          unfolding eq by (auto simp: bit_simps)
      qed
      then show ?thesis using used_page_word(3) [OF l(1) lt] by simp
    qed
    ultimately show ?thesis using page s'(1) slab tag
      by (simp add: ncx_slab_free_def ncx_slab_free_locked_def Let_def free_run_def slab_tags)
  qed
  moreover have "live s' B K = live s B K" by (simp add: live_def same)
  ultimately show ?thesis using same_pool_same_fields [OF s'(2)] by (auto simp: slab_inv_def)
qed

text \<open>Pointers into the pool that were not handed out.\<close>

lemma reject_chunk:
  assumes inv: "slab_inv N B K s" and K: "K h = Some (sh, U)" and x: "x < 4096" "\<And>k. k \<in> U \<Longrightarrow> x \<noteq> k * 2 ^ sh"
    and p: "p = sl_start s + h * 4096 + x"
  shows "\<exists>r. r \<noteq> Slab_freed \<and> ncx_slab_free page4k s p = Some (r, s)"
proof -
  have inv': "slab_inv_at {} N B K s" using inv by (simp add: slab_inv_def)
  note kind = slab_inv_kind [OF inv' K] and links = kind_links [OF inv K]
  have po: "pool_ok N s" using slab_inv_parts(1) [OF inv'] .
  have enc: "encodes s h sh U" using kind(4) by (simp add: chunk_ok_def)
  have h: "h < N" using block_in [OF slab_inv_blocks [OF inv'] kind(1)] by simp
  note page = address_page [OF po h x(1) p]
  have locked: "ncx_slab_free page4k s p = (if sh < 6 then free_small page4k h p s
      else if sh = 6 then free_exact page4k h p s else free_big page4k h p s)"
    using page(1,2,4) links(1) by (simp add: ncx_slab_free_def ncx_slab_free_locked_def Let_def tag_of_def slab_tags)
  define k where "k = x div 2 ^ sh"
  have "k * 2 ^ sh < chunks sh * 2 ^ sh"
    using chunk_bytes [OF kind(3)] le_less_trans [OF div_times_less_eq_dividend [of x "2 ^ sh"] x(1)] by (simp add: k_def)
  then have kc: "k < chunks sh" by simp
  have "(2 :: nat) ^ sh dvd 2 ^ 12" using kind(3) by (intro le_imp_power_dvd) simp
  then have mod: "p mod 2 ^ sh = x mod 2 ^ sh" using mod_mod_cancel [of "2 ^ sh" "2 ^ 12" p] page(3) by simp
  have new: "k \<notin> U" if "p mod 2 ^ sh = 0" using that mod x(2) [of k] by (auto simp: k_def)
  consider "sh < 6" | "sh = 6" | "6 < sh" by linarith
  then show ?thesis
  proof cases
    case 1
    have shift: "unat (sp_slab (nodes s (Slab_page h)) AND NCX_SLAB_SHIFT_MASK) = sh"
      using enc 1 small_shift [of sh] by (simp add: encodes_small)
    have "bitmaps s h (k div 64) AND push_bit (k mod 64) 1 = 0" if "p mod 2 ^ sh = 0"
      using enc 1 new [OF that] kc and_push_bit by (auto simp: encodes_small)
    then show ?thesis using locked 1 unfolding free_small_def Let_def shift page4k_simps page(3) k_def [symmetric] by auto
  next
    case 2
    have "sp_slab (nodes s (Slab_page h)) AND push_bit k 1 = 0" if "p mod 2 ^ sh = 0"
      using enc 2 new [OF that] kc and_push_bit by (auto simp: encodes_exact)
    then show ?thesis using locked 2 kc unfolding free_exact_def Let_def page4k_simps page(3)
      by (auto simp: k_def)
  next
    case 3
    note shift = big_shift [OF 3 kind(3) enc]
    have "sp_slab (nodes s (Slab_page h)) AND push_bit (k + NCX_SLAB_MAP_SHIFT) 1 = 0" if "p mod 2 ^ sh = 0"
    proof -
      have "\<not> bit (sp_slab (nodes s (Slab_page h))) (k + 32)" using enc 3 new [OF that] by (simp add: encodes_big)
      then show ?thesis using and_push_bit by (auto simp: NCX_SLAB_MAP_SHIFT_def)
    qed
    moreover have "k + NCX_SLAB_MAP_SHIFT < 64" using kc big_chunks [OF 3] by (simp add: NCX_SLAB_MAP_SHIFT_def)
    ultimately show ?thesis using locked 3 unfolding free_big_def Let_def shift page4k_simps page(3) k_def [symmetric] by auto
  qed
qed

lemma reject_run:
  assumes po: "pool_ok N s" and h: "h < N" and x: "x < 4096" and tag: "snd (sp_prev (nodes s (Slab_page h))) = 0"
    and p: "p = sl_start s + h * 4096 + x"
    and no: "x \<noteq> 0 \<or> sp_slab (nodes s (Slab_page h)) \<in> {NCX_SLAB_PAGE_FREE, NCX_SLAB_PAGE_BUSY}"
  shows "\<exists>r. r \<noteq> Slab_freed \<and> ncx_slab_free page4k s p = Some (r, s)"
  using address_page [OF po h x p] tag no
  by (auto simp: ncx_slab_free_def ncx_slab_free_locked_def Let_def free_run_def slab_tags)

text \<open>The chunks of a small page that hold its bitmap.\<close>

definition bitmap_chunk :: "slab_pool \<Rightarrow> kinds \<Rightarrow> nat \<Rightarrow> bool" where
  "bitmap_chunk s K p \<longleftrightarrow> (\<exists>h sh U k. K h = Some (sh, U) \<and> k < reserved sh \<and> p = sl_start s + h * 4096 + k * 2 ^ sh)"

definition released :: "slab_pool \<Rightarrow> blocks \<Rightarrow> kinds \<Rightarrow> nat \<Rightarrow> (nat \<times> nat) set" where
  "released s B K p = {r \<in> live s B K. fst r \<noteq> p}"

lemma released_live:
  assumes "slab_inv N B K s" "(p, n) \<in> live s B K"
  shows "live s B K - {(p, n)} = released s B K p"
proof -
  have uniq: "m = n" if "(p, m) \<in> live s B K" for m
  proof (rule ccontr)
    assume "m \<noteq> n"
    then have "p + m \<le> p" by (intro live_disjoint [OF assms(1) that assms(2)]) simp_all
    then show False using live_bounds(1) [OF assms(1) that] by simp
  qed
  show ?thesis
  proof (rule set_eqI, clarify)
    show "(q, m) \<in> live s B K - {(p, n)} \<longleftrightarrow> (q, m) \<in> released s B K p" for q m
      using uniq [of m] by (cases "q = p") (auto simp: released_def)
  qed
qed

lemma released_none: "(\<And>n. (p, n) \<notin> live s B K) \<Longrightarrow> released s B K p = live s B K"
  by (auto simp: released_def)

lemma free_cases:
  assumes inv: "slab_inv N B K s" and p: "p < sl_start s + N * 4096 \<or> sl_end s < p" and no: "\<not> bitmap_chunk s K p"
  obtains (live) n s' B' K' where "(p, n) \<in> live s B K" "ncx_slab_free page4k s p = Some (Slab_freed, s')" "slab_inv N B' K' s'"
      "live s' B' K' = live s B K - {(p, n)}" "same_fields s s'"
  | (again) s' where "ncx_slab_free page4k s p = Some (Slab_freed, s')" "slab_inv N B K s'" "live s' B K = live s B K" "same_fields s s'"
      "\<And>n. (p, n) \<notin> live s B K"
  | (reject) r where "r \<noteq> Slab_freed" "ncx_slab_free page4k s p = Some (r, s)" "\<And>n. (p, n) \<notin> live s B K"
proof -
  have inv': "slab_inv_at {} N B K s" using inv by (simp add: slab_inv_def)
  have po: "pool_ok N s" using slab_inv_parts(1) [OF inv'] .
  have ok: "blocks_ok N B" using slab_inv_blocks [OF inv'] .
  obtain fl where fl: "pages_inv (nodes s) N B fl" using slab_inv_parts(2) [OF inv'] by blast
  show thesis
  proof (cases "p < sl_start s \<or> sl_end s < p")
    case True
    have "(p, n) \<notin> live s B K" for n using live_bounds [OF inv, of p n] True by auto
    moreover have "ncx_slab_free page4k s p = Some (Outside_of_pool, s)"
      using True by (simp add: ncx_slab_free_def ncx_slab_free_locked_def)
    ultimately show ?thesis using reject by blast
  next
    case False
    define h where "h = (p - sl_start s) div 4096"
    define x where "x = (p - sl_start s) mod 4096"
    have addr: "p = sl_start s + h * 4096 + x" using False by (simp add: h_def x_def)
    have x: "x < 4096" by (simp add: x_def)
    have "p - sl_start s < N * 4096" using p False by auto
    then have h: "h < N" by (simp add: h_def div_less_iff_less_mult)
    show ?thesis
    proof (cases "K h")
      case (Some y)
      then obtain sh U where K: "K h = Some (sh, U)" by (cases y) auto
      note kind = slab_inv_kind [OF inv' K]
      show ?thesis
      proof (cases "\<exists>k \<in> U. x = k * 2 ^ sh")
        case True
        then obtain k where k: "k \<in> U" "x = k * 2 ^ sh" by blast
        have res: "reserved sh \<le> k"
        proof (rule ccontr)
          assume "\<not> reserved sh \<le> k"
          then have "bitmap_chunk s K p"
            unfolding bitmap_chunk_def using K addr k(2)
            by (intro exI [of _ h] exI [of _ sh] exI [of _ U] exI [of _ k]) simp
          then show False using no by simp
        qed
        have p': "p = sl_start s + h * 4096 + k * 2 ^ sh" using addr k(2) by simp
        have "(p, 2 ^ sh) \<in> live s B K"
          using K k res p' by (force simp: live_def taken_chunks_def chunk_region_def)
        then show ?thesis using free_chunk_ok [OF inv K k(1) res p'] live by blast
      next
        case F: False
        then have "\<exists>r. r \<noteq> Slab_freed \<and> ncx_slab_free page4k s p = Some (r, s)"
          by (intro reject_chunk [OF inv K x _ addr]) blast
        moreover have "(p, n) \<notin> live s B K" for n
          using live_at [OF inv _ kind(1), of p n] addr x K F by auto
        ultimately show ?thesis using reject by blast
      qed
    next
      case None
      show ?thesis
      proof (cases "B h")
        case (Some b)
        then obtain l u where B: "B h = Some (l, u)" by (cases b) auto
        have l: "0 < l" using block_in [OF ok B] by simp
        show ?thesis
        proof (cases "x = 0")
          case x0: True
          show ?thesis
          proof (cases u)
            case True
            then have B': "B h = Some (l, True)" using B by simp
            have "(p, n) \<notin> live s B K" for n using free_block_not_live [OF inv B'] addr x0 l by simp
            then show ?thesis using free_again_ok [OF inv B'] addr x0 again by auto
          next
            case F: False
            then have B': "B h = Some (l, False)" using B by simp
            have "(p, l * 4096) \<in> live s B K"
              using B' None addr x0 by (force simp: live_def runs_def run_region_def)
            then show ?thesis using free_run_ok [OF inv B' None] addr x0 live by auto
          qed
        next
          case x1: False
          have tag: "snd (sp_prev (nodes s (Slab_page h))) = 0"
          proof (cases u)
            case True
            then have "h \<in> set fl" using fl B by (auto simp: pages_inv_def free_heads_def)
            then obtain as bs where "fl = as @ h # bs" by (auto dest: split_list)
            then have "ring (nodes s) Slab_free 0 (map Slab_page as @ Slab_page h # map Slab_page bs)"
              using fl by (simp add: pages_inv_def)
            then show ?thesis using ring_at(2) by fastforce
          next
            case F: False
            then show ?thesis using slab_inv_parts(4) [OF inv'] B None by (simp add: runs_ok_def used_page_def)
          qed
          have "(p, n) \<notin> live s B K" for n
          proof
            assume lv: "(p, n) \<in> live s B K"
            have "p < sl_start s + (h + l) * 4096" using addr x l by (cases l) auto
            then show False using live_at [OF inv lv B] addr None x1 by simp
          qed
          then show ?thesis using reject_run [OF po h x tag addr] x1 reject by blast
        qed
      next
        case BN: None
        obtain j l u where j: "B j = Some (l, u)" "j \<le> h" "h < j + l" using block_cover [OF ok h] by blast
        have jh: "j < h" using j BN by (cases "j = h") auto
        have node: "nodes s (Slab_page h) = (if u then zero_page else busy_page)"
          using fl j(1,3) jh by (cases u) (auto simp: pages_inv_def)
        have tag: "snd (sp_prev (nodes s (Slab_page h))) = 0" using node by (cases u) simp_all
        have "sp_slab (nodes s (Slab_page h)) \<in> {NCX_SLAB_PAGE_FREE, NCX_SLAB_PAGE_BUSY}"
          using node by (cases u) (simp_all add: NCX_SLAB_PAGE_FREE_def)
        moreover have "(p, n) \<notin> live s B K" for n
        proof
          assume lv: "(p, n) \<in> live s B K"
          have "sl_start s + j * 4096 \<le> p" using addr j(2) by simp
          moreover have "(h + 1) * 4096 \<le> (j + l) * (4096 :: nat)" using j(3) by (intro mult_le_mono1) simp
          then have "p < sl_start s + (j + l) * 4096" using addr x by simp
          ultimately have c: "\<not> u \<and> (K j = None \<and> p = sl_start s + j * 4096 \<and> n = l * 4096 \<or>
            (\<exists>sh U k. K j = Some (sh, U) \<and> k \<in> U \<and> reserved sh \<le> k \<and> p = sl_start s + j * 4096 + k * 2 ^ sh \<and> n = 2 ^ sh))"
            using live_at [OF inv lv j(1)] by blast
          have "K j = None" using slab_inv_kind(1) [OF inv', of j] j jh by (cases "K j") auto
          then show False using c addr jh by auto
        qed
        ultimately show ?thesis using reject_run [OF po h x tag addr] reject by blast
      qed
    qed
  qed
qed

end
