(* ===== verification/SlabStat.thy ===== *)
theory SlabStat
  imports SlabAlloc
begin

text \<open>
  The statistics of the slab pool, \<open>ncx_slab_stat\<close>: one pass over the descriptors from block to block.
\<close>

record slab_stat =
  st_pool_size :: nat
  st_used_size :: nat
  st_used_pct :: nat
  st_pages :: nat
  st_free_page :: nat
  st_p_small :: nat
  st_p_exact :: nat
  st_p_big :: nat
  st_p_page :: nat
  st_b_small :: nat
  st_b_exact :: nat
  st_b_big :: nat
  st_b_page :: nat
  st_max_free_pages :: nat

definition zero_stat :: slab_stat where
  "zero_stat = \<lparr> st_pool_size = 0, st_used_size = 0, st_used_pct = 0, st_pages = 0, st_free_page = 0, st_p_small = 0,
     st_p_exact = 0, st_p_big = 0, st_p_page = 0, st_b_small = 0, st_b_exact = 0, st_b_big = 0, st_b_page = 0,
     st_max_free_pages = 0 \<rparr>"

text \<open>The loops over the bits of a word add \<open>x\<close> for each bit that is set, from bit \<open>i\<close> on.\<close>

definition count_bits :: "u64 \<Rightarrow> nat \<Rightarrow> nat \<Rightarrow> nat" where
  "count_bits w i n = length (filter (\<lambda>k. w AND push_bit k 1 \<noteq> 0) [i ..< n])"

text \<open>\<open>BIG\<close>: the bits below the first that the mask does not have.\<close>

function big_bits :: "u64 \<Rightarrow> u64 \<Rightarrow> nat \<Rightarrow> nat" where
  "big_bits w full i =
    (if 64 \<le> NCX_SLAB_MAP_SHIFT + i \<or> push_bit (NCX_SLAB_MAP_SHIFT + i) 1 AND full = 0 then 0
     else (if w AND push_bit (NCX_SLAB_MAP_SHIFT + i) 1 \<noteq> 0 then 1 else 0) + big_bits w full (i + 1))"
  by auto
termination by (relation "measure (\<lambda>(w, m, i). 64 - i)") (auto simp: NCX_SLAB_MAP_SHIFT_def)

declare big_bits.simps [simp del]

definition stat_small :: "slab_globals \<Rightarrow> slab_pool \<Rightarrow> nat \<Rightarrow> slab_stat \<Rightarrow> slab_stat option" where
  "stat_small g s h st =
    (let shift = unat (sp_slab (nodes s (Slab_page h))) in
     do { count \<leftarrow> chunk_count g shift;
          let n = 2 ^ shift * sum_list (map (\<lambda>j. count_bits (bitmaps s h j) 0 64) [0 ..< count div 64]);
          Some (st\<lparr> st_used_size := st_used_size st + n, st_b_small := st_b_small st + n, st_p_small := st_p_small st + 1 \<rparr>) })"

definition stat_exact :: "slab_globals \<Rightarrow> slab_pool \<Rightarrow> nat \<Rightarrow> slab_stat \<Rightarrow> slab_stat" where
  "stat_exact g s h st =
    (let slab = sp_slab (nodes s (Slab_page h));
         n = (if slab = NCX_SLAB_BUSY then 8 * 8 * ncx_slab_exact_size g else count_bits slab 0 64 * ncx_slab_exact_size g)
     in st\<lparr> st_used_size := st_used_size st + n, st_b_exact := st_b_exact st + n, st_p_exact := st_p_exact st + 1 \<rparr>)"

definition stat_big :: "slab_globals \<Rightarrow> slab_pool \<Rightarrow> nat \<Rightarrow> slab_stat \<Rightarrow> slab_stat option" where
  "stat_big g s h st =
    (let slab = sp_slab (nodes s (Slab_page h)) in
     do { full \<leftarrow> big_mask g slab;
          let n = 2 ^ unat (slab AND NCX_SLAB_SHIFT_MASK) * big_bits slab full 0;
          Some (st\<lparr> st_used_size := st_used_size st + n, st_b_big := st_b_big st + n, st_p_big := st_p_big st + 1 \<rparr>) })"

definition stat_run :: "slab_globals \<Rightarrow> nat \<Rightarrow> slab_stat \<Rightarrow> slab_stat" where
  "stat_run g l st = st\<lparr> st_used_size := st_used_size st + l * ncx_pagesize g, st_b_page := st_b_page st + l * ncx_pagesize g,
     st_p_page := st_p_page st + l \<rparr>"

definition stat_free :: "nat \<Rightarrow> slab_stat \<Rightarrow> slab_stat" where
  "stat_free l st = st\<lparr> st_max_free_pages := (if st_max_free_pages st < l then l else st_max_free_pages st),
     st_free_page := st_free_page st + l \<rparr>"

text \<open>
  The loop; \<open>page\<close> is always \<open>pool->pages + i\<close>. A run or a free block moves \<open>i\<close> by its length. A length of
  0 would leave \<open>i\<close> where it is for ever.
\<close>

partial_function (option) stat_loop :: "slab_globals \<Rightarrow> slab_pool \<Rightarrow> nat \<Rightarrow> slab_stat \<Rightarrow> slab_stat option" where
  "stat_loop g s i st =
    (if st_pages st \<le> i then Some st
     else if sl_pages s \<le> i then None
     else
       let page = nodes s (Slab_page i); type = snd (sp_prev page) in
       if type = NCX_SLAB_SMALL then do { st \<leftarrow> stat_small g s i st; stat_loop g s (i + 1) st }
       else if type = NCX_SLAB_EXACT then stat_loop g s (i + 1) (stat_exact g s i st)
       else if type = NCX_SLAB_BIG then do { st \<leftarrow> stat_big g s i st; stat_loop g s (i + 1) st }
       else if sp_prev page = (None, NCX_SLAB_PAGE) then
         let l = unat (sp_slab page AND NOT NCX_SLAB_PAGE_START) in stat_loop g s (i + l) (stat_run g l st)
       else
         let l = unat (sp_slab page) in stat_loop g s (i + l) (stat_free l st))"

declare stat_loop.simps [code]

definition ncx_slab_stat :: "slab_globals \<Rightarrow> slab_pool \<Rightarrow> slab_stat option" where
  "ncx_slab_stat g s =
    do { let st = zero_stat\<lparr> st_pages := (sl_end s - sl_start s) div ncx_pagesize g \<rparr>;
         st \<leftarrow> stat_loop g s 0 st;
         let st = st\<lparr> st_pool_size := sl_end s - sl_start s \<rparr>;
         (if st_pool_size st = 0 then None
          else Some (st\<lparr> st_used_pct := st_used_size st * 100 mod 2 ^ 64 div st_pool_size st \<rparr>)) }"

section \<open>What is counted\<close>

text \<open>What a block adds: the pages of each kind, the bytes in use, the free pages.\<close>

definition block_bytes :: "blocks \<Rightarrow> kinds \<Rightarrow> nat \<Rightarrow> nat" where
  "block_bytes B K h = (case B h of Some (l, False) \<Rightarrow> (case K h of None \<Rightarrow> l * 4096 | Some (sh, U) \<Rightarrow> card U * 2 ^ sh) | _ \<Rightarrow> 0)"

definition block_free :: "blocks \<Rightarrow> nat \<Rightarrow> nat" where
  "block_free B h = (case B h of Some (l, True) \<Rightarrow> l | _ \<Rightarrow> 0)"

definition block_used :: "blocks \<Rightarrow> nat \<Rightarrow> nat" where
  "block_used B h = (case B h of Some (l, False) \<Rightarrow> l | _ \<Rightarrow> 0)"

definition pages_used :: "slab_stat \<Rightarrow> nat" where
  "pages_used st = st_p_small st + st_p_exact st + st_p_big st + st_p_page st"

definition pages_counted :: "slab_stat \<Rightarrow> nat" where
  "pages_counted st = pages_used st + st_free_page st"

definition stat_counted :: "blocks \<Rightarrow> kinds \<Rightarrow> nat \<Rightarrow> slab_stat \<Rightarrow> bool" where
  "stat_counted B K i st \<longleftrightarrow> pages_counted st = i \<and> pages_used st = sum (block_used B) {..<i} \<and> st_used_size st = sum (block_bytes B K) {..<i} \<and>
     st_free_page st = sum (block_free B) {..<i} \<and> st_max_free_pages st = Max (insert 0 (block_free B ` {..<i})) \<and>
     st_used_size st = st_b_small st + st_b_exact st + st_b_big st + st_b_page st"

lemma count_bits_card: "count_bits w 0 64 = card {k. k < 64 \<and> bit w k}"
proof -
  have "count_bits w 0 64 = length (filter (bit w) [0..<64])" by (simp add: count_bits_def and_push_bit)
  also have "\<dots> = card {k. k < 64 \<and> bit w k}"
    by (subst distinct_length_filter) (auto intro: arg_cong [of _ _ card])
  finally show ?thesis .
qed

lemma big_bits_card:
  assumes "6 < sh"
  shows "i \<le> chunks sh \<Longrightarrow> big_bits w (full_map sh) i = card {k. i \<le> k \<and> k < chunks sh \<and> bit w (32 + k)}"
proof (induction w "full_map sh" i rule: big_bits.induct)
  case (1 w i)
  have stop: "64 \<le> NCX_SLAB_MAP_SHIFT + i \<or> push_bit (NCX_SLAB_MAP_SHIFT + i) 1 AND full_map sh = 0 \<longleftrightarrow> \<not> i < chunks sh"
    using big_chunks [OF assms] bit_full_map [OF assms, of "32 + i"] and_push_bit [of "full_map sh" "32 + i"]
    by (auto simp: NCX_SLAB_MAP_SHIFT_def and.commute [of "push_bit _ _"])
  show ?case
  proof (cases "i < chunks sh")
    case True
    have split: "{k. i \<le> k \<and> k < chunks sh \<and> bit w (32 + k)} =
        (if bit w (32 + i) then insert i {k. i + 1 \<le> k \<and> k < chunks sh \<and> bit w (32 + k)}
         else {k. i + 1 \<le> k \<and> k < chunks sh \<and> bit w (32 + k)})"
      using True by (auto simp: Suc_le_eq order_le_less)
    have "big_bits w (full_map sh) (i + 1) = card {k. i + 1 \<le> k \<and> k < chunks sh \<and> bit w (32 + k)}"
      using True stop by (intro 1(1)) auto
    then show ?thesis
      unfolding split using stop True
      by (subst big_bits.simps) (simp add: and_push_bit NCX_SLAB_MAP_SHIFT_def)
  next
    case False
    then have "i = chunks sh" using 1(2) by simp
    then show ?thesis using stop by (subst big_bits.simps) auto
  qed
qed

text \<open>The bits of the bitmap of a page are its chunks in use.\<close>

lemma small_words_card:
  "sum_list (map (\<lambda>j. card {i. i < 64 \<and> j * 64 + i \<in> U}) [0 ..< n]) = card (U \<inter> {..< n * 64})"
proof (induction n)
  case (Suc n)
  have new: "U \<inter> {n * 64 ..< n * 64 + 64} = (\<lambda>i. n * 64 + i) ` {i. i < 64 \<and> n * 64 + i \<in> U}"
  proof (intro equalityI subsetI)
    fix k assume "k \<in> U \<inter> {n * 64 ..< n * 64 + 64}"
    then show "k \<in> (\<lambda>i. n * 64 + i) ` {i. i < 64 \<and> n * 64 + i \<in> U}" by (intro image_eqI [of _ _ "k - n * 64"]) auto
  qed auto
  have "card (U \<inter> {n * 64 ..< n * 64 + 64}) = card {i. i < 64 \<and> n * 64 + i \<in> U}"
    unfolding new by (rule card_image) (simp add: inj_on_def)
  moreover have "U \<inter> {..< Suc n * 64} = U \<inter> {..< n * 64} \<union> U \<inter> {n * 64 ..< n * 64 + 64}" by auto
  moreover have "U \<inter> {..< n * 64} \<inter> (U \<inter> {n * 64 ..< n * 64 + 64}) = {}" by auto
  ultimately show ?case using Suc by (simp add: card_Un_disjoint)
qed simp

lemma small_bits:
  assumes "sh < 6" "encodes s h sh U" "U \<subseteq> all_chunks sh"
  shows "sum_list (map (\<lambda>j. count_bits (bitmaps s h j) 0 64) [0 ..< chunks sh div 64]) = card U"
proof -
  note words = small_words [OF assms(1)]
  have "{i. i < 64 \<and> j * 64 + i \<in> U} = {i. i < 64 \<and> bit (bitmaps s h j) i}" if j: "j < chunks sh div 64" for j
  proof -
    have "j * 64 + i \<in> U \<longleftrightarrow> bit (bitmaps s h j) i" if "i < 64" for i
    proof -
      have "j * 64 + i < chunks sh" using words j that by linarith
      then show ?thesis using assms(1,2) that by (simp add: encodes_small)
    qed
    then show ?thesis by auto
  qed
  then have "map (\<lambda>j. count_bits (bitmaps s h j) 0 64) [0 ..< chunks sh div 64] =
      map (\<lambda>j. card {i. i < 64 \<and> j * 64 + i \<in> U}) [0 ..< chunks sh div 64]"
    by (simp add: count_bits_card)
  then have "sum_list (map (\<lambda>j. count_bits (bitmaps s h j) 0 64) [0 ..< chunks sh div 64]) = card (U \<inter> {..< chunks sh div 64 * 64})"
    by (simp only: small_words_card)
  moreover have "U \<inter> {..< chunks sh div 64 * 64} = U" using assms(3) words by (auto simp: mult.commute)
  ultimately show ?thesis by simp
qed

lemma exact_bits:
  assumes "encodes s h 6 U" "U \<subseteq> all_chunks 6"
  shows "count_bits (sp_slab (nodes s (Slab_page h))) 0 64 = card U"
    "sp_slab (nodes s (Slab_page h)) = NCX_SLAB_BUSY \<Longrightarrow> card U = 64"
proof -
  have "{k. k < 64 \<and> bit (sp_slab (nodes s (Slab_page h))) k} = U" using assms by (auto simp: encodes_exact)
  then show "count_bits (sp_slab (nodes s (Slab_page h))) 0 64 = card U" by (simp add: count_bits_card)
  show "card U = 64" if "sp_slab (nodes s (Slab_page h)) = NCX_SLAB_BUSY" using exact_full [OF assms] that by simp
qed

lemma big_bits_used:
  assumes "6 < sh" "encodes s h sh U" "U \<subseteq> all_chunks sh"
  shows "big_bits (sp_slab (nodes s (Slab_page h))) (full_map sh) 0 = card U"
proof -
  have "{k. 0 \<le> k \<and> k < chunks sh \<and> bit (sp_slab (nodes s (Slab_page h))) (32 + k)} = U"
    using assms by (auto simp: encodes_big)
  then show ?thesis using big_bits_card [OF assms(1), of 0] by simp
qed

text \<open>From block to block.\<close>

lemma next_block:
  assumes "blocks_ok N B" "B i = Some (l, u)"
  shows "i + l = N \<or> i + l < N \<and> B (i + l) \<noteq> None"
proof (cases "i + l < N")
  case True
  obtain j k v where j: "B j = Some (k, v)" "j \<le> i + l" "i + l < j + k" using block_cover [OF assms(1) True] by blast
  have "\<not> j < i" using block_next [OF assms(1) j(1) assms(2)] j(3) by auto
  moreover have "j \<noteq> i" using j assms(2) by auto
  ultimately have "i + l \<le> j" using block_next [OF assms j(1)] by simp
  then show ?thesis using j True by simp
next
  case False
  then show ?thesis using block_in [OF assms] by simp
qed

lemma block_sum:
  fixes f :: "nat \<Rightarrow> nat"
  assumes "blocks_ok N B" "B i = Some (l, u)" "\<And>h. B h = None \<Longrightarrow> f h = 0"
  shows "sum f {..<i + l} = sum f {..<i} + f i" "insert 0 (f ` {..<i + l}) = insert (f i) (insert 0 (f ` {..<i}))"
proof -
  have l: "0 < l" using block_in [OF assms(1,2)] by simp
  have inner: "f k = 0" if "k \<in> {i<..<i + l}" for k
    using that block_inner [OF assms(1,2), of k] assms(3) by simp
  have "sum f {..<i + l} = sum f {..<Suc i}"
    by (rule sum.mono_neutral_right) (use l inner in auto)
  then show "sum f {..<i + l} = sum f {..<i} + f i" by simp
  have range: "{..<i + l} = {..<i} \<union> ({i} \<union> {i<..<i + l})" using l by auto
  show "insert 0 (f ` {..<i + l}) = insert (f i) (insert 0 (f ` {..<i}))"
    unfolding range using inner by (auto simp: image_Un)
qed

lemma stat_counted_step:
  assumes "blocks_ok N B" "B i = Some (l, u)" and c: "stat_counted B K i st"
    and "pages_counted st' = pages_counted st + l" "pages_used st' = pages_used st + block_used B i" "st_used_size st' = st_used_size st + block_bytes B K i"
    "st_free_page st' = st_free_page st + block_free B i" "st_max_free_pages st' = max (st_max_free_pages st) (block_free B i)"
    "st_b_small st' + st_b_exact st' + st_b_big st' + st_b_page st' =
      st_b_small st + st_b_exact st + st_b_big st + st_b_page st + block_bytes B K i"
  shows "stat_counted B K (i + l) st'"
proof -
  have bytes: "sum (block_bytes B K) {..<i + l} = sum (block_bytes B K) {..<i} + block_bytes B K i"
    by (rule block_sum(1) [OF assms(1,2)]) (simp add: block_bytes_def)
  have used: "sum (block_used B) {..<i + l} = sum (block_used B) {..<i} + block_used B i"
    by (rule block_sum(1) [OF assms(1,2)]) (simp add: block_used_def)
  have free: "sum (block_free B) {..<i + l} = sum (block_free B) {..<i} + block_free B i"
    by (rule block_sum(1) [OF assms(1,2)]) (simp add: block_free_def)
  have "insert 0 (block_free B ` {..<i + l}) = insert (block_free B i) (insert 0 (block_free B ` {..<i}))"
    by (rule block_sum(2) [OF assms(1,2)]) (simp add: block_free_def)
  then have "Max (insert 0 (block_free B ` {..<i + l})) = max (block_free B i) (Max (insert 0 (block_free B ` {..<i})))"
    by (simp only:) (rule Max_insert, simp_all)
  then show ?thesis
    using c assms(4-9) unfolding stat_counted_def bytes used free by (simp add: max.commute)
qed

lemma stat_loop_counts:
  assumes inv: "slab_inv N B K s"
  shows "i = N \<or> i < N \<and> B i \<noteq> None \<Longrightarrow> stat_counted B K i st \<Longrightarrow> st_pages st = N \<Longrightarrow>
    \<exists>st'. stat_loop page4k s i st = Some st' \<and> stat_counted B K N st' \<and> st_pages st' = N"
proof (induction "N - i" arbitrary: i st rule: less_induct)
  case less
  have inv': "slab_inv_at {} N B K s" using inv by (simp add: slab_inv_def)
  have po: "pool_ok N s" using slab_inv_parts(1) [OF inv'] .
  have ok: "blocks_ok N B" using slab_inv_blocks [OF inv'] .
  obtain fl where fl: "pages_inv (nodes s) N B fl" using slab_inv_parts(2) [OF inv'] by blast
  show ?case
  proof (cases "i = N")
    case True
    then show ?thesis using less.prems by (subst stat_loop.simps) auto
  next
    case False
    then obtain l u where i: "i < N" "B i = Some (l, u)" using less.prems(1) by auto
    have l: "0 < l" "i + l \<le> N" using block_in [OF ok i(2)] by simp_all
    have small: "l < 2 ^ 52" using l(2) page_limit [OF po] by simp
    have inside: "\<not> N \<le> i" "\<not> sl_pages s \<le> i" using i(1) po by (auto simp: pool_ok_def)
    have IH: "\<exists>st''. stat_loop page4k s (i + l) st' = Some st'' \<and> stat_counted B K N st'' \<and> st_pages st'' = N"
      if "stat_counted B K (i + l) st'" "st_pages st' = N" for st'
      using less.hyps [of "i + l" st'] l i(1) next_block [OF ok i(2)] that by auto
    consider (free) "u" | (run) "\<not> u" "K i = None" | (chunk) sh U where "K i = Some (sh, U)" by (cases "K i") auto
    then show ?thesis
    proof cases
      case free
      then have B: "B i = Some (l, True)" using i by simp
      have len: "unat (sp_slab (nodes s (Slab_page i))) = l" by (rule unat_block [OF fl B])
      have "i \<in> set fl" using fl B by (auto simp: pages_inv_def free_heads_def)
      then obtain as bs where "fl = as @ i # bs" by (auto dest: split_list)
      then have "ring (nodes s) Slab_free 0 (map Slab_page as @ Slab_page i # map Slab_page bs)"
        using fl by (simp add: pages_inv_def)
      then have tag: "snd (sp_prev (nodes s (Slab_page i))) = 0" "fst (sp_prev (nodes s (Slab_page i))) \<noteq> None"
        using ring_at(2) by fastforce+
      have eq: "stat_loop page4k s i st = stat_loop page4k s (i + l) (stat_free l st)"
        using less.prems(3) inside tag len by (subst stat_loop.simps) (auto simp: Let_def slab_tags)
      have "stat_counted B K (i + l) (stat_free l st)"
        by (rule stat_counted_step [OF ok B less.prems(2)])
          (simp_all add: stat_free_def pages_counted_def pages_used_def block_used_def block_bytes_def block_free_def B max_def)
      then show ?thesis unfolding eq by (rule IH) (simp add: stat_free_def less.prems(3))
    next
      case run
      then have B: "B i = Some (l, False)" using i by simp
      have node: "nodes s (Slab_page i) = used_page l" using slab_inv_parts(4) [OF inv'] B run(2) by (simp add: runs_ok_def)
      have eq: "stat_loop page4k s i st = stat_loop page4k s (i + l) (stat_run page4k l st)"
        using less.prems(3) inside node used_page_word(3) [OF l(1) small]
        by (subst stat_loop.simps) (simp add: Let_def slab_tags used_page_def)
      have "stat_counted B K (i + l) (stat_run page4k l st)"
        by (rule stat_counted_step [OF ok B less.prems(2)])
          (simp_all add: stat_run_def pages_counted_def pages_used_def block_used_def block_bytes_def block_free_def B run(2))
      then show ?thesis unfolding eq by (rule IH) (simp add: stat_run_def less.prems(3))
    next
      case (chunk sh U)
      note kind = slab_inv_kind [OF inv' chunk] and links = kind_links [OF inv chunk]
      have B: "B i = Some (1, False)" by (rule kind(1))
      then have l1: "l = 1" "u = False" using i by simp_all
      have enc: "encodes s i sh U" and sub: "U \<subseteq> all_chunks sh" using kind(4) by (simp_all add: chunk_ok_def)
      have bytes: "block_bytes B K i = card U * 2 ^ sh" "block_free B i = 0" "block_used B i = 1"
        using B chunk by (simp_all add: block_bytes_def block_free_def block_used_def)
      consider "sh < 6" | "sh = 6" | "6 < sh" by linarith
      then show ?thesis
      proof cases
        case 1
        have slab: "unat (sp_slab (nodes s (Slab_page i))) = sh" using enc 1 by (simp add: encodes_small unat_of_nat_small)
        define st1 where "st1 = st\<lparr> st_used_size := st_used_size st + 2 ^ sh * card U,
          st_b_small := st_b_small st + 2 ^ sh * card U, st_p_small := st_p_small st + 1 \<rparr>"
        have eq: "stat_loop page4k s i st = stat_loop page4k s (i + l) st1"
          using less.prems(3) inside links(1) 1 kind(3) small_bits [OF 1 enc sub] slab
          by (subst stat_loop.simps) (simp add: Let_def tag_of_def l1 stat_small_def st1_def)
        have "stat_counted B K (i + l) st1"
          by (rule stat_counted_step [OF ok i(2) less.prems(2)]) (simp_all add: st1_def pages_counted_def pages_used_def bytes l1)
        then show ?thesis unfolding eq by (rule IH) (simp add: st1_def less.prems(3))
      next
        case 2
        let ?st = "stat_exact page4k s i st"
        have eq: "stat_loop page4k s i st = stat_loop page4k s (i + l) ?st"
          using less.prems(3) inside links(1) 2
          by (subst stat_loop.simps) (simp add: Let_def tag_of_def l1 slab_tags)
        define n where "n = card U * 64"
        have st: "?st = st\<lparr> st_used_size := st_used_size st + n, st_b_exact := st_b_exact st + n, st_p_exact := st_p_exact st + 1 \<rparr>"
          using exact_bits enc [unfolded 2] sub [unfolded 2] by (auto simp: stat_exact_def Let_def n_def)
        have n: "block_bytes B K i = n" using bytes(1) 2 by (simp add: n_def)
        have "stat_counted B K (i + l) ?st"
          unfolding st by (rule stat_counted_step [OF ok i(2) less.prems(2)]) (simp_all add: pages_counted_def pages_used_def n bytes(2,3) l1)
        then show ?thesis unfolding eq by (rule IH) (simp add: st less.prems(3))
      next
        case 3
        define st1 where "st1 = st\<lparr> st_used_size := st_used_size st + 2 ^ sh * card U,
          st_b_big := st_b_big st + 2 ^ sh * card U, st_p_big := st_p_big st + 1 \<rparr>"
        have eq: "stat_loop page4k s i st = stat_loop page4k s (i + l) st1"
          using less.prems(3) inside links(1) 3 kind(3) big_bits_used [OF 3 enc sub] big_shift [OF 3 kind(3) enc]
            big_mask_page4k [OF 3 kind(3) enc]
          by (subst stat_loop.simps) (simp add: Let_def tag_of_def l1 slab_tags stat_big_def st1_def)
        have "stat_counted B K (i + l) st1"
          by (rule stat_counted_step [OF ok i(2) less.prems(2)]) (simp_all add: st1_def pages_counted_def pages_used_def bytes l1)
        then show ?thesis unfolding eq by (rule IH) (simp add: st1_def less.prems(3))
      qed
    qed
  qed
qed

section \<open>The statistics are exact\<close>

lemma slab_stat_counts:
  assumes inv: "slab_inv N B K s" and N: "0 < N" "(sl_end s - sl_start s) div 4096 = N"
  obtains st where "ncx_slab_stat page4k s = Some st" "stat_counted B K N st" "st_pages st = N"
    "st_pool_size st = sl_end s - sl_start s" "st_used_pct st = st_used_size st * 100 mod 2 ^ 64 div (sl_end s - sl_start s)"
proof -
  have inv': "slab_inv_at {} N B K s" using inv by (simp add: slab_inv_def)
  have ok: "blocks_ok N B" using slab_inv_blocks [OF inv'] .
  have "B 0 \<noteq> None" using block_cover [OF ok N(1)] by auto
  moreover have "stat_counted B K 0 (zero_stat\<lparr> st_pages := N \<rparr>)" by (simp add: stat_counted_def pages_counted_def pages_used_def zero_stat_def)
  ultimately obtain st where st: "stat_loop page4k s 0 (zero_stat\<lparr> st_pages := N \<rparr>) = Some st" "stat_counted B K N st" "st_pages st = N"
    using stat_loop_counts [OF inv, of 0 "zero_stat\<lparr> st_pages := N \<rparr>"] N(1) by auto
  define st' where "st' = st\<lparr> st_pool_size := sl_end s - sl_start s,
    st_used_pct := st_used_size st * 100 mod 2 ^ 64 div (sl_end s - sl_start s) \<rparr>"
  have "sl_end s - sl_start s \<noteq> 0" using N by auto
  then have "ncx_slab_stat page4k s = Some st'"
    using st(1) N(2) by (simp add: ncx_slab_stat_def Let_def st'_def)
  moreover have "stat_counted B K N st'" using st(2) by (simp add: stat_counted_def pages_counted_def pages_used_def st'_def)
  ultimately show ?thesis using that [of st'] st(3) by (simp add: st'_def)
qed

lemma block_bytes_le:
  assumes inv: "slab_inv N B K s"
  shows "block_bytes B K h \<le> 4096 * block_used B h"
proof -
  have inv': "slab_inv_at {} N B K s" using inv by (simp add: slab_inv_def)
  show ?thesis
  proof (cases "K h")
    case None
    then show ?thesis by (auto simp: block_bytes_def block_used_def split: option.splits bool.splits)
  next
    case (Some x)
    then obtain sh U where K: "K h = Some (sh, U)" by (cases x) auto
    note kind = slab_inv_kind [OF inv' K]
    have "card U \<le> card (all_chunks sh)" using kind(4) by (intro card_mono) (simp_all add: chunk_ok_def)
    then have "card U * 2 ^ sh \<le> chunks sh * 2 ^ sh" by simp
    then show ?thesis using chunk_bytes [OF kind(3)] kind(1) K by (simp add: block_bytes_def block_used_def)
  qed
qed

text \<open>Without a region handed out nothing is in use.\<close>

lemma block_used_live:
  assumes inv: "slab_inv N B K s" and none: "live s B K = {}"
  shows "block_used B h = 0"
proof (rule ccontr)
  assume "block_used B h \<noteq> 0"
  then obtain l where B: "B h = Some (l, False)" by (auto simp: block_used_def split: option.splits bool.splits)
  have inv': "slab_inv_at {} N B K s" using inv by (simp add: slab_inv_def)
  show False
  proof (cases "K h")
    case None
    then have "(h, l) \<in> runs B K" using B by (simp add: runs_def)
    then show False using none by (auto simp: live_def)
  next
    case (Some x)
    then obtain sh U where K: "K h = Some (sh, U)" by (cases x) auto
    then have "\<not> U \<subseteq> {..<reserved sh}" using slab_inv_kind(4) [OF inv' K] by (simp add: chunk_ok_def)
    then obtain k where "k \<in> U" "reserved sh \<le> k" by (meson lessThan_iff not_less subsetI)
    then have "(h, sh, k) \<in> taken_chunks K" using K by (auto simp: taken_chunks_def)
    then show False using none by (auto simp: live_def)
  qed
qed

end
