(* ===== verification/SlabUse.thy ===== *)
theory SlabUse
  imports SlabStat Transition
begin

text \<open>
  The slab allocator in use: \<open>ncx_slab_init\<close> establishes the invariant, and clients that allocate and release
  in any order keep it.
\<close>

section \<open>Initialisation\<close>

lemma shift_loop_values: "shift_loop 4096 0 = 12" "shift_loop 64 0 = 6"
  by (simp_all add: shift_loop.simps)

lemma dummy_init_page4k:
  "ncx_slab_max_size g = 0 \<Longrightarrow> ncx_slab_exact_shift g = 0 \<Longrightarrow> ncx_slab_dummy_init 4096 g = page4k"
  by (simp add: ncx_slab_dummy_init_def Let_def page4k_def shift_loop_values)

lemma align_bounds:
  "p \<le> ncx_align_ptr p 4096" "ncx_align_ptr p 4096 < p + 4096" "ncx_align_ptr p 4096 mod 4096 = 0"
proof -
  have "(p + 4095) div 4096 * 4096 + (p + 4095) mod 4096 = p + 4095" by (rule div_mult_mod_eq)
  moreover have "(p + 4095) mod 4096 < (4096 :: nat)" by simp
  ultimately show "p \<le> ncx_align_ptr p 4096" "ncx_align_ptr p 4096 < p + 4096"
    unfolding ncx_align_ptr_def by simp_all
  show "ncx_align_ptr p 4096 mod 4096 = 0" by (simp add: ncx_align_ptr_def)
qed

lemma init_slots_nodes:
  "nodes (init_slots i k s) n = (case n of Slab_slot j \<Rightarrow>
     if i \<le> j \<and> j < i + k then \<lparr> sp_slab = 0, sp_next = Some n, sp_prev = (None, 0) \<rparr> else nodes s n | _ \<Rightarrow> nodes s n)"
proof (induction k arbitrary: i s n)
  case (Suc k)
  show ?case by (cases n) (auto simp: Suc)
qed (auto split: slab_node.split)

lemma init_slots_fields: "same_pool s (init_slots i k s)"
proof (induction k arbitrary: i s)
  case (Suc k)
  show ?case by (simp, rule same_pool_trans [OF _ Suc]) simp
qed simp

definition one_block :: "nat \<Rightarrow> blocks" where
  "one_block N = [0 \<mapsto> (N, True)]"

text \<open>The pages that fit in the pool behind the descriptors.\<close>

definition pool_pages :: "slab_pool \<Rightarrow> nat" where
  "pool_pages s = (sl_end s - sl_start s) div 4096"

text \<open>The descriptors of a fresh pool of \<open>N\<close> pages.\<close>

definition fresh_pool :: "nat \<Rightarrow> slab_pool \<Rightarrow> bool" where
  "fresh_pool N s \<longleftrightarrow> sp_next (nodes s Slab_free) = Some (Slab_page 0) \<and> sp_prev (nodes s Slab_free) = (None, 0) \<and>
     nodes s (Slab_page 0) = \<lparr> sp_slab = of_nat N, sp_next = Some Slab_free, sp_prev = (Some Slab_free, 0) \<rparr> \<and>
     (\<forall>i. 0 < i \<longrightarrow> i < sl_pages s \<longrightarrow> nodes s (Slab_page i) = zero_page) \<and>
     (\<forall>j < 12 - min_shift s. sp_next (nodes s (Slab_slot j)) = Some (Slab_slot j))"

lemma fresh_pool_inv:
  assumes po: "pool_ok N s" and N: "0 < N" and fresh: "fresh_pool N s"
  shows "slab_inv N (one_block N) Map.empty s"
proof -
  have "N < 2 ^ 63" using page_limit [OF po] by simp
  moreover have "blocks_ok N (one_block N)" using N by (auto simp: blocks_ok_def one_block_def)
  moreover have "ring (nodes s) Slab_free 0 (map Slab_page [0])" using fresh by (simp add: ring_def fresh_pool_def)
  moreover have "nodes s (Slab_page i) = zero_page" if "0 < i" "i < N" for i
    using that fresh po by (simp add: fresh_pool_def pool_ok_def)
  ultimately have "pages_inv (nodes s) N (one_block N) [0]"
    using fresh by (auto simp: pages_inv_def one_block_def free_heads_def fresh_pool_def)
  moreover have "slot_ring {} Map.empty s sh" if "min_shift s \<le> sh" "sh < 12" for sh
    using fresh that unfolding slot_ring_def fresh_pool_def
    by (intro exI [of _ "[]"]) (simp add: ring_def ringed_def)
  ultimately show ?thesis
    using po by (auto simp: slab_inv_def slab_inv_at_def kinds_ok_def runs_ok_def one_block_def split: if_splits)
qed

lemma init_run:
  assumes g: "ncx_slab_max_size g = 0" "ncx_slab_exact_shift g = 0" and ms: "3 \<le> min_shift s" "min_shift s < 12"
    and room: "pool + 12440 \<le> sl_end s" and top: "sl_end s < 2 ^ 64"
  obtains s' where "ncx_slab_init 4096 pool g s = Some (page4k, s')" "pool_ok (pool_pages s') s'" "0 < pool_pages s'"
    "fresh_pool (pool_pages s') s'" "pool + 80 + (12 - min_shift s) * 24 \<le> sl_start s'" "sl_end s' = sl_end s" "min_shift s' = min_shift s"
proof -
  define n where "n = 12 - min_shift s"
  define sz where "sz = sl_end s - (pool + 80)"
  define pages where "pages = sz div 4120"
  define q where "q = pool + 80 + n * 24 + pages * 24"
  define start where "start = ncx_align_ptr q 4096"
  define avail where "avail = (sl_end s - start) div 4096"
  have n: "1 \<le> n" "n \<le> 9" using ms by (simp_all add: n_def)
  have sz: "pool + 80 + sz = sl_end s" "12360 \<le> sz" using room by (simp_all add: sz_def)
  have pages: "pages * 4120 \<le> sz" "sz < pages * 4120 + 4120" "3 \<le> pages"
    using sz(2) div_mult_mod_eq [of sz 4120] mod_less_divisor [of 4120 sz]
    unfolding pages_def by (linarith, linarith, simp)
  have start: "q \<le> start" "start < q + 4096" "start mod 4096 = 0" unfolding start_def by (rule align_bounds)+
  have fits: "start \<le> sl_end s" using start(2) pages n sz(1) by (simp add: q_def)
  have "(pages - 2) * 4096 \<le> sl_end s - start" using start(2) pages n sz(1) unfolding q_def by (simp add: diff_mult_distrib)
  then have low: "1 \<le> avail" using pages(3) unfolding avail_def by (simp add: less_eq_div_iff_mult_less_eq)
  have "sl_end s - start < (pages + 1) * 4096" using start(1) pages n sz(1) unfolding q_def by simp
  then have high: "avail \<le> pages" unfolding avail_def using div_less_iff_less_mult [of 4096 "sl_end s - start" "pages + 1"] by simp
  have used: "avail * 4096 \<le> sl_end s - start" by (simp add: avail_def)
  define s1 where "s1 = init_slots 0 n (s\<lparr> min_size := 2 ^ min_shift s \<rparr>)"
  define s2 where "s2 = s1\<lparr> sl_pages := pages, nodes := fill (nodes s1) 0 pages zero_page \<rparr>"
  define s3 where "s3 = set_prev (Slab_page 0) (Some Slab_free, 0) (set_next (Slab_page 0) (Some Slab_free)
    (set_slab (Slab_page 0) (of_nat pages) (set_next Slab_free (Some (Slab_page 0)) (set_prev Slab_free (None, 0) s2))))"
  define s4 where "s4 = s3\<lparr> sl_start := start \<rparr>"
  define m where "m = int pages - (int (sl_end s) - int start) mod 2 ^ 64 div 4096"
  have diff: "int (sl_end s) - int start = int (sl_end s - start)" using fits by (simp add: of_nat_diff)
  have "sl_end s - start < 2 ^ 64" using top by (rule le_less_trans [OF diff_le_self])
  then have "int (sl_end s - start) mod 2 ^ 64 = int (sl_end s - start)" by (intro mod_pos_pos_trivial) auto
  then have "(int (sl_end s) - int start) mod 2 ^ 64 div 4096 = int avail"
    unfolding diff avail_def by (simp only: zdiv_int of_nat_numeral)
  then have m: "m = int pages - int avail" by (simp add: m_def)
  define s' where "s' = (if 0 < m then set_slab (Slab_page 0) (of_nat (pages - nat m)) s4 else s4)"
  have s1: "same_pool (s\<lparr> min_size := 2 ^ min_shift s \<rparr>) s1" unfolding s1_def by (rule init_slots_fields)
  have ends: "sl_end s4 = sl_end s" "sl_start s4 = start" "min_shift s4 = min_shift s" "sl_pages s4 = pages" "min_size s4 = 2 ^ min_shift s"
    using same_pool_fields [OF s1] by (simp_all add: s4_def s3_def s2_def node_defs)
  have last: "nat m = pages - avail" using m high by simp
  have s'_slab: "s' = s4 \<and> avail = pages \<or> s' = set_slab (Slab_page 0) (of_nat avail) s4"
    using high last m by (auto simp: s'_def)
  have fields: "sl_end s' = sl_end s" "sl_start s' = start" "min_shift s' = min_shift s" "sl_pages s' = pages" "min_size s' = 2 ^ min_shift s"
    using ends s'_slab by (auto simp: node_defs)
  have nodes4: "nodes s4 k = (if k = Slab_page 0 then \<lparr> sp_slab = of_nat pages, sp_next = Some Slab_free, sp_prev = (Some Slab_free, 0) \<rparr>
      else if k = Slab_free then (nodes s1 k)\<lparr> sp_next := Some (Slab_page 0), sp_prev := (None, 0) \<rparr> else fill (nodes s1) 0 pages zero_page k)" for k
    using pages(3) by (simp add: s4_def s3_def s2_def)
  have nodes': "nodes s' k = (if k = Slab_page 0 then \<lparr> sp_slab = of_nat avail, sp_next = Some Slab_free, sp_prev = (Some Slab_free, 0) \<rparr> else nodes s4 k)" for k
    using s'_slab nodes4 by auto
  have count: "pool_pages s' = avail" using fields by (simp add: pool_pages_def avail_def)
  have fit: "\<not> (12 < min_shift s \<or> 31 \<le> min_shift s \<or> sl_end s < pool + 80 + n * 24 + max 1 pages * 24)"
    using ms fits start(1) pages(3) by (auto simp: q_def max_def)
  have init: "ncx_slab_init 4096 pool g s = Some (page4k, s')"
  proof -
    have sum: "4096 + 24 = (4120 :: nat)" by simp
    have four: "int 4096 = 4096" by simp
    show ?thesis
      unfolding ncx_slab_init_def dummy_init_page4k [OF g] page4k_simps sizeof_slab_pool_def sizeof_slab_page_def
      by (simp only: Let_def page4k_simps sum four n_def [symmetric] sz_def [symmetric] pages_def [symmetric] if_not_P [OF fit] s1_def [symmetric]
        s2_def [symmetric] s3_def [symmetric] q_def [symmetric] start_def [symmetric] s4_def [symmetric] ends m_def [symmetric] s'_def [symmetric])
  qed
  show ?thesis
  proof (rule that [OF init])
    show "pool_ok (pool_pages s') s'"
      unfolding count pool_ok_def fields using ms high start used fits top by (auto simp: q_def)
    show "0 < pool_pages s'" using count low by simp
    show "fresh_pool (pool_pages s') s'"
      unfolding count fresh_pool_def fields
      by (auto simp: nodes' nodes4 s1_def init_slots_nodes n_def)
    show "pool + 80 + (12 - min_shift s) * 24 \<le> sl_start s'" using fields start(1) by (simp add: q_def n_def)
  qed (use fields in simp_all)
qed

section \<open>Clients\<close>

text \<open>
  The pool with the regions its clients hold, each with the length that was asked for. A client releases
  what it holds.
\<close>

datatype client_op = Ask nat nat | Release nat slab_free_result

type_synonym client_state = "slab_pool \<times> (nat \<times> nat) set"

inductive client_step :: "client_state \<Rightarrow> client_op \<Rightarrow> client_state \<Rightarrow> bool" where
  granted: "ncx_slab_alloc page4k s len = Some (p, s') \<Longrightarrow> p \<noteq> 0 \<Longrightarrow> client_step (s, H) (Ask len p) (s', insert (p, len) H)"
| denied: "ncx_slab_alloc page4k s len = Some (0, s') \<Longrightarrow> client_step (s, H) (Ask len 0) (s', H)"
| release: "(p, len) \<in> H \<Longrightarrow> ncx_slab_free page4k s p = Some (r, s') \<Longrightarrow> client_step (s, H) (Release p r) (s', {x \<in> H. fst x \<noteq> p})"

inductive_cases client_stepE: "client_step x l y"

definition client_init :: "client_state \<Rightarrow> bool" where
  "client_init x \<longleftrightarrow> (\<exists>g s0 pool. ncx_slab_max_size g = 0 \<and> ncx_slab_exact_shift g = 0 \<and> 3 \<le> min_shift s0 \<and> min_shift s0 < 12 \<and>
     pool + 12440 \<le> sl_end s0 \<and> sl_end s0 < 2 ^ 64 \<and> ncx_slab_init 4096 pool g s0 = Some (page4k, fst x) \<and> snd x = {})"

definition client_held :: "slab_pool \<Rightarrow> blocks \<Rightarrow> kinds \<Rightarrow> (nat \<times> nat) set \<Rightarrow> bool" where
  "client_held s B K H \<longleftrightarrow> (\<forall>p len. (p, len) \<in> H \<longrightarrow> (\<exists>n. (p, n) \<in> live s B K \<and> len \<le> n)) \<and> fst ` live s B K = fst ` H \<and>
     (\<forall>p len len'. (p, len) \<in> H \<longrightarrow> (p, len') \<in> H \<longrightarrow> len = len')"

definition client_inv :: "client_state \<Rightarrow> bool" where
  "client_inv x \<longleftrightarrow> (\<exists>B K. 0 < pool_pages (fst x) \<and> slab_inv (pool_pages (fst x)) B K (fst x) \<and> client_held (fst x) B K (snd x))"

lemma alloc_cases:
  assumes "slab_inv N B K s"
  obtains (none) "no_place s B K len" "ncx_slab_alloc page4k s len = Some (0, s)"
  | (some) p s' B' K' n where "\<not> no_place s B K len" "ncx_slab_alloc page4k s len = Some (p, s')" "slab_inv N B' K' s'"
      "same_fields s s'" "p \<noteq> 0" "len \<le> n" "(p, n) \<notin> live s B K" "live s' B' K' = insert (p, n) (live s B K)"
proof (cases "len < 2048")
  case True
  show ?thesis using alloc_chunk [OF assms True] none some by blast
next
  case False
  then have "2048 \<le> len" by simp
  show ?thesis using alloc_run [OF assms \<open>2048 \<le> len\<close>] none some by blast
qed

text \<open>A region handed out is released by its address.\<close>

lemma free_live:
  assumes inv: "slab_inv N B K s" and live: "(p, n) \<in> live s B K"
  shows "\<exists>s' B' K'. ncx_slab_free page4k s p = Some (Slab_freed, s') \<and> slab_inv N B' K' s' \<and> same_fields s s' \<and>
    live s' B' K' = live s B K - {(p, n)}"
  using live
proof (cases rule: live_cases)
  case (run h l)
  then show ?thesis using free_run_ok [OF inv run(3,4,1)] by simp
next
  case (chunk h sh U k)
  then show ?thesis using free_chunk_ok [OF inv chunk(3,4,5,1)] by simp
qed

lemma live_fun:
  assumes "slab_inv N B K s" "(p, n) \<in> live s B K" "(p, m) \<in> live s B K"
  shows "n = m"
proof (rule ccontr)
  assume "n \<noteq> m"
  then have "p + n \<le> p" by (intro live_disjoint [OF assms]) simp_all
  then show False using live_bounds(1) [OF assms(1,2)] by simp
qed

lemma same_fields_pages: "same_fields s s' \<Longrightarrow> pool_pages s' = pool_pages s"
  by (simp add: same_fields_def pool_pages_def)

lemma client_init_inv: "client_init x \<Longrightarrow> client_inv x"
proof -
  assume "client_init x"
  then obtain g s0 pool where i: "ncx_slab_max_size g = 0" "ncx_slab_exact_shift g = 0" "3 \<le> min_shift s0" "min_shift s0 < 12"
      "pool + 12440 \<le> sl_end s0" "sl_end s0 < 2 ^ 64" "ncx_slab_init 4096 pool g s0 = Some (page4k, fst x)" "snd x = {}"
    unfolding client_init_def by blast
  have "0 < pool_pages (fst x) \<and> slab_inv (pool_pages (fst x)) (one_block (pool_pages (fst x))) Map.empty (fst x)"
    by (rule init_run [OF i(1-6)]) (use i(7) fresh_pool_inv in auto)
  moreover have "live (fst x) (one_block (pool_pages (fst x))) Map.empty = {}"
    by (auto simp: live_def runs_def taken_chunks_def one_block_def split: if_splits)
  ultimately show "client_inv x" using i(8) unfolding client_inv_def client_held_def by (intro exI conjI) auto
qed

lemma client_step_inv:
  assumes "client_inv x" "client_step x l y"
  shows "client_inv y"
proof -
  obtain s H where x: "x = (s, H)" by (cases x)
  obtain B K where inv: "slab_inv (pool_pages s) B K s" and N: "0 < pool_pages s" and client_held: "client_held s B K H"
    using assms(1) by (auto simp: x client_inv_def)
  have names: "fst ` live s B K = fst ` H" using client_held by (simp add: client_held_def)
  show ?thesis
    using assms(2) unfolding x
  proof (cases rule: client_step.cases)
    case (granted len p s')
    from inv show ?thesis
    proof (cases rule: alloc_cases [where len = len])
      case none
      then show ?thesis using granted by simp
    next
      case (some p' s'' B' K' n)
      then have eq: "p' = p" "s'' = s'" using granted by simp_all
      have new: "(p, m) \<notin> H" for m
      proof
        assume "(p, m) \<in> H"
        then obtain k where "(p, k) \<in> live s B K" using client_held unfolding client_held_def by blast
        then have "(p, k) \<in> live s' B' K'" "(p, n) \<in> live s' B' K'" "k \<noteq> n" using some eq by auto
        then show False using live_fun [OF some(3) [unfolded eq]] by blast
      qed
      have "client_held s' B' K' (insert (p, len) H)"
        unfolding client_held_def
      proof (intro conjI allI impI)
        fix q m assume "(q, m) \<in> insert (p, len) H"
        then consider "q = p" "m = len" | "(q, m) \<in> H" by auto
        then show "\<exists>k. (q, k) \<in> live s' B' K' \<and> m \<le> k"
        proof cases
          case 1
          then show ?thesis using some(6,8) unfolding eq by auto
        next
          case 2
          then obtain k where "(q, k) \<in> live s B K" "m \<le> k" using client_held unfolding client_held_def by blast
          then show ?thesis using some(8) unfolding eq by auto
        qed
      next
        show "fst ` live s' B' K' = fst ` insert (p, len) H" using names some(8) unfolding eq by simp
      next
        fix q m m' assume "(q, m) \<in> insert (p, len) H" "(q, m') \<in> insert (p, len) H"
        then consider "(q, m) \<in> H" "(q, m') \<in> H" | "m = len" "m' = len" using new by auto
        then show "m = m'"
        proof cases
          case 1
          then show ?thesis using client_held unfolding client_held_def by blast
        qed simp
      qed
      then show ?thesis using granted some(3,4) N unfolding client_inv_def eq by (auto simp: same_fields_pages)
    qed
  next
    case (denied len s')
    from inv show ?thesis
    proof (cases rule: alloc_cases [where len = len])
      case none
      then show ?thesis using denied inv N client_held by (auto simp: client_inv_def)
    next
      case some
      then show ?thesis using denied by simp
    qed
  next
    case (release p len r s')
    obtain n where n: "(p, n) \<in> live s B K" using client_held release(3) unfolding client_held_def by blast
    obtain B' K' where f: "slab_inv (pool_pages s) B' K' s'" "same_fields s s'" "live s' B' K' = live s B K - {(p, n)}"
      using free_live [OF inv n] release(4) by auto
    have out: "x \<in> live s B K \<Longrightarrow> x = (p, n) \<longleftrightarrow> fst x = p" for x
      using live_fun [OF inv n] by (cases x) auto
    have "client_held s' B' K' {x \<in> H. fst x \<noteq> p}"
      unfolding client_held_def
    proof (intro conjI allI impI)
      fix q m assume "(q, m) \<in> {x \<in> H. fst x \<noteq> p}"
      then have "(q, m) \<in> H" "q \<noteq> p" by auto
      moreover from this obtain k where "(q, k) \<in> live s B K" "m \<le> k" using client_held unfolding client_held_def by blast
      ultimately show "\<exists>k. (q, k) \<in> live s' B' K' \<and> m \<le> k" using f(3) by auto
    next
      have "fst ` live s' B' K' = fst ` live s B K - {p}" using out n unfolding f(3) by force
      then show "fst ` live s' B' K' = fst ` {x \<in> H. fst x \<noteq> p}" using names by auto
    next
      fix q m m' assume "(q, m) \<in> {x \<in> H. fst x \<noteq> p}" "(q, m') \<in> {x \<in> H. fst x \<noteq> p}"
      then show "m = m'" using client_held unfolding client_held_def by blast
    qed
    then show ?thesis using release f N unfolding client_inv_def by (auto simp: same_fields_pages)
  qed
qed

interpretation slab_clients: invariant_system client_init client_step client_inv
  by unfold_locales (rule client_init_inv, assumption, rule client_step_inv)

section \<open>What holds of the pool\<close>

text \<open>The globals as the program finds them, and a pool of 40960 bytes at an address.\<close>

definition static_globals :: slab_globals where
  "static_globals = \<lparr> ncx_slab_max_size = 0, ncx_slab_exact_size = 0, ncx_slab_exact_shift = 0, ncx_pagesize = 0,
     ncx_pagesize_shift = 0 \<rparr>"

definition ten_pages :: slab_pool where
  "ten_pages = \<lparr> min_size = 0, min_shift = 3, sl_pages = 0, nodes = (\<lambda>_. zero_page), sl_start = 0,
     sl_end = 65536 + 10 * 4096, bitmaps = (\<lambda>_ _. 0) \<rparr>"

lemma ten_pages_simps [simp]:
  "ncx_slab_max_size static_globals = 0" "ncx_slab_exact_shift static_globals = 0" "min_shift ten_pages = 3"
  "sl_end ten_pages = 106496"
  by (simp_all add: static_globals_def ten_pages_def)

text \<open>
  C29. Whatever the memory client_held before, \<open>ncx_slab_init\<close> makes a well-formed pool of at least one page in
  any memory of 12440 bytes or more, for chunks of 8 to 2048 bytes: all pages are one free block, they lie
  behind the descriptors and in front of the end, and nothing is handed out.
\<close>

theorem slab_init_well_formed:
  assumes "ncx_slab_max_size g = 0" "ncx_slab_exact_shift g = 0" "3 \<le> min_shift s" "min_shift s < 12"
    and "pool + 12440 \<le> sl_end s" "sl_end s < 2 ^ 64"
  shows "\<exists>s'. ncx_slab_init 4096 pool g s = Some (page4k, s') \<and> 0 < pool_pages s' \<and>
    slab_inv (pool_pages s') (one_block (pool_pages s')) Map.empty s' \<and>
    live s' (one_block (pool_pages s')) Map.empty = {} \<and>
    pool + sizeof_slab_pool + (12 - min_shift s) * sizeof_slab_page \<le> sl_start s' \<and>
    sl_start s' + pool_pages s' * 4096 \<le> sl_end s"
proof -
  obtain s' where s': "ncx_slab_init 4096 pool g s = Some (page4k, s')" "pool_ok (pool_pages s') s'" "0 < pool_pages s'"
      "fresh_pool (pool_pages s') s'" "pool + 80 + (12 - min_shift s) * 24 \<le> sl_start s'" "sl_end s' = sl_end s"
    by (rule init_run [OF assms])
  have "live s' (one_block (pool_pages s')) Map.empty = {}"
    by (auto simp: live_def runs_def taken_chunks_def one_block_def split: if_splits)
  then show ?thesis
    using s' fresh_pool_inv [OF s'(2,3,4)] by (auto simp: pool_ok_def sizeof_slab_pool_def sizeof_slab_page_def)
qed

theorem slab_init_well_formed_witness:
  "\<exists>s'. ncx_slab_init 4096 65536 static_globals ten_pages = Some (page4k, s') \<and> 0 < pool_pages s'"
  using slab_init_well_formed [of static_globals ten_pages 65536] by auto

lemma example_pool:
  obtains s where "ncx_slab_init 4096 65536 static_globals ten_pages = Some (page4k, s)"
    "0 < pool_pages s" "slab_inv (pool_pages s) (one_block (pool_pages s)) Map.empty s"
proof (rule init_run [of static_globals ten_pages 65536])
  fix s assume "ncx_slab_init 4096 65536 static_globals ten_pages = Some (page4k, s)" "pool_ok (pool_pages s) s"
    "0 < pool_pages s" "fresh_pool (pool_pages s) s"
  then show thesis using that fresh_pool_inv by blast
qed simp_all

text \<open>
  C9. A request is refused, with nothing changed, exactly when no page of its chunk size has a free chunk and
  no page is free, or for large requests when no free run of pages is long enough. Otherwise it gets a region
  that is not \<open>NULL\<close>, at least as long as asked for and not handed out before, and the pool stays well
  formed. The operation never leaves the array of descriptors and never follows \<open>NULL\<close>.
\<close>

theorem slab_alloc_spec:
  assumes "slab_inv N B K s"
  shows "if no_place s B K len then ncx_slab_alloc page4k s len = Some (0, s)
    else \<exists>p s' B' K' n. ncx_slab_alloc page4k s len = Some (p, s') \<and> slab_inv N B' K' s' \<and> p \<noteq> 0 \<and> len \<le> n \<and>
      (p, n) \<notin> live s B K \<and> live s' B' K' = insert (p, n) (live s B K)"
  using assms
proof (cases rule: alloc_cases [where len = len])
  case none
  then show ?thesis by simp
next
  case (some p s' B' K' n)
  then show ?thesis by auto
qed

theorem slab_alloc_spec_witness:
  "\<exists>s p s'. ncx_slab_init 4096 65536 static_globals ten_pages = Some (page4k, s) \<and>
     ncx_slab_alloc page4k s 100 = Some (p, s') \<and> p \<noteq> 0"
proof -
  obtain s where s: "ncx_slab_init 4096 65536 static_globals ten_pages = Some (page4k, s)" "0 < pool_pages s"
      "slab_inv (pool_pages s) (one_block (pool_pages s)) Map.empty s"
    by (rule example_pool)
  have "\<not> no_place s (one_block (pool_pages s)) Map.empty 100"
    by (auto simp: no_place_def free_heads_def one_block_def)
  then show ?thesis using slab_alloc_spec [OF s(3), of 100] s(1) by auto
qed

text \<open>
  C10. Releasing a pointer that lies outside of the memory of the pool or inside one of its pages, and not at
  the bitmap of a small page, is safe: a region handed out is taken back, it alone, and every other such pointer
  leaves the regions as they are; then either nothing changes at all, or the pointer was the beginning of a
  free run, which moves to the front of the free list. (A pointer to the rest behind the last page, or to the end
  of the memory itself, passes the test of the code, which then reads a descriptor behind the last one.)
\<close>

theorem slab_free_spec:
  assumes "slab_inv N B K s" "p < sl_start s + N * 4096 \<or> sl_end s < p" "\<not> bitmap_chunk s K p"
  shows "\<exists>r s' B' K'. ncx_slab_free page4k s p = Some (r, s') \<and> slab_inv N B' K' s' \<and> live s' B' K' = released s B K p \<and>
    (if p \<in> fst ` live s B K then r = Slab_freed else r \<noteq> Slab_freed \<and> s' = s \<or> r = Slab_freed \<and> B' = B \<and> K' = K)"
  using assms
proof (cases rule: free_cases)
  case (live n s' B' K')
  then show ?thesis using released_live [OF assms(1)] by (intro exI conjI) (auto intro: rev_image_eqI)
next
  case (again s')
  then show ?thesis using released_none [of p s B K]
    by (intro exI [of _ Slab_freed] exI [of _ s'] exI [of _ B] exI [of _ K]) auto
next
  case (reject r)
  then show ?thesis using released_none [of p s B K] assms(1)
    by (intro exI [of _ r] exI [of _ s] exI [of _ B] exI [of _ K]) auto
qed

theorem slab_free_spec_witness:
  "\<exists>s r s'. ncx_slab_init 4096 65536 static_globals ten_pages = Some (page4k, s) \<and> ncx_slab_free page4k s 1 = Some (r, s')"
proof -
  obtain s where s: "ncx_slab_init 4096 65536 static_globals ten_pages = Some (page4k, s)" "0 < pool_pages s"
      "slab_inv (pool_pages s) (one_block (pool_pages s)) Map.empty s"
    by (rule example_pool)
  have "1 < sl_start s + pool_pages s * 4096" using s(2) by simp
  then show ?thesis using slab_free_spec [OF s(3), of 1] s(1) by (auto simp: bitmap_chunk_def)
qed

text \<open>The words of the bitmap at the beginning of a page of small chunks.\<close>

lemma bitmap_words_apart:
  assumes "slab_inv N B K s" "(p, n) \<in> live s B K" and K: "K h = Some (sh, U)" and sh: "sh < 6"
  shows "p + n \<le> sl_start s + h * 4096 \<or> sl_start s + h * 4096 + chunks sh div 8 \<le> p"
proof -
  have inv': "slab_inv_at {} N B K s" using assms(1) by (simp add: slab_inv_def)
  note kind = slab_inv_kind [OF inv' K]
  have ok: "blocks_ok N B" using slab_inv_blocks [OF inv'] .
  have "3 \<le> sh" using kind(2) slab_inv_parts(1) [OF inv'] by (simp add: pool_ok_def)
  then consider "sh = 3" | "sh = 4" | "sh = 5" using sh by linarith
  then have words: "chunks sh div 8 \<le> reserved sh * 2 ^ sh"
    by cases (simp_all add: chunks_def reserved_values)
  obtain j l where j: "B j = Some (l, False)" "sl_start s + j * 4096 \<le> p" "p + n \<le> sl_start s + (j + l) * 4096" "0 < n"
    by (rule live_block [OF assms(1,2)])
  consider "j < h" | "h < j" | "j = h" by linarith
  then show ?thesis
  proof cases
    case 1
    then have "(j + l) * 4096 \<le> h * (4096 :: nat)" using block_next [OF ok j(1) kind(1)] by (intro mult_le_mono1) simp
    then show ?thesis using j(3) by linarith
  next
    case 2
    then have "(h + 1) * 4096 \<le> j * (4096 :: nat)" by (intro mult_le_mono1) simp
    moreover have "chunks sh \<le> 2 ^ 12" unfolding chunks_def by (intro power_increasing) simp_all
    then have "chunks sh div 8 \<le> 4096" by simp
    ultimately show ?thesis using j(2) by simp
  next
    case 3
    have "p < sl_start s + (h + 1) * 4096" using j 3 kind(1) by simp
    then obtain k where k: "reserved sh \<le> k" "p = sl_start s + h * 4096 + k * 2 ^ sh"
      using live_at [OF assms(1,2) kind(1)] j(2) 3 K by auto
    have "reserved sh * 2 ^ sh \<le> k * 2 ^ sh" using k(1) by (rule mult_le_mono1)
    with words have "chunks sh div 8 \<le> k * 2 ^ sh" by (rule le_trans)
    then show ?thesis using k(2) by simp
  qed
qed

text \<open>
  C11. What an allocation returns is a region of its own: it lies in the pool, is at least as long as asked
  for, overlaps no region that was handed out before, and does not touch the words of the bitmap that the
  allocator keeps at the beginning of a page of small chunks.
\<close>

theorem slab_alloc_apart:
  assumes "slab_inv N B K s" "ncx_slab_alloc page4k s len = Some (p, s')" "p \<noteq> 0"
  shows "\<exists>n B' K'. slab_inv N B' K' s' \<and> live s' B' K' = insert (p, n) (live s B K) \<and>
    len \<le> n \<and> 0 < n \<and> sl_start s' \<le> p \<and> p + n \<le> sl_end s' \<and>
    (\<forall>(q, m) \<in> live s B K. p + n \<le> q \<or> q + m \<le> p) \<and>
    (\<forall>h sh U. K' h = Some (sh, U) \<longrightarrow> sh < 6 \<longrightarrow>
      p + n \<le> sl_start s' + h * 4096 \<or> sl_start s' + h * 4096 + chunks sh div 8 \<le> p)"
  using assms(1)
proof (cases rule: alloc_cases [where len = len])
  case none
  then show ?thesis using assms(2,3) by simp
next
  case (some p' s'' B' K' n)
  then have same: "p' = p" "s'' = s'" using assms(2) by simp_all
  have here: "(p, n) \<in> live s' B' K'" using some same by simp
  have inv: "slab_inv N B' K' s'" using some same by simp
  have "p + n \<le> q \<or> q + m \<le> p" if "(q, m) \<in> live s B K" for q m
  proof -
    have there: "(q, m) \<in> live s' B' K'" using some same that by simp
    have "(q, m) \<noteq> (p, n)" using some same that by auto
    then show ?thesis using live_disjoint [OF inv here there] live_disjoint [OF inv there here] by (cases "p \<le> q") auto
  qed
  then show ?thesis using some same live_bounds [OF inv here] bitmap_words_apart [OF inv here]
    by (intro exI [of _ n] exI [of _ B'] exI [of _ K']) auto
qed

theorem slab_alloc_apart_witness:
  "\<exists>s p s' n. ncx_slab_init 4096 65536 static_globals ten_pages = Some (page4k, s) \<and>
     ncx_slab_alloc page4k s 10 = Some (p, s') \<and> 10 \<le> n \<and> p + n \<le> sl_end s'"
proof -
  obtain s where s: "ncx_slab_init 4096 65536 static_globals ten_pages = Some (page4k, s)" "0 < pool_pages s"
      "slab_inv (pool_pages s) (one_block (pool_pages s)) Map.empty s"
    by (rule example_pool)
  have place: "\<not> no_place s (one_block (pool_pages s)) Map.empty 10"
    by (auto simp: no_place_def free_heads_def one_block_def)
  from s(3) show ?thesis
  proof (cases rule: alloc_cases [where len = 10])
    case none
    then show ?thesis using place by simp
  next
    case (some p s' B' K' n)
    then show ?thesis using slab_alloc_apart [OF s(3), of 10 p s'] s(1) by metis
  qed
qed

text \<open>
  C28. The statistics are exact: the pass over the descriptors ends, every page is counted once, as one of
  a kind or as free, the bytes in use are those of the runs and of the chunks marked in the bitmaps, the
  longest free run is the maximum, and the pool is used to at most 100 per cent.
\<close>

theorem slab_stat_exact:
  assumes "slab_inv N B K s" "0 < N" "pool_pages s = N"
  shows "\<exists>st. ncx_slab_stat page4k s = Some st \<and> st_pages st = N \<and> pages_used st + st_free_page st = N \<and>
    st_used_size st = sum (block_bytes B K) {..<N} \<and> st_free_page st = sum (block_free B) {..<N} \<and>
    st_max_free_pages st = Max (insert 0 (block_free B ` {..<N})) \<and>
    st_used_size st = st_b_small st + st_b_exact st + st_b_big st + st_b_page st \<and> st_used_pct st \<le> 100"
proof -
  obtain st where st: "ncx_slab_stat page4k s = Some st" "stat_counted B K N st" "st_pages st = N"
      "st_used_pct st = st_used_size st * 100 mod 2 ^ 64 div (sl_end s - sl_start s)"
    by (rule slab_stat_counts [OF assms(1,2) assms(3) [unfolded pool_pages_def]])
  have "sum (block_bytes B K) {..<N} \<le> 4096 * sum (block_used B) {..<N}"
    unfolding sum_distrib_left by (rule sum_mono) (rule block_bytes_le [OF assms(1)])
  moreover have "pages_used st \<le> N" using st(2) by (simp add: stat_counted_def pages_counted_def)
  moreover have "N * 4096 \<le> sl_end s - sl_start s" unfolding assms(3) [symmetric] pool_pages_def by simp
  ultimately have "st_used_size st \<le> sl_end s - sl_start s" using st(2) by (simp add: stat_counted_def)
  then have "st_used_pct st \<le> (sl_end s - sl_start s) * 100 div (sl_end s - sl_start s)"
    unfolding st(4) by (intro div_le_mono order_trans [OF mod_less_eq_dividend] mult_le_mono1)
  then have "st_used_pct st \<le> 100" by (cases "sl_end s - sl_start s = 0") (auto simp: st(4))
  then show ?thesis using st(1-3) by (auto simp: stat_counted_def pages_counted_def)
qed

theorem slab_stat_exact_witness:
  "\<exists>s st. ncx_slab_init 4096 65536 static_globals ten_pages = Some (page4k, s) \<and> ncx_slab_stat page4k s = Some st \<and>
     st_used_pct st \<le> 100"
proof -
  obtain s where s: "ncx_slab_init 4096 65536 static_globals ten_pages = Some (page4k, s)" "0 < pool_pages s"
      "slab_inv (pool_pages s) (one_block (pool_pages s)) Map.empty s"
    by (rule example_pool)
  from slab_stat_exact [OF s(3,2) refl] s(1) show ?thesis by blast
qed

lemma nothing_held:
  assumes "slab_inv N B K s" "0 < N" "pool_pages s = N" "live s B K = {}"
  shows "\<exists>st. ncx_slab_stat page4k s = Some st \<and> st_free_page st = st_pages st \<and> st_used_size st = 0"
proof -
  obtain st where st: "ncx_slab_stat page4k s = Some st" "stat_counted B K N st" "st_pages st = N"
    by (rule slab_stat_counts [OF assms(1,2) assms(3) [unfolded pool_pages_def]])
  have used: "block_used B h = 0" for h by (rule block_used_live [OF assms(1,4)])
  then have "block_bytes B K h = 0" for h using block_bytes_le [OF assms(1), of h] by simp
  then show ?thesis using st used by (simp add: stat_counted_def pages_counted_def)
qed

text \<open>
  C8. Whatever clients do, as long as each releases what it holds: what they hold lies in the pool and does
  not overlap, every further request has an answer, every release succeeds, the statistics can be taken, and
  when nothing is held all pages are free again.
\<close>

theorem slab_clients_safe:
  assumes "reachable client_init client_step (s, H)"
  shows "(\<forall>p n. (p, n) \<in> H \<longrightarrow> sl_start s \<le> p \<and> p + n \<le> sl_end s) \<and>
    (\<forall>p n q m. (p, n) \<in> H \<longrightarrow> (q, m) \<in> H \<longrightarrow> p < q \<longrightarrow> p + n \<le> q) \<and>
    (\<forall>len. \<exists>p s'. ncx_slab_alloc page4k s len = Some (p, s')) \<and>
    (\<forall>p n. (p, n) \<in> H \<longrightarrow> (\<exists>s'. ncx_slab_free page4k s p = Some (Slab_freed, s'))) \<and>
    (\<exists>st. ncx_slab_stat page4k s = Some st \<and> (H = {} \<longrightarrow> st_free_page st = st_pages st \<and> st_used_size st = 0))"
proof -
  obtain B K where N: "0 < pool_pages s" and inv: "slab_inv (pool_pages s) B K s" and client_held: "client_held s B K H"
    using slab_clients.reachable_inv [OF assms] by (auto simp: client_inv_def)
  have region: "\<exists>n. (p, n) \<in> live s B K \<and> len \<le> n" if "(p, len) \<in> H" for p len
    using client_held that unfolding client_held_def by blast
  show ?thesis
  proof (intro conjI allI impI)
    fix p n assume "(p, n) \<in> H"
    then obtain k where k: "(p, k) \<in> live s B K" "n \<le> k" using region by blast
    show "sl_start s \<le> p" "p + n \<le> sl_end s" using live_bounds [OF inv k(1)] k(2) by simp_all
    show "\<exists>s'. ncx_slab_free page4k s p = Some (Slab_freed, s')" using free_live [OF inv k(1)] by blast
  next
    fix p n q m assume h: "(p, n) \<in> H" "(q, m) \<in> H" "p < q"
    obtain k k' where k: "(p, k) \<in> live s B K" "n \<le> k" "(q, k') \<in> live s B K" using region h(1,2) by blast
    show "p + n \<le> q" using live_disjoint [OF inv k(1,3)] h(3) k(2) by simp
  next
    fix len
    from inv show "\<exists>p s'. ncx_slab_alloc page4k s len = Some (p, s')"
      by (cases rule: alloc_cases [where len = len]) auto
  next
    show "\<exists>st. ncx_slab_stat page4k s = Some st \<and> (H = {} \<longrightarrow> st_free_page st = st_pages st \<and> st_used_size st = 0)"
    proof (cases "H = {}")
      case True
      then have "live s B K = {}" using client_held by (simp add: client_held_def)
      then show ?thesis using nothing_held [OF inv N refl] by blast
    next
      case False
      obtain st where "ncx_slab_stat page4k s = Some st"
        by (rule slab_stat_counts [OF inv N]) (simp_all add: pool_pages_def)
      then show ?thesis using False by blast
    qed
  qed
qed

theorem slab_clients_safe_witness:
  "\<exists>s. ncx_slab_init 4096 65536 static_globals ten_pages = Some (page4k, s) \<and>
     (\<exists>p s'. ncx_slab_alloc page4k s 4000 = Some (p, s'))"
proof -
  obtain s where s: "ncx_slab_init 4096 65536 static_globals ten_pages = Some (page4k, s)"
    by (rule example_pool)
  have "client_init (s, {})"
    unfolding client_init_def using s
    by (intro exI [of _ static_globals] exI [of _ ten_pages] exI [of _ 65536]) simp
  then have "reachable client_init client_step (s, {})" by (rule reachable.start)
  from slab_clients_safe [OF this] show ?thesis using s by blast
qed


text \<open>
  In a memory with room for one page only, the rounding of \<open>start\<close> may pass \<open>end\<close>. The difference is then a huge
  unsigned number, and the only page, free and ready to be handed out, lies behind the end of the memory.
\<close>

theorem slab_init_past_end:
  "\<exists>s. ncx_slab_init 4096 69320 static_globals (ten_pages\<lparr> sl_end := 73520 \<rparr>) = Some (page4k, s) \<and>
     sl_end s < sl_start s \<and> nodes s (Slab_page 0) = \<lparr> sp_slab = 1, sp_next = Some Slab_free, sp_prev = (Some Slab_free, 0) \<rparr>"
proof -
  have f: "sl_end (init_slots 0 9 s) = sl_end s" for s by (rule same_pool_fields(5) [OF init_slots_fields])
  show ?thesis
    by (simp add: ncx_slab_init_def Let_def dummy_init_page4k sizeof_slab_pool_def sizeof_slab_page_def ncx_align_ptr_def)
      (simp add: slab_node_at_def set_slab_def set_next_def set_prev_def f)
qed

end
