(* ===== verification/Link.thy ===== *)
theory Link
  imports Prelude
begin

text \<open>
  \<open>lib/cc_link.c\<close>: singly linked lists of data pointers. The store maps the addresses of live
  elements to their contents; an access to an address that is not live, or through the null pointer,
  is \<open>None\<close>. So is a loop that does not end. A \<open>list_element_t **\<close> is a variable of the caller:
  \<open>None\<close> for the null pointer, \<open>Some v\<close> for a variable holding \<open>v\<close>. \<open>malloc\<close> is the parameter \<open>new\<close>,
  which picks an address for a new element or fails. Data pointers have any type with equality.
\<close>

section \<open>Elements, stores and results\<close>

type_synonym addr = nat

record 'd list_element =
  elem_next :: "addr option"
  elem_data :: 'd

type_synonym 'd store = "addr \<Rightarrow> 'd list_element option"
type_synonym 'd allocator = "'d store \<Rightarrow> addr option"

definition CC_ERROR :: int where "CC_ERROR = - 1"
definition CC_NO_ERROR :: int where "CC_NO_ERROR = 0"

text \<open>\<open>*p\<close> for a pointer \<open>p\<close>\<close>

definition deref :: "'d store \<Rightarrow> addr option \<Rightarrow> 'd list_element option" where
  "deref H p = (case p of None \<Rightarrow> None | Some a \<Rightarrow> H a)"

section \<open>Operations\<close>

text \<open>
  The test of \<open>create_list\<close> is the wrong way round: an existing variable is refused, and the null
  pointer is dereferenced.
\<close>

definition create_list :: "'d store \<Rightarrow> addr option option \<Rightarrow> (int \<times> 'd store \<times> addr option option) option" where
  "create_list H list = (case list of Some v \<Rightarrow> Some (CC_ERROR, H, list) | None \<Rightarrow> None)"

text \<open>The null pointer is reported and then dereferenced.\<close>

definition insert_in_front ::
    "'d allocator \<Rightarrow> 'd store \<Rightarrow> addr option option \<Rightarrow> 'd \<Rightarrow>
     (int \<times> 'd store \<times> addr option option) option" where
  "insert_in_front new H head d =
    do { old_head \<leftarrow> head;
         a \<leftarrow> new H;
         Some (CC_NO_ERROR, H(a \<mapsto> \<lparr> elem_next = old_head, elem_data = d \<rparr>), Some (Some a)) }"

text \<open>The loop of \<open>insert_before\<close>: the result is the element behind which to insert.\<close>

partial_function (option) before_loop :: "'d store \<Rightarrow> addr option \<Rightarrow> 'd \<Rightarrow> addr option option" where
  "before_loop H e sibling =
    do { x \<leftarrow> deref H e;
         (case elem_next x of
            None \<Rightarrow> Some None
          | Some a \<Rightarrow>
              do { y \<leftarrow> deref H (Some a);
                   if elem_data y = sibling then Some e else before_loop H (Some a) sibling }) }"

definition insert_before ::
    "'d allocator \<Rightarrow> 'd store \<Rightarrow> addr option option \<Rightarrow> 'd \<Rightarrow> 'd \<Rightarrow>
     (int \<times> 'd store \<times> addr option option) option" where
  "insert_before new H head sibling d =
    (case head of
       None \<Rightarrow> Some (CC_ERROR, H, head)
     | Some v \<Rightarrow>
        do { r \<leftarrow> before_loop H v sibling;
             (case r of
                None \<Rightarrow> Some (CC_ERROR, H, head)
              | Some e \<Rightarrow>
                 do { a \<leftarrow> new H;
                      x \<leftarrow> H e;
                      let H = H(a \<mapsto> \<lparr> elem_next = elem_next x, elem_data = d \<rparr>);
                      Some (CC_NO_ERROR, H(e \<mapsto> x\<lparr> elem_next := Some a \<rparr>), head) }) })"

text \<open>\<open>for (e = *head; e->next != NULL; e = e->next);\<close>\<close>

partial_function (option) last_loop :: "'d store \<Rightarrow> addr \<Rightarrow> addr option" where
  "last_loop H e =
    do { x \<leftarrow> H e; (case elem_next x of None \<Rightarrow> Some e | Some a \<Rightarrow> last_loop H a) }"

definition insert_tail ::
    "'d allocator \<Rightarrow> 'd store \<Rightarrow> addr option option \<Rightarrow> 'd \<Rightarrow>
     (int \<times> 'd store \<times> addr option option) option" where
  "insert_tail new H head d =
    (case head of
       None \<Rightarrow> Some (CC_ERROR, H, head)
     | Some v \<Rightarrow>
        do { a \<leftarrow> new H;
             let H = H(a \<mapsto> \<lparr> elem_next = None, elem_data = d \<rparr>);
             (case v of
                None \<Rightarrow> Some (CC_NO_ERROR, H, Some (Some a))
              | Some e \<Rightarrow>
                 do { e \<leftarrow> last_loop H e;
                      x \<leftarrow> H e;
                      Some (CC_NO_ERROR, H(e \<mapsto> x\<lparr> elem_next := Some a \<rparr>), head) }) })"

partial_function (option) length_loop :: "'d store \<Rightarrow> addr option \<Rightarrow> u32 \<Rightarrow> u32 option" where
  "length_loop H e len =
    (case e of
       None \<Rightarrow> Some len
     | Some a \<Rightarrow> do { x \<leftarrow> H a; length_loop H (elem_next x) (len + 1) })"

text \<open>The result is \<open>unsigned int\<close>, also where it is \<open>CC_ERROR\<close>.\<close>

definition list_length_of :: "'d store \<Rightarrow> addr option \<Rightarrow> u32 option" where
  "list_length_of H head =
    (case head of
       None \<Rightarrow> Some (of_int CC_ERROR)
     | Some a \<Rightarrow> do { x \<leftarrow> H a; length_loop H (elem_next x) 1 })"

text \<open>
  The callback acts on a state \<open>'s\<close> (what \<open>user_data\<close> leads to), not on the list. The function
  pointer may be null.
\<close>

partial_function (option) iterate_loop ::
    "('d \<Rightarrow> 's \<Rightarrow> 's) \<Rightarrow> 'd store \<Rightarrow> addr option \<Rightarrow> 's \<Rightarrow> 's option" where
  "iterate_loop f H e s =
    (case e of
       None \<Rightarrow> Some s
     | Some a \<Rightarrow> do { x \<leftarrow> H a; iterate_loop f H (elem_next x) (f (elem_data x) s) })"

definition iterate_list ::
    "'d store \<Rightarrow> addr option \<Rightarrow> ('d \<Rightarrow> 's \<Rightarrow> 's) option \<Rightarrow> 's \<Rightarrow> 's option" where
  "iterate_list H head function s =
    (if head = None then Some s
     else case function of None \<Rightarrow> Some s | Some f \<Rightarrow> iterate_loop f H head s)"

text \<open>\<open>None\<close> is the null pointer the search returns when nothing is found.\<close>

partial_function (option) find_loop ::
    "('d \<Rightarrow> bool) \<Rightarrow> 'd store \<Rightarrow> addr option \<Rightarrow> 'd option option" where
  "find_loop f H e =
    (case e of
       None \<Rightarrow> Some None
     | Some a \<Rightarrow>
        do { x \<leftarrow> H a;
             if f (elem_data x) then Some (Some (elem_data x)) else find_loop f H (elem_next x) })"

definition find_list_custom ::
    "'d store \<Rightarrow> addr option \<Rightarrow> ('d \<Rightarrow> bool) option \<Rightarrow> 'd option option" where
  "find_list_custom H head function =
    (if head = None then Some None
     else case function of None \<Rightarrow> Some None | Some f \<Rightarrow> find_loop f H head)"

text \<open>\<open>before_loop\<close> is also the loop of \<open>delete_element\<close>: it stops in front of the element to delete.\<close>

definition delete_element ::
    "'d store \<Rightarrow> addr option option \<Rightarrow> 'd \<Rightarrow> (int \<times> 'd store \<times> addr option option) option" where
  "delete_element H head d =
    (case head of
       None \<Rightarrow> Some (CC_ERROR, H, head)
     | Some v \<Rightarrow>
        do { e \<leftarrow> v;
             x \<leftarrow> H e;
             if elem_data x = d then Some (CC_NO_ERROR, H(e := None), Some (elem_next x))
             else do {
               r \<leftarrow> before_loop H (Some e) d;
               (case r of
                  None \<Rightarrow> Some (CC_ERROR, H, head)
                | Some e \<Rightarrow>
                   do { x \<leftarrow> H e;
                        delete_me \<leftarrow> elem_next x;
                        y \<leftarrow> H delete_me;
                        Some (CC_NO_ERROR,
                              (H(e \<mapsto> x\<lparr> elem_next := elem_next y \<rparr>))(delete_me := None), head) }) } })"

partial_function (option) delete_loop :: "'d store \<Rightarrow> addr option \<Rightarrow> 'd store option" where
  "delete_loop H e =
    (case e of
       None \<Rightarrow> Some H
     | Some a \<Rightarrow> do { x \<leftarrow> H a; delete_loop (H(a := None)) (elem_next x) })"

definition delete_list :: "'d store \<Rightarrow> addr option \<Rightarrow> (int \<times> 'd store) option" where
  "delete_list H head = map_option (\<lambda>H. (CC_NO_ERROR, H)) (delete_loop H head)"

section \<open>Lists in the store\<close>

text \<open>
  \<open>chain H p ns\<close>: from \<open>p\<close> the store holds the elements \<open>ns\<close>, each with its address and its data,
  and then the null pointer.
\<close>

fun chain :: "'d store \<Rightarrow> addr option \<Rightarrow> (addr \<times> 'd) list \<Rightarrow> bool" where
  "chain H p [] \<longleftrightarrow> p = None"
| "chain H p ((a, d) # ns) \<longleftrightarrow>
     p = Some a \<and> (\<exists>q. H a = Some \<lparr> elem_next = q, elem_data = d \<rparr> \<and> chain H q ns)"

lemma chain_fun:
  "chain H p ns \<Longrightarrow> chain H p ms \<Longrightarrow> ms = ns"
  by (induction ns arbitrary: p ms) (auto elim: chain.elims)

lemma chain_suffix:
  "chain H p (ms @ ns) \<Longrightarrow> \<exists>q. chain H q ns"
  by (induction ms arbitrary: p) auto

lemma chain_distinct: "chain H p ns \<Longrightarrow> distinct (map fst ns)"
proof (induction ns arbitrary: p)
  case (Cons n ns)
  obtain a d where n: "n = (a, d)" by (cases n)
  have "a \<notin> fst ` set ns"
  proof
    assume "a \<in> fst ` set ns"
    then obtain ms d' ls where ns: "ns = ms @ (a, d') # ls" by (auto dest: split_list)
    with Cons.prems n have "\<exists>q. chain H q ((a, d') # ls)"
      using chain_suffix [of H p "n # ms" "(a, d') # ls"] by auto
    then have "chain H (Some a) ((a, d') # ls)" by auto
    moreover from Cons.prems n have "chain H (Some a) ((a, d) # ns)" by auto
    ultimately have "(a, d') # ls = (a, d) # ns" by (rule chain_fun [rotated])
    with ns show False by (auto dest: arg_cong [of _ _ length])
  qed
  with Cons n show ?case by auto
qed simp

lemma chain_upd: "a \<notin> fst ` set ns \<Longrightarrow> chain (H(a := x)) p ns \<longleftrightarrow> chain H p ns"
  by (induction ns arbitrary: p) auto

lemma chain_live: "chain H p ns \<Longrightarrow> a \<in> fst ` set ns \<Longrightarrow> H a \<noteq> None"
  by (induction ns arbitrary: p) force+

lemma chain_fresh: "chain H p ns \<Longrightarrow> H a = None \<Longrightarrow> chain (H(a := x)) p ns"
  by (subst chain_upd) (auto dest: chain_live)

lemma chain_mid:
  "chain H p (ms @ (e, d) # ns) \<Longrightarrow> \<exists>q. H e = Some \<lparr> elem_next = q, elem_data = d \<rparr> \<and> chain H q ns"
  by (induction ms arbitrary: p) auto

text \<open>A chain whose tail behind \<open>e\<close> is exchanged.\<close>

lemma chain_splice:
  assumes "chain H p (ms @ (e, d) # ns)" "\<And>a. a \<in> fst ` set ms \<Longrightarrow> H' a = H a"
    and "H' e = Some \<lparr> elem_next = q, elem_data = d \<rparr>" "chain H' q ms'"
  shows "chain H' p (ms @ (e, d) # ms')"
  using assms(1,2)
proof (induction ms arbitrary: p)
  case Nil
  with assms(3,4) show ?case by simp
next
  case (Cons m ms)
  then show ?case by (cases m) auto
qed

section \<open>The loops on chains\<close>

lemma last_loop_step:
  "H e = Some x \<Longrightarrow> last_loop H e = (case elem_next x of None \<Rightarrow> Some e | Some a \<Rightarrow> last_loop H a)"
  by (subst last_loop.simps) simp

lemma last_loop_chain: "chain H (Some e) (ms @ [(l, d)]) \<Longrightarrow> last_loop H e = Some l"
proof (induction ms arbitrary: e)
  case Nil
  then show ?case by (simp add: last_loop_step)
next
  case (Cons m ms)
  then obtain q where "H e = Some \<lparr> elem_next = q, elem_data = snd m \<rparr>" "chain H q (ms @ [(l, d)])"
    by (cases m) auto
  moreover from this(2) obtain e' where "q = Some e'" by (cases ms) auto
  ultimately show ?case using Cons.IH [of e'] by (simp add: last_loop_step)
qed

lemma before_loop_step:
  "H e = Some x \<Longrightarrow> before_loop H (Some e) s =
     (case elem_next x of
        None \<Rightarrow> Some None
      | Some a \<Rightarrow>
          do { y \<leftarrow> H a; if elem_data y = s then Some (Some e) else before_loop H (Some a) s })"
  by (subst before_loop.simps) (simp add: deref_def split: option.splits)

lemma before_loop_None: "before_loop H None s = None"
  by (subst before_loop.simps) (simp add: deref_def)

lemma before_loop_found:
  "chain H (Some e) ((e, d) # ms @ (f, s) # ns) \<Longrightarrow> s \<notin> snd ` set ms \<Longrightarrow>
     before_loop H (Some e) s = Some (Some (fst (last ((e, d) # ms))))"
proof (induction ms arbitrary: e d)
  case Nil
  then show ?case by (auto simp: before_loop_step simp del: bind_Some_iff)
next
  case (Cons m ms)
  obtain a d' where m: "m = (a, d')" by (cases m)
  with Cons have "chain H (Some a) ((a, d') # ms @ (f, s) # ns)" "s \<noteq> d'" "s \<notin> snd ` set ms" by auto
  with Cons.IH [of a d'] Cons.prems(1) m show ?case by (auto simp: before_loop_step simp del: bind_Some_iff)
qed

lemma before_loop_missing:
  "chain H (Some e) ((e, d) # ns) \<Longrightarrow> s \<notin> snd ` set ns \<Longrightarrow> before_loop H (Some e) s = Some None"
proof (induction ns arbitrary: e d)
  case Nil
  then show ?case by (auto simp: before_loop_step simp del: bind_Some_iff)
next
  case (Cons n ns)
  obtain a d' where n: "n = (a, d')" by (cases n)
  with Cons have "chain H (Some a) ((a, d') # ns)" "s \<noteq> d'" "s \<notin> snd ` set ns" by auto
  with Cons.IH [of a d'] Cons.prems(1) n show ?case by (auto simp: before_loop_step simp del: bind_Some_iff)
qed

lemma length_loop_chain: "chain H p ns \<Longrightarrow> length_loop H p k = Some (k + of_nat (length ns))"
proof (induction ns arbitrary: p k)
  case Nil
  then show ?case by (subst length_loop.simps) simp
next
  case (Cons n ns)
  then show ?case by (cases n, subst length_loop.simps) (auto simp: add.assoc)
qed

lemma iterate_loop_chain: "chain H p ns \<Longrightarrow> iterate_loop f H p s = Some (fold f (map snd ns) s)"
proof (induction ns arbitrary: p s)
  case Nil
  then show ?case by (subst iterate_loop.simps) simp
next
  case (Cons n ns)
  then show ?case by (cases n, subst iterate_loop.simps) auto
qed

lemma find_loop_chain: "chain H p ns \<Longrightarrow> find_loop f H p = Some (List.find f (map snd ns))"
proof (induction ns arbitrary: p)
  case Nil
  then show ?case by (subst find_loop.simps) simp
next
  case (Cons n ns)
  then show ?case by (cases n, subst find_loop.simps) auto
qed

lemma delete_loop_chain:
  "chain H p ns \<Longrightarrow> delete_loop H p = Some (\<lambda>a. if a \<in> fst ` set ns then None else H a)"
proof (induction ns arbitrary: p H)
  case Nil
  then show ?case by (subst delete_loop.simps) simp
next
  case (Cons n ns)
  obtain a d where n: "n = (a, d)" by (cases n)
  with Cons.prems obtain q where q: "p = Some a" "H a = Some \<lparr> elem_next = q, elem_data = d \<rparr>"
    "chain H q ns" by auto
  have "a \<notin> fst ` set ns" using chain_distinct [OF Cons.prems] n by simp
  with q have "chain (H(a := None)) q ns" by (simp add: chain_upd)
  then have "delete_loop (H(a := None)) q
      = Some (\<lambda>b. if b \<in> fst ` set ns then None else (H(a := None)) b)" by (rule Cons.IH)
  also have "(\<lambda>b. if b \<in> fst ` set ns then None else (H(a := None)) b)
      = (\<lambda>b. if b \<in> fst ` set (n # ns) then None else H b)" by (auto simp: n)
  finally show ?case using n q by (subst delete_loop.simps) (simp del: fun_upd_apply)
qed

section \<open>The operations on chains\<close>

lemma insert_before_chain:
  assumes "chain H v (n # ms @ (f, s) # ns)" "s \<notin> snd ` set ms" "new H = Some a" "H a = None"
  shows "\<exists>H'. insert_before new H (Some v) s d = Some (CC_NO_ERROR, H', Some v)
           \<and> chain H' v (n # ms @ (a, d) # (f, s) # ns)
           \<and> (\<forall>b. b \<noteq> a \<and> b \<notin> fst ` set (n # ms @ (f, s) # ns) \<longrightarrow> H' b = H b)"
proof -
  obtain h dh where n: "n = (h, dh)" by (cases n)
  obtain ls e de where ls: "n # ms = ls @ [(e, de)]" and last: "last (n # ms) = (e, de)"
    by (metis append_butlast_last_id list.distinct(1) surj_pair)
  have split: "n # ms @ rest = ls @ (e, de) # rest" for rest
    using ls by (metis append_Cons append_assoc append_Nil)
  note chain = assms(1) [unfolded split]
  from assms(1) n have v: "v = Some h" by simp
  have loop: "before_loop H v s = Some (Some e)"
    using before_loop_found [of H h dh ms f s ns] assms n v last by simp
  from chain_mid [OF chain]
  have e: "H e = Some \<lparr> elem_next = Some f, elem_data = de \<rparr>" and rest: "chain H (Some f) ((f, s) # ns)"
    by auto
  define H' where "H' = (H(a \<mapsto> \<lparr> elem_next = Some f, elem_data = d \<rparr>))
      (e \<mapsto> \<lparr> elem_next = Some a, elem_data = de \<rparr>)"
  have ea: "e \<noteq> a" using e assms(4) by auto
  have dist: "e \<notin> fst ` set ls" "e \<notin> fst ` set ((f, s) # ns)"
    using chain_distinct [OF chain] by auto
  have fresh: "a \<notin> fst ` set ls" "a \<notin> fst ` set ((f, s) # ns)"
    using chain_live [OF chain, of a] assms(4) by auto
  have agree: "\<And>b. b \<in> fst ` set ls \<Longrightarrow> H' b = H b"
    using dist fresh by (metis H'_def fun_upd_apply)
  have "chain H' (Some f) ((f, s) # ns)"
    unfolding H'_def by (intro chain_upd [THEN iffD2] rest dist(2) fresh(2))
  then have "chain H' (Some a) ((a, d) # (f, s) # ns)"
    using ea by (simp add: H'_def)
  moreover have "H' e = Some \<lparr> elem_next = Some a, elem_data = de \<rparr>" by (simp add: H'_def)
  ultimately have "chain H' v (n # ms @ (a, d) # (f, s) # ns)"
    using chain_splice [OF chain agree] by (simp add: split)
  moreover have "H' b = H b" if "b \<noteq> a" "b \<notin> fst ` set (n # ms @ (f, s) # ns)" for b
    using that unfolding split by (auto simp: H'_def)
  moreover have "insert_before new H (Some v) s d = Some (CC_NO_ERROR, H', Some v)"
    using loop e ea assms(3) by (simp add: insert_before_def H'_def Let_def)
  ultimately show ?thesis by blast
qed

lemma delete_head_chain:
  assumes "chain H v ((e, d) # ns)"
  shows "\<exists>v'. delete_element H (Some v) d = Some (CC_NO_ERROR, H(e := None), Some v')
           \<and> chain (H(e := None)) v' ns"
proof -
  from assms obtain q where q: "v = Some e" "H e = Some \<lparr> elem_next = q, elem_data = d \<rparr>" "chain H q ns"
    by auto
  have "e \<notin> fst ` set ns" using chain_distinct [OF assms] by simp
  with q show ?thesis by (simp add: delete_element_def chain_upd)
qed

lemma delete_inner_chain:
  assumes "chain H v (n # ms @ (f, d) # ns)" "d \<noteq> snd n" "d \<notin> snd ` set ms"
  shows "\<exists>H'. delete_element H (Some v) d = Some (CC_NO_ERROR, H', Some v)
           \<and> chain H' v (n # ms @ ns) \<and> H' f = None
           \<and> (\<forall>a. a \<notin> fst ` set (n # ms @ (f, d) # ns) \<longrightarrow> H' a = H a)"
proof -
  obtain h dh where n: "n = (h, dh)" by (cases n)
  obtain ls e de where ls: "n # ms = ls @ [(e, de)]" and last: "last (n # ms) = (e, de)"
    by (metis append_butlast_last_id list.distinct(1) surj_pair)
  have split: "n # ms @ rest = ls @ (e, de) # rest" for rest
    using ls by (metis append_Cons append_assoc append_Nil)
  note chain = assms(1) [unfolded split]
  from assms(1) n obtain q0 where v: "v = Some h" "H h = Some \<lparr> elem_next = q0, elem_data = dh \<rparr>" by auto
  have loop: "before_loop H v d = Some (Some e)"
    using before_loop_found [of H h dh ms f d ns] assms n v last by simp
  from chain_mid [OF chain] obtain q where
    e: "H e = Some \<lparr> elem_next = Some f, elem_data = de \<rparr>" and
    f: "H f = Some \<lparr> elem_next = q, elem_data = d \<rparr>" and rest: "chain H q ns"
    by auto
  define H' where "H' = (H(e \<mapsto> \<lparr> elem_next = q, elem_data = de \<rparr>))(f := None)"
  have dist: "e \<notin> fst ` set ls" "e \<notin> fst ` set ns" "f \<notin> fst ` set ls" "f \<notin> fst ` set ns" "e \<noteq> f"
    using chain_distinct [OF chain] by auto
  have agree: "\<And>b. b \<in> fst ` set ls \<Longrightarrow> H' b = H b"
    using dist by (metis H'_def fun_upd_apply)
  have "chain H' q ns"
    unfolding H'_def by (intro chain_upd [THEN iffD2] rest dist)
  moreover have "H' e = Some \<lparr> elem_next = q, elem_data = de \<rparr>" using dist by (simp add: H'_def)
  ultimately have "chain H' v (n # ms @ ns)"
    using chain_splice [OF chain agree] by (simp add: split)
  moreover have "H' f = None" by (simp add: H'_def)
  moreover have "H' a = H a" if "a \<notin> fst ` set (n # ms @ (f, d) # ns)" for a
    using that unfolding split by (auto simp: H'_def)
  moreover have "delete_element H (Some v) d = Some (CC_NO_ERROR, H', Some v)"
    using loop e f v assms(2) n by (simp add: delete_element_def H'_def)
  ultimately show ?thesis by blast
qed

lemma delete_missing_chain:
  assumes "chain H v (n # ns)" "d \<notin> snd ` set (n # ns)"
  shows "delete_element H (Some v) d = Some (CC_ERROR, H, Some v)"
  using assms before_loop_missing [of H "fst n" "snd n" ns d]
  by (cases n) (auto simp: delete_element_def)

section \<open>The contract of the list\<close>

text \<open>A small list for the witnesses, and an allocator that hands out address 9.\<close>

definition two_elems :: "int store" where
  "two_elems = (\<lambda>_. None)(1 \<mapsto> \<lparr> elem_next = Some 2, elem_data = 10 \<rparr>, 2 \<mapsto> \<lparr> elem_next = None, elem_data = 20 \<rparr>)"

lemma two_elems_chain: "chain two_elems (Some 1) [(1, 10), (2, 20)]"
  by (simp add: two_elems_def)

lemma two_elems_fresh: "two_elems 9 = None"
  by (simp add: two_elems_def)

text \<open>
  Inserting in front: the list then starts with the new element, the old list follows. The
  function succeeds with \<open>CC_NO_ERROR\<close>, which is zero.
\<close>

theorem insert_in_front_chain:
  assumes "chain H v ns" "new H = Some a" "H a = None"
  shows "\<exists>H'. insert_in_front new H (Some v) d = Some (CC_NO_ERROR, H', Some (Some a))
           \<and> chain H' (Some a) ((a, d) # ns)"
  using assms by (auto simp: insert_in_front_def chain_fresh)

lemma insert_in_front_chain_witness:
  "\<exists>H'. insert_in_front (\<lambda>_. Some 9) two_elems (Some (Some 1)) 5 = Some (CC_NO_ERROR, H', Some (Some 9))
     \<and> chain H' (Some 9) ((9, 5) # [(1, 10), (2, 20)])"
  by (rule insert_in_front_chain [OF two_elems_chain _ two_elems_fresh]) simp

lemma insert_tail_some:
  assumes "chain H v ns" "new H = Some a" "H a = None"
  shows "\<exists>H'. insert_tail new H (Some v) d = Some (CC_NO_ERROR, H', Some (if ns = [] then Some a else v))
           \<and> chain H' (if ns = [] then Some a else v) (ns @ [(a, d)])
           \<and> (\<forall>b. b \<noteq> a \<and> b \<notin> fst ` set ns \<longrightarrow> H' b = H b)"
proof (cases ns rule: rev_cases)
  case Nil
  with assms show ?thesis by (simp add: insert_tail_def)
next
  case (snoc ms n)
  obtain l d' where n: "n = (l, d')" by (cases n)
  define H1 where "H1 = H(a \<mapsto> \<lparr> elem_next = None, elem_data = d \<rparr>)"
  have H1: "chain H1 v ns" using assms by (simp add: H1_def chain_fresh)
  from assms(1) snoc obtain e where v: "v = Some e" by (cases ms) (auto simp: n)
  from chain_mid [of H1 v ms l d' "[]"] H1 snoc n
  have l: "H1 l = Some \<lparr> elem_next = None, elem_data = d' \<rparr>" by auto
  have la: "l \<noteq> a" using chain_live [OF assms(1), of l] assms(3) snoc n by auto
  have lms: "l \<notin> fst ` set ms" using chain_distinct [OF assms(1)] snoc n by auto
  define H' where "H' = H1(l \<mapsto> \<lparr> elem_next = Some a, elem_data = d' \<rparr>)"
  have "chain H' v (ms @ (l, d') # [(a, d)])"
    by (rule chain_splice [of H1 v ms l d' "[]" _ "Some a"]) (use H1 snoc n la lms in \<open>auto simp: H1_def H'_def\<close>)
  moreover have "last_loop H1 e = Some l" using last_loop_chain [of H1 e ms l d'] H1 v snoc n by simp
  then have "insert_tail new H (Some v) d = Some (CC_NO_ERROR, H', Some v)"
    using assms(2) v l by (simp del: fun_upd_apply add: insert_tail_def H1_def [symmetric] H'_def Let_def)
  moreover have "\<forall>b. b \<noteq> a \<and> b \<notin> fst ` set ns \<longrightarrow> H' b = H b" using snoc n by (simp add: H'_def H1_def)
  ultimately show ?thesis using snoc n by simp
qed

text \<open>
  C40. Inserting at the tail. A null \<open>head\<close> is refused, and a failing \<open>malloc\<close> is dereferenced. Otherwise the
  walk to the last element ends, the new element is the last of the list, which is as it was in front of
  it, also when it was empty, and nothing outside the list is changed.
\<close>

theorem insert_tail_refines:
  assumes "chain H v ns"
  shows "insert_tail new H None d = Some (CC_ERROR, H, None) \<and>
    (new H = None \<longrightarrow> insert_tail new H (Some v) d = None) \<and>
    (\<forall>a. new H = Some a \<and> H a = None \<longrightarrow>
      (\<exists>H'. insert_tail new H (Some v) d = Some (CC_NO_ERROR, H', Some (if ns = [] then Some a else v)) \<and>
            chain H' (if ns = [] then Some a else v) (ns @ [(a, d)]) \<and>
            (\<forall>b. b \<noteq> a \<and> b \<notin> fst ` set ns \<longrightarrow> H' b = H b)))"
  using insert_tail_some [OF assms] by (simp add: insert_tail_def)

lemma insert_tail_refines_witness:
  "\<exists>H'. insert_tail (\<lambda>_. Some 9) two_elems (Some (Some 1)) 5 = Some (CC_NO_ERROR, H', Some (Some 1)) \<and>
     chain H' (Some 1) ([(1, 10), (2, 20)] @ [(9, 5)])"
  using insert_tail_refines [OF two_elems_chain, of "\<lambda>_. Some 9" 5] two_elems_fresh by auto

text \<open>
  C31. Inserting before a sibling. A null \<open>head\<close> is refused; an empty list is dereferenced. When no
  element behind the head has the sibling's data, also when only the head has it, the result is
  \<open>CC_ERROR\<close> and nothing is changed or allocated. Otherwise the new element goes in front of the first
  element behind the head with that data, and nothing outside the list is changed; a failing \<open>malloc\<close>
  is dereferenced.
\<close>

theorem insert_before_refines:
  assumes "chain H v ns"
  shows "insert_before new H None s d = Some (CC_ERROR, H, None) \<and>
    (ns = [] \<longrightarrow> insert_before new H (Some v) s d = None) \<and>
    (ns \<noteq> [] \<and> s \<notin> snd ` set (tl ns) \<longrightarrow> insert_before new H (Some v) s d = Some (CC_ERROR, H, Some v)) \<and>
    (\<forall>n ms f ls. ns = n # ms @ (f, s) # ls \<and> s \<notin> snd ` set ms \<longrightarrow>
      (new H = None \<longrightarrow> insert_before new H (Some v) s d = None) \<and>
      (\<forall>a. new H = Some a \<and> H a = None \<longrightarrow>
        (\<exists>H'. insert_before new H (Some v) s d = Some (CC_NO_ERROR, H', Some v) \<and>
              chain H' v (n # ms @ (a, d) # (f, s) # ls) \<and>
              (\<forall>b. b \<noteq> a \<and> b \<notin> fst ` set ns \<longrightarrow> H' b = H b))))"
proof (intro conjI allI impI)
  show "insert_before new H None s d = Some (CC_ERROR, H, None)" by (simp add: insert_before_def)
  show "insert_before new H (Some v) s d = None" if "ns = []"
    using assms that by (simp add: insert_before_def before_loop_None)
  show "insert_before new H (Some v) s d = Some (CC_ERROR, H, Some v)" if ns: "ns \<noteq> [] \<and> s \<notin> snd ` set (tl ns)"
  proof -
    obtain e de ms where n: "ns = (e, de) # ms" using ns by (cases ns) auto
    with assms ns have "before_loop H v s = Some None" using before_loop_missing [of H e de ms s] by auto
    then show ?thesis by (simp add: insert_before_def)
  qed
next
  fix n ms f ls assume "ns = n # ms @ (f, s) # ls \<and> s \<notin> snd ` set ms" "new H = None"
  then show "insert_before new H (Some v) s d = None"
    using assms before_loop_found [of H "fst n" "snd n" ms f s ls] by (cases n) (auto simp: insert_before_def)
next
  fix n ms f ls a assume "ns = n # ms @ (f, s) # ls \<and> s \<notin> snd ` set ms" "new H = Some a \<and> H a = None"
  then show "\<exists>H'. insert_before new H (Some v) s d = Some (CC_NO_ERROR, H', Some v) \<and>
      chain H' v (n # ms @ (a, d) # (f, s) # ls) \<and> (\<forall>b. b \<noteq> a \<and> b \<notin> fst ` set ns \<longrightarrow> H' b = H b)"
    using insert_before_chain [of H v n ms f s ls new a d] assms by simp
qed

lemma insert_before_refines_witness:
  "\<exists>H'. insert_before (\<lambda>_. Some 9) two_elems (Some (Some 1)) 20 5 = Some (CC_NO_ERROR, H', Some (Some 1)) \<and>
     chain H' (Some 1) ((1, 10) # [] @ (9, 5) # (2, 20) # []) \<and> H' 3 = two_elems 3"
proof -
  have "[(1, 10), (2, 20)] = (1 :: nat, 10 :: int) # [] @ (2, 20) # [] \<and> (20 :: int) \<notin> snd ` set ([] :: (nat \<times> int) list)"
    by simp
  moreover have "(\<lambda>_. Some 9) two_elems = Some (9 :: nat) \<and> two_elems 9 = None" by (simp add: two_elems_fresh)
  ultimately have "\<exists>H'. insert_before (\<lambda>_. Some 9) two_elems (Some (Some 1)) 20 5 = Some (CC_NO_ERROR, H', Some (Some 1)) \<and>
     chain H' (Some 1) ((1, 10) # [] @ (9, 5) # (2, 20) # []) \<and>
     (\<forall>b. b \<noteq> 9 \<and> b \<notin> fst ` set [(1 :: nat, 10 :: int), (2, 20)] \<longrightarrow> H' b = two_elems b)"
    using insert_before_refines [OF two_elems_chain, of "\<lambda>_. Some 9" 20 5] by blast
  then show ?thesis by auto
qed

text \<open>
  C30. Deleting. A null \<open>head\<close> is refused; an empty list is dereferenced. When no element has the data
  the result is \<open>CC_ERROR\<close> and nothing is changed. Otherwise the first element with the data, and only
  that one, is taken out and freed, and nothing outside the list is changed.
\<close>

theorem delete_element_refines:
  assumes "chain H v ns"
  shows "delete_element H None d = Some (CC_ERROR, H, None) \<and>
    (ns = [] \<longrightarrow> delete_element H (Some v) d = None) \<and>
    (ns \<noteq> [] \<and> d \<notin> snd ` set ns \<longrightarrow> delete_element H (Some v) d = Some (CC_ERROR, H, Some v)) \<and>
    (\<forall>ms f ls. ns = ms @ (f, d) # ls \<and> d \<notin> snd ` set ms \<longrightarrow>
      (\<exists>H' v'. delete_element H (Some v) d = Some (CC_NO_ERROR, H', Some v') \<and>
               chain H' v' (ms @ ls) \<and> H' f = None \<and> (\<forall>a. a \<notin> fst ` set ns \<longrightarrow> H' a = H a)))"
proof (intro conjI allI impI)
  show "delete_element H None d = Some (CC_ERROR, H, None)" by (simp add: delete_element_def)
  show "delete_element H (Some v) d = None" if "ns = []"
    using assms that by (simp add: delete_element_def)
  show "delete_element H (Some v) d = Some (CC_ERROR, H, Some v)" if "ns \<noteq> [] \<and> d \<notin> snd ` set ns"
    using assms that delete_missing_chain [of H v "hd ns" "tl ns" d] by (cases ns) auto
next
  fix ms f ls assume ns: "ns = ms @ (f, d) # ls \<and> d \<notin> snd ` set ms"
  show "\<exists>H' v'. delete_element H (Some v) d = Some (CC_NO_ERROR, H', Some v') \<and>
      chain H' v' (ms @ ls) \<and> H' f = None \<and> (\<forall>a. a \<notin> fst ` set ns \<longrightarrow> H' a = H a)"
  proof (cases ms)
    case Nil
    with delete_head_chain [of H v f d ls] assms ns obtain v' where
      "delete_element H (Some v) d = Some (CC_NO_ERROR, H(f := None), Some v')" "chain (H(f := None)) v' (ms @ ls)" by auto
    then show ?thesis using ns by (intro exI [of _ "H(f := None)"] exI [of _ v']) auto
  next
    case (Cons m ms')
    with delete_inner_chain [of H v m ms' f d ls] assms ns show ?thesis by auto
  qed
qed

lemma delete_element_refines_witness:
  "\<exists>H' v'. delete_element two_elems (Some (Some 1)) 20 = Some (CC_NO_ERROR, H', Some v') \<and>
     chain H' v' ([(1, 10)] @ []) \<and> H' 2 = None \<and> H' 3 = two_elems 3"
proof -
  have "[(1, 10), (2, 20)] = [(1 :: nat, 10 :: int)] @ (2, 20) # [] \<and> (20 :: int) \<notin> snd ` set [(1 :: nat, 10 :: int)]"
    by simp
  then have "\<exists>H' v'. delete_element two_elems (Some (Some 1)) 20 = Some (CC_NO_ERROR, H', Some v') \<and>
     chain H' v' ([(1, 10)] @ []) \<and> H' 2 = None \<and> (\<forall>a. a \<notin> fst ` set [(1 :: nat, 10 :: int), (2, 20)] \<longrightarrow> H' a = two_elems a)"
    using delete_element_refines [OF two_elems_chain, of 20] by blast
  then show ?thesis by auto
qed

text \<open>
  The queries on a non-empty list end and return what they promise: the number of elements
  (modulo 2^32), the callback applied to every element in order, the first element the predicate
  accepts or the null pointer.
\<close>

theorem list_queries:
  assumes "chain H v ns" "ns \<noteq> []"
  shows "list_length_of H v = Some (of_nat (length ns)) \<and>
         iterate_list H v (Some f) s = Some (fold f (map snd ns) s) \<and>
         find_list_custom H v (Some p) = Some (List.find p (map snd ns))"
proof -
  from assms obtain a d ms where ns: "ns = (a, d) # ms" by (cases ns) auto
  with assms(1) obtain q where q: "v = Some a" "H a = Some \<lparr> elem_next = q, elem_data = d \<rparr>" "chain H q ms"
    by auto
  have "list_length_of H v = Some (of_nat (length ns))"
    using q ns by (simp add: list_length_of_def length_loop_chain)
  with q(1) iterate_loop_chain [OF assms(1), of f s] find_loop_chain [OF assms(1), of p] show ?thesis
    by (simp add: iterate_list_def find_list_custom_def)
qed

lemma list_queries_witness:
  "list_length_of two_elems (Some 1) = Some (of_nat (length [(1 :: nat, 10 :: int), (2, 20)])) \<and>
   iterate_list two_elems (Some 1) (Some (+)) 0 = Some (fold (+) (map snd [(1 :: nat, 10), (2, 20)]) 0) \<and>
   find_list_custom two_elems (Some 1) (Some (\<lambda>d. d > 15))
     = Some (List.find (\<lambda>d. d > 15) (map snd [(1 :: nat, 10), (2, 20)]))"
  by (rule list_queries [OF two_elems_chain]) simp

text \<open>
  C36. Deleting a list frees each of its elements once and nothing else.
\<close>

theorem delete_list_frees:
  assumes "chain H v ns"
  shows "delete_list H v = Some (CC_NO_ERROR, \<lambda>a. if a \<in> fst ` set ns then None else H a)"
  using delete_loop_chain [OF assms] by (simp add: delete_list_def)

lemma delete_list_frees_witness:
  "delete_list two_elems (Some 1)
     = Some (CC_NO_ERROR, \<lambda>a. if a \<in> fst ` set [(1, 10 :: int), (2, 20)] then None else two_elems a)"
  by (rule delete_list_frees [OF two_elems_chain])

text \<open>
  What goes wrong: \<open>create_list\<close> never succeeds (it refuses every variable and dereferences the
  null pointer); a null \<open>head\<close> is dereferenced by \<open>insert_in_front\<close>; an empty list is dereferenced by
  \<open>insert_before\<close> and \<open>delete_element\<close>; the length of the empty list is 2^32 - 1; the head is not found
  as a sibling.
\<close>

theorem list_error_behaviour:
  "create_list H (Some v) = Some (CC_ERROR, H, Some v) \<and> create_list H None = None \<and>
   insert_in_front new H None d = None \<and>
   insert_before new H (Some None) s d = None \<and> delete_element H (Some None) d = None \<and>
   list_length_of H None = Some 0xffffffff \<and>
   insert_before (\<lambda>_. Some 9) two_elems (Some (Some 1)) 10 5 = Some (CC_ERROR, two_elems, Some (Some 1))"
proof -
  have "before_loop two_elems (Some 1) 10 = Some None"
    by (rule before_loop_missing [OF two_elems_chain]) simp
  then show ?thesis
    by (simp add: create_list_def insert_in_front_def insert_before_def before_loop_None
        delete_element_def list_length_of_def CC_ERROR_def)
qed

end
