(* ===== verification/ThreadPool.thy ===== *)
theory ThreadPool
  imports Link Transition
begin

text \<open>
  \<open>lib/cc_thread_pool.c\<close>: a queue of jobs behind a mutex and a condition variable. The threads of
  the pool run \<open>thread_routine\<close>; other threads call \<open>pool_add_worker\<close> and \<open>pool_destroy\<close>. Each thread
  has a program counter, and a step of the system is a step of one thread: the code under the mutex
  is cut where a thread reads \<open>shutdown\<close> (which \<open>pool_destroy\<close> writes without the mutex) and where it
  blocks; the code of \<open>pool_destroy\<close>, which never takes the mutex, is cut at every access to what the
  threads share. The queue is a list of elements with a \<open>next\<close> pointer, as in \<open>Link\<close>; a job is the
  function with the address of its argument. What is undefined (the use of the pool after it has been
  freed, of an element that has been freed, a failing \<open>malloc\<close>, whose result is not tested) has no step.
\<close>

section \<open>State\<close>

type_synonym 'p job = "'p \<times> addr"

text \<open>
  Where a thread is. \<open>R_\<close>: in \<open>thread_routine\<close>, before taking the mutex, at the test of the inner
  loop, before the call of \<open>pthread_cond_wait\<close>, blocked in it, woken up and without the mutex, before the
  test of \<open>shutdown\<close>, before leaving, before taking the job, running it, gone. \<open>A_\<close>: in
  \<open>pool_add_worker\<close>, before taking the mutex and before the signal. \<open>D_\<close>: in \<open>pool_destroy\<close>, before
  the assignment, the broadcast and the joins (lines 91 to 97), at the test of the loop, before each of
  its three assignments and calls (lines 102 to 106), before the end (line 108), gone.
\<close>

datatype pc =
    R_lock | R_test | R_wait | R_blocked | R_woken | R_check | R_leave | R_take | R_run addr | R_exited
  | Idle | A_lock addr | A_signal
  | D_set | D_broadcast | D_join | D_loop | D_head | D_unlink "addr option" | D_free "addr option" | D_pool | D_done

record 'p cthread_pool =
  queue_lock :: "nat option"
  queue_head :: "addr option"
  shutdown :: bool
  cur_queue_size :: int
  workers :: "'p job store"
  worker_args :: "addr set"
  threadid_live :: bool
  pool_live :: bool
  pcs :: "nat \<Rightarrow> pc"

section \<open>Operations\<close>

text \<open>\<open>pool_init\<close>: the pool with \<open>max_thread_num\<close> threads, numbered from zero; all of them start.\<close>

definition pool_init :: "nat \<Rightarrow> addr set \<Rightarrow> 'p cthread_pool" where
  "pool_init max_thread_num args =
    \<lparr> queue_lock = None, queue_head = None, shutdown = False, cur_queue_size = 0,
      workers = Map.empty, worker_args = args, threadid_live = True, pool_live = True,
      pcs = (\<lambda>t. if t < max_thread_num then R_lock else Idle) \<rparr>"

text \<open>\<open>pool_add_worker\<close> before the mutex: the new element.\<close>

definition new_worker :: "addr \<Rightarrow> 'p job \<Rightarrow> 'p cthread_pool \<Rightarrow> 'p cthread_pool" where
  "new_worker a j P = P\<lparr> workers := (workers P)(a \<mapsto> \<lparr> elem_next = None, elem_data = j \<rparr>) \<rparr>"

text \<open>\<open>pool_add_worker\<close> under the mutex. The walk to the last element is \<open>last_loop\<close>.\<close>

definition link_worker :: "'d store \<Rightarrow> addr option \<Rightarrow> addr \<Rightarrow> ('d store \<times> addr option) option" where
  "link_worker H head a =
    (case head of
       None \<Rightarrow> Some (H, Some a)
     | Some e \<Rightarrow>
        do { member \<leftarrow> last_loop H e;
             x \<leftarrow> H member;
             Some (H(member \<mapsto> x\<lparr> elem_next := Some a \<rparr>), head) })"

definition enqueue_worker :: "addr \<Rightarrow> 'p cthread_pool \<Rightarrow> 'p cthread_pool option" where
  "enqueue_worker a P =
    do { (H, head) \<leftarrow> link_worker (workers P) (queue_head P) a;
         if head = None \<or> cur_queue_size P = 2 ^ 31 - 1 then None
         else Some (P\<lparr> workers := H, queue_head := head, cur_queue_size := cur_queue_size P + 1 \<rparr>) }"

text \<open>\<open>thread_routine\<close> between the tests and the release of the mutex.\<close>

definition take_worker :: "'p cthread_pool \<Rightarrow> (addr \<times> 'p job \<times> 'p cthread_pool) option" where
  "take_worker P =
    (let P = P\<lparr> cur_queue_size := cur_queue_size P - 1 \<rparr> in
     do { w \<leftarrow> queue_head P;
          x \<leftarrow> workers P w;
          Some (w, elem_data x, P\<lparr> queue_head := elem_next x \<rparr>) })"

text \<open>\<open>free\<close> of an argument: of something that is not allocated it is undefined.\<close>

definition free_arg :: "addr set \<Rightarrow> addr \<Rightarrow> addr set option" where
  "free_arg A a = (if a \<in> A then Some (A - {a}) else None)"

text \<open>
  \<open>thread_routine\<close> behind the mutex. The members of the argument are read for the call; then the
  argument is freed under both of its names.
\<close>

definition finish_worker :: "addr \<Rightarrow> 'p cthread_pool \<Rightarrow> 'p cthread_pool option" where
  "finish_worker w P =
    do { x \<leftarrow> workers P w;
         let tmp_buf = snd (elem_data x);
         if tmp_buf \<notin> worker_args P then None
         else do {
           A \<leftarrow> free_arg (worker_args P) tmp_buf;
           A \<leftarrow> free_arg A (snd (elem_data x));
           Some (P\<lparr> worker_args := A, workers := (workers P)(w := None) \<rparr>) } }"

text \<open>
  \<open>pool_destroy\<close>: the test, the joins with the release of \<open>threadid\<close>, and the body of the loop that
  frees the queue. The threads are detached (lines 47 and 119), so a join does not wait for any of them.
\<close>

definition destroy_test :: "'p cthread_pool \<Rightarrow> int option" where
  "destroy_test P = (if shutdown P then Some (- 1) else None)"

definition join_threads :: "'p cthread_pool \<Rightarrow> 'p cthread_pool option" where
  "join_threads P = (if threadid_live P then Some (P\<lparr> threadid_live := False \<rparr>) else None)"

definition unlink_head :: "'p cthread_pool \<Rightarrow> 'p cthread_pool option" where
  "unlink_head P =
    do { head \<leftarrow> queue_head P;
         x \<leftarrow> workers P head;
         Some (P\<lparr> queue_head := elem_next x \<rparr>) }"

definition free_worker :: "addr option \<Rightarrow> 'p cthread_pool \<Rightarrow> 'p cthread_pool option" where
  "free_worker head P =
    (case head of
       None \<Rightarrow> Some P
     | Some a \<Rightarrow> if workers P a = None then None else Some (P\<lparr> workers := (workers P)(a := None) \<rparr>))"

text \<open>
  The end of \<open>pool_destroy\<close>: to destroy a mutex that is held, or a condition variable on which a thread
  is blocked, is undefined.
\<close>

definition free_pool :: "'p cthread_pool \<Rightarrow> 'p cthread_pool option" where
  "free_pool P = (if queue_lock P = None then Some (P\<lparr> pool_live := False \<rparr>) else None)"

section \<open>Steps\<close>

definition goto :: "nat \<Rightarrow> pc \<Rightarrow> 'p cthread_pool \<Rightarrow> 'p cthread_pool" where
  "goto t c P = P\<lparr> pcs := (pcs P)(t := c) \<rparr>"

text \<open>
  What an observer of the pool sees of a step: that a job enters the queue, that a thread starts one,
  that the return value of \<open>pool_destroy\<close> is known, or nothing.
\<close>

datatype 'p pool_event = Submitted "'p job" | Started nat "'p job" | Destroy_returns int | Silent

inductive routine_step :: "'p cthread_pool \<Rightarrow> 'p pool_event \<Rightarrow> 'p cthread_pool \<Rightarrow> bool" where
  lock: "pcs P t \<in> {R_lock, R_woken} \<Longrightarrow> queue_lock P = None \<Longrightarrow>
    routine_step P Silent (goto t R_test (P\<lparr> queue_lock := Some t \<rparr>))"
| test: "pcs P t = R_test \<Longrightarrow>
    routine_step P Silent (goto t (if cur_queue_size P = 0 \<and> \<not> shutdown P then R_wait else R_check) P)"
| wait: "pcs P t = R_wait \<Longrightarrow> routine_step P Silent (goto t R_blocked (P\<lparr> queue_lock := None \<rparr>))"
| spurious: "pcs P t = R_blocked \<Longrightarrow> routine_step P Silent (goto t R_woken P)"
| check: "pcs P t = R_check \<Longrightarrow>
    routine_step P Silent (goto t (if shutdown P then R_leave else R_take) P)"
| leave: "pcs P t = R_leave \<Longrightarrow> routine_step P Silent (goto t R_exited (P\<lparr> queue_lock := None \<rparr>))"
| take: "pcs P t = R_take \<Longrightarrow> take_worker P = Some (w, j, P') \<Longrightarrow>
    routine_step P (Started t j) (goto t (R_run w) (P'\<lparr> queue_lock := None \<rparr>))"
| finish: "pcs P t = R_run w \<Longrightarrow> finish_worker w P = Some P' \<Longrightarrow>
    routine_step P Silent (goto t R_lock P')"

inductive add_step :: "'p cthread_pool \<Rightarrow> 'p pool_event \<Rightarrow> 'p cthread_pool \<Rightarrow> bool" where
  add: "pcs P t = Idle \<Longrightarrow> workers P a = None \<Longrightarrow>
    add_step P Silent (goto t (A_lock a) (new_worker a j P))"
| enqueue: "pcs P t = A_lock a \<Longrightarrow> queue_lock P = None \<Longrightarrow> workers P a = Some x \<Longrightarrow> enqueue_worker a P = Some P' \<Longrightarrow>
    add_step P (Submitted (elem_data x)) (goto t A_signal P')"
| signal: "pcs P t = A_signal \<Longrightarrow> pcs P u = R_blocked \<Longrightarrow>
    add_step P Silent (goto t Idle (goto u R_woken P))"
| signal_none: "pcs P t = A_signal \<Longrightarrow> (\<forall>u. pcs P u \<noteq> R_blocked) \<Longrightarrow> add_step P Silent (goto t Idle P)"

inductive destroy_step :: "'p cthread_pool \<Rightarrow> 'p pool_event \<Rightarrow> 'p cthread_pool \<Rightarrow> bool" where
  destroy: "pcs P t = Idle \<Longrightarrow> destroy_test P = None \<Longrightarrow> destroy_step P Silent (goto t D_set P)"
| destroy_again: "pcs P t = Idle \<Longrightarrow> destroy_test P = Some r \<Longrightarrow> destroy_step P (Destroy_returns r) P"
| set: "pcs P t = D_set \<Longrightarrow> destroy_step P Silent (goto t D_broadcast (P\<lparr> shutdown := True \<rparr>))"
| broadcast: "pcs P t = D_broadcast \<Longrightarrow>
    destroy_step P Silent (goto t D_join (P\<lparr> pcs := (\<lambda>u. if pcs P u = R_blocked then R_woken else pcs P u) \<rparr>))"
| join: "pcs P t = D_join \<Longrightarrow> join_threads P = Some P' \<Longrightarrow> destroy_step P Silent (goto t D_loop P')"
| loop: "pcs P t = D_loop \<Longrightarrow>
    destroy_step P Silent (goto t (if queue_head P = None then D_pool else D_head) P)"
| head: "pcs P t = D_head \<Longrightarrow> destroy_step P Silent (goto t (D_unlink (queue_head P)) P)"
| unlink: "pcs P t = D_unlink h \<Longrightarrow> unlink_head P = Some P' \<Longrightarrow> destroy_step P Silent (goto t (D_free h) P')"
| free: "pcs P t = D_free h \<Longrightarrow> free_worker h P = Some P' \<Longrightarrow> destroy_step P Silent (goto t D_loop P')"
| return: "pcs P t = D_pool \<Longrightarrow> (\<forall>u. pcs P u \<noteq> R_blocked) \<Longrightarrow> free_pool P = Some P' \<Longrightarrow>
    destroy_step P (Destroy_returns 0) (goto t D_done P')"

text \<open>The interleaving. Nothing is defined any more once the pool has been freed.\<close>

inductive pool_thread_step :: "'p cthread_pool \<Rightarrow> 'p pool_event \<Rightarrow> 'p cthread_pool \<Rightarrow> bool" where
  routine: "pool_live P \<Longrightarrow> routine_step P e P' \<Longrightarrow> pool_thread_step P e P'"
| adding: "pool_live P \<Longrightarrow> add_step P e P' \<Longrightarrow> pool_thread_step P e P'"
| destroying: "pool_live P \<Longrightarrow> destroy_step P e P' \<Longrightarrow> pool_thread_step P e P'"

inductive_cases pool_thread_stepE: "pool_thread_step P e P'"

text \<open>
  \<open>pool_destroy\<close> is behind its joins: from there on it works on the queue without the mutex, whatever
  the other threads do.
\<close>

definition behind_joins :: "pc \<Rightarrow> bool" where
  "behind_joins c \<longleftrightarrow> (case c of D_loop \<Rightarrow> True | D_head \<Rightarrow> True | D_unlink h \<Rightarrow> True | D_free h \<Rightarrow> True
                          | D_pool \<Rightarrow> True | D_done \<Rightarrow> True | _ \<Rightarrow> False)"

definition tearing_down :: "'p cthread_pool \<Rightarrow> bool" where
  "tearing_down P \<longleftrightarrow> (\<exists>t. behind_joins (pcs P t))"

section \<open>The queue\<close>

lemma link_worker_chain:
  assumes "chain H p ns" "H a = Some \<lparr> elem_next = None, elem_data = d \<rparr>" "a \<notin> fst ` set ns"
  obtains H' where "link_worker H p a = Some (H', Some (fst (hd (ns @ [(a, d)]))))"
    "chain H' (Some (fst (hd (ns @ [(a, d)])))) (ns @ [(a, d)])"
    "\<forall>b. b \<notin> fst ` set ns \<longrightarrow> H' b = H b"
proof (cases ns rule: rev_cases)
  case Nil
  with assms that [of H] show ?thesis by (simp add: link_worker_def)
next
  case (snoc ms n)
  obtain l e where n: "n = (l, e)" by (cases n)
  define H' where "H' = H(l \<mapsto> \<lparr> elem_next = Some a, elem_data = e \<rparr>)"
  have l: "H l = Some \<lparr> elem_next = None, elem_data = e \<rparr>"
    using chain_mid [of H p ms l e "[]"] assms(1) snoc n by auto
  have ne: "l \<noteq> a" "l \<notin> fst ` set ms" using assms(3) chain_distinct [OF assms(1)] snoc n by auto
  have "chain H' p (ms @ (l, e) # [(a, d)])"
    by (rule chain_splice [of H p ms l e "[]" _ "Some a"]) (use assms snoc n ne in \<open>auto simp: H'_def\<close>)
  moreover have p: "p = Some (fst (hd ns))"
    using assms(1) snoc n by (cases ms) auto
  moreover have "last_loop H (fst (hd ns)) = Some l"
    using last_loop_chain [of H "fst (hd ns)" ms l e] assms(1) p snoc n by simp
  moreover have hd: "hd (ns @ [(a, d)]) = hd ns" using snoc by (cases ms) auto
  ultimately have "link_worker H p a = Some (H', Some (fst (hd (ns @ [(a, d)]))))"
    "chain H' (Some (fst (hd (ns @ [(a, d)])))) (ns @ [(a, d)])"
    unfolding hd using l snoc n by (simp_all add: link_worker_def H'_def)
  then show ?thesis by (rule that) (use l snoc n in \<open>auto simp: H'_def\<close>)
qed

section \<open>The invariant\<close>

text \<open>The program counters at which a thread holds the mutex, and those of the threads of the pool.\<close>

definition in_mutex :: "pc \<Rightarrow> bool" where
  "in_mutex c \<longleftrightarrow> c \<in> {R_test, R_wait, R_check, R_leave, R_take}"

definition in_routine :: "pc \<Rightarrow> bool" where
  "in_routine c \<longleftrightarrow> (case c of R_lock \<Rightarrow> True | R_test \<Rightarrow> True | R_wait \<Rightarrow> True | R_blocked \<Rightarrow> True | R_woken \<Rightarrow> True
                        | R_check \<Rightarrow> True | R_leave \<Rightarrow> True | R_take \<Rightarrow> True | R_run w \<Rightarrow> True | R_exited \<Rightarrow> True
                        | _ \<Rightarrow> False)"

text \<open>
  The queue holds the elements \<open>ns\<close>; the size is their number; the mutex is held by the one thread
  that is inside; a thread is about to wait only while the queue is empty and about to take a job only
  while it is not; the elements still to be queued are live, distinct and not in the queue.
\<close>

definition pc_ok :: "bool \<Rightarrow> 'a list \<Rightarrow> pc \<Rightarrow> bool" where
  "pc_ok sd ns c \<longleftrightarrow> (case c of R_wait \<Rightarrow> ns = [] | R_take \<Rightarrow> ns \<noteq> [] | R_check \<Rightarrow> ns \<noteq> [] \<or> sd
                        | R_leave \<Rightarrow> sd | R_exited \<Rightarrow> sd
                        | D_broadcast \<Rightarrow> sd | D_join \<Rightarrow> sd | _ \<Rightarrow> True)"

lemma pc_ok_mono: "pc_ok sd ns c \<Longrightarrow> (sd \<Longrightarrow> sd') \<Longrightarrow> pc_ok sd' ns c"
  by (cases c) (auto simp: pc_ok_def)

definition pool_queue :: "'p cthread_pool \<Rightarrow> (addr \<times> 'p job) list \<Rightarrow> bool" where
  "pool_queue P ns \<longleftrightarrow>
     chain (workers P) (queue_head P) ns \<and> cur_queue_size P = int (length ns) \<and>
     (\<forall>t. in_mutex (pcs P t) \<longleftrightarrow> queue_lock P = Some t) \<and>
     (\<forall>t. pc_ok (shutdown P) ns (pcs P t)) \<and>
     (\<forall>t a. pcs P t = A_lock a \<longrightarrow>
        a \<notin> fst ` set ns \<and> (\<exists>j. workers P a = Some \<lparr> elem_next = None, elem_data = j \<rparr>)) \<and>
     (\<forall>t u a. pcs P t = A_lock a \<longrightarrow> pcs P u = A_lock a \<longrightarrow> t = u)"

text \<open>The abstract machine: a first-in first-out queue.\<close>

fun fifo_step :: "'p job list \<Rightarrow> 'p pool_event \<Rightarrow> 'p job list option" where
  "fifo_step q (Submitted j) = Some (q @ [j])"
| "fifo_step [] (Started t j) = None"
| "fifo_step (x # q) (Started t j) = (if x = j then Some q else None)"
| "fifo_step q _ = Some q"

definition pool_rel :: "'p cthread_pool \<Rightarrow> 'p job list \<Rightarrow> bool" where
  "pool_rel P q \<longleftrightarrow> (\<exists>ns. pool_queue P ns \<and> q = map snd ns)"

lemma pool_queue_pending:
  "pool_queue P ns \<Longrightarrow> pcs P t = A_lock a \<Longrightarrow>
     a \<notin> fst ` set ns \<and> (\<exists>j. workers P a = Some \<lparr> elem_next = None, elem_data = j \<rparr>)"
  unfolding pool_queue_def by blast

lemma pool_queue_unique:
  "pool_queue P ns \<Longrightarrow> pcs P t = A_lock a \<Longrightarrow> pcs P u = A_lock a \<Longrightarrow> t = u"
  unfolding pool_queue_def by blast

lemma pool_queue_init: "pool_queue (pool_init n A) []"
  by (simp add: pool_queue_def pool_init_def in_mutex_def pc_ok_def)

text \<open>Steps that leave the queue alone.\<close>

lemma pool_queue_cong:
  assumes "pool_queue P ns" "workers P' = workers P" "queue_head P' = queue_head P"
    "cur_queue_size P' = cur_queue_size P" "shutdown P \<Longrightarrow> shutdown P'"
    and "\<And>t. in_mutex (pcs P' t) \<longleftrightarrow> queue_lock P' = Some t"
    and pc: "\<And>t. pcs P' t = pcs P t \<or> pc_ok (shutdown P') ns (pcs P' t) \<and> (\<forall>a. pcs P' t \<noteq> A_lock a)"
  shows "pool_queue P' ns"
  unfolding pool_queue_def
proof (intro conjI allI impI)
  show "pc_ok (shutdown P') ns (pcs P' t)" for t
  proof -
    have "pc_ok (shutdown P) ns (pcs P t)" using assms(1) by (simp add: pool_queue_def)
    then have "pc_ok (shutdown P') ns (pcs P t)" using assms(5) by (rule pc_ok_mono)
    with pc [of t] show ?thesis by (elim disjE) simp_all
  qed
  fix t a assume "pcs P' t = A_lock a"
  then have t: "pcs P t = A_lock a" using pc [of t] by auto
  then show "a \<notin> fst ` set ns" "\<exists>j. workers P' a = Some \<lparr> elem_next = None, elem_data = j \<rparr>"
    using pool_queue_pending [OF assms(1)] assms(2) by simp_all
  show "t = u" if "pcs P' u = A_lock a" for u
    using t that pc [of u] by (intro pool_queue_unique [OF assms(1), of t a u]) auto
qed (use assms in \<open>auto simp: pool_queue_def\<close>)

lemma finish_worker_None: "finish_worker w P = None"
  by (cases "workers P w") (auto simp: finish_worker_def free_arg_def Let_def)

lemma pool_queue_mutex: "pool_queue P ns \<Longrightarrow> in_mutex (pcs P t) \<longleftrightarrow> queue_lock P = Some t"
  by (simp add: pool_queue_def)

lemma pool_queue_pc: "pool_queue P ns \<Longrightarrow> pc_ok (shutdown P) ns (pcs P t)"
  by (simp add: pool_queue_def)

text \<open>A step of a thread that only moves it, takes the mutex or gives it back.\<close>

lemma pool_queue_goto:
  assumes "pool_queue P ns" "pc_ok (shutdown P) ns c" "\<And>a. c \<noteq> A_lock a" "in_mutex c = in_mutex (pcs P t)"
  shows "pool_queue (goto t c P) ns"
  by (rule pool_queue_cong [OF assms(1)])
    (use assms(2-4) pool_queue_mutex [OF assms(1)] in \<open>auto simp: goto_def\<close>)

lemma pool_queue_enter:
  assumes "pool_queue P ns" "queue_lock P = None" "pc_ok (shutdown P) ns c" "\<And>a. c \<noteq> A_lock a" "in_mutex c"
  shows "pool_queue (goto t c (P\<lparr> queue_lock := Some t \<rparr>)) ns"
  by (rule pool_queue_cong [OF assms(1)])
    (use assms(2-5) pool_queue_mutex [OF assms(1)] in \<open>auto simp: goto_def\<close>)

lemma pool_queue_exit:
  assumes "pool_queue P ns" "in_mutex (pcs P t)" "pc_ok (shutdown P) ns c" "\<And>a. c \<noteq> A_lock a" "\<not> in_mutex c"
  shows "pool_queue (goto t c (P\<lparr> queue_lock := None \<rparr>)) ns"
  by (rule pool_queue_cong [OF assms(1)])
    (use assms(2-5) pool_queue_mutex [OF assms(1)] in \<open>auto simp: goto_def\<close>)

lemma pool_queue_take:
  assumes P: "pool_queue P ns" and t: "pcs P t = R_take"
  obtains w j ms P' where "ns = (w, j) # ms" "take_worker P = Some (w, j, P')"
    "pool_queue (goto t (R_run w) (P'\<lparr> queue_lock := None \<rparr>)) ms"
proof -
  obtain w j ms where ns: "ns = (w, j) # ms"
    using pool_queue_pc [OF P, of t] t by (cases ns) (auto simp: pc_ok_def)
  then obtain q where q: "queue_head P = Some w" "workers P w = Some \<lparr> elem_next = q, elem_data = j \<rparr>"
    "chain (workers P) q ms" using P by (auto simp: pool_queue_def)
  define P' where "P' = P\<lparr> cur_queue_size := cur_queue_size P - 1, queue_head := q \<rparr>"
  have take: "take_worker P = Some (w, j, P')" using q by (simp add: take_worker_def P'_def Let_def)
  have owner: "queue_lock P = Some t" using pool_queue_mutex [OF P, of t] t by (simp add: in_mutex_def)
  then have alone: "\<not> in_mutex (pcs P u)" if "u \<noteq> t" for u using pool_queue_mutex [OF P, of u] that by simp
  have pc: "pc_ok (shutdown P) ms (pcs P u)" if "u \<noteq> t" for u
    using pool_queue_pc [OF P, of u] alone [OF that] by (cases "pcs P u") (auto simp: pc_ok_def in_mutex_def)
  have "pool_queue (goto t (R_run w) (P'\<lparr> queue_lock := None \<rparr>)) ms"
    using P ns q(3) alone pc unfolding pool_queue_def
    by (auto simp: goto_def P'_def in_mutex_def pc_ok_def)
  with that ns take show ?thesis by blast
qed

lemma pool_queue_add:
  assumes P: "pool_queue P ns" and t: "pcs P t = Idle" and a: "workers P a = None"
  shows "pool_queue (goto t (A_lock a) (new_worker a j P)) ns"
proof -
  have out: "a \<notin> fst ` set ns" using P a chain_live [of "workers P" "queue_head P" ns a] by (auto simp: pool_queue_def)
  have old: "b \<noteq> a" if "pcs P u = A_lock b" for u b using P a that by (force simp: pool_queue_def)
  have mutex: "in_mutex (pcs (goto t (A_lock a) (new_worker a j P)) u) \<longleftrightarrow> queue_lock P = Some u" for u
    using pool_queue_mutex [OF P, of u] t by (auto simp: goto_def new_worker_def in_mutex_def)
  show ?thesis unfolding pool_queue_def
  proof (intro conjI allI impI)
    show "pc_ok (shutdown (goto t (A_lock a) (new_worker a j P))) ns (pcs (goto t (A_lock a) (new_worker a j P)) u)" for u
      using pool_queue_pc [OF P, of u] by (auto simp: goto_def new_worker_def pc_ok_def)
    fix u b assume b: "pcs (goto t (A_lock a) (new_worker a j P)) u = A_lock b"
    show "b \<notin> fst ` set ns"
      "\<exists>j'. workers (goto t (A_lock a) (new_worker a j P)) b = Some \<lparr> elem_next = None, elem_data = j' \<rparr>"
      using b P out old [of u b] by (auto simp: goto_def new_worker_def pool_queue_def split: if_splits)
    show "u = v" if "pcs (goto t (A_lock a) (new_worker a j P)) v = A_lock b" for v
      using b that P old [of u] old [of v] by (auto simp: goto_def new_worker_def pool_queue_def split: if_splits)
  qed (use P out mutex in \<open>auto simp: goto_def new_worker_def pool_queue_def chain_upd\<close>)
qed

lemma pool_queue_enqueue:
  assumes P: "pool_queue P ns" and t: "pcs P t = A_lock a" "queue_lock P = None"
    and x: "workers P a = Some x" "enqueue_worker a P = Some P'"
  shows "pool_queue (goto t A_signal P') (ns @ [(a, elem_data x)])"
proof -
  obtain j where j: "workers P a = Some \<lparr> elem_next = None, elem_data = j \<rparr>" "a \<notin> fst ` set ns"
    using pool_queue_pending [OF P t(1)] by blast
  have ch: "chain (workers P) (queue_head P) ns" using P by (simp add: pool_queue_def)
  let ?head = "Some (fst (hd (ns @ [(a, j)])))"
  obtain H where H: "link_worker (workers P) (queue_head P) a = Some (H, ?head)" "chain H ?head (ns @ [(a, j)])"
    "\<forall>b. b \<notin> fst ` set ns \<longrightarrow> H b = workers P b"
    by (rule link_worker_chain [OF ch j])
  with x(2) have P': "P' = P\<lparr> workers := H, queue_head := ?head, cur_queue_size := cur_queue_size P + 1 \<rparr>"
    by (auto simp: enqueue_worker_def split: if_splits)
  have out: "\<not> in_mutex (pcs P u)" for u using pool_queue_mutex [OF P, of u] t(2) by simp
  have uniq: "b \<noteq> a" if "pcs P u = A_lock b" "u \<noteq> t" for u b using pool_queue_unique [OF P t(1)] that by blast
  have pend: "b \<notin> fst ` set ns \<and> (\<exists>j. workers P b = Some \<lparr> elem_next = None, elem_data = j \<rparr>)"
    if "pcs P u = A_lock b" for u b by (rule pool_queue_pending [OF P that])
  have pc: "pc_ok (shutdown P) (ns @ [(a, j)]) (pcs P u)" for u
    using pool_queue_pc [OF P, of u] out [of u] by (cases "pcs P u") (auto simp: pc_ok_def in_mutex_def)
  have "elem_data x = j" using x(1) j(1) by auto
  moreover have "pool_queue (goto t A_signal P') (ns @ [(a, j)])" unfolding pool_queue_def
  proof (intro conjI allI impI)
    fix u b assume b: "pcs (goto t A_signal P') u = A_lock b"
    then have u: "u \<noteq> t" "pcs P u = A_lock b" by (auto simp: goto_def P' split: if_splits)
    show "b \<notin> fst ` set (ns @ [(a, j)])" using pend [OF u(2)] uniq [OF u(2,1)] by auto
    show "\<exists>j. workers (goto t A_signal P') b = Some \<lparr> elem_next = None, elem_data = j \<rparr>"
      using pend [OF u(2)] H(3) by (simp add: goto_def P')
    show "u = v" if "pcs (goto t A_signal P') v = A_lock b" for v
      using u that by (intro pool_queue_unique [OF P]) (auto simp: goto_def P' split: if_splits)
  qed (use P H(2) pc out t in \<open>auto simp: goto_def P' pool_queue_def pc_ok_def in_mutex_def\<close>)
  ultimately show ?thesis by simp
qed

section \<open>Steps refine the queue\<close>

lemmas pc_simps = in_mutex_def pc_ok_def

lemma operation_pcs:
  "take_worker P = Some (w, j, P') \<Longrightarrow> pcs P' = pcs P"
  "enqueue_worker a P = Some P' \<Longrightarrow> pcs P' = pcs P"
  "join_threads P = Some P' \<Longrightarrow> pcs P' = pcs P"
  "unlink_head P = Some P' \<Longrightarrow> pcs P' = pcs P"
  "free_worker h P = Some P' \<Longrightarrow> pcs P' = pcs P"
  "free_pool P = Some P' \<Longrightarrow> pcs P' = pcs P"
  "pcs (new_worker a j P) = pcs P"
  by (auto simp: take_worker_def enqueue_worker_def join_threads_def unlink_head_def free_worker_def free_pool_def
      new_worker_def Let_def bind_eq_Some_conv split: if_splits option.splits)

lemma tearing_goto [simp]:
  "tearing_down (goto t D_loop P)" "tearing_down (goto t D_head P)" "tearing_down (goto t (D_unlink h) P)"
  "tearing_down (goto t (D_free h) P)" "tearing_down (goto t D_pool P)" "tearing_down (goto t D_done P)"
  by (auto simp: tearing_down_def goto_def behind_joins_def)

lemma pool_step_behind:
  assumes "pool_thread_step P e P'" "behind_joins (pcs P u)"
  shows "behind_joins (pcs P' u)"
  using assms(1)
proof cases
  case routine
  from routine(2) show ?thesis
    by cases (use assms(2) in \<open>auto simp: goto_def behind_joins_def finish_worker_None operation_pcs\<close>)
next
  case adding
  from adding(2) show ?thesis
    by cases (use assms(2) in \<open>auto simp: goto_def behind_joins_def operation_pcs\<close>)
next
  case destroying
  from destroying(2) show ?thesis
    by cases (use assms(2) in \<open>auto simp: goto_def behind_joins_def operation_pcs\<close>)
qed

lemma pool_step_tearing: "pool_thread_step P e P' \<Longrightarrow> tearing_down P \<Longrightarrow> tearing_down P'"
  using pool_step_behind unfolding tearing_down_def by blast

lemma routine_step_queue:
  assumes P: "pool_queue P ns" and step: "routine_step P e P'"
  shows "\<exists>ms. pool_queue P' ms \<and> fifo_step (map snd ns) e = Some (map snd ms)"
  using step
proof cases
  case (lock t)
  have "pool_queue P' ns" unfolding lock(2)
    by (rule pool_queue_enter [OF P lock(4)]) (simp_all add: pc_simps)
  then show ?thesis using lock(1) by auto
next
  case (test t)
  have "pool_queue P' ns" unfolding test(2)
  proof (rule pool_queue_goto [OF P])
    have "cur_queue_size P = int (length ns)" using P by (simp add: pool_queue_def)
    then show "pc_ok (shutdown P) ns (if cur_queue_size P = 0 \<and> \<not> shutdown P then R_wait else R_check)"
      by (auto simp: pc_ok_def)
  qed (use test in \<open>auto simp: in_mutex_def\<close>)
  then show ?thesis using test(1) by auto
next
  case (wait t)
  have "pool_queue P' ns" unfolding wait(2)
    by (rule pool_queue_exit [OF P]) (use wait in \<open>simp_all add: pc_simps\<close>)
  then show ?thesis using wait(1) by auto
next
  case (spurious t)
  have "pool_queue P' ns" unfolding spurious(2)
    by (rule pool_queue_goto [OF P]) (use spurious in \<open>simp_all add: pc_simps\<close>)
  then show ?thesis using spurious(1) by auto
next
  case (check t)
  have "pool_queue P' ns" unfolding check(2)
    by (rule pool_queue_goto [OF P])
      (use check pool_queue_pc [OF P, of t] in \<open>auto simp: pc_simps\<close>)
  then show ?thesis using check(1) by auto
next
  case (leave t)
  have "pool_queue P' ns" unfolding leave(2)
    by (rule pool_queue_exit [OF P])
      (use leave pool_queue_pc [OF P, of t] in \<open>simp_all add: pc_simps\<close>)
  then show ?thesis using leave(1) by auto
next
  case (take t w j P1)
  obtain w' j' ms P1' where "ns = (w', j') # ms" "take_worker P = Some (w', j', P1')"
    "pool_queue (goto t (R_run w') (P1'\<lparr> queue_lock := None \<rparr>)) ms"
    by (rule pool_queue_take [OF P take(3)])
  then show ?thesis using take by auto
qed (simp add: finish_worker_None)

lemma add_step_queue:
  assumes P: "pool_queue P ns" and step: "add_step P e P'"
  shows "\<exists>ms. pool_queue P' ms \<and> fifo_step (map snd ns) e = Some (map snd ms)"
  using step
proof cases
  case (add t a j)
  have "pool_queue P' ns" unfolding add(2) by (rule pool_queue_add [OF P add(3,4)])
  then show ?thesis using add(1) by auto
next
  case (enqueue t a x P1)
  have "pool_queue P' (ns @ [(a, elem_data x)])" unfolding enqueue(2)
    by (rule pool_queue_enqueue [OF P enqueue(3-6)])
  then show ?thesis unfolding enqueue(1) by (intro exI [of _ "ns @ [(a, elem_data x)]"]) simp
next
  case (signal t u)
  have u: "pool_queue (goto u R_woken P) ns"
    by (rule pool_queue_goto [OF P]) (use signal in \<open>simp_all add: pc_simps\<close>)
  have "t \<noteq> u" using signal by auto
  then have t: "in_mutex Idle = in_mutex (pcs (goto u R_woken P) t)"
    using signal by (simp add: goto_def in_mutex_def)
  have "pool_queue P' ns" unfolding signal(2)
    by (rule pool_queue_goto [OF u _ _ t]) (simp_all add: pc_ok_def)
  then show ?thesis using signal(1) by auto
next
  case (signal_none t)
  have "pool_queue P' ns" unfolding signal_none(2)
    by (rule pool_queue_goto [OF P]) (use signal_none in \<open>simp_all add: pc_simps\<close>)
  then show ?thesis using signal_none(1) by auto
qed

lemma destroy_step_queue:
  assumes P: "pool_queue P ns" and step: "destroy_step P e P'" and up: "\<not> tearing_down P'"
  shows "\<exists>ms. pool_queue P' ms \<and> fifo_step (map snd ns) e = Some (map snd ms)"
  using step
proof cases
  case (destroy t)
  have "pool_queue P' ns" unfolding destroy(2)
    by (rule pool_queue_goto [OF P]) (use destroy in \<open>simp_all add: pc_simps\<close>)
  then show ?thesis using destroy(1) by auto
next
  case (destroy_again t r)
  then show ?thesis using P by auto
next
  case (set t)
  have "pool_queue (P\<lparr> shutdown := True \<rparr>) ns"
    by (rule pool_queue_cong [OF P]) (use pool_queue_mutex [OF P] in auto)
  then have "pool_queue P' ns" unfolding set(2)
    by (rule pool_queue_goto) (use set in \<open>simp_all add: pc_simps\<close>)
  then show ?thesis using set(1) by auto
next
case (broadcast t)
  let ?P = "P\<lparr> pcs := (\<lambda>u. if pcs P u = R_blocked then R_woken else pcs P u) \<rparr>"
  have "pool_queue ?P ns"
    by (rule pool_queue_cong [OF P])
      (use pool_queue_mutex [OF P] in \<open>force simp: pc_simps\<close>)+
  then have "pool_queue P' ns" unfolding broadcast(2)
    by (rule pool_queue_goto) (use broadcast pool_queue_pc [OF P, of t] in \<open>simp_all add: pc_simps\<close>)
  then show ?thesis using broadcast(1) by auto
qed (use up in \<open>auto split: if_splits\<close>)

lemma pool_step_queue:
  assumes P: "pool_queue P ns" and "pool_thread_step P e P'" and up: "\<not> tearing_down P'"
  shows "\<exists>ms. pool_queue P' ms \<and> fifo_step (map snd ns) e = Some (map snd ms)"
  using assms(2) by cases (auto intro: routine_step_queue [OF P] add_step_queue [OF P] destroy_step_queue [OF P _ up])

text \<open>The steps of a pool that is not being torn down.\<close>

definition serving_step :: "'p cthread_pool \<Rightarrow> 'p pool_event \<Rightarrow> 'p cthread_pool \<Rightarrow> bool" where
  "serving_step P e P' \<longleftrightarrow> pool_thread_step P e P' \<and> \<not> tearing_down P'"

lemma run_tearing: "run pool_thread_step P es P' \<Longrightarrow> tearing_down P \<Longrightarrow> tearing_down P'"
  by (induction rule: run.induct) (auto dest: pool_step_tearing)

lemma run_serving: "run pool_thread_step P es P' \<Longrightarrow> \<not> tearing_down P' \<Longrightarrow> run serving_step P es P'"
  by (induction rule: run.induct) (auto simp: run_Cons serving_step_def dest: run_tearing)

interpretation jobs: simulation serving_step fifo_step pool_rel
proof
  fix P q e P' assume "pool_rel P q" "serving_step P e P'"
  then show "\<exists>q'. fifo_step q e = Some q' \<and> pool_rel P' q'"
    using pool_step_queue by (fastforce simp: pool_rel_def serving_step_def)
qed

text \<open>What has been submitted and what has been started in a sequence of events.\<close>

definition submitted :: "'p pool_event list \<Rightarrow> 'p job list" where
  "submitted es = List.map_filter (\<lambda>e. case e of Submitted j \<Rightarrow> Some j | _ \<Rightarrow> None) es"

definition started :: "'p pool_event list \<Rightarrow> 'p job list" where
  "started es = List.map_filter (\<lambda>e. case e of Started t j \<Rightarrow> Some j | _ \<Rightarrow> None) es"

lemma fifo_order: "abstract_run fifo_step q es = Some q' \<Longrightarrow> q @ submitted es = started es @ q'"
proof (induction es arbitrary: q)
  case Nil
  then show ?case by (simp add: submitted_def started_def List.map_filter_simps)
next
  case (Cons e es)
  then obtain q1 where q1: "fifo_step q e = Some q1" "abstract_run fifo_step q1 es = Some q'" by auto
  from Cons.IH [OF q1(2)] q1(1) show ?case
    by (cases e; cases q) (auto simp: submitted_def started_def List.map_filter_simps split: if_splits)
qed

section \<open>Nobody sleeps over a queued job\<close>

text \<open>
  The threads on their way to the queue: those of the pool that are awake and neither run a job nor
  leave, and those that are about to signal. While a thread is blocked there is one of them for every
  queued job.
\<close>

definition coming :: "pc \<Rightarrow> bool" where
  "coming c \<longleftrightarrow> c \<in> {R_lock, R_woken, R_test, R_check, R_take, A_signal}"

definition pool_awake :: "'p cthread_pool \<Rightarrow> bool" where
  "pool_awake P \<longleftrightarrow> (\<exists>t. pcs P t = R_blocked) \<longrightarrow> cur_queue_size P \<le> count_at coming (pcs P)"

definition pool_threads :: "nat \<Rightarrow> 'p cthread_pool \<Rightarrow> bool" where
  "pool_threads n P \<longleftrightarrow> (\<forall>t. in_routine (pcs P t) \<longleftrightarrow> t < n) \<and> finite {t. pcs P t \<noteq> Idle}"

lemma finite_goto:
  assumes "finite {t. pcs P t \<noteq> Idle}"
  shows "finite {t. pcs (goto u c P) t \<noteq> Idle}"
proof (rule finite_subset)
  show "{t. pcs (goto u c P) t \<noteq> Idle} \<subseteq> insert u {t. pcs P t \<noteq> Idle}" by (auto simp: goto_def)
qed (use assms in simp)

lemma pool_threads_goto:
  assumes "pool_threads n P" "pcs P1 = pcs P" "in_routine c = in_routine (pcs P t)"
  shows "pool_threads n (goto t c P1)"
  using assms finite_goto [of P1 t c] by (simp add: pool_threads_def goto_def)

lemma coming_goto:
  assumes "pool_threads n P" "pcs P1 = pcs P"
  shows "count_at coming (pcs (goto t c P1)) =
    count_at coming (pcs P) - (if coming (pcs P t) then 1 else 0) + (if coming c then 1 else 0)"
proof -
  have "finite {t. pcs P t \<noteq> Idle}" using assms(1) by (simp add: pool_threads_def)
  then have "finite {t. coming (pcs P t)}" by (rule finite_subset [rotated]) (auto simp: coming_def)
  from count_at_upd [of coming "pcs P", OF this] show ?thesis using assms(2) by (simp add: goto_def)
qed

lemma coming_nonneg: "0 \<le> count_at coming f"
  by (simp add: count_at_def)

lemma operation_shutdown:
  "take_worker P = Some (w, j, P') \<Longrightarrow> shutdown P' = shutdown P \<and> cur_queue_size P' = cur_queue_size P - 1"
  "enqueue_worker a P = Some P' \<Longrightarrow> shutdown P' = shutdown P \<and> cur_queue_size P' = cur_queue_size P + 1"
  "join_threads P = Some P' \<Longrightarrow> shutdown P' = shutdown P"
  "unlink_head P = Some P' \<Longrightarrow> shutdown P' = shutdown P"
  "free_worker h P = Some P' \<Longrightarrow> shutdown P' = shutdown P"
  "free_pool P = Some P' \<Longrightarrow> shutdown P' = shutdown P"
  by (auto simp: take_worker_def enqueue_worker_def join_threads_def unlink_head_def free_worker_def free_pool_def
      Let_def bind_eq_Some_conv split: if_splits option.splits)

lemma broadcast_threads:
  assumes "pool_threads n P"
  shows "pool_threads n (P\<lparr> pcs := (\<lambda>u. if pcs P u = R_blocked then R_woken else pcs P u) \<rparr>)"
proof -
  have "in_routine (if c = R_blocked then R_woken else c) = in_routine c"
    "(if c = R_blocked then R_woken else c) \<noteq> Idle \<longleftrightarrow> c \<noteq> Idle" for c
    by (simp_all add: in_routine_def)
  then show ?thesis using assms by (simp add: pool_threads_def)
qed

lemma pool_step_threads:
  assumes P: "pool_threads n P" and step: "pool_thread_step P e P'"
  shows "pool_threads n P'"
  using step
proof cases
  case routine
  from routine(2) show ?thesis
    by cases (auto intro!: pool_threads_goto [OF P] simp: in_routine_def finish_worker_None operation_pcs)
next
  case adding
  from adding(2) show ?thesis
  proof cases
    case (signal t u)
    have u: "pool_threads n (goto u R_woken P)"
      by (rule pool_threads_goto [OF P refl]) (simp add: signal in_routine_def)
    have "pcs (goto u R_woken P) t = A_signal" using signal by (auto simp: goto_def)
    then show ?thesis unfolding signal(2) by (intro pool_threads_goto [OF u refl]) (simp add: in_routine_def)
  qed (auto intro!: pool_threads_goto [OF P] simp: in_routine_def operation_pcs)
next
  case destroying
  from destroying(2) show ?thesis
  proof cases
    case (broadcast t)
    show ?thesis unfolding broadcast(2)
      by (rule pool_threads_goto [OF broadcast_threads [OF P] refl]) (simp add: broadcast in_routine_def)
  qed (use P in \<open>auto intro!: pool_threads_goto [OF P] simp: in_routine_def operation_pcs\<close>)
qed

text \<open>Mutual exclusion, also while the pool is being torn down.\<close>

definition pool_mutex :: "'p cthread_pool \<Rightarrow> bool" where
  "pool_mutex P \<longleftrightarrow> (\<forall>t. in_mutex (pcs P t) \<longleftrightarrow> queue_lock P = Some t)"

lemma operation_lock:
  "take_worker P = Some (w, j, P') \<Longrightarrow> queue_lock P' = queue_lock P"
  "enqueue_worker a P = Some P' \<Longrightarrow> queue_lock P' = queue_lock P"
  "join_threads P = Some P' \<Longrightarrow> queue_lock P' = queue_lock P"
  "unlink_head P = Some P' \<Longrightarrow> queue_lock P' = queue_lock P"
  "free_worker h P = Some P' \<Longrightarrow> queue_lock P' = queue_lock P"
  "free_pool P = Some P' \<Longrightarrow> queue_lock P' = queue_lock P"
  by (auto simp: take_worker_def enqueue_worker_def join_threads_def unlink_head_def free_worker_def free_pool_def
      Let_def bind_eq_Some_conv split: if_splits option.splits)

lemma pool_mutex_keep:
  "pool_mutex P \<Longrightarrow> pcs P1 = pcs P \<Longrightarrow> queue_lock P1 = queue_lock P \<Longrightarrow> in_mutex c = in_mutex (pcs P t) \<Longrightarrow>
    pool_mutex (goto t c P1)"
  by (simp add: pool_mutex_def goto_def)

lemma pool_mutex_unlock:
  "pool_mutex P \<Longrightarrow> pcs P1 = pcs P \<Longrightarrow> in_mutex (pcs P t) \<Longrightarrow> \<not> in_mutex c \<Longrightarrow>
    pool_mutex (goto t c (P1\<lparr> queue_lock := None \<rparr>))"
  by (auto simp: pool_mutex_def goto_def)

lemma pool_step_mutex:
  assumes P: "pool_mutex P" and step: "pool_thread_step P e P'"
  shows "pool_mutex P'"
  using step
proof cases
  case routine
  from routine(2) show ?thesis
  proof cases
    case (lock t)
    then show ?thesis using P by (auto simp: pool_mutex_def goto_def in_mutex_def)
  qed (auto intro!: pool_mutex_keep [OF P] pool_mutex_unlock [OF P] simp: in_mutex_def finish_worker_None operation_pcs)
next
  case adding
  from adding(2) show ?thesis
  proof cases
    case (signal t u)
    have u: "pool_mutex (goto u R_woken P)"
      by (rule pool_mutex_keep [OF P refl refl]) (simp add: signal in_mutex_def)
    have "pcs (goto u R_woken P) t = A_signal" using signal by (auto simp: goto_def)
    then show ?thesis unfolding signal(2) by (intro pool_mutex_keep [OF u refl refl]) (simp add: in_mutex_def)
  qed (auto intro!: pool_mutex_keep [OF P] simp: in_mutex_def operation_pcs operation_lock new_worker_def)
next
  case destroying
  from destroying(2) show ?thesis
  proof cases
    case (broadcast t)
    have "in_mutex (if c = R_blocked then R_woken else c) = in_mutex c" for c by (simp add: in_mutex_def)
    then have "pool_mutex (P\<lparr> pcs := (\<lambda>u. if pcs P u = R_blocked then R_woken else pcs P u) \<rparr>)"
      using P by (simp add: pool_mutex_def)
    then show ?thesis unfolding broadcast(2)
      by (rule pool_mutex_keep) (simp_all add: broadcast in_mutex_def)
  qed (use P in \<open>auto intro!: pool_mutex_keep [OF P] simp: in_mutex_def operation_pcs operation_lock\<close>)
qed

lemma pool_awake_move:
  assumes "pool_threads n P" "pcs P1 = pcs P" "pool_awake P" "c \<noteq> R_blocked"
    and "cur_queue_size P1 = cur_queue_size P + d"
    and "d = (if coming c then 1 else 0) - (if coming (pcs P t) then 1 else 0) \<or> (d = 0 \<and> \<not> coming (pcs P t))"
  shows "pool_awake (goto t c P1)"
proof (unfold pool_awake_def, rule impI)
  assume "\<exists>u. pcs (goto t c P1) u = R_blocked"
  then have "\<exists>u. pcs P u = R_blocked" using assms(2,4) by (auto simp: goto_def split: if_splits)
  then have "cur_queue_size P \<le> count_at coming (pcs P)" using assms(3) by (simp add: pool_awake_def)
  then have "cur_queue_size P1 \<le> count_at coming (pcs (goto t c P1))"
    unfolding coming_goto [OF assms(1,2)] using assms(5,6) by (auto split: if_splits)
  then show "cur_queue_size (goto t c P1) \<le> count_at coming (pcs (goto t c P1))" by (simp add: goto_def)
qed

lemma pool_awake_empty: "cur_queue_size P = 0 \<Longrightarrow> pool_awake P"
  by (simp add: pool_awake_def coming_nonneg)

lemma routine_step_awake:
  assumes inv: "pool_queue P ns" "pool_threads n P" and awake: "pool_awake P" and up: "\<not> shutdown P'"
    and step: "routine_step P e P'"
  shows "pool_awake P'"
  using step
proof cases
  case (test t)
  show ?thesis
  proof (cases "cur_queue_size P = 0")
    case True
    then show ?thesis unfolding test(2) by (intro pool_awake_empty) (simp add: goto_def)
  next
    case False
    then show ?thesis unfolding test(2)
      by (intro pool_awake_move [OF inv(2) refl awake, where d = 0]) (simp_all add: test coming_def)
  qed
next
  case (wait t)
  have "ns = []" using pool_queue_pc [OF inv(1), of t] wait(3) by (simp add: pc_ok_def)
  then show ?thesis using inv(1) wait by (intro pool_awake_empty) (simp add: pool_queue_def goto_def)
next
  case (check t)
  then have "\<not> shutdown P" using up by (simp add: goto_def)
  then show ?thesis unfolding check(2)
    by (intro pool_awake_move [OF inv(2) refl awake, where d = 0]) (simp_all add: check coming_def)
next
  case (leave t)
  then have "shutdown P" using pool_queue_pc [OF inv(1), of t] by (simp add: pc_ok_def)
  then show ?thesis using leave up by (simp add: goto_def)
next
  case (take t w j P1)
  then show ?thesis unfolding take(2)
    by (intro pool_awake_move [OF inv(2) _ awake, where d = "- 1"]) (auto dest: operation_pcs(1-6) operation_shutdown simp: coming_def)
qed (auto intro!: pool_awake_move [OF inv(2) _ awake, where d = 0] simp: coming_def finish_worker_None)

lemma add_step_awake:
  assumes inv: "pool_threads n P" and awake: "pool_awake P" and step: "add_step P e P'"
  shows "pool_awake P'"
  using step
proof cases
  case (add t a j)
  then show ?thesis unfolding add(2)
    by (intro pool_awake_move [OF inv _ awake, where d = 0]) (simp_all add: coming_def new_worker_def)
next
  case (enqueue t a x P1)
  then show ?thesis unfolding enqueue(2)
    by (intro pool_awake_move [OF inv _ awake, where d = 1])
      (auto dest: operation_pcs(1-6) operation_shutdown simp: coming_def)
next
  case (signal t u)
  have u: "pool_threads n (goto u R_woken P)"
    by (rule pool_threads_goto [OF inv refl]) (simp add: signal in_routine_def)
  have tu: "t \<noteq> u" using signal by auto
  show ?thesis unfolding pool_awake_def
  proof
    have "cur_queue_size P \<le> count_at coming (pcs P)" using awake signal by (auto simp: pool_awake_def)
    then show "cur_queue_size P' \<le> count_at coming (pcs P')"
      unfolding signal(2) coming_goto [OF u refl] coming_goto [OF inv refl]
      using signal tu by (simp add: coming_def goto_def)
  qed
next
  case (signal_none t)
  then show ?thesis by (auto simp: pool_awake_def goto_def)
qed

lemma destroy_step_awake:
  assumes inv: "pool_queue P ns" "pool_threads n P" and awake: "pool_awake P" and up: "\<not> shutdown P'" "\<not> tearing_down P'"
    and step: "destroy_step P e P'"
  shows "pool_awake P'"
  using step
proof cases
  case (destroy t)
  then show ?thesis unfolding destroy(2)
    by (intro pool_awake_move [OF inv(2) _ awake, where d = 0]) (simp_all add: coming_def)
next
  case (broadcast t)
  then have "shutdown P" using pool_queue_pc [OF inv(1), of t] by (simp add: pc_ok_def)
  then show ?thesis using broadcast up by (simp add: goto_def)
next
  case (set t)
  then show ?thesis using up by (simp add: goto_def)
qed (use up awake in \<open>auto split: if_splits\<close>)

definition pool_good :: "nat \<Rightarrow> 'p cthread_pool \<Rightarrow> bool" where
  "pool_good n P \<longleftrightarrow> pool_mutex P \<and> pool_threads n P \<and> (tearing_down P \<longrightarrow> shutdown P) \<and>
     (\<not> tearing_down P \<longrightarrow> (\<exists>ns. pool_queue P ns) \<and> (\<not> shutdown P \<longrightarrow> pool_awake P))"

lemma pool_step_shutdown: "pool_thread_step P e P' \<Longrightarrow> shutdown P \<Longrightarrow> shutdown P'"
proof (erule pool_thread_step.cases, goal_cases)
  case 1
  then show ?case by (auto simp: goto_def finish_worker_None operation_shutdown elim!: routine_step.cases)
next
  case 2
  then show ?case by (auto simp: goto_def new_worker_def operation_shutdown elim!: add_step.cases)
next
  case 3
  then show ?case by (auto simp: goto_def operation_shutdown elim!: destroy_step.cases)
qed

lemma pool_step_tears:
  assumes "pool_queue P ns" "\<not> tearing_down P" "pool_thread_step P e P'" "tearing_down P'"
  shows "shutdown P'"
proof -
  from assms(4) obtain u where u: "behind_joins (pcs P' u)" by (auto simp: tearing_down_def)
  have nu: "\<not> behind_joins (pcs P v)" for v using assms(2) by (auto simp: tearing_down_def)
  have "pcs P u = D_join" using assms(3)
  proof cases
    case routine
    from routine(2) show ?thesis
      by cases (use u nu [of u] in \<open>auto simp: goto_def behind_joins_def finish_worker_None operation_pcs split: if_splits\<close>)
  next
    case adding
    from adding(2) show ?thesis
      by cases (use u nu [of u] in \<open>auto simp: goto_def behind_joins_def operation_pcs split: if_splits\<close>)
  next
    case destroying
    from destroying(2) show ?thesis
      by cases (use u nu [of u] in \<open>auto simp: goto_def behind_joins_def operation_pcs split: if_splits\<close>)
  qed
  then have "shutdown P" using pool_queue_pc [OF assms(1), of u] by (simp add: pc_ok_def)
  then show ?thesis by (rule pool_step_shutdown [OF assms(3)])
qed

lemma pool_step_good:
  assumes good: "pool_good n P" and step: "pool_thread_step P e P'"
  shows "pool_good n P'"
proof (cases "tearing_down P")
  case True
  then show ?thesis using good pool_step_mutex [OF _ step] pool_step_threads [OF _ step]
      pool_step_tearing [OF step] pool_step_shutdown [OF step] by (simp add: pool_good_def)
next
  case False
  then obtain ns where ns: "pool_queue P ns" "pool_threads n P" using good by (auto simp: pool_good_def)
  have "pool_awake P'" if up: "\<not> tearing_down P'" "\<not> shutdown P'"
  proof -
    have awake: "pool_awake P" using good False up(2) pool_step_shutdown [OF step] by (auto simp: pool_good_def)
    from step show ?thesis
      by cases (auto intro: routine_step_awake [OF ns awake up(2)] add_step_awake [OF ns(2) awake]
          destroy_step_awake [OF ns awake up(2,1)])
  qed
  then show ?thesis using good pool_step_mutex [OF _ step] pool_step_threads [OF _ step]
      pool_step_queue [OF ns(1) step] pool_step_tears [OF ns(1) False step] unfolding pool_good_def by blast
qed

interpretation thread_pool: invariant_system "\<lambda>P. \<exists>A. P = pool_init n A" pool_thread_step "pool_good n" for n
proof
  fix P :: "'p cthread_pool" assume "\<exists>A. P = pool_init n A"
  then obtain A where P: "P = pool_init n A" by blast
  have "{t. pcs P t \<noteq> Idle} \<subseteq> {..<n}" by (auto simp: P pool_init_def split: if_splits)
  then have "finite {t. pcs P t \<noteq> Idle}" by (rule finite_subset) simp
  moreover have "pool_awake P" by (rule pool_awake_empty) (simp add: P pool_init_def)
  moreover have "pool_queue P []" unfolding P by (rule pool_queue_init)
  ultimately show "pool_good n P"
    by (auto simp: pool_good_def pool_threads_def pool_mutex_def tearing_down_def P pool_init_def behind_joins_def
        in_routine_def in_mutex_def split: if_splits)
qed (rule pool_step_good)

lemma thread_pool_queue:
  assumes "reachable (\<lambda>P. \<exists>A. P = pool_init n A) pool_thread_step P" "\<not> tearing_down P"
  obtains ns where "pool_queue P ns"
  using thread_pool.reachable_inv [OF assms(1)] assms(2) by (auto simp: pool_good_def)

section \<open>The end of the pool\<close>

text \<open>The loop of \<open>pool_destroy\<close> by itself: it frees the elements of the queue and nothing else.\<close>

lemma destroy_round:
  assumes "pool_live P" "pcs P t = D_loop" "queue_head P = Some a" "workers P a = Some \<lparr> elem_next = q, elem_data = d \<rparr>"
  shows "run pool_thread_step P [Silent, Silent, Silent, Silent]
    (P\<lparr> queue_head := q, workers := (workers P)(a := None) \<rparr>)"
proof -
  let ?P1 = "goto t D_head P" and ?P2 = "goto t (D_unlink (Some a)) P"
  let ?P3 = "goto t (D_free (Some a)) (P\<lparr> queue_head := q \<rparr>)"
  let ?P4 = "P\<lparr> queue_head := q, workers := (workers P)(a := None) \<rparr>"
  have "pool_thread_step P Silent (goto t (if queue_head P = None then D_pool else D_head) P)"
    by (intro pool_thread_step.destroying destroy_step.loop) (use assms in simp_all)
  then have 1: "pool_thread_step P Silent ?P1" using assms(3) by simp
  have "pool_thread_step ?P1 Silent (goto t (D_unlink (queue_head ?P1)) ?P1)"
    by (intro pool_thread_step.destroying destroy_step.head) (use assms in \<open>simp_all add: goto_def\<close>)
  then have 2: "pool_thread_step ?P1 Silent ?P2" using assms(3) by (simp add: goto_def)
  have "pool_thread_step ?P2 Silent (goto t (D_free (Some a)) (?P2\<lparr> queue_head := q \<rparr>))"
    by (intro pool_thread_step.destroying destroy_step.unlink)
      (use assms in \<open>simp_all add: goto_def unlink_head_def\<close>)
  then have 3: "pool_thread_step ?P2 Silent ?P3" by (simp add: goto_def)
  have "pool_thread_step ?P3 Silent (goto t D_loop (?P3\<lparr> workers := (workers P)(a := None) \<rparr>))"
    by (intro pool_thread_step.destroying destroy_step.free [where h = "Some a"])
      (use assms in \<open>simp_all add: goto_def free_worker_def\<close>)
  moreover have "goto t D_loop (?P3\<lparr> workers := (workers P)(a := None) \<rparr>) = ?P4"
    using assms(2) by (simp add: goto_def fun_upd_idem)
  ultimately have 4: "pool_thread_step ?P3 Silent ?P4" by simp
  show ?thesis unfolding run_Cons run_Nil using 1 2 3 4 by blast
qed

lemma destroy_loop_run:
  "chain (workers P) (queue_head P) ns \<Longrightarrow> pool_live P \<Longrightarrow> pcs P t = D_loop \<Longrightarrow>
   run pool_thread_step P (replicate (4 * length ns + 1) Silent)
     (goto t D_pool (P\<lparr> queue_head := None, workers := (\<lambda>a. if a \<in> fst ` set ns then None else workers P a) \<rparr>))"
proof (induction ns arbitrary: P)
  case Nil
  have "pool_thread_step P Silent (goto t (if queue_head P = None then D_pool else D_head) P)"
    by (intro pool_thread_step.destroying destroy_step.loop) (use Nil in simp_all)
  with Nil(1) have step: "pool_thread_step P Silent (goto t D_pool P)" by simp
  have "queue_head P = None" using Nil(1) by simp
  then have same: "P\<lparr> queue_head := None, workers := (\<lambda>a. if a \<in> fst ` set [] then None else workers P a) \<rparr> = P"
    by (cases P) simp
  show ?case unfolding same using step by (simp add: run_Cons)
next
  case (Cons n ns)
  obtain a d where n: "n = (a, d)" by (cases n)
  with Cons.prems obtain q where q: "queue_head P = Some a" "workers P a = Some \<lparr> elem_next = q, elem_data = d \<rparr>"
    "chain (workers P) q ns" "a \<notin> fst ` set ns" using chain_distinct [OF Cons.prems(1)] by auto
  let ?P = "P\<lparr> queue_head := q, workers := (workers P)(a := None) \<rparr>"
  have "chain (workers ?P) (queue_head ?P) ns" using q by (simp add: chain_upd)
  from Cons.IH [OF this] Cons.prems(2,3)
  have rest: "run pool_thread_step ?P (replicate (4 * length ns + 1) Silent)
      (goto t D_pool (?P\<lparr> queue_head := None, workers := (\<lambda>b. if b \<in> fst ` set ns then None else workers ?P b) \<rparr>))" by simp
  have "(\<lambda>b. if b \<in> fst ` set ns then None else workers ?P b)
      = (\<lambda>b. if b \<in> fst ` set (n # ns) then None else workers P b)" using n by auto
  with run_append [OF destroy_round [OF Cons.prems(2,3) q(1,2)] rest] show ?case
    by (simp add: numeral_eq_Suc)
qed

lemma pool_step_live:
  assumes "pool_thread_step P e P'" "\<not> tearing_down P'"
  shows "threadid_live P' = threadid_live P \<and> pool_live P' = pool_live P"
  using assms(1)
proof cases
  case routine
  from routine(2) show ?thesis
    by cases (auto simp: goto_def finish_worker_None take_worker_def Let_def bind_eq_Some_conv)
next
  case adding
  from adding(2) show ?thesis
    by cases (auto simp: goto_def new_worker_def enqueue_worker_def bind_eq_Some_conv split: if_splits)
next
  case destroying
  from destroying(2) show ?thesis
  proof cases
    case (set t)
    then show ?thesis by (simp add: goto_def)
  next
    case (broadcast t)
    then show ?thesis by (simp add: goto_def)
  next
    case (destroy t)
    then show ?thesis by (simp add: goto_def)
  qed (use assms(2) in \<open>auto split: if_splits\<close>)
qed

interpretation serving: invariant_system "\<lambda>P. \<exists>A. P = pool_init n A" pool_thread_step
  "\<lambda>P. \<not> tearing_down P \<longrightarrow> threadid_live P \<and> pool_live P" for n
proof
  fix P :: "'p cthread_pool" and e P'
  assume "\<not> tearing_down P \<longrightarrow> threadid_live P \<and> pool_live P" "pool_thread_step P e P'"
  then show "\<not> tearing_down P' \<longrightarrow> threadid_live P' \<and> pool_live P'"
    using pool_step_live pool_step_tearing by blast
qed (auto simp: pool_init_def)

section \<open>A concrete run\<close>

text \<open>
  One thread, a client that queues the job \<open>(0, 5)\<close> as the element \<open>9\<close>, and one that destroys the pool.
\<close>

definition tp_start :: "nat cthread_pool" where "tp_start = pool_init 1 {5}"
definition tp_adding :: "nat cthread_pool" where "tp_adding = goto 1 (A_lock 9) (new_worker 9 (0, 5) tp_start)"
definition tp_added :: "nat cthread_pool" where "tp_added = goto 1 A_signal (the (enqueue_worker 9 tp_adding))"
definition tp_setting :: "nat cthread_pool" where "tp_setting = goto 2 D_set tp_added"
definition tp_set :: "nat cthread_pool" where "tp_set = goto 2 D_broadcast (tp_setting\<lparr> shutdown := True \<rparr>)"
definition tp_joining :: "nat cthread_pool" where "tp_joining = goto 2 D_join
  (tp_set\<lparr> pcs := (\<lambda>u. if pcs tp_set u = R_blocked then R_woken else pcs tp_set u) \<rparr>)"

lemmas tp_defs = tp_start_def tp_adding_def tp_added_def pool_init_def goto_def new_worker_def

lemma tp_added_eq: "tp_added =
  \<lparr> queue_lock = None, queue_head = Some 9, shutdown = False, cur_queue_size = 1,
    workers = [9 \<mapsto> \<lparr> elem_next = None, elem_data = (0, 5) \<rparr>], worker_args = {5}, threadid_live = True, pool_live = True,
    pcs = (\<lambda>t. if t < 1 then R_lock else Idle)(1 := A_signal) \<rparr>"
  by (simp add: tp_defs enqueue_worker_def link_worker_def)

lemma tp_joining_eq: "tp_joining = tp_added\<lparr> shutdown := True, pcs := (\<lambda>t. if t < 1 then R_lock else Idle)(1 := A_signal, 2 := D_join) \<rparr>"
  by (auto simp: tp_joining_def tp_set_def tp_setting_def tp_added_eq goto_def fun_eq_iff)

lemma tp_steps:
  "pool_thread_step tp_start Silent tp_adding" "pool_thread_step tp_adding (Submitted (0, 5)) tp_added"
  "pool_thread_step tp_added Silent tp_setting" "pool_thread_step tp_setting Silent tp_set"
  "pool_thread_step tp_set Silent tp_joining"
proof -
  show "pool_thread_step tp_start Silent tp_adding" unfolding tp_adding_def
    by (intro pool_thread_step.adding add_step.add) (simp_all add: tp_start_def pool_init_def)
  have "enqueue_worker 9 tp_adding \<noteq> None" by (simp add: tp_defs enqueue_worker_def link_worker_def)
  then have "enqueue_worker 9 tp_adding = Some (the (enqueue_worker 9 tp_adding))" by simp
  then have "pool_thread_step tp_adding (Submitted (elem_data \<lparr> elem_next = None, elem_data = (0, 5) \<rparr>)) tp_added"
    unfolding tp_added_def by (intro pool_thread_step.adding add_step.enqueue) (simp_all add: tp_defs)
  then show "pool_thread_step tp_adding (Submitted (0, 5)) tp_added" by simp
  show "pool_thread_step tp_added Silent tp_setting" unfolding tp_setting_def
    by (intro pool_thread_step.destroying destroy_step.destroy) (simp_all add: tp_added_eq destroy_test_def)
  show "pool_thread_step tp_setting Silent tp_set" unfolding tp_set_def
    by (intro pool_thread_step.destroying destroy_step.set) (simp_all add: tp_setting_def tp_added_eq goto_def)
  show "pool_thread_step tp_set Silent tp_joining" unfolding tp_joining_def
    by (intro pool_thread_step.destroying destroy_step.broadcast) (simp_all add: tp_set_def tp_setting_def tp_added_eq goto_def)
qed

lemma tp_reachable:
  "reachable (\<lambda>P. \<exists>A. P = pool_init 1 A) pool_thread_step tp_adding"
  "reachable (\<lambda>P. \<exists>A. P = pool_init 1 A) pool_thread_step tp_added"
  "reachable (\<lambda>P. \<exists>A. P = pool_init 1 A) pool_thread_step tp_joining"
proof -
  have "reachable (\<lambda>P. \<exists>A. P = pool_init 1 A) pool_thread_step tp_start"
    by (rule reachable.start) (auto simp: tp_start_def)
  from reachable.step [OF this tp_steps(1)]
  show 1: "reachable (\<lambda>P. \<exists>A. P = pool_init 1 A) pool_thread_step tp_adding" .
  from reachable.step [OF 1 tp_steps(2)]
  show 2: "reachable (\<lambda>P. \<exists>A. P = pool_init 1 A) pool_thread_step tp_added" .
  from reachable.step [OF reachable.step [OF reachable.step [OF 2 tp_steps(3)] tp_steps(4)] tp_steps(5)]
  show "reachable (\<lambda>P. \<exists>A. P = pool_init 1 A) pool_thread_step tp_joining" .
qed

lemma tp_serving: "\<not> tearing_down tp_adding" "\<not> tearing_down tp_added" "\<not> tearing_down tp_joining"
  by (auto simp: tearing_down_def behind_joins_def tp_joining_eq tp_added_eq)
    (simp add: tp_defs split: if_splits)

text \<open>The thread finds the queue empty and blocks; then the client queues its job.\<close>

definition tp_blocked :: "nat cthread_pool" where
  "tp_blocked = tp_start\<lparr> pcs := (\<lambda>t. if t < 1 then R_blocked else Idle) \<rparr>"
definition tp_queued :: "nat cthread_pool" where
  "tp_queued = tp_blocked\<lparr> queue_head := Some 9, cur_queue_size := 1, workers := [9 \<mapsto> \<lparr> elem_next = None, elem_data = (0, 5) \<rparr>],
     pcs := (\<lambda>t. if t < 1 then R_blocked else Idle)(1 := A_signal) \<rparr>"

lemma tp_queued_reachable: "reachable (\<lambda>P. \<exists>A. P = pool_init 1 A) pool_thread_step tp_queued"
proof -
  let ?P1 = "goto 0 R_test (tp_start\<lparr> queue_lock := Some 0 \<rparr>)" and ?P2 = "goto 0 R_wait (tp_start\<lparr> queue_lock := Some 0 \<rparr>)"
  let ?P4 = "goto 1 (A_lock 9) (new_worker 9 (0, 5) tp_blocked)"
  have 0: "reachable (\<lambda>P. \<exists>A. P = pool_init 1 A) pool_thread_step tp_start"
    by (rule reachable.start) (auto simp: tp_start_def)
  have 1: "pool_thread_step tp_start Silent ?P1"
    by (intro pool_thread_step.routine routine_step.lock) (simp_all add: tp_defs)
  have "pool_thread_step ?P1 Silent (goto 0 (if cur_queue_size ?P1 = 0 \<and> \<not> shutdown ?P1 then R_wait else R_check) ?P1)"
    by (intro pool_thread_step.routine routine_step.test) (simp_all add: tp_defs)
  then have 2: "pool_thread_step ?P1 Silent ?P2" by (simp add: tp_defs)
  have "pool_thread_step ?P2 Silent (goto 0 R_blocked (?P2\<lparr> queue_lock := None \<rparr>))"
    by (intro pool_thread_step.routine routine_step.wait) (simp_all add: tp_defs)
  moreover have "goto 0 R_blocked (?P2\<lparr> queue_lock := None \<rparr>) = tp_blocked"
    by (auto simp: tp_defs tp_blocked_def fun_eq_iff)
  ultimately have 3: "pool_thread_step ?P2 Silent tp_blocked" by simp
  have 4: "pool_thread_step tp_blocked Silent ?P4"
    by (intro pool_thread_step.adding add_step.add) (simp_all add: tp_blocked_def tp_start_def pool_init_def)
  have "enqueue_worker 9 ?P4 = Some (?P4\<lparr> queue_head := Some 9, cur_queue_size := 1 \<rparr>)"
    by (simp add: tp_blocked_def tp_defs enqueue_worker_def link_worker_def)
  then have "pool_thread_step ?P4 (Submitted (elem_data \<lparr> elem_next = None, elem_data = (0, 5) \<rparr>))
      (goto 1 A_signal (?P4\<lparr> queue_head := Some 9, cur_queue_size := 1 \<rparr>))"
    by (intro pool_thread_step.adding add_step.enqueue) (simp_all add: tp_blocked_def tp_defs)
  moreover have "goto 1 A_signal (?P4\<lparr> queue_head := Some 9, cur_queue_size := 1 \<rparr>) = tp_queued"
    by (simp add: tp_queued_def tp_blocked_def tp_defs)
  ultimately have 5: "pool_thread_step ?P4 (Submitted (0, 5)) tp_queued" by simp
  let ?I = "\<lambda>P. \<exists>A. P = pool_init 1 A"
  have "reachable ?I pool_thread_step ?P1" using 0 1 by (rule reachable.step)
  then have "reachable ?I pool_thread_step ?P2" using 2 by (rule reachable.step)
  then have "reachable ?I pool_thread_step tp_blocked" using 3 by (rule reachable.step)
  then have "reachable ?I pool_thread_step ?P4" using 4 by (rule reachable.step)
  then show ?thesis using 5 by (rule reachable.step)
qed

section \<open>Properties\<close>

text \<open>
  C6. The pool is a first-in first-out queue until \<open>pool_destroy\<close> gets behind its joins. In every such
  run, whatever the interleaving, the jobs are started in the order in which they were queued, each
  once; what has been queued and not yet started is what the list at \<open>queue_head\<close> holds, and
  \<open>cur_queue_size\<close> is its length. (Behind its joins \<open>pool_destroy\<close> takes elements out of the queue
  without the mutex and without counting them.)
\<close>

theorem thread_pool_fifo:
  assumes "run pool_thread_step (pool_init n A) es P" and "\<not> tearing_down P"
  shows "\<exists>ns. abstract_run fifo_step [] es = Some (map snd ns) \<and> submitted es = started es @ map snd ns \<and>
              chain (workers P) (queue_head P) ns \<and> cur_queue_size P = int (length ns)"
proof -
  have "pool_rel (pool_init n A :: 'a cthread_pool) []" using pool_queue_init [of n A] by (auto simp: pool_rel_def)
  from jobs.run_simulates [OF run_serving [OF assms] this] obtain ns where
    "abstract_run fifo_step [] es = Some (map snd ns)" "pool_queue P ns" by (auto simp: pool_rel_def)
  with fifo_order [of "[]" es "map snd ns"] show ?thesis by (auto simp: pool_queue_def)
qed

lemma thread_pool_fifo_witness:
  "\<exists>ns. abstract_run fifo_step [] [Silent, Submitted (0, 5)] = Some (map snd ns) \<and>
        submitted [Silent, Submitted (0 :: nat, 5)] = started [Silent, Submitted (0, 5)] @ map snd ns \<and>
        chain (workers tp_added) (queue_head tp_added) ns \<and> cur_queue_size tp_added = int (length ns)"
proof (rule thread_pool_fifo)
  show "run pool_thread_step (pool_init 1 {5}) [Silent, Submitted (0, 5)] tp_added"
    unfolding run_Cons run_Nil tp_start_def [symmetric] using tp_steps by blast
qed (rule tp_serving)

text \<open>
  C24. Mutual exclusion and defined behaviour under the mutex. In every reachable state at most one
  thread is inside. Until \<open>pool_destroy\<close> gets behind its joins, \<open>cur_queue_size\<close> is the length of the
  list at \<open>queue_head\<close>, a thread that is about to take a job finds one, and the assertion of
  \<open>pool_add_worker\<close> holds as long as the queue is shorter than 2^31 - 1.
\<close>

theorem thread_pool_safe:
  assumes "reachable (\<lambda>P. \<exists>A. P = pool_init n A) pool_thread_step P"
  shows "(\<forall>t u. in_mutex (pcs P t) \<longrightarrow> in_mutex (pcs P u) \<longrightarrow> t = u) \<and>
         (\<not> tearing_down P \<longrightarrow>
           (\<exists>ns. chain (workers P) (queue_head P) ns \<and> cur_queue_size P = int (length ns)) \<and>
           (\<forall>t. pcs P t = R_take \<longrightarrow> (\<exists>w j P'. take_worker P = Some (w, j, P'))) \<and>
           (\<forall>t a. pcs P t = A_lock a \<longrightarrow> cur_queue_size P < 2 ^ 31 - 1 \<longrightarrow> (\<exists>P'. enqueue_worker a P = Some P')))"
proof (intro conjI impI)
  have "pool_mutex P" using thread_pool.reachable_inv [OF assms] by (simp add: pool_good_def)
  then show "\<forall>t u. in_mutex (pcs P t) \<longrightarrow> in_mutex (pcs P u) \<longrightarrow> t = u" by (simp add: pool_mutex_def)
  assume "\<not> tearing_down P"
  with assms obtain ns where P: "pool_queue P ns" by (rule thread_pool_queue)
  then have ch: "chain (workers P) (queue_head P) ns" "cur_queue_size P = int (length ns)"
    by (simp_all add: pool_queue_def)
  then show "\<exists>ns. chain (workers P) (queue_head P) ns \<and> cur_queue_size P = int (length ns)" by blast
  have "\<exists>w j P'. take_worker P = Some (w, j, P')" if t: "pcs P t = R_take" for t
    by (rule pool_queue_take [OF P t]) blast
  then show "\<forall>t. pcs P t = R_take \<longrightarrow> (\<exists>w j P'. take_worker P = Some (w, j, P'))" by blast
  have "\<exists>P'. enqueue_worker a P = Some P'" if t: "pcs P t = A_lock a" "cur_queue_size P < 2 ^ 31 - 1" for t a
  proof -
    obtain j where j: "workers P a = Some \<lparr> elem_next = None, elem_data = j \<rparr>" "a \<notin> fst ` set ns"
      using pool_queue_pending [OF P t(1)] by blast
    from link_worker_chain [OF ch(1) j] obtain H h where "link_worker (workers P) (queue_head P) a = Some (H, Some h)"
      by metis
    then show ?thesis using t(2) by (simp add: enqueue_worker_def)
  qed
  then show "\<forall>t a. pcs P t = A_lock a \<longrightarrow> cur_queue_size P < 2 ^ 31 - 1 \<longrightarrow> (\<exists>P'. enqueue_worker a P = Some P')" by blast
qed

lemma thread_pool_safe_witness: "pcs tp_adding 1 = A_lock 9 \<and> (\<exists>P'. enqueue_worker 9 tp_adding = Some P')"
proof
  show at: "pcs tp_adding 1 = A_lock 9" by (simp add: tp_defs)
  have "cur_queue_size tp_adding < 2 ^ 31 - 1" by (simp add: tp_defs)
  with at thread_pool_safe [OF tp_reachable(1)] tp_serving(1) show "\<exists>P'. enqueue_worker 9 tp_adding = Some P'" by blast
qed

text \<open>
  C19. No lost wake-up. Before \<open>pool_destroy\<close> sets \<open>shutdown\<close>: while a thread of the pool is blocked,
  there is for every queued job a thread on its way to it, that is, a thread of the pool that is awake
  and neither runs a job nor leaves, or a thread that is about to signal.
\<close>

theorem thread_pool_no_lost_wakeup:
  assumes "reachable (\<lambda>P. \<exists>A. P = pool_init n A) pool_thread_step P"
    and "\<not> shutdown P" "pcs P t = R_blocked"
  shows "cur_queue_size P \<le>
    int (card {u. pcs P u \<in> {R_lock, R_woken, R_test, R_check, R_take}}) + int (card {u. pcs P u = A_signal})"
proof -
  have good: "pool_good n P" by (rule thread_pool.reachable_inv [OF assms(1)])
  then have "\<not> tearing_down P" "pool_awake P" "finite {u. pcs P u \<noteq> Idle}"
    using assms(2) by (auto simp: pool_good_def pool_threads_def)
  then have "cur_queue_size P \<le> count_at coming (pcs P)" using assms(3) by (auto simp: pool_awake_def)
  also have "{u. coming (pcs P u)} = {u. pcs P u \<in> {R_lock, R_woken, R_test, R_check, R_take}} \<union> {u. pcs P u = A_signal}"
    by (auto simp: coming_def)
  then have "count_at coming (pcs P) \<le>
    int (card {u. pcs P u \<in> {R_lock, R_woken, R_test, R_check, R_take}}) + int (card {u. pcs P u = A_signal})"
    unfolding count_at_def by (simp add: card_Un_le flip: of_nat_add)
  finally show ?thesis .
qed

lemma thread_pool_no_lost_wakeup_witness:
  "cur_queue_size tp_queued = 1 \<and>
   1 \<le> int (card {u. pcs tp_queued u \<in> {R_lock, R_woken, R_test, R_check, R_take}}) + int (card {u. pcs tp_queued u = A_signal})"
proof -
  have size: "cur_queue_size tp_queued = 1" by (simp add: tp_queued_def)
  have "cur_queue_size tp_queued \<le>
      int (card {u. pcs tp_queued u \<in> {R_lock, R_woken, R_test, R_check, R_take}}) + int (card {u. pcs tp_queued u = A_signal})"
    by (rule thread_pool_no_lost_wakeup [OF tp_queued_reachable, where t = 0])
      (simp_all add: tp_queued_def tp_blocked_def tp_start_def pool_init_def)
  with size show ?thesis by simp
qed

text \<open>
  C37. The end of \<open>pool_destroy\<close>. Behind the broadcast, with the mutex free and nobody blocked, the
  calling thread by itself reaches its end, whatever the other threads are doing, since the joins wait
  for nobody: it frees every element of the queue and no other, frees the pool and returns 0. From there
  on every access of another thread to the pool is undefined.
\<close>

theorem pool_destroy_frees:
  assumes "reachable (\<lambda>P. \<exists>A. P = pool_init n A) pool_thread_step P" and "\<not> tearing_down P"
    and "pcs P t = D_join" "queue_lock P = None" "\<forall>u. pcs P u \<noteq> R_blocked"
  shows "\<exists>ns P'. chain (workers P) (queue_head P) ns \<and>
     run pool_thread_step P (replicate (4 * length ns + 2) Silent @ [Destroy_returns 0]) P' \<and>
     workers P' = (\<lambda>a. if a \<in> fst ` set ns then None else workers P a) \<and> \<not> threadid_live P' \<and> \<not> pool_live P' \<and>
     pcs P' = (pcs P)(t := D_done) \<and> (\<forall>e P''. \<not> pool_thread_step P' e P'')"
proof -
  obtain ns where ns: "pool_queue P ns" using assms(1,2) by (rule thread_pool_queue)
  then have ch: "chain (workers P) (queue_head P) ns" by (simp add: pool_queue_def)
  have live: "threadid_live P" "pool_live P" using serving.reachable_inv [OF assms(1)] assms(2) by auto
  let ?P1 = "goto t D_loop (P\<lparr> threadid_live := False \<rparr>)"
  let ?W = "\<lambda>a. if a \<in> fst ` set ns then None else workers P a"
  let ?P2 = "goto t D_pool (?P1\<lparr> queue_head := None, workers := ?W \<rparr>)"
  let ?P3 = "goto t D_done (?P2\<lparr> pool_live := False \<rparr>)"
  have 1: "pool_thread_step P Silent ?P1"
    by (intro pool_thread_step.destroying destroy_step.join) (use assms(3) live in \<open>simp_all add: join_threads_def\<close>)
  have 2: "run pool_thread_step ?P1 (replicate (4 * length ns + 1) Silent) ?P2"
    using destroy_loop_run [of ?P1 ns t] ch live by (simp add: goto_def cong: if_cong)
  have 3: "pool_thread_step ?P2 (Destroy_returns 0) ?P3"
    by (intro pool_thread_step.destroying destroy_step.return)
      (use assms(4,5) live in \<open>simp_all add: goto_def free_pool_def\<close>)
  have "run pool_thread_step P ([Silent] @ replicate (4 * length ns + 1) Silent @ [Destroy_returns 0]) ?P3"
    by (rule run_append [OF _ run_append [OF 2]]) (use 1 3 in \<open>simp_all add: run_Cons\<close>)
  then have "run pool_thread_step P (replicate (4 * length ns + 2) Silent @ [Destroy_returns 0]) ?P3" by simp
  moreover have "\<not> pool_thread_step ?P3 e P''" for e P'' by (auto simp: goto_def elim!: pool_thread_stepE)
  ultimately show ?thesis using ch by (intro exI [of _ ns] exI [of _ ?P3]) (auto simp: goto_def)
qed

lemma pool_destroy_frees_witness:
  "\<exists>ns P'. chain (workers tp_joining) (queue_head tp_joining) ns \<and>
     run pool_thread_step tp_joining (replicate (4 * length ns + 2) Silent @ [Destroy_returns 0]) P' \<and>
     workers P' = (\<lambda>a. if a \<in> fst ` set ns then None else workers tp_joining a) \<and> \<not> threadid_live P' \<and> \<not> pool_live P' \<and>
     pcs P' = (pcs tp_joining)(2 := D_done) \<and> (\<forall>e P''. \<not> pool_thread_step P' e P'')"
  by (rule pool_destroy_frees [OF tp_reachable(3) tp_serving(3)]) (simp_all add: tp_joining_eq tp_added_eq)

text \<open>
  The end of a job. The argument of every job is freed twice: the first call takes it away and the
  second is undefined, so that no thread gets behind its first job.
\<close>

theorem thread_job_double_free:
  assumes "workers P w = Some x" "snd (elem_data x) \<in> worker_args P"
  shows "(\<exists>A. free_arg (worker_args P) (snd (elem_data x)) = Some A \<and> free_arg A (snd (elem_data x)) = None) \<and>
         finish_worker w P = None"
  using assms by (simp add: free_arg_def finish_worker_None)

lemma thread_job_double_free_witness:
  "(\<exists>A. free_arg {5} 5 = Some A \<and> free_arg A 5 = None) \<and> finish_worker 9 tp_adding = None"
  using thread_job_double_free [of tp_adding 9 "\<lparr> elem_next = None, elem_data = (0, 5) \<rparr>"]
  by (simp add: tp_defs)

text \<open>
  The shutdown can be missed. \<open>pool_destroy\<close> sets \<open>shutdown\<close> and broadcasts without the mutex: when
  that happens between the test of a thread and its wait, the thread blocks after the broadcast and
  nobody is left to wake it.
\<close>

theorem thread_pool_missed_shutdown:
  "\<exists>es P. run pool_thread_step (pool_init 1 {} :: 'p cthread_pool) es P \<and> shutdown P \<and> pcs P 0 = R_blocked \<and>
     pcs P 1 = D_join \<and> (\<forall>t. pcs P t \<notin> {A_signal, D_broadcast})"
proof -
  let ?P = "pool_init 1 {} :: 'p cthread_pool"
  define P1 where "P1 = goto 0 R_test (?P\<lparr> queue_lock := Some 0 \<rparr>)"
  define P2 where "P2 = goto 0 R_wait P1"
  define P2a where "P2a = goto 1 D_set P2"
  define P3 where "P3 = goto 1 D_broadcast (P2a\<lparr> shutdown := True \<rparr>)"
  define P4 where "P4 = goto 1 D_join (P3\<lparr> pcs := (\<lambda>u. if pcs P3 u = R_blocked then R_woken else pcs P3 u) \<rparr>)"
  define P5 where "P5 = goto 0 R_blocked (P4\<lparr> queue_lock := None \<rparr>)"
  note defs = P1_def P2_def P2a_def P3_def P4_def P5_def goto_def pool_init_def
  have 1: "pool_thread_step ?P Silent P1" unfolding P1_def
    by (intro pool_thread_step.routine routine_step.lock) (simp_all add: pool_init_def)
  have "pool_thread_step P1 Silent (goto 0 (if cur_queue_size P1 = 0 \<and> \<not> shutdown P1 then R_wait else R_check) P1)"
    by (intro pool_thread_step.routine routine_step.test) (simp_all add: defs)
  then have 2: "pool_thread_step P1 Silent P2" by (simp add: defs)
  have 2: "pool_thread_step ?P Silent P1 \<and> pool_thread_step P1 Silent P2" using 1 2 by simp
  have 3: "pool_thread_step P2 Silent P2a" unfolding P2a_def
    by (intro pool_thread_step.destroying destroy_step.destroy) (simp_all add: defs destroy_test_def)
  have set: "pool_thread_step P2a Silent P3" unfolding P3_def
    by (intro pool_thread_step.destroying destroy_step.set) (simp_all add: defs)
  have 4: "pool_thread_step P3 Silent P4" unfolding P4_def
    by (intro pool_thread_step.destroying destroy_step.broadcast) (simp_all add: defs)
  have 5: "pool_thread_step P4 Silent P5" unfolding P5_def
    by (intro pool_thread_step.routine routine_step.wait) (simp_all add: defs)
  have "run pool_thread_step ?P [Silent, Silent, Silent, Silent, Silent, Silent] P5"
    unfolding run_Cons run_Nil using 2 3 set 4 5 by blast
  moreover have "shutdown P5" "pcs P5 0 = R_blocked" "pcs P5 1 = D_join" "\<forall>t. pcs P5 t \<notin> {A_signal, D_broadcast}"
    by (auto simp: defs)
  ultimately show ?thesis by blast
qed

end
