(* ===== verification/SocketServer.thy ===== *)
theory SocketServer
  imports CMem Transition
begin

text \<open>
  The socket server of \<open>src/cc_conn.c\<close>: its record, starting and stopping it, and the arithmetic of its
  pool of workers. The results of the system calls are an argument. What is tracked of the operating
  system is the set of open descriptors.
\<close>

section \<open>The server\<close>

record QSocketServer =
  passive_mode :: u16
  listen_port :: u16
  minThreads :: u16
  maxThreads :: u16
  lifecycleStatus :: int
  workerWaitTimeout :: int
  workerCounter :: int
  currentBusyWorkers :: int
  CSocketsCounter :: int
  has_cslifecb :: bool
  default_protoHandler :: bool
  server_s :: int
  sin_port :: u16
  epollFD :: int
  BSendEpollFD :: int

text \<open>
  \<open>createSocketServer\<close>; the block of \<open>malloc\<close> gives the members it does not set. A null handler is
  replaced by the default one.
\<close>

definition createSocketServer ::
    "QSocketServer option \<Rightarrow> u16 \<Rightarrow> u16 \<Rightarrow> bool \<Rightarrow> bool \<Rightarrow> u16 \<Rightarrow> u16 \<Rightarrow> int \<Rightarrow> (int \<times> QSocketServer) option" where
  "createSocketServer block pas port_number cslifecb has_handler least most timeout =
    do { qss \<leftarrow> block;
         Some (1, qss\<lparr> passive_mode := pas, listen_port := port_number, minThreads := least, maxThreads := most,
                      workerWaitTimeout := timeout, lifecycleStatus := 0, workerCounter := 0,
                      currentBusyWorkers := 0, CSocketsCounter := 0, has_cslifecb := cslifecb,
                      default_protoHandler := \<not> has_handler \<rparr>) }"

section \<open>Workers\<close>

text \<open>The test of \<open>addQSSWorker\<close> in front of the spin lock; the members are promoted to \<open>int\<close>.\<close>

definition add_wanted :: "'z QSocketServer_scheme \<Rightarrow> bool" where
  "add_wanted q \<longleftrightarrow> workerCounter q < uint (minThreads q) \<or>
     (currentBusyWorkers q = workerCounter q \<and> workerCounter q < uint (maxThreads q))"

text \<open>
  How many threads \<open>addQSSWorker\<close> starts under the lock: the calls of \<open>malloc\<close> that succeed, none when
  all of them together would be too many.
\<close>

definition add_number :: "'z QSocketServer_scheme \<Rightarrow> u16 \<Rightarrow> bool list \<Rightarrow> nat" where
  "add_number q addCounter allocs =
    (if workerCounter q + uint addCounter \<le> uint (maxThreads q)
     then length (filter id (take (unat addCounter) allocs)) else 0)"

definition addQSSWorker :: "'z QSocketServer_scheme \<Rightarrow> u16 \<Rightarrow> bool list \<Rightarrow> u16 \<times> 'z QSocketServer_scheme" where
  "addQSSWorker q addCounter allocs =
    (let res = (if add_wanted q then add_number q addCounter allocs else 0)
     in (of_nat res, q\<lparr> workerCounter := workerCounter q + int res \<rparr>))"

section \<open>Starting\<close>

text \<open>The results of the calls \<open>startSocketServer\<close> makes.\<close>

record start_answers =
  a_socket :: int
  a_getfl :: int
  a_setfl :: int
  a_bind :: int
  a_listen :: int
  a_epoll1 :: int
  a_epoll2 :: int
  a_event :: bool
  a_epoll_ctl :: int
  a_param :: bool
  a_workers :: "bool list"

definition setNonBlocking :: "int \<Rightarrow> int \<Rightarrow> int" where
  "setNonBlocking getfl setfl = (if getfl = - 1 then - 1 else if setfl = - 1 then - 1 else 1)"

definition SOlogger :: "int \<Rightarrow> int set \<Rightarrow> int set" where
  "SOlogger s fds = (if s > 0 then fds - {s} else fds)"

text \<open>A call that returns a new descriptor opens it.\<close>

definition opened :: "int \<Rightarrow> int set \<Rightarrow> int set" where
  "opened s fds = (if s = - 1 then fds else insert s fds)"

definition startSocketServer ::
    "start_answers \<Rightarrow> int set \<Rightarrow> QSocketServer option \<Rightarrow> (int \<times> QSocketServer option \<times> int set) option" where
  "startSocketServer a fds qss =
    (case qss of
       None \<Rightarrow> Some (0, None, fds)
     | Some q \<Rightarrow>
        if lifecycleStatus q \<noteq> 0 then Some (0, Some q, fds)
        else
          let q = q\<lparr> lifecycleStatus := 1, sin_port := htons (listen_port q), server_s := a_socket a \<rparr>;
              fds = opened (a_socket a) fds in
          if setNonBlocking (a_getfl a) (a_setfl a) = - 1 then Some (0, Some q, SOlogger 0 fds)
          else if server_s q = - 1 then Some (0, Some q, SOlogger 0 fds)
          else if a_bind a = - 1 then Some (0, Some q, SOlogger (server_s q) fds)
          else if a_listen a = - 1 then Some (0, Some q, SOlogger (server_s q) fds)
          else
            let q = q\<lparr> epollFD := a_epoll1 a \<rparr>; fds = opened (a_epoll1 a) fds in
            if epollFD q = - 1 then Some (0, Some q, SOlogger (server_s q) fds)
            else
              let q = q\<lparr> BSendEpollFD := a_epoll2 a \<rparr>; fds = opened (a_epoll2 a) fds in
              if BSendEpollFD q = - 1 then Some (0, Some q, SOlogger (server_s q) fds)
              else if \<not> a_event a then None
              else if a_epoll_ctl a = - 1 then Some (0, Some q, SOlogger (server_s q) fds)
              else if \<not> a_param a then None
              else
                let (_, q) = addQSSWorker q (minThreads q) (a_workers a)
                in Some (1, Some (q\<lparr> lifecycleStatus := 2 \<rparr>), fds))"

text \<open>The change of state of \<open>shutdownSocketServer\<close>; then the sockets are shut down.\<close>

definition shutdownSocketServer :: "'z QSocketServer_scheme option \<Rightarrow> int \<times> 'z QSocketServer_scheme option" where
  "shutdownSocketServer qss =
    (case qss of
       None \<Rightarrow> (0, None)
     | Some q \<Rightarrow> if lifecycleStatus q = 2 then (1, Some (q\<lparr> lifecycleStatus := 3 \<rparr>)) else (0, Some q))"

section \<open>Bounds of the pool\<close>

lemma add_number_le: "add_number q n allocs \<le> unat n"
proof -
  have "length (filter id (take (unat n) allocs)) \<le> length (take (unat n) allocs)" by (rule length_filter_le)
  also have "\<dots> \<le> unat n" by simp
  finally show ?thesis by (simp add: add_number_def)
qed

lemma add_number_bound:
  assumes "workerCounter q \<le> uint (maxThreads q)"
  shows "workerCounter q + int (add_number q n allocs) \<le> uint (maxThreads q)"
proof (cases "workerCounter q + uint n \<le> uint (maxThreads q)")
  case True
  have "int (add_number q n allocs) \<le> uint n"
    unfolding uint_nat by (rule of_nat_mono [OF add_number_le])
  with True show ?thesis by linarith
qed (use assms in \<open>simp add: add_number_def\<close>)

section \<open>Properties\<close>

text \<open>
  The system calls of \<open>startSocketServer\<close> in front of its first \<open>malloc\<close> succeed, and all of them succeed.
\<close>

definition reaches_malloc :: "start_answers \<Rightarrow> bool" where
  "reaches_malloc a \<longleftrightarrow> a_socket a \<noteq> - 1 \<and> a_getfl a \<noteq> - 1 \<and> a_setfl a \<noteq> - 1 \<and> a_bind a \<noteq> - 1 \<and> a_listen a \<noteq> - 1 \<and>
     a_epoll1 a \<noteq> - 1 \<and> a_epoll2 a \<noteq> - 1"

definition all_well :: "start_answers \<Rightarrow> bool" where
  "all_well a \<longleftrightarrow> reaches_malloc a \<and> a_epoll_ctl a \<noteq> - 1"

text \<open>
  The descriptors of this start that are still open when it has failed: the socket when it cannot be made
  non-blocking, and also when it has the number 0, which \<open>SOlogger\<close> does not close; the epoll instances
  created so far when a later call fails.
\<close>

definition left_open :: "start_answers \<Rightarrow> int set" where
  "left_open a =
    (if a_socket a = - 1 then {}
     else if a_getfl a = - 1 \<or> a_setfl a = - 1 then {a_socket a}
     else (if a_socket a = 0 then {0} else {}) \<union>
       (if a_bind a = - 1 \<or> a_listen a = - 1 \<or> a_epoll1 a = - 1 then {}
        else if a_epoll2 a = - 1 then {a_epoll1 a}
        else {a_epoll1 a, a_epoll2 a}))"

lemmas start_defs = startSocketServer_def Let_def setNonBlocking_def SOlogger_def opened_def all_well_def
  reaches_malloc_def left_open_def

lemma start_workers:
  assumes "workerCounter q = 0"
  shows "workerCounter (snd (addQSSWorker q (minThreads q) allocs)) =
      (if minThreads q \<le> maxThreads q then int (length (filter id (take (unat (minThreads q)) allocs))) else 0)"
proof (cases "add_wanted q")
  case True
  then show ?thesis using assms by (simp add: addQSSWorker_def add_number_def Let_def word_le_def)
next
  case False
  then have "uint (minThreads q) = 0" using assms uint_ge_0 [of "minThreads q"] unfolding add_wanted_def by linarith
  then have "minThreads q = 0" by (simp add: uint_0_iff)
  with False show ?thesis using assms by (simp add: addQSSWorker_def Let_def)
qed

lemma failed_start:
  assumes "\<not> all_well a" "lifecycleStatus q = 0" "reaches_malloc a \<Longrightarrow> a_event a"
    and "a_socket a = - 1 \<or> 0 \<le> a_socket a \<and> a_socket a \<notin> fds \<union> {a_epoll1 a, a_epoll2 a}"
  shows "\<exists>q'. startSocketServer a fds (Some q) = Some (0, Some q', fds \<union> left_open a) \<and> lifecycleStatus q' = 1"
proof -
  consider "a_socket a = - 1" | "a_socket a \<ge> 0" "a_getfl a = - 1 \<or> a_setfl a = - 1" |
    "a_socket a \<ge> 0" "a_getfl a \<noteq> - 1" "a_setfl a \<noteq> - 1" "a_bind a = - 1 \<or> a_listen a = - 1 \<or> a_epoll1 a = - 1" |
    "a_socket a \<ge> 0" "a_getfl a \<noteq> - 1" "a_setfl a \<noteq> - 1" "a_bind a \<noteq> - 1" "a_listen a \<noteq> - 1" "a_epoll1 a \<noteq> - 1"
      "a_epoll2 a = - 1 \<or> a_epoll_ctl a = - 1"
    using assms(1,4) unfolding all_well_def reaches_malloc_def by linarith
  then show ?thesis
  proof cases
    case 1
    with assms(2) show ?thesis by (cases "a_getfl a = - 1 \<or> a_setfl a = - 1") (auto simp: start_defs)
  next
    case 2
    with assms(2) show ?thesis by (cases "a_getfl a = - 1") (simp_all add: start_defs)
  next
    case 3
    then have "a_socket a \<notin> fds" using assms(4) by auto
    with 3 assms(2) show ?thesis
      by (cases "a_socket a = 0"; cases "a_bind a = - 1"; cases "a_listen a = - 1") (simp_all add: start_defs)
  next
    case 4
    then have s: "a_socket a \<notin> fds" "a_socket a \<noteq> a_epoll1 a" "a_socket a \<noteq> a_epoll2 a" "a_socket a \<noteq> - 1"
      using assms(4) by auto
    have "a_event a" if "a_epoll2 a \<noteq> - 1" using 4 that by (intro assms(3)) (simp add: reaches_malloc_def)
    with 4 s assms(2) show ?thesis
      by (cases "a_socket a = 0"; cases "a_epoll2 a = - 1") (auto simp: start_defs)
  qed
qed

text \<open>
  C32. Starting a server that was just created. When \<open>malloc\<close> fails for the event or for the parameter of
  the sender thread, the null pointer is dereferenced. Otherwise it succeeds exactly when every system
  call does; then the server runs with as many of its minimal number of workers as \<open>malloc\<close> gives blocks
  for when that number is not above the maximum, and with none when it is. When a call fails the result
  is 0 and the status stays 1, so that the server can neither be started again nor be shut down, and
  the descriptors \<open>left_open\<close> names remain open.
\<close>

theorem start_socket_server:
  assumes "lifecycleStatus q = 0" "workerCounter q = 0"
    and "a_socket a = - 1 \<or> 0 \<le> a_socket a \<and> a_socket a \<notin> fds \<union> {a_epoll1 a, a_epoll2 a}"
  shows "if reaches_malloc a \<and> (\<not> a_event a \<or> a_epoll_ctl a \<noteq> - 1 \<and> \<not> a_param a)
    then startSocketServer a fds (Some q) = None
    else \<exists>r q' fds'. startSocketServer a fds (Some q) = Some (r, Some q', fds') \<and>
      (all_well a \<longrightarrow> r = 1 \<and> lifecycleStatus q' = 2 \<and> fds' = fds \<union> {a_socket a, a_epoll1 a, a_epoll2 a} \<and>
         workerCounter q' = (if minThreads q \<le> maxThreads q
           then int (length (filter id (take (unat (minThreads q)) (a_workers a)))) else 0)) \<and>
      (\<not> all_well a \<longrightarrow> r = 0 \<and> lifecycleStatus q' = 1 \<and> fds' = fds \<union> left_open a \<and>
         (\<forall>b fds. startSocketServer b fds (Some q') = Some (0, Some q', fds)) \<and>
         shutdownSocketServer (Some q') = (0, Some q'))"
proof (cases "reaches_malloc a \<and> (\<not> a_event a \<or> a_epoll_ctl a \<noteq> - 1 \<and> \<not> a_param a)")
  case True
  have "startSocketServer a fds (Some q) = None"
    using True assms(1) by (auto simp: startSocketServer_def setNonBlocking_def reaches_malloc_def Let_def)
  then show ?thesis using True by simp
next
  case malloc: False
  have "\<exists>r q' fds'. startSocketServer a fds (Some q) = Some (r, Some q', fds') \<and>
      (all_well a \<longrightarrow> r = 1 \<and> lifecycleStatus q' = 2 \<and> fds' = fds \<union> {a_socket a, a_epoll1 a, a_epoll2 a} \<and>
         workerCounter q' = (if minThreads q \<le> maxThreads q
           then int (length (filter id (take (unat (minThreads q)) (a_workers a)))) else 0)) \<and>
      (\<not> all_well a \<longrightarrow> r = 0 \<and> lifecycleStatus q' = 1 \<and> fds' = fds \<union> left_open a \<and>
         (\<forall>b fds. startSocketServer b fds (Some q') = Some (0, Some q', fds)) \<and>
         shutdownSocketServer (Some q') = (0, Some q'))"
  proof (cases "all_well a")
    case True
    let ?q = "q\<lparr> lifecycleStatus := 1, sin_port := htons (listen_port q), server_s := a_socket a,
                 epollFD := a_epoll1 a, BSendEpollFD := a_epoll2 a \<rparr>"
    have "startSocketServer a fds (Some q) =
        Some (1, Some (snd (addQSSWorker ?q (minThreads q) (a_workers a))\<lparr> lifecycleStatus := 2 \<rparr>),
              fds \<union> {a_socket a, a_epoll1 a, a_epoll2 a})"
      using True assms(1) malloc by (auto simp: start_defs split: prod.splits)
    moreover have "workerCounter (snd (addQSSWorker ?q (minThreads q) (a_workers a))) = (if minThreads q \<le> maxThreads q
           then int (length (filter id (take (unat (minThreads q)) (a_workers a)))) else 0)"
      using start_workers [of ?q "a_workers a"] assms by simp
    ultimately show ?thesis using True by simp
  next
    case False
    have "startSocketServer b fds (Some q') = Some (0, Some q', fds)" "shutdownSocketServer (Some q') = (0, Some q')"
      if "lifecycleStatus q' = 1" for b and fds :: "int set" and q' :: QSocketServer
      using that by (simp_all add: startSocketServer_def shutdownSocketServer_def)
    moreover have "\<exists>q'. startSocketServer a fds (Some q) = Some (0, Some q', fds \<union> left_open a) \<and> lifecycleStatus q' = 1"
      using False assms(1) _ assms(3) by (rule failed_start) (use malloc in blast)
    ultimately show ?thesis using False by metis
  qed
  then show ?thesis unfolding if_not_P [OF malloc] .
qed

definition server0 :: QSocketServer where
  "server0 = \<lparr> passive_mode = 0, listen_port = 6633, minThreads = 2, maxThreads = 8, lifecycleStatus = 0,
     workerWaitTimeout = 20000, workerCounter = 0, currentBusyWorkers = 0, CSocketsCounter = 0,
     has_cslifecb = True, default_protoHandler = False, server_s = 0, sin_port = 0, epollFD = 0, BSendEpollFD = 0 \<rparr>"

text \<open>All calls succeed but, when \<open>ctl\<close> is \<open>- 1\<close>, the registration of the listening socket \<open>s\<close>.\<close>

definition answers0 :: "int \<Rightarrow> int \<Rightarrow> start_answers" where
  "answers0 s ctl = \<lparr> a_socket = s, a_getfl = 2, a_setfl = 0, a_bind = 0, a_listen = 0, a_epoll1 = 4, a_epoll2 = 5,
     a_event = True, a_epoll_ctl = ctl, a_param = True, a_workers = [True, True] \<rparr>"

theorem start_socket_server_witness:
  "(\<exists>q'. startSocketServer (answers0 3 0) {1, 2} (Some server0) = Some (1, Some q', {1, 2, 3, 4, 5}) \<and>
      lifecycleStatus q' = 2 \<and> workerCounter q' = 2) \<and>
   (\<exists>q'. startSocketServer (answers0 0 (- 1)) {1, 2} (Some server0) = Some (0, Some q', {0, 1, 2, 4, 5}) \<and>
      lifecycleStatus q' = 1)"
proof -
  have sets: "{1, 2} \<union> {3, 4, 5} = {1, 2, 3, 4, 5 :: int}" "{0, 4, 5, 1, 2} = {0, 1, 2, 4, 5 :: int}"
    by auto
  have well: "all_well (answers0 3 0)" "\<not> all_well (answers0 s (- 1))" "left_open (answers0 0 (- 1)) = {0, 4, 5}"
    "\<not> (reaches_malloc (answers0 s c) \<and> (\<not> a_event (answers0 s c) \<or> a_epoll_ctl (answers0 s c) \<noteq> - 1 \<and> \<not> a_param (answers0 s c)))"
    for s c by (auto simp: answers0_def all_well_def reaches_malloc_def left_open_def)
  have hyps: "lifecycleStatus server0 = 0" "workerCounter server0 = 0"
    "a_socket (answers0 3 c) = - 1 \<or> 0 \<le> a_socket (answers0 3 c) \<and>
     a_socket (answers0 3 c) \<notin> {1, 2} \<union> {a_epoll1 (answers0 3 c), a_epoll2 (answers0 3 c)}"
    "a_socket (answers0 0 c) = - 1 \<or> 0 \<le> a_socket (answers0 0 c) \<and>
     a_socket (answers0 0 c) \<notin> {1, 2} \<union> {a_epoll1 (answers0 0 c), a_epoll2 (answers0 0 c)}" for c
    by (simp_all add: server0_def answers0_def)
  have least: "minThreads server0 = 2" "maxThreads server0 = 8" "(2 :: u16) \<le> 8" "unat (2 :: u16) = 2"
    "a_workers (answers0 s c) = [True, True]"
    and fds: "{a_socket (answers0 3 c), a_epoll1 (answers0 3 c), a_epoll2 (answers0 3 c)} = {3, 4, 5}" for s c
    by (simp_all add: server0_def answers0_def word_le_def)
  have "\<exists>q'. startSocketServer (answers0 3 0) {1, 2} (Some server0) = Some (1, Some q', {1, 2, 3, 4, 5}) \<and>
      lifecycleStatus q' = 2 \<and> workerCounter q' = 2"
    using start_socket_server [OF hyps(1-3), of 0] unfolding if_not_P [OF well(4)] least fds sets
    by (elim exE conjE) (simp add: well least)
  moreover have "\<exists>q'. startSocketServer (answers0 0 (- 1)) {1, 2} (Some server0) = Some (0, Some q', {0, 1, 2, 4, 5}) \<and>
      lifecycleStatus q' = 1"
    using start_socket_server [OF hyps(1,2,4), of "- 1"] unfolding if_not_P [OF well(4)]
    by (elim exE conjE) (simp add: well sets)
  ultimately show ?thesis by (rule conjI)
qed

end
