(* ===== verification/ServerRun.thy ===== *)
theory ServerRun
  imports SocketServer
begin

text \<open>
  The running socket server: the workers of \<open>epollWorkerRoutine\<close>, the acceptance of connections and
  the stopping of the server as labelled steps on one state. A section of the code under
  \<open>g_spinlock\<close> is one step, and so is every other access to the shared members and every call of
  the operating system; a label carries what the system answered. The results of epoll follow its
  documentation: a connection registered with \<open>EPOLLONESHOT\<close> is reported to one worker and then not
  again before it is re-armed, and the listening socket, registered with \<open>EPOLLET\<close>, is reported
  once for all that arrived since the last report. A condition that reads several members without the
  lock is one step, and so is everything between two such accesses; that line 421 prints through a pointer
  into the parameter freed in line 384 is not modelled.
\<close>

section \<open>The state\<close>

text \<open>Where a worker is; \<open>W_exit\<close> carries the exit code with which it leaves the loop.\<close>

datatype wpc = W_none | W_poll | W_accept | W_count | W_busy nat | W_add nat | W_add_locked nat
  | W_handle nat | W_unbusy nat bool | W_rearm nat | W_close nat | W_uncount | W_timeout
  | W_exit int | W_clear | W_gone

text \<open>A connection: registered and armed, reported to a worker, or open but not registered.\<close>

datatype cstat = C_none | C_armed | C_handled nat | C_leaked

text \<open>Where the thread is that starts and stops the server.\<close>

datatype mpc = M_workers | M_running | M_idle | M_stop | M_end

record server = QSocketServer +
  workers :: "nat \<Rightarrow> wpc"
  next_worker :: nat
  conns :: "nat \<Rightarrow> cstat"
  listening :: bool
  listen_armed :: bool
  edge :: bool
  backlog :: nat
  starter :: mpc
  freed :: bool

definition move :: "nat \<Rightarrow> wpc \<Rightarrow> server \<Rightarrow> server" where
  "move t p s = s\<lparr> workers := (workers s)(t := p) \<rparr>"

definition conn_at :: "nat \<Rightarrow> cstat \<Rightarrow> server \<Rightarrow> server" where
  "conn_at c x s = s\<lparr> conns := (conns s)(c := x) \<rparr>"

section \<open>The steps of the code\<close>

text \<open>
  The loop of \<open>addQSSWorker\<close>: every new thread is counted. \<open>pthread_create\<close> is taken to succeed: the
  code ignores its result and would count a thread that does not run.
\<close>

fun spawn :: "nat \<Rightarrow> server \<Rightarrow> server" where
  "spawn 0 s = s"
| "spawn (Suc k) s =
    spawn k (s\<lparr> workers := (workers s)(next_worker s := W_poll), next_worker := next_worker s + 1,
               workerCounter := workerCounter s + 1 \<rparr>)"

text \<open>\<open>epoll_wait\<close> timed out.\<close>

definition poll_timeout :: "nat \<Rightarrow> server \<Rightarrow> server" where
  "poll_timeout t s =
    (if lifecycleStatus s \<le> 3 \<and> currentBusyWorkers s = 0 \<and> workerCounter s > uint (minThreads s)
     then move t W_timeout s
     else if lifecycleStatus s \<ge> 4 then move t (W_exit 4) s else s)"

definition timeout_locked :: "nat \<Rightarrow> server \<Rightarrow> server" where
  "timeout_locked t s =
    (if lifecycleStatus s \<le> 3 \<and> currentBusyWorkers s = 0 \<and> workerCounter s > uint (minThreads s)
     then move t (W_exit 2) (s\<lparr> workerCounter := workerCounter s - 1 \<rparr>) else move t W_poll s)"

text \<open>The end of a connection, after its descriptor was closed.\<close>

definition uncount :: "nat \<Rightarrow> server \<Rightarrow> server" where
  "uncount t s =
    (let s = s\<lparr> CSocketsCounter := CSocketsCounter s - 1 \<rparr>
     in if CSocketsCounter s = 0 \<and> lifecycleStatus s \<ge> 3 then move t (W_exit 3) (s\<lparr> lifecycleStatus := 4 \<rparr>)
        else move t W_poll s)"

text \<open>What follows the main loop.\<close>

definition leave :: "nat \<Rightarrow> int \<Rightarrow> server \<Rightarrow> server" where
  "leave t exitCode s =
    (if exitCode \<noteq> 2 then
       let s = s\<lparr> workerCounter := workerCounter s - 1 \<rparr>
       in if workerCounter s = 0 \<and> lifecycleStatus s \<ge> 4 then move t W_clear s else move t W_gone s
     else move t W_gone s)"

text \<open>\<open>onAcceptRoutine\<close>; the connection is leaked when one of the calls after \<open>accept\<close> fails.\<close>

datatype accepted = Accept_fail | Accept_leak nat | Accept_ok nat

definition onAccept :: "nat \<Rightarrow> accepted \<Rightarrow> server \<Rightarrow> server option" where
  "onAccept t x s =
    (case x of
       Accept_fail \<Rightarrow> Some (move t W_poll (s\<lparr> listen_armed := False \<rparr>))
     | Accept_leak c \<Rightarrow>
         (if listening s \<and> backlog s > 0 \<and> conns s c = C_none
          then Some (move t W_poll (conn_at c C_leaked (s\<lparr> backlog := backlog s - 1 \<rparr>))) else None)
     | Accept_ok c \<Rightarrow>
         (if listening s \<and> backlog s > 0 \<and> conns s c = C_none
          then Some (move t W_count (conn_at c C_armed (s\<lparr> backlog := backlog s - 1 \<rparr>))) else None))"

datatype polled = P_listen | P_conn nat | P_timeout | P_error

definition epoll_answer :: "nat \<Rightarrow> polled \<Rightarrow> server \<Rightarrow> server option" where
  "epoll_answer t x s =
    (case x of
       P_listen \<Rightarrow> (if edge s \<and> listen_armed s then Some (move t W_accept (s\<lparr> edge := False \<rparr>)) else None)
     | P_conn c \<Rightarrow> (if conns s c = C_armed then Some (move t (W_busy c) (conn_at c (C_handled t) s)) else None)
     | P_timeout \<Rightarrow> Some (poll_timeout t s)
     | P_error \<Rightarrow> Some (move t (W_exit 1) s))"

text \<open>
  The step of a worker. \<open>ok\<close> is the answer where the place leaves one open: \<open>malloc\<close> under the lock of
  \<open>addQSSWorker\<close>, the handler's result being above 0, and \<open>epoll_ctl\<close> re-arming the connection.
\<close>

definition worker_step :: "nat \<Rightarrow> polled \<Rightarrow> accepted \<Rightarrow> bool \<Rightarrow> server \<Rightarrow> server option" where
  "worker_step t x y ok s =
    (case workers s t of
       W_none \<Rightarrow> None
     | W_poll \<Rightarrow> epoll_answer t x s
     | W_accept \<Rightarrow> onAccept t y s
     | W_count \<Rightarrow> Some (move t W_poll (s\<lparr> CSocketsCounter := CSocketsCounter s + 1 \<rparr>))
     | W_busy c \<Rightarrow> Some (move t (W_add c) (s\<lparr> currentBusyWorkers := currentBusyWorkers s + 1 \<rparr>))
     | W_add c \<Rightarrow> Some (move t (if add_wanted s then W_add_locked c else W_handle c) s)
     | W_add_locked c \<Rightarrow> Some (spawn (add_number s 1 [ok]) (move t (W_handle c) s))
     | W_handle c \<Rightarrow> Some (move t (W_unbusy c ok) s)
     | W_unbusy c good \<Rightarrow> Some (move t (if good then W_rearm c else W_close c)
                                   (s\<lparr> currentBusyWorkers := currentBusyWorkers s - 1 \<rparr>))
     | W_rearm c \<Rightarrow> Some (if ok then move t W_poll (conn_at c C_armed s) else move t (W_close c) s)
     | W_close c \<Rightarrow> Some (move t W_uncount (conn_at c C_none s))
     | W_uncount \<Rightarrow> Some (uncount t s)
     | W_timeout \<Rightarrow> Some (timeout_locked t s)
     | W_exit k \<Rightarrow> Some (leave t k s)
     | W_clear \<Rightarrow> Some (move t W_gone (s\<lparr> freed := True \<rparr>))
     | W_gone \<Rightarrow> None)"

text \<open>
  The thread that starts the server, from the call of \<open>addQSSWorker\<close> in \<open>startSocketServer\<close> on, and
  stops it: \<open>shutdownSocketServer\<close> up to the shutting down of the listening socket, which
  ends the acceptance of connections and is reported by epoll.
\<close>

definition starter_step :: "bool list \<Rightarrow> server \<Rightarrow> server option" where
  "starter_step allocs s =
    (case starter s of
       M_workers \<Rightarrow> Some (spawn (if add_wanted s then add_number s (minThreads s) allocs else 0)
                         (s\<lparr> starter := M_running \<rparr>))
     | M_running \<Rightarrow> Some (s\<lparr> lifecycleStatus := 2, starter := M_idle \<rparr>)
     | M_idle \<Rightarrow> (case shutdownSocketServer (Some s) of
                   (r, Some s) \<Rightarrow> Some (if r = 1 then s\<lparr> starter := M_stop \<rparr> else s)
                 | (r, None) \<Rightarrow> None)
     | M_stop \<Rightarrow> Some (s\<lparr> listening := False, edge := True, starter := M_end \<rparr>)
     | M_end \<Rightarrow> None)"

datatype action = Worker nat polled accepted bool | Starter "bool list" | Client

fun act :: "action \<Rightarrow> server \<Rightarrow> server option" where
  "act (Worker t x y ok) s = worker_step t x y ok s"
| "act (Starter allocs) s = starter_step allocs s"
| "act Client s = (if listening s then Some (s\<lparr> backlog := backlog s + 1, edge := True \<rparr>) else None)"

definition server_step :: "server \<Rightarrow> action \<Rightarrow> server \<Rightarrow> bool" where
  "server_step s l s' \<longleftrightarrow> act l s = Some s'"

text \<open>The state in which \<open>startSocketServer\<close> calls \<open>addQSSWorker\<close>.\<close>

definition server_init :: "server \<Rightarrow> bool" where
  "server_init s \<longleftrightarrow> lifecycleStatus s = 1 \<and> workerCounter s = 0 \<and> currentBusyWorkers s = 0 \<and>
     CSocketsCounter s = 0 \<and> workers s = (\<lambda>t. W_none) \<and> next_worker s = 0 \<and> conns s = (\<lambda>c. C_none) \<and>
     listening s \<and> listen_armed s \<and> \<not> edge s \<and> backlog s = 0 \<and> starter s = M_workers \<and> \<not> freed s"

section \<open>The invariant\<close>

text \<open>The workers that are counted, those inside the handler's bracket, and the connection one works on.\<close>

fun counted :: "wpc \<Rightarrow> bool" where
  "counted W_none = False"
| "counted W_gone = False"
| "counted W_clear = False"
| "counted (W_exit k) = (k \<noteq> 2)"
| "counted p = True"

fun busy :: "wpc \<Rightarrow> bool" where
  "busy (W_add c) = True"
| "busy (W_add_locked c) = True"
| "busy (W_handle c) = True"
| "busy (W_unbusy c ok) = True"
| "busy p = False"

fun handling :: "wpc \<Rightarrow> nat option" where
  "handling (W_busy c) = Some c"
| "handling (W_add c) = Some c"
| "handling (W_add_locked c) = Some c"
| "handling (W_handle c) = Some c"
| "handling (W_unbusy c ok) = Some c"
| "handling (W_rearm c) = Some c"
| "handling (W_close c) = Some c"
| "handling p = None"

fun registered :: "cstat \<Rightarrow> bool" where
  "registered C_armed = True"
| "registered (C_handled t) = True"
| "registered x = False"

text \<open>Places from which a worker still uses the server's memory.\<close>

definition uses_server :: "wpc \<Rightarrow> bool" where
  "uses_server p \<longleftrightarrow> counted p \<or> p = W_clear"

definition threads_ok :: "server \<Rightarrow> bool" where
  "threads_ok s \<longleftrightarrow> (\<forall>t\<ge>next_worker s. workers s t = W_none) \<and>
     workerCounter s = count_at counted (workers s) \<and> workerCounter s \<le> uint (maxThreads s) \<and>
     currentBusyWorkers s = count_at busy (workers s)"

definition conns_ok :: "server \<Rightarrow> bool" where
  "conns_ok s \<longleftrightarrow> finite {c. conns s c \<noteq> C_none} \<and>
     CSocketsCounter s + count_at (\<lambda>p. p = W_count) (workers s) =
       count_at registered (conns s) + count_at (\<lambda>p. p = W_uncount) (workers s) \<and>
     (\<forall>t c. handling (workers s t) = Some c \<longleftrightarrow> conns s c = C_handled t)"

text \<open>The server is freed, or about to be, exactly when it is stopped and has no worker.\<close>

definition life_ok :: "server \<Rightarrow> bool" where
  "life_ok s \<longleftrightarrow>
     count_at (\<lambda>p. p = W_clear) (workers s) + of_bool (freed s) =
       of_bool (lifecycleStatus s \<ge> 4 \<and> workerCounter s = 0) \<and>
     lifecycleStatus s \<in> (case starter s of M_workers \<Rightarrow> {1} | M_running \<Rightarrow> {1} | M_idle \<Rightarrow> {2}
                           | M_stop \<Rightarrow> {3, 4} | M_end \<Rightarrow> {3, 4}) \<and>
     (listening s \<longleftrightarrow> starter s \<noteq> M_end)"

definition server_inv :: "server \<Rightarrow> bool" where
  "server_inv s \<longleftrightarrow> threads_ok s \<and> conns_ok s \<and> life_ok s"

lemma finite_workers:
  assumes "\<forall>t\<ge>n::nat. f t = W_none" "\<not> p W_none"
  shows "finite {t. p (f t)}"
proof (rule finite_subset)
  have "t < n" if "p (f t)" for t using assms that by (metis not_le)
  then show "{t. p (f t)} \<subseteq> {..<n}" by auto
qed simp

lemma count_move:
  assumes "threads_ok s" "\<not> p W_none"
  shows "count_at p ((workers s)(t := x)) =
    count_at p (workers s) - (if p (workers s t) then 1 else 0) + (if p x then 1 else 0)"
  using assms by (intro count_at_upd finite_workers [of "next_worker s"]) (auto simp: threads_ok_def)

lemma count_conn:
  assumes "conns_ok s"
  shows "count_at registered ((conns s)(c := x)) =
    count_at registered (conns s) - (if registered (conns s c) then 1 else 0) + (if registered x then 1 else 0)"
proof (intro count_at_upd)
  have "{c. registered (conns s c)} \<subseteq> {c. conns s c \<noteq> C_none}" by auto
  then show "finite {c. registered (conns s c)}" using assms by (auto simp: conns_ok_def intro: finite_subset)
qed

lemma conns_upd:
  "finite {c. conns s c \<noteq> C_none} \<Longrightarrow> finite {c. ((conns s)(k := x)) c \<noteq> C_none}"
  by (rule finite_subset [of _ "insert k {c. conns s c \<noteq> C_none}"]) auto

lemma count_nonneg: "0 \<le> count_at p f"
  by (simp add: count_at_def)

section \<open>The invariant is kept\<close>

lemma worker_known: "threads_ok s \<Longrightarrow> workers s t \<noteq> W_none \<Longrightarrow> t < next_worker s"
  unfolding threads_ok_def by (meson not_le)

lemma spawn_1:
  assumes inv: "server_inv s" and "workerCounter s + 1 \<le> uint (maxThreads s)"
    and "lifecycleStatus s \<ge> 4 \<longrightarrow> workerCounter s \<noteq> 0"
  shows "server_inv (s\<lparr> workers := (workers s)(next_worker s := W_poll), next_worker := next_worker s + 1,
                       workerCounter := workerCounter s + 1 \<rparr>)"
proof -
  have none: "workers s (next_worker s) = W_none" and th: "threads_ok s"
    using inv by (auto simp: server_inv_def threads_ok_def)
  note count = count_move [OF th, where t = "next_worker s" and x = W_poll]
  have "conns s c \<noteq> C_handled (next_worker s)" for c
    using inv none by (metis conns_ok_def handling.simps(8) option.distinct(1) server_inv_def)
  moreover have "workerCounter s \<ge> 0" using th by (simp add: threads_ok_def count_nonneg)
  ultimately show ?thesis
    using inv assms(2,3) none by (auto simp: server_inv_def threads_ok_def conns_ok_def life_ok_def count)
qed

lemma spawn_fields [simp]:
  "lifecycleStatus (spawn k s) = lifecycleStatus s" "starter (spawn k s) = starter s"
  "maxThreads (spawn k s) = maxThreads s" "minThreads (spawn k s) = minThreads s"
  "workerCounter (spawn k s) = workerCounter s + int k" "listening (spawn k s) = listening s"
  "conns (spawn k s) = conns s" "freed (spawn k s) = freed s" "listen_armed (spawn k s) = listen_armed s"
  "backlog (spawn k s) = backlog s" "edge (spawn k s) = edge s" "CSocketsCounter (spawn k s) = CSocketsCounter s"
  "currentBusyWorkers (spawn k s) = currentBusyWorkers s"
  by (induction k arbitrary: s) simp_all

lemma spawn_inv:
  "server_inv s \<Longrightarrow> workerCounter s + int k \<le> uint (maxThreads s) \<Longrightarrow>
   lifecycleStatus s \<ge> 4 \<longrightarrow> workerCounter s \<noteq> 0 \<Longrightarrow> server_inv (spawn k s)"
proof (induction k arbitrary: s)
  case (Suc k)
  have "workerCounter s \<ge> 0"
    using Suc.prems(1) by (simp add: server_inv_def threads_ok_def count_nonneg)
  with Suc.prems show ?case
    unfolding spawn.simps by (intro Suc.IH spawn_1) auto
qed simp

lemma inv_parts:
  assumes "server_inv s"
  shows "threads_ok s" "conns_ok s" "life_ok s"
  using assms by (auto simp: server_inv_def)

lemma counted_pos:
  assumes "threads_ok s" "counted (workers s t)"
  shows "workerCounter s > 0"
proof -
  have "finite {t. counted (workers s t)}"
    using assms(1) by (intro finite_workers [of "next_worker s"]) (auto simp: threads_ok_def)
  then have "0 < count_at counted (workers s)" using assms(2) by (rule count_at_pos)
  with assms(1) show ?thesis by (simp add: threads_ok_def)
qed

text \<open>One worker changes its place: what has to hold of the counters and of the connections.\<close>

lemma threads_change:
  assumes th: "threads_ok s" and "workers s t \<noteq> W_none"
    and "workers s' = (workers s)(t := p)" "next_worker s' = next_worker s" "maxThreads s' = maxThreads s"
    and "workerCounter s' = workerCounter s - of_bool (counted (workers s t)) + of_bool (counted p)"
    and "currentBusyWorkers s' = currentBusyWorkers s - of_bool (busy (workers s t)) + of_bool (busy p)"
    and "counted p \<Longrightarrow> counted (workers s t)"
  shows "threads_ok s'"
proof -
  have "t < next_worker s" using th assms(2) by (rule worker_known)
  then show ?thesis
    using assms unfolding threads_ok_def by (simp add: count_move [OF th] of_bool_def)
qed

lemma conns_change:
  assumes th: "threads_ok s" and cn: "conns_ok s"
    and "workers s' = (workers s)(t := p)" "conns s' = (conns s)(c := x)"
    and "CSocketsCounter s' = CSocketsCounter s + of_bool (registered x) - of_bool (registered (conns s c))
           + of_bool (workers s t = W_count) - of_bool (p = W_count)
           + of_bool (p = W_uncount) - of_bool (workers s t = W_uncount)"
    and "\<And>u d. handling (((workers s)(t := p)) u) = Some d \<longleftrightarrow> ((conns s)(c := x)) d = C_handled u"
  shows "conns_ok s'"
proof -
  have "finite {c. conns s c \<noteq> C_none}" using cn by (simp add: conns_ok_def)
  then have "finite {d. conns s' d \<noteq> C_none}" unfolding assms(4) by (rule conns_upd)
  moreover have "CSocketsCounter s + count_at (\<lambda>p. p = W_count) (workers s) =
       count_at registered (conns s) + count_at (\<lambda>p. p = W_uncount) (workers s)"
    using cn by (simp add: conns_ok_def)
  ultimately show ?thesis
    using assms(3-6) unfolding conns_ok_def by (simp add: count_move [OF th] count_conn [OF cn] of_bool_def)
qed

lemma conns_same:
  assumes "threads_ok s" "conns_ok s"
    and "workers s' = (workers s)(t := p)" "conns s' = conns s"
    and "CSocketsCounter s' = CSocketsCounter s
           + of_bool (workers s t = W_count) - of_bool (p = W_count)
           + of_bool (p = W_uncount) - of_bool (workers s t = W_uncount)"
    and "handling p = handling (workers s t)"
  shows "conns_ok s'"
proof (rule conns_change [OF assms(1-3)])
  show "conns s' = (conns s)(0 := conns s 0)" using assms(4) by simp
  show "handling (((workers s)(t := p)) u) = Some d \<longleftrightarrow> ((conns s)(0 := conns s 0)) d = C_handled u" for u d
    using assms(2,6) by (simp add: conns_ok_def)
qed (use assms(5) in simp)

lemma life_change:
  assumes th: "threads_ok s" and "life_ok s" and "workers s' = (workers s)(t := p)"
    and "starter s' = starter s" "listening s' = listening s"
    and "of_bool (lifecycleStatus s' \<ge> 4 \<and> workerCounter s' = 0) =
      of_bool (lifecycleStatus s \<ge> 4 \<and> workerCounter s = 0) + of_bool (p = W_clear)
        - of_bool (workers s t = W_clear) + of_bool (freed s') - (of_bool (freed s) :: int)"
    and "lifecycleStatus s' = lifecycleStatus s \<or> lifecycleStatus s \<ge> 3 \<and> lifecycleStatus s' = 4"
  shows "life_ok s'"
proof -
  have "lifecycleStatus s' \<in> (case starter s of M_workers \<Rightarrow> {1} | M_running \<Rightarrow> {1} | M_idle \<Rightarrow> {2}
                           | M_stop \<Rightarrow> {3, 4} | M_end \<Rightarrow> {3, 4})"
    using assms(2,7) unfolding life_ok_def by (cases "starter s") auto
  then show ?thesis
    using assms(2-6) unfolding life_ok_def by (simp add: count_move [OF th] of_bool_def)
qed

text \<open>
  Together: a step of worker \<open>t\<close> to place \<open>p\<close> that leaves the connections alone, and one that also
  changes connection \<open>c\<close>.
\<close>

lemma step_change:
  assumes "server_inv s" "workers s t \<noteq> W_none" "workers s' = (workers s)(t := p)"
    and "next_worker s' = next_worker s" "maxThreads s' = maxThreads s"
    and "starter s' = starter s" "listening s' = listening s"
    and "workerCounter s' = workerCounter s - of_bool (counted (workers s t)) + of_bool (counted p)"
    and "currentBusyWorkers s' = currentBusyWorkers s - of_bool (busy (workers s t)) + of_bool (busy p)"
    and "counted p \<Longrightarrow> counted (workers s t)"
    and "of_bool (lifecycleStatus s' \<ge> 4 \<and> workerCounter s' = 0) =
      of_bool (lifecycleStatus s \<ge> 4 \<and> workerCounter s = 0) + of_bool (p = W_clear)
        - of_bool (workers s t = W_clear) + of_bool (freed s') - (of_bool (freed s) :: int)"
    and "lifecycleStatus s' = lifecycleStatus s \<or> lifecycleStatus s \<ge> 3 \<and> lifecycleStatus s' = 4"
    and "conns_ok s'"
  shows "server_inv s'"
  using threads_change [OF inv_parts(1) [OF assms(1)] assms(2-5,8-10)]
    life_change [OF inv_parts(1,3) [OF assms(1)] assms(3,6,7,11,12)] assms(13)
  by (simp add: server_inv_def)

lemma same_change:
  assumes "server_inv s" "workers s t = q" "q \<noteq> W_none" "q \<noteq> W_clear"
    and "workers s' = (workers s)(t := p)" "next_worker s' = next_worker s" "maxThreads s' = maxThreads s"
    and "starter s' = starter s" "listening s' = listening s" "freed s' = freed s"
    and "lifecycleStatus s' = lifecycleStatus s" "conns s' = conns s"
    and "counted p" "counted q" "workerCounter s' = workerCounter s"
    and "currentBusyWorkers s' = currentBusyWorkers s - of_bool (busy q) + of_bool (busy p)"
    and "CSocketsCounter s' = CSocketsCounter s + of_bool (q = W_count) - of_bool (p = W_count)
           + of_bool (p = W_uncount) - of_bool (q = W_uncount)"
    and "handling p = handling q"
  shows "server_inv s'"
proof (rule step_change [OF assms(1) _ assms(5-9)])
  show "conns_ok s'"
    by (rule conns_same [OF inv_parts(1,2) [OF assms(1)] assms(5,12)]) (use assms(2,17,18) in simp_all)
qed (use assms in auto)

lemma move_fields [simp]:
  "workers (move t p s) = (workers s)(t := p)" "next_worker (move t p s) = next_worker s"
  "maxThreads (move t p s) = maxThreads s" "minThreads (move t p s) = minThreads s"
  "starter (move t p s) = starter s" "listening (move t p s) = listening s" "freed (move t p s) = freed s"
  "lifecycleStatus (move t p s) = lifecycleStatus s" "conns (move t p s) = conns s"
  "workerCounter (move t p s) = workerCounter s" "currentBusyWorkers (move t p s) = currentBusyWorkers s"
  "CSocketsCounter (move t p s) = CSocketsCounter s" "listen_armed (move t p s) = listen_armed s"
  "edge (move t p s) = edge s" "backlog (move t p s) = backlog s"
  by (simp_all add: move_def)

lemma conn_at_fields [simp]:
  "workers (conn_at c x s) = workers s" "next_worker (conn_at c x s) = next_worker s"
  "maxThreads (conn_at c x s) = maxThreads s" "minThreads (conn_at c x s) = minThreads s"
  "starter (conn_at c x s) = starter s" "listening (conn_at c x s) = listening s" "freed (conn_at c x s) = freed s"
  "lifecycleStatus (conn_at c x s) = lifecycleStatus s" "conns (conn_at c x s) = (conns s)(c := x)"
  "workerCounter (conn_at c x s) = workerCounter s" "currentBusyWorkers (conn_at c x s) = currentBusyWorkers s"
  "CSocketsCounter (conn_at c x s) = CSocketsCounter s" "listen_armed (conn_at c x s) = listen_armed s"
  "edge (conn_at c x s) = edge s" "backlog (conn_at c x s) = backlog s"
  by (simp_all add: conn_at_def)

lemma handling_iff: "conns_ok s \<Longrightarrow> handling (workers s t) = Some c \<longleftrightarrow> conns s c = C_handled t"
  by (simp add: conns_ok_def)

text \<open>A worker at a counted place changes the connection \<open>c\<close> as well.\<close>

lemma conn_change:
  assumes "server_inv s" "workers s t = q" "q \<noteq> W_none" "q \<noteq> W_clear"
    and "workers s' = (workers s)(t := p)" "next_worker s' = next_worker s" "maxThreads s' = maxThreads s"
    and "starter s' = starter s" "listening s' = listening s" "freed s' = freed s"
    and "lifecycleStatus s' = lifecycleStatus s" "conns s' = (conns s)(c := x)"
    and "counted p" "counted q" "workerCounter s' = workerCounter s" "busy q = busy p"
    and "currentBusyWorkers s' = currentBusyWorkers s" "CSocketsCounter s' = CSocketsCounter s"
    and "of_bool (registered x) - of_bool (registered (conns s c)) + of_bool (p = W_uncount) =
           (of_bool (p = W_count) :: int)" "q \<noteq> W_count" "q \<noteq> W_uncount"
    and "\<And>u d. handling (((workers s)(t := p)) u) = Some d \<longleftrightarrow> ((conns s)(c := x)) d = C_handled u"
  shows "server_inv s'"
proof (rule step_change [OF assms(1) _ assms(5-9)])
  show "conns_ok s'"
    by (rule conns_change [OF inv_parts(1,2) [OF assms(1)] assms(5,12)]) (use assms(2,18-22) in \<open>simp_all\<close>)
qed (use assms in auto)

lemma epoll_inv:
  assumes "server_inv s" "workers s t = W_poll" "epoll_answer t x s = Some s'"
  shows "server_inv s'"
proof -
  note cn = inv_parts(2) [OF assms(1)]
  show ?thesis
  proof (cases x)
    case P_listen
    then have "s' = move t W_accept (s\<lparr> edge := False \<rparr>)" using assms(3) by (simp add: epoll_answer_def split: if_splits)
    then show ?thesis by (intro same_change [OF assms(1,2), where p = W_accept]) simp_all
  next
    case (P_conn c)
    then have s': "s' = move t (W_busy c) (conn_at c (C_handled t) s)" and armed: "conns s c = C_armed"
      using assms(3) by (simp_all add: epoll_answer_def split: if_splits)
    have free: "handling (workers s u) \<noteq> Some c" "conns s d \<noteq> C_handled t" for u d
      using armed assms(2) handling_iff [OF cn, of u c] handling_iff [OF cn, of t d] by simp_all
    have "handling (((workers s)(t := W_busy c)) u) = Some d \<longleftrightarrow> ((conns s)(c := C_handled t)) d = C_handled u" for u d
      using free handling_iff [OF cn, of u d] by auto
    then show ?thesis
      using armed by (intro conn_change [OF assms(1,2), where p = "W_busy c" and c = c and x = "C_handled t"]) (simp_all add: s')
  next
    case P_timeout
    then have s': "s' = poll_timeout t s" using assms(3) by (simp add: epoll_answer_def)
    have "server_inv (move t W_timeout s)" "server_inv (move t (W_exit 4) s)"
      by (intro same_change [OF assms(1,2), where p = W_timeout] same_change [OF assms(1,2), where p = "W_exit 4"]; simp)+
    with assms(1) show ?thesis by (simp add: s' poll_timeout_def)
  next
    case P_error
    then have "s' = move t (W_exit 1) s" using assms(3) by (simp add: epoll_answer_def)
    then show ?thesis by (intro same_change [OF assms(1,2), where p = "W_exit 1"]) simp_all
  qed
qed

lemma accept_inv:
  assumes "server_inv s" "workers s t = W_accept" "onAccept t x s = Some s'"
  shows "server_inv s'"
proof -
  note cn = inv_parts(2) [OF assms(1)]
  have keep: "handling (((workers s)(t := p)) u) = Some d \<longleftrightarrow> ((conns s)(c := y)) d = C_handled u"
    if "conns s c = C_none" "handling p = None" "\<forall>u. y \<noteq> C_handled u" for p c y u d
    using that assms(2) handling_iff [OF cn, of u d] by auto
  show ?thesis
  proof (cases x)
    case Accept_fail
    then have "s' = move t W_poll (s\<lparr> listen_armed := False \<rparr>)" using assms(3) by (simp add: onAccept_def)
    then show ?thesis by (intro same_change [OF assms(1,2), where p = W_poll]) simp_all
  next
    case (Accept_leak c)
    then have s': "s' = move t W_poll (conn_at c C_leaked (s\<lparr> backlog := backlog s - 1 \<rparr>))" and "conns s c = C_none"
      using assms(3) by (simp_all add: onAccept_def split: if_splits)
    then show ?thesis using keep
      by (intro conn_change [OF assms(1,2), where p = W_poll and c = c and x = C_leaked]) simp_all
  next
    case (Accept_ok c)
    then have s': "s' = move t W_count (conn_at c C_armed (s\<lparr> backlog := backlog s - 1 \<rparr>))" and "conns s c = C_none"
      using assms(3) by (simp_all add: onAccept_def split: if_splits)
    then show ?thesis using keep
      by (intro conn_change [OF assms(1,2), where p = W_count and c = c and x = C_armed]) simp_all
  qed
qed

lemma uncount_inv:
  assumes "server_inv s" "workers s t = W_uncount"
  shows "server_inv (uncount t s)"
proof -
  have pos: "workerCounter s > 0" using inv_parts(1) [OF assms(1)] assms(2) by (intro counted_pos [of s t]) simp_all
  let ?s = "s\<lparr> CSocketsCounter := CSocketsCounter s - 1 \<rparr>"
  have "server_inv (move t W_poll ?s)" by (intro same_change [OF assms, where p = W_poll]) simp_all
  moreover have "server_inv (move t (W_exit 3) (?s\<lparr> lifecycleStatus := 4 \<rparr>))" (is "server_inv ?s'") if "lifecycleStatus ?s \<ge> 3"
  proof (rule step_change [OF assms(1), where t = t and p = "W_exit 3"])
    show "conns_ok ?s'"
      by (rule conns_same [OF inv_parts(1,2) [OF assms(1)], where t = t and p = "W_exit 3"]) (use assms(2) in simp_all)
  qed (use assms(2) that pos in simp_all)
  ultimately show ?thesis unfolding uncount_def Let_def by (split if_split) blast
qed

lemma timeout_inv:
  assumes "server_inv s" "workers s t = W_timeout"
  shows "server_inv (timeout_locked t s)"
proof -
  have "server_inv (move t W_poll s)" by (intro same_change [OF assms, where p = W_poll]) simp_all
  moreover have "server_inv (move t (W_exit 2) (s\<lparr> workerCounter := workerCounter s - 1 \<rparr>))" (is "server_inv ?s'")
    if "lifecycleStatus s \<le> 3"
  proof (rule step_change [OF assms(1), where t = t and p = "W_exit 2"])
    show "conns_ok ?s'"
      by (rule conns_same [OF inv_parts(1,2) [OF assms(1)], where t = t and p = "W_exit 2"]) (use assms(2) in simp_all)
  qed (use assms(2) that in simp_all)
  ultimately show ?thesis by (simp add: timeout_locked_def)
qed

lemma leave_inv:
  assumes "server_inv s" "workers s t = W_exit k"
  shows "server_inv (leave t k s)"
proof -
  have "server_inv (move t p (if k = 2 then s else s\<lparr> workerCounter := workerCounter s - 1 \<rparr>))" (is "server_inv ?s'")
    if p_def: "p = (if k \<noteq> 2 \<and> workerCounter s = 1 \<and> lifecycleStatus s \<ge> 4 then W_clear else W_gone)" for p
  proof (rule step_change [OF assms(1), where t = t and p = p])
    have p: "handling p = None" "p \<noteq> W_count" "p \<noteq> W_uncount" using p_def by simp_all
    show "conns_ok ?s'"
      by (rule conns_same [OF inv_parts(1,2) [OF assms(1)], where t = t and p = p])
        (use assms(2) p in simp_all)
    have "k \<noteq> 2 \<longrightarrow> workerCounter s > 0"
      using counted_pos [OF inv_parts(1) [OF assms(1)], of t] assms(2) by simp
    then show "of_bool (lifecycleStatus ?s' \<ge> 4 \<and> workerCounter ?s' = 0) =
      of_bool (lifecycleStatus s \<ge> 4 \<and> workerCounter s = 0) + of_bool (p = W_clear)
        - of_bool (workers s t = W_clear) + of_bool (freed ?s') - (of_bool (freed s) :: int)"
      using that assms(2) by auto
  qed (use assms(2) that in auto)
  then show ?thesis by (auto simp: leave_def Let_def)
qed

lemma clear_inv:
  assumes "server_inv s" "workers s t = W_clear"
  shows "server_inv (move t W_gone (s\<lparr> freed := True \<rparr>))" (is "server_inv ?s'")
proof (rule step_change [OF assms(1), where t = t and p = W_gone])
  have "finite {t. workers s t = W_clear}"
    using inv_parts(1) [OF assms(1)] by (intro finite_workers [of "next_worker s"]) (auto simp: threads_ok_def)
  then have "0 < count_at (\<lambda>p. p = W_clear) (workers s)" using assms(2) by (rule count_at_pos)
  with inv_parts(3) [OF assms(1)] have "\<not> freed s" by (auto simp: life_ok_def of_bool_def split: if_splits)
  then show "of_bool (lifecycleStatus ?s' \<ge> 4 \<and> workerCounter ?s' = 0) =
      of_bool (lifecycleStatus s \<ge> 4 \<and> workerCounter s = 0) + of_bool (W_gone = W_clear)
        - of_bool (workers s t = W_clear) + of_bool (freed ?s') - (of_bool (freed s) :: int)"
    using assms(2) by simp
  show "conns_ok ?s'"
    by (rule conns_same [OF inv_parts(1,2) [OF assms(1)], where t = t and p = W_gone]) (use assms(2) in simp_all)
qed (use assms(2) in simp_all)

lemma rearm_inv:
  assumes "server_inv s" "workers s t = W_rearm c"
  shows "server_inv (move t W_poll (conn_at c C_armed s))"
proof -
  note cn = inv_parts(2) [OF assms(1)]
  have h: "conns s c = C_handled t" using handling_iff [OF cn, of t c] assms(2) by simp
  have "handling (((workers s)(t := W_poll)) u) = Some d \<longleftrightarrow> ((conns s)(c := C_armed)) d = C_handled u" for u d
    using h handling_iff [OF cn, of u d] handling_iff [OF cn, of t d] assms(2) by auto
  then show ?thesis
    using h by (intro conn_change [OF assms, where p = W_poll and c = c and x = C_armed]) simp_all
qed

lemma close_inv:
  assumes "server_inv s" "workers s t = W_close c"
  shows "server_inv (move t W_uncount (conn_at c C_none s))"
proof -
  note cn = inv_parts(2) [OF assms(1)]
  have h: "conns s c = C_handled t" using handling_iff [OF cn, of t c] assms(2) by simp
  have "handling (((workers s)(t := W_uncount)) u) = Some d \<longleftrightarrow> ((conns s)(c := C_none)) d = C_handled u" for u d
    using h handling_iff [OF cn, of u d] handling_iff [OF cn, of t d] assms(2) by auto
  then show ?thesis
    using h by (intro conn_change [OF assms, where p = W_uncount and c = c and x = C_none]) simp_all
qed

lemma add_inv:
  assumes "server_inv s" "workers s t = W_add_locked c"
  shows "server_inv (spawn (add_number s 1 [ok]) (move t (W_handle c) s))"
proof (rule spawn_inv)
  show "server_inv (move t (W_handle c) s)" by (intro same_change [OF assms, where p = "W_handle c"]) simp_all
  have "workerCounter s \<le> uint (maxThreads s)" using inv_parts(1) [OF assms(1)] by (simp add: threads_ok_def)
  then show "workerCounter (move t (W_handle c) s) + int (add_number s 1 [ok]) \<le> uint (maxThreads (move t (W_handle c) s))"
    by (simp add: add_number_bound)
  have "workerCounter s > 0" using inv_parts(1) [OF assms(1)] assms(2) by (intro counted_pos [of s t]) simp_all
  then show "4 \<le> lifecycleStatus (move t (W_handle c) s) \<longrightarrow> workerCounter (move t (W_handle c) s) \<noteq> 0" by simp
qed

lemma worker_step_inv:
  assumes "server_inv s" "worker_step t x y ok s = Some s'"
  shows "server_inv s'"
proof (cases "workers s t")
  case W_count
  then show ?thesis using assms(2)
    by (intro same_change [OF assms(1), where t = t and p = W_poll]) (simp_all add: worker_step_def, auto)
next
  case (W_busy c)
  then show ?thesis using assms(2)
    by (intro same_change [OF assms(1), where t = t and p = "W_add c"]) (simp_all add: worker_step_def, auto)
next
  case (W_add c)
  have "server_inv (move t (W_add_locked c) s)" "server_inv (move t (W_handle c) s)"
    by (intro same_change [OF assms(1) W_add, where p = "W_add_locked c"]
        same_change [OF assms(1) W_add, where p = "W_handle c"]; simp)+
  then show ?thesis using W_add assms(2) by (auto simp: worker_step_def split: if_splits)
next
  case (W_handle c)
  have "server_inv (move t (W_unbusy c ok) s)"
    by (intro same_change [OF assms(1) W_handle, where p = "W_unbusy c ok"]) simp_all
  then show ?thesis using W_handle assms(2) by (simp add: worker_step_def)
next
  case (W_unbusy c good)
  let ?s = "s\<lparr> currentBusyWorkers := currentBusyWorkers s - 1 \<rparr>"
  have "server_inv (move t (W_rearm c) ?s)" "server_inv (move t (W_close c) ?s)"
    by (intro same_change [OF assms(1) W_unbusy, where p = "W_rearm c"]
        same_change [OF assms(1) W_unbusy, where p = "W_close c"]; simp)+
  then show ?thesis using W_unbusy assms(2) by (auto simp: worker_step_def split: if_splits)
next
  case (W_rearm c)
  have "server_inv (move t (W_close c) s)"
    by (intro same_change [OF assms(1) W_rearm, where p = "W_close c"]) simp_all
  then show ?thesis using W_rearm assms(2) rearm_inv [OF assms(1) W_rearm] by (auto simp: worker_step_def split: if_splits)
next
  case W_none
  then show ?thesis using assms(2) by (simp add: worker_step_def)
next
  case W_poll
  then show ?thesis using assms(2) epoll_inv [OF assms(1)] by (simp add: worker_step_def)
next
  case W_accept
  then show ?thesis using assms(2) accept_inv [OF assms(1)] by (simp add: worker_step_def)
next
  case (W_add_locked c)
  then show ?thesis using assms(2) add_inv [OF assms(1) W_add_locked] by (auto simp: worker_step_def)
next
  case (W_close c)
  then show ?thesis using assms(2) close_inv [OF assms(1) W_close] by (auto simp: worker_step_def)
next
  case W_uncount
  then show ?thesis using assms(2) uncount_inv [OF assms(1) W_uncount] by (auto simp: worker_step_def)
next
  case W_timeout
  then show ?thesis using assms(2) timeout_inv [OF assms(1) W_timeout] by (auto simp: worker_step_def)
next
  case (W_exit k)
  then show ?thesis using assms(2) leave_inv [OF assms(1) W_exit] by (auto simp: worker_step_def)
next
  case W_clear
  then show ?thesis using assms(2) clear_inv [OF assms(1) W_clear] by (auto simp: worker_step_def)
next
  case W_gone
  then show ?thesis using assms(2) by (simp add: worker_step_def)
qed

text \<open>A change of the life cycle only.\<close>

lemma cycle_change:
  assumes "server_inv s" "workers s' = workers s" "next_worker s' = next_worker s" "maxThreads s' = maxThreads s"
    and "workerCounter s' = workerCounter s" "currentBusyWorkers s' = currentBusyWorkers s"
    and "CSocketsCounter s' = CSocketsCounter s" "conns s' = conns s" "freed s' = freed s"
    and "lifecycleStatus s' \<ge> 4 \<longleftrightarrow> lifecycleStatus s \<ge> 4"
    and "lifecycleStatus s' \<in> (case starter s' of M_workers \<Rightarrow> {1} | M_running \<Rightarrow> {1} | M_idle \<Rightarrow> {2}
                           | M_stop \<Rightarrow> {3, 4} | M_end \<Rightarrow> {3, 4})"
    and "listening s' \<longleftrightarrow> starter s' \<noteq> M_end"
  shows "server_inv s'"
proof -
  have "threads_ok s'" using inv_parts(1) [OF assms(1)] assms(2-6) by (simp add: threads_ok_def)
  moreover have "conns_ok s'" using inv_parts(2) [OF assms(1)] assms(2,7,8) by (simp add: conns_ok_def)
  moreover have "life_ok s'" using inv_parts(3) [OF assms(1)] assms(2,5,9-12) by (simp add: life_ok_def)
  ultimately show ?thesis by (simp add: server_inv_def)
qed

lemma starter_inv:
  assumes "server_inv s" "starter_step allocs s = Some s'"
  shows "server_inv s'"
proof -
  have life: "lifecycleStatus s \<in> (case starter s of M_workers \<Rightarrow> {1} | M_running \<Rightarrow> {1} | M_idle \<Rightarrow> {2}
                           | M_stop \<Rightarrow> {3, 4} | M_end \<Rightarrow> {3, 4})"
    and lis: "listening s \<longleftrightarrow> starter s \<noteq> M_end"
    using inv_parts(3) [OF assms(1)] by (simp_all add: life_ok_def)
  show ?thesis
  proof (cases "starter s")
    case M_workers
    let ?s = "s\<lparr> starter := M_running \<rparr>" and ?k = "if add_wanted s then add_number s (minThreads s) allocs else 0"
    have one: "lifecycleStatus s = 1" using life M_workers by simp
    have s: "server_inv ?s" by (rule cycle_change [OF assms(1)]) (use one lis M_workers in simp_all)
    have "workerCounter s \<le> uint (maxThreads s)" using inv_parts(1) [OF assms(1)] by (simp add: threads_ok_def)
    then have "workerCounter ?s + int ?k \<le> uint (maxThreads ?s)" by (simp add: add_number_bound)
    with s one have "server_inv (spawn ?k ?s)" by (intro spawn_inv) simp_all
    then show ?thesis using assms(2) M_workers by (simp add: starter_step_def)
  next
    case M_running
    then have "s' = s\<lparr> lifecycleStatus := 2, starter := M_idle \<rparr>" using assms(2) by (simp add: starter_step_def)
    then show ?thesis by (intro cycle_change [OF assms(1)]) (use life lis M_running in simp_all)
  next
    case M_idle
    then have "lifecycleStatus s = 2" using life by simp
    with M_idle have "s' = s\<lparr> lifecycleStatus := 3, starter := M_stop \<rparr>"
      using assms(2) by (simp add: starter_step_def shutdownSocketServer_def)
    then show ?thesis by (intro cycle_change [OF assms(1)]) (use life lis M_idle in simp_all)
  next
    case M_stop
    then have "s' = s\<lparr> listening := False, edge := True, starter := M_end \<rparr>"
      using assms(2) by (simp add: starter_step_def)
    then show ?thesis by (intro cycle_change [OF assms(1)]) (use life lis M_stop in simp_all)
  next
    case M_end
    then show ?thesis using assms(2) by (simp add: starter_step_def)
  qed
qed

lemma act_inv: "server_inv s \<Longrightarrow> act l s = Some s' \<Longrightarrow> server_inv s'"
proof (induction l s rule: act.induct)
  case (3 s)
  then show ?case by (auto simp: server_inv_def threads_ok_def conns_ok_def life_ok_def split: if_splits)
qed (auto intro: worker_step_inv starter_inv)

lemma init_inv: "server_init s \<Longrightarrow> server_inv s"
  by (simp add: server_init_def server_inv_def threads_ok_def conns_ok_def life_ok_def count_at_def)

interpretation socket_server: invariant_system server_init server_step server_inv
  by unfold_locales (auto simp: server_step_def intro: init_inv act_inv)

text \<open>Runs of the executable step.\<close>

fun acts :: "action list \<Rightarrow> server \<Rightarrow> server option" where
  "acts [] s = Some s"
| "acts (l # ls) s = (case act l s of None \<Rightarrow> None | Some s \<Rightarrow> acts ls s)"

lemma acts_run: "acts ls s = Some s' \<Longrightarrow> run server_step s ls s'"
  by (induction ls arbitrary: s) (auto simp: run_Cons server_step_def split: option.splits)

lemma acts_reachable: "server_init s \<Longrightarrow> acts ls s = Some s' \<Longrightarrow> reachable server_init server_step s'"
  by (blast intro: run_reachable acts_run reachable.start)

lemma count_le:
  assumes "finite {t. q (f t)}" "\<And>x. p x \<Longrightarrow> q x"
  shows "count_at p f \<le> count_at q f"
  using assms by (auto simp: count_at_def intro: card_mono)

section \<open>Properties\<close>

text \<open>A running server whose limits are \<open>m\<close> and \<open>n\<close> workers.\<close>

definition fresh_server :: "u16 \<Rightarrow> u16 \<Rightarrow> server" where
  "fresh_server m n = \<lparr> passive_mode = 0, listen_port = 6633, minThreads = m, maxThreads = n, lifecycleStatus = 1,
     workerWaitTimeout = 20000, workerCounter = 0, currentBusyWorkers = 0, CSocketsCounter = 0,
     has_cslifecb = True, default_protoHandler = False, server_s = 3, sin_port = 0, epollFD = 4, BSendEpollFD = 5,
     workers = (\<lambda>t. W_none), next_worker = 0, conns = (\<lambda>c. C_none), listening = True, listen_armed = True,
     edge = False, backlog = 0, starter = M_workers, freed = False \<rparr>"

lemma fresh_init: "server_init (fresh_server m n)"
  by (simp add: server_init_def fresh_server_def)

text \<open>A worker takes the places of a step in which no answer is open.\<close>

abbreviation go_on :: "nat \<Rightarrow> action" where
  "go_on t \<equiv> Worker t P_timeout Accept_fail True"

text \<open>One client connects and is served by worker 0 with the handler's answer \<open>ok\<close>, with two workers.\<close>

definition one_client :: "action list" where
  "one_client = [Starter [True, True], Starter [], Client, Worker 0 P_listen Accept_fail True,
     Worker 0 P_timeout (Accept_ok 7) True, go_on 0, Worker 0 (P_conn 7) Accept_fail True]"

text \<open>The state after a run has the property.\<close>

definition after :: "action list \<Rightarrow> server \<Rightarrow> (server \<Rightarrow> bool) \<Rightarrow> bool" where
  "after ls s p \<longleftrightarrow> (case acts ls s of None \<Rightarrow> False | Some s \<Rightarrow> p s)"

lemma after_reachable: "after ls (fresh_server m n) p \<Longrightarrow> \<exists>s. reachable server_init server_step s \<and> p s"
  by (auto simp: after_def intro: acts_reachable fresh_init split: option.splits)

lemma after_Nil: "after [] s p = p s"
  by (simp add: after_def)

lemma after_Cons: "after (l # ls) s p = (case act l s of None \<Rightarrow> False | Some s \<Rightarrow> after ls s p)"
  by (simp add: after_def split: option.splits)

lemma spawn_numeral: "spawn (numeral k) s =
    spawn (pred_numeral k) (s\<lparr> workers := (workers s)(next_worker s := W_poll), next_worker := next_worker s + 1,
               workerCounter := workerCounter s + 1 \<rparr>)"
  by (simp add: numeral_eq_Suc)

lemmas run_defs = after_Nil after_Cons spawn_numeral one_client_def fresh_server_def worker_step_def starter_step_def
  epoll_answer_def onAccept_def poll_timeout_def timeout_locked_def uncount_def leave_def add_number_def add_wanted_def
  shutdownSocketServer_def move_def conn_at_def Let_def

lemma after_go: "act l s = Some s' \<Longrightarrow> after ls s' p \<Longrightarrow> after (l # ls) s p"
  by (simp add: after_Cons)

text \<open>
  C4. The counters of the running server. In every reachable state, for any number of workers and
  connections and any interleaving, \<open>workerCounter\<close> is the number of workers that have not left and
  never exceeds \<open>maxThreads\<close>, \<open>currentBusyWorkers\<close> is the number of them that are between the two
  updates around the handler, and \<open>CSocketsCounter\<close> is the number of registered connections, plus the
  number of workers that have closed one and are about to discount it, minus the number of workers that
  have registered one and are about to count it.
\<close>

theorem server_counters:
  assumes "reachable server_init server_step s"
  shows "workerCounter s = int (card {t. counted (workers s t)}) \<and> workerCounter s \<le> uint (maxThreads s) \<and>
    currentBusyWorkers s = int (card {t. busy (workers s t)}) \<and> currentBusyWorkers s \<le> workerCounter s \<and>
    CSocketsCounter s = int (card {c. registered (conns s c)}) + int (card {t. workers s t = W_uncount})
      - int (card {t. workers s t = W_count})"
proof -
  note inv = socket_server.reachable_inv [OF assms]
  note th = inv_parts(1) [OF inv] and cn = inv_parts(2) [OF inv]
  have "finite {t. counted (workers s t)}"
    using th by (intro finite_workers [of "next_worker s"]) (auto simp: threads_ok_def)
  then have "count_at busy (workers s) \<le> count_at counted (workers s)"
    by (rule count_le) (auto elim: busy.elims)
  then show ?thesis using th cn by (auto simp: threads_ok_def conns_ok_def count_at_def)
qed

theorem server_counters_witness:
  "\<exists>s :: server. workerCounter s = 2 \<and> int (card {t. counted (workers s t)}) = 2 \<and> busy (workers s 0) \<and>
    int (card {t. busy (workers s t)}) = 1"
proof -
  have "after (one_client @ [go_on 0]) (fresh_server 2 3) (\<lambda>s. workerCounter s = 2 \<and> currentBusyWorkers s = 1 \<and> busy (workers s 0))"
    unfolding one_client_def fresh_server_def append.simps by (rule after_go, simp add: run_defs)+ (simp add: run_defs)
  from after_reachable [OF this] obtain s where "reachable server_init server_step s"
    "workerCounter s = 2 \<and> currentBusyWorkers s = 1 \<and> busy (workers s 0)" by blast
  then show ?thesis using server_counters [of s] by auto
qed

text \<open>
  C5. Workers do not share a connection, and the server is released once, after its last use. In every
  reachable state two workers never work on the same connection; when the server's memory has been
  released, or is about to be by the worker that found itself the last, the server was stopped and no
  other worker will access it.
\<close>

theorem server_exclusive:
  assumes "reachable server_init server_step s"
  shows "(\<forall>t u c. handling (workers s t) = Some c \<and> handling (workers s u) = Some c \<longrightarrow> t = u) \<and>
    (\<forall>t. workers s t = W_clear \<longrightarrow> lifecycleStatus s = 4 \<and> \<not> freed s \<and> (\<forall>u. u \<noteq> t \<longrightarrow> \<not> uses_server (workers s u))) \<and>
    (freed s \<longrightarrow> lifecycleStatus s = 4 \<and> (\<forall>u. \<not> uses_server (workers s u)))"
proof -
  note inv = socket_server.reachable_inv [OF assms]
  note th = inv_parts(1) [OF inv] and cn = inv_parts(2) [OF inv] and life = inv_parts(3) [OF inv]
  have fin: "finite {t. p (workers s t)}" if "\<not> p W_none" for p
    using th that by (intro finite_workers [of "next_worker s"]) (auto simp: threads_ok_def)
  have none: "\<not> counted (workers s u)" if "workerCounter s = 0" for u
    using that counted_pos [OF th, of u] by auto
  have one: "workers s u \<noteq> W_clear" if "workers s t = W_clear" "u \<noteq> t" for t u
  proof
    assume "workers s u = W_clear"
    with that have "{t, u} \<subseteq> {t. workers s t = W_clear}" by auto
    then have "card {t, u} \<le> card {t. workers s t = W_clear}" by (rule card_mono [OF fin, rotated]) simp
    moreover have "count_at (\<lambda>p. p = W_clear) (workers s) \<le> 1" using life by (auto simp: life_ok_def of_bool_def split: if_splits)
    ultimately show False using that(2) by (simp add: count_at_def)
  qed
  have four: "lifecycleStatus s \<le> 4" using life by (auto simp: life_ok_def split: mpc.splits)
  have stopped: "lifecycleStatus s = 4 \<and> workerCounter s = 0 \<and> \<not> freed s" if "workers s t = W_clear" for t
  proof -
    have "finite {t. workers s t = W_clear}" by (rule fin) simp
    then have "0 < count_at (\<lambda>p. p = W_clear) (workers s)" using that by (rule count_at_pos)
    then show ?thesis using life four by (auto simp: life_ok_def of_bool_def split: if_splits)
  qed
  have gone: "lifecycleStatus s = 4 \<and> workerCounter s = 0 \<and> (\<forall>t. workers s t \<noteq> W_clear)" if "freed s"
    using that stopped life four count_nonneg [of "\<lambda>p. p = W_clear" "workers s"]
    by (auto simp: life_ok_def of_bool_def split: if_splits)
  show ?thesis
  proof (intro conjI allI impI)
    show "t = u" if "handling (workers s t) = Some c \<and> handling (workers s u) = Some c" for t u c
    proof -
      from that have "conns s c = C_handled t" "conns s c = C_handled u" using handling_iff [OF cn] by blast+
      then show ?thesis by (simp only: cstat.inject)
    qed
    show "\<not> uses_server (workers s u)" if "workers s t = W_clear" "u \<noteq> t" for t u
      using none [of u] one [OF that] stopped [OF that(1)] by (simp add: uses_server_def)
    show "\<not> uses_server (workers s u)" if "freed s" for u
      using none [of u] gone [OF that] by (simp add: uses_server_def)
  qed (use stopped gone in blast)+
qed

theorem server_exclusive_witness:
  "\<exists>s :: server. handling (workers s 0) = Some 7 \<and> handling (workers s 1) \<noteq> Some 7"
proof -
  have "after one_client (fresh_server 2 3) (\<lambda>s. handling (workers s 0) = Some 7)"
    unfolding one_client_def fresh_server_def by (rule after_go, simp add: run_defs)+ (simp add: run_defs)
  from after_reachable [OF this] obtain s where "reachable server_init server_step s" "handling (workers s 0) = Some 7"
    by blast
  moreover from this have "handling (workers s 1) \<noteq> Some 7"
    using conjunct1 [OF server_exclusive [of s]] by (metis zero_neq_one)
  ultimately show ?thesis by blast
qed

text \<open>The server was told to stop, and no connection is left whose closing could complete it.\<close>

definition stuck_stopping :: "server \<Rightarrow> bool" where
  "stuck_stopping s \<longleftrightarrow> server_inv s \<and> lifecycleStatus s = 3 \<and> \<not> listening s \<and> (\<forall>c. \<not> registered (conns s c)) \<and>
     (\<forall>t. workers s t \<noteq> W_count \<and> workers s t \<noteq> W_uncount)"

lemma spawn_workers: "workers (spawn k s) t = workers s t \<or> workers (spawn k s) t = W_poll"
proof (induction k arbitrary: s)
  case (Suc k)
  let ?s = "s\<lparr> workers := (workers s)(next_worker s := W_poll), next_worker := next_worker s + 1,
               workerCounter := workerCounter s + 1 \<rparr>"
  show ?case using Suc [of ?s] by (cases "t = next_worker s") simp_all
qed simp

lemma stuck_no_handler:
  assumes "stuck_stopping s"
  shows "handling (workers s t) = None"
proof (cases "handling (workers s t)")
  case (Some c)
  then have "conns s c = C_handled t" using assms handling_iff by (auto simp: stuck_stopping_def server_inv_def)
  then show ?thesis using assms by (auto simp: stuck_stopping_def dest: spec [of _ c])
qed

lemma stuck_step:
  assumes "stuck_stopping s" "act l s = Some s'"
  shows "stuck_stopping s'"
proof -
  have inv: "server_inv s'" using assms act_inv by (auto simp: stuck_stopping_def)
  have ended: "starter s = M_end" using assms(1) by (auto simp: stuck_stopping_def server_inv_def life_ok_def)
  have armed: "conns s c \<noteq> C_armed" for c using assms(1) by (metis registered.simps(1) stuck_stopping_def)
  show ?thesis
  proof (cases l)
    case (Worker t x y ok)
    with assms(2) have w: "worker_step t x y ok s = Some s'" by simp
    have "lifecycleStatus s' = 3 \<and> \<not> listening s' \<and> conns s' = conns s \<and>
        (\<forall>u. workers s' u \<noteq> W_count \<and> workers s' u \<noteq> W_uncount)"
    proof (cases "workers s t")
      case W_poll
      then show ?thesis using w assms(1) armed
        by (auto simp: worker_step_def epoll_answer_def poll_timeout_def stuck_stopping_def split: polled.splits if_splits)
    next
      case W_accept
      then show ?thesis using w assms(1)
        by (auto simp: worker_step_def onAccept_def stuck_stopping_def split: accepted.splits if_splits)
    next
      case W_timeout
      then show ?thesis using w assms(1)
        by (auto simp: worker_step_def timeout_locked_def stuck_stopping_def split: if_splits)
    next
      case (W_exit k)
      then show ?thesis using w assms(1)
        by (auto simp: worker_step_def leave_def Let_def stuck_stopping_def split: if_splits)
    qed (use w assms(1) stuck_no_handler [OF assms(1), of t] in
         \<open>auto simp: worker_step_def stuck_stopping_def split: if_splits\<close>)
    then show ?thesis using inv assms(1) by (auto simp: stuck_stopping_def)
  next
    case (Starter allocs)
    then show ?thesis using assms(2) ended by (simp add: starter_step_def)
  next
    case Client
    then show ?thesis using assms by (simp add: stuck_stopping_def)
  qed
qed

interpretation stopping: invariant_system stuck_stopping server_step stuck_stopping
  by unfold_locales (auto simp: server_step_def intro: stuck_step)

text \<open>
  C33. Stopping a server without connections never completes. Once the status is 3, the listening socket
  shut down and no connection is registered or about to be counted or discounted, the status stays 3
  and the server is never released in any continuation: only the closing of a last connection moves on.
\<close>

theorem server_shutdown_idle:
  assumes "reachable server_init server_step s" "lifecycleStatus s = 3" "\<not> listening s"
    and "\<forall>c. \<not> registered (conns s c)" "\<forall>t. workers s t \<noteq> W_count \<and> workers s t \<noteq> W_uncount"
    and "run server_step s ls s'"
  shows "lifecycleStatus s' = 3 \<and> \<not> freed s' \<and> (\<forall>t. workers s' t \<noteq> W_clear)"
proof -
  have "stuck_stopping s"
    using assms(2-5) socket_server.reachable_inv [OF assms(1)] by (simp add: stuck_stopping_def)
  with assms(6) have s': "stuck_stopping s'" by (rule stopping.run_inv)
  then have life: "life_ok s'" "threads_ok s'" "lifecycleStatus s' = 3" by (simp_all add: stuck_stopping_def server_inv_def)
  have fin: "finite {t. workers s' t = W_clear}"
    using life(2) by (intro finite_workers [of "next_worker s'"]) (auto simp: threads_ok_def)
  have "count_at (\<lambda>p. p = W_clear) (workers s') + of_bool (freed s') = 0"
    using life(1,3) by (simp add: life_ok_def)
  with count_nonneg [of "\<lambda>p. p = W_clear" "workers s'"]
  have "\<not> freed s'" "count_at (\<lambda>p. p = W_clear) (workers s') = 0" by (auto simp: of_bool_def split: if_splits)
  then show ?thesis using life(3) fin by (simp add: count_at_0)
qed

text \<open>Two workers, nobody connected, and the server stopped.\<close>

definition idle_stop :: "action list" where
  "idle_stop = [Starter [True, True], Starter [], Starter [], Starter [], Worker 0 P_listen Accept_fail True, go_on 0]"

theorem server_shutdown_idle_witness:
  "\<exists>s s'. lifecycleStatus s = 3 \<and> run server_step s [go_on 0, go_on 1] s' \<and> lifecycleStatus s' = 3 \<and> \<not> freed s'"
proof -
  have "after idle_stop (fresh_server 2 3) (\<lambda>s. lifecycleStatus s = 3 \<and> \<not> listening s \<and> (\<forall>c. \<not> registered (conns s c)) \<and>
      (\<forall>t. workers s t \<noteq> W_count \<and> workers s t \<noteq> W_uncount) \<and> after [go_on 0, go_on 1] s (\<lambda>s. True))"
    unfolding idle_stop_def fresh_server_def
    by (rule after_go, simp add: run_defs)+ (simp add: run_defs)
  from after_reachable [OF this] obtain s where s: "reachable server_init server_step s" "lifecycleStatus s = 3"
    "\<not> listening s" "\<forall>c. \<not> registered (conns s c)" "\<forall>t. workers s t \<noteq> W_count \<and> workers s t \<noteq> W_uncount"
    and "after [go_on 0, go_on 1] s (\<lambda>s. True)" by blast
  then obtain s' where r: "run server_step s [go_on 0, go_on 1] s'"
    by (auto simp: after_def simp del: acts.simps intro: acts_run split: option.splits)
  from server_shutdown_idle [OF s r] s(2) r show ?thesis by blast
qed

text \<open>Places from which time-outs alone lead on.\<close>

definition resting :: "wpc \<Rightarrow> bool" where
  "resting p \<longleftrightarrow> p \<in> {W_none, W_poll, W_clear, W_gone} \<or> (\<exists>k. p = W_exit k)"

lemma release:
  assumes "server_inv s" "lifecycleStatus s = 4" "\<forall>t. resting (workers s t)" "workerCounter s = int n"
  shows "\<exists>ls s'. run server_step s ls s' \<and> freed s' \<and> (\<forall>l\<in>set ls. \<exists>t. l = go_on t)"
  using assms
proof (induction n arbitrary: s)
  case 0
  show ?case
  proof (cases "freed s")
    case False
    then have "count_at (\<lambda>p. p = W_clear) (workers s) = 1" using 0 by (simp add: server_inv_def life_ok_def)
    then obtain t where t: "workers s t = W_clear" by (fastforce simp: count_at_def card_1_singleton_iff)
    have "run server_step s [go_on t] (move t W_gone (s\<lparr> freed := True \<rparr>))"
      using t by (simp add: run_Cons server_step_def worker_step_def)
    moreover have "freed (move t W_gone (s\<lparr> freed := True \<rparr>))" by (simp add: move_def)
    ultimately show ?thesis by (metis list.set(1,2) empty_iff insert_iff)
  qed (intro exI [of _ "[]"] exI [of _ s], simp)
next
  case (Suc n)
  have "count_at counted (workers s) > 0" using Suc.prems by (simp add: server_inv_def threads_ok_def)
  then obtain t where t: "counted (workers s t)" by (auto simp: count_at_def card_gt_0_iff)
  have leave: ?case if s1: "server_inv s1" "lifecycleStatus s1 = 4" "\<forall>t. resting (workers s1 t)" "workerCounter s1 = int (Suc n)"
    and k: "workers s1 t = W_exit k" "k \<noteq> 2" and r: "run server_step s ls1 s1" "\<forall>l\<in>set ls1. \<exists>t. l = go_on t" for s1 k ls1
  proof -
    have a: "act (go_on t) s1 = Some (leave t k s1)" using k by (simp add: worker_step_def)
    have "server_inv (leave t k s1)" using act_inv [OF s1(1) a] .
    moreover have "lifecycleStatus (leave t k s1) = 4" "\<forall>u. resting (workers (leave t k s1) u)"
      "workerCounter (leave t k s1) = int n"
      using s1 k by (auto simp: leave_def Let_def resting_def)
    ultimately obtain ls s' where "run server_step (leave t k s1) ls s'" "freed s'" "\<forall>l\<in>set ls. \<exists>t. l = go_on t"
      using Suc.IH by blast
    moreover have "run server_step s1 (go_on t # ls) s'" using a calculation(1) by (auto simp: run_Cons server_step_def)
    ultimately show ?case using r run_append [OF r(1)] by (intro exI [of _ "ls1 @ go_on t # ls"] exI [of _ s']) auto
  qed
  from Suc.prems(3) t consider "workers s t = W_poll" | k where "workers s t = W_exit k" "k \<noteq> 2"
    by (auto simp: resting_def dest!: spec [of _ t])
  then show ?case
  proof cases
    case 1
    have a: "act (go_on t) s = Some (move t (W_exit 4) s)"
      using 1 Suc.prems by (simp add: worker_step_def epoll_answer_def poll_timeout_def)
    have "server_inv (move t (W_exit 4) s)" using act_inv [OF Suc.prems(1) a] .
    then show ?thesis
      using Suc.prems a
      by (intro leave [of "move t (W_exit 4) s" 4 "[go_on t]"]) (auto simp: run_Cons server_step_def resting_def)
  next
    case 2
    then show ?thesis using Suc.prems by (intro leave [of s k "[]"]) auto
  qed
qed

text \<open>
  C20. Stopping completes. When the status is 4 and every worker that is left waits for an event or leaves,
  time-outs alone lead to the release of the server: no further event of the network is needed.
\<close>

theorem server_shutdown_completes:
  assumes "reachable server_init server_step s" "lifecycleStatus s = 4" "\<forall>t. resting (workers s t)"
  shows "\<exists>ls s'. run server_step s ls s' \<and> freed s' \<and> (\<forall>l\<in>set ls. \<exists>t. l = go_on t)"
proof -
  note inv = socket_server.reachable_inv [OF assms(1)]
  then have "workerCounter s = int (nat (workerCounter s))"
    by (simp add: server_inv_def threads_ok_def count_at_def)
  with inv assms(2,3) show ?thesis by (rule release)
qed

text \<open>The last client closes its connection while the server stops.\<close>

definition last_client :: "action list" where
  "last_client = one_client @ [Starter [], go_on 0, go_on 0, Worker 0 P_timeout Accept_fail False, go_on 0, go_on 0, go_on 0]"

theorem server_shutdown_completes_witness:
  "\<exists>s ls s'. lifecycleStatus s = 4 \<and> workers s 1 = W_poll \<and> \<not> freed s \<and> run server_step s ls s' \<and> freed s'"
proof -
  have "after last_client (fresh_server 2 3)
      (\<lambda>s. lifecycleStatus s = 4 \<and> (\<forall>t. resting (workers s t)) \<and> workers s 1 = W_poll \<and> \<not> freed s)"
    unfolding last_client_def one_client_def fresh_server_def append.simps
    by (rule after_go, simp add: run_defs)+ (simp add: run_defs resting_def)
  from after_reachable [OF this] obtain s where s: "reachable server_init server_step s" "lifecycleStatus s = 4"
    "\<forall>t. resting (workers s t)" and "workers s 1 = W_poll" "\<not> freed s" by blast
  with server_shutdown_completes [OF s] show ?thesis by blast
qed

text \<open>The listening socket is out of the epoll set and no worker is about to accept.\<close>

definition deaf :: "server \<Rightarrow> server \<Rightarrow> bool" where
  "deaf s0 s \<longleftrightarrow> \<not> listen_armed s \<and> (\<forall>t. workers s t \<noteq> W_accept) \<and> backlog s0 \<le> backlog s \<and>
     (\<forall>c. conns s0 c = C_none \<longrightarrow> conns s c = C_none)"

lemma deaf_step:
  assumes d: "deaf s0 s" and "act l s = Some s'" and inv: "server_inv s"
  shows "deaf s0 s'"
proof (cases l)
  case (Worker t x y ok)
  with assms(2) have w: "worker_step t x y ok s = Some s'" by simp
  have known: "conns s0 c \<noteq> C_none" if "handling (workers s t) = Some c" for c
    using that d handling_iff [OF inv_parts(2) [OF inv], of t c] by (auto simp: deaf_def)
  show ?thesis
  proof (cases "workers s t")
    case W_poll
    then show ?thesis using w d
      by (auto simp: worker_step_def epoll_answer_def poll_timeout_def deaf_def split: polled.splits if_splits)
  next
    case W_accept
    then show ?thesis using d by (simp add: deaf_def)
  next
    case (W_add_locked c)
    have "workers s' u \<noteq> W_accept" for u
      using w W_add_locked d spawn_workers [of "add_number s 1 [ok]" "move t (W_handle c) s" u]
      by (auto simp: worker_step_def deaf_def split: if_splits)
    then show ?thesis using w W_add_locked d by (auto simp: worker_step_def deaf_def)
  qed (use w d known in \<open>auto simp: worker_step_def uncount_def timeout_locked_def leave_def Let_def deaf_def split: if_splits\<close>)
next
  case (Starter allocs)
  have "workers (spawn k (s\<lparr> starter := m \<rparr>)) u \<noteq> W_accept" for k m u
    using d spawn_workers [of k "s\<lparr> starter := m \<rparr>" u] by (auto simp: deaf_def)
  then have "deaf s0 (spawn k (s\<lparr> starter := m \<rparr>))" for k m
    using d by (simp add: deaf_def)
  then show ?thesis using assms(2) d Starter
    by (auto simp: starter_step_def shutdownSocketServer_def deaf_def split: mpc.splits if_splits)
next
  case Client
  then show ?thesis using assms(2) d by (auto simp: deaf_def split: if_splits)
qed

interpretation deaf_run: invariant_system "\<lambda>s. server_inv s \<and> deaf s0 s" server_step "\<lambda>s. server_inv s \<and> deaf s0 s" for s0
  by unfold_locales (auto simp: server_step_def intro: deaf_step act_inv)

text \<open>
  C39. One failing \<open>accept\<close> ends the acceptance of connections. The code takes the listening socket out of
  the epoll set on any failure; from then on, once no worker is inside \<open>onAcceptRoutine\<close>, no
  connection is ever accepted again, whatever the clients and the workers do: a descriptor that was not in use
  stays unused, and the clients waiting to be accepted only become more.
\<close>

theorem server_listen_lost:
  assumes "reachable server_init server_step s" "\<not> listen_armed s" "\<forall>t. workers s t \<noteq> W_accept"
    and "run server_step s ls s'"
  shows "\<not> listen_armed s' \<and> backlog s \<le> backlog s' \<and> (\<forall>c. conns s c = C_none \<longrightarrow> conns s' c = C_none)"
proof -
  have "server_inv s \<and> deaf s s" using assms(2,3) socket_server.reachable_inv [OF assms(1)] by (simp add: deaf_def)
  with assms(4) have "server_inv s' \<and> deaf s s'"
    by (rule deaf_run.run_inv)
  then show ?thesis by (simp add: deaf_def)
qed

text \<open>
  A client that connected is gone before it is accepted; then another one connects, and the
  remaining worker never learns of it.
\<close>

definition lost_listen :: "action list" where
  "lost_listen = [Starter [True, True], Starter [], Client, Worker 0 P_listen Accept_fail True, go_on 0]"

theorem server_listen_lost_witness:
  "\<exists>s s'. listening s \<and> run server_step s [Client, go_on 0] s' \<and> \<not> listen_armed s' \<and> backlog s < backlog s' \<and>
     conns s' 7 = C_none"
proof -
  have "after lost_listen (fresh_server 2 3) (\<lambda>s. listening s \<and> \<not> listen_armed s \<and> (\<forall>t. workers s t \<noteq> W_accept) \<and>
      conns s 7 = C_none \<and> after [Client, go_on 0] s (\<lambda>s'. backlog s' = backlog s + 1))"
    unfolding lost_listen_def fresh_server_def by (rule after_go, simp add: run_defs)+ (simp add: run_defs)
  from after_reachable [OF this] obtain s where s: "reachable server_init server_step s" "\<not> listen_armed s"
    "\<forall>t. workers s t \<noteq> W_accept" and "listening s" "conns s 7 = C_none"
    "after [Client, go_on 0] s (\<lambda>s'. backlog s' = backlog s + 1)" by blast
  moreover from this obtain s' where r: "run server_step s [Client, go_on 0] s'" and "backlog s' = backlog s + 1"
    by (auto simp: after_def simp del: acts.simps intro: acts_run split: option.splits)
  ultimately show ?thesis using server_listen_lost [OF s r]
    by (intro exI [of _ s] exI [of _ s']) simp
qed

text \<open>
  A client may wait for ever for its acceptance. The listening socket is edge-triggered, and a worker
  accepts one connection for a report; when two clients arrive before the report, the second is left
  waiting while every worker waits for an event and no report is due, in a running server that listens.
\<close>

theorem server_backlog_stuck:
  "\<exists>s. reachable server_init server_step s \<and> lifecycleStatus s = 2 \<and> listening s \<and> listen_armed s \<and>
     backlog s = 1 \<and> \<not> edge s \<and> (\<forall>t. workers s t \<in> {W_none, W_poll}) \<and> workerCounter s = 2"
proof -
  have "after [Starter [True, True], Starter [], Client, Client, Worker 0 P_listen Accept_fail True,
      Worker 0 P_timeout (Accept_ok 7) True, go_on 0] (fresh_server 2 3)
    (\<lambda>s. lifecycleStatus s = 2 \<and> listening s \<and> listen_armed s \<and>
     backlog s = 1 \<and> \<not> edge s \<and> (\<forall>t. workers s t \<in> {W_none, W_poll}) \<and> workerCounter s = 2)"
    unfolding fresh_server_def by (rule after_go, simp add: run_defs)+ (simp add: run_defs)
  from after_reachable [OF this] show ?thesis .
qed

text \<open>
  The server may be released too early. A connection is registered with epoll before it is counted,
  so that the closing of another one can bring the counter to 0 and the status to 4; the workers then
  leave on their time-outs and the last one releases the server, while that connection is still
  registered and while the thread in \<open>shutdownSocketServer\<close> has yet to read the server's listening socket.
\<close>

theorem server_freed_early:
  "\<exists>s. reachable server_init server_step s \<and> freed s \<and> registered (conns s 8) \<and> starter s = M_stop"
proof -
  have "after (one_client @ [Client, Worker 1 P_listen Accept_fail True, Worker 1 P_timeout (Accept_ok 8) True, Starter [],
        go_on 0, go_on 0, Worker 0 P_timeout Accept_fail False, go_on 0, go_on 0, go_on 0, go_on 0,
        go_on 1, go_on 1, go_on 1, go_on 1]) (fresh_server 2 3)
    (\<lambda>s. freed s \<and> registered (conns s 8) \<and> starter s = M_stop)"
    unfolding one_client_def fresh_server_def append.simps
    by (rule after_go, simp add: run_defs)+ (simp add: run_defs)
  from after_reachable [OF this] show ?thesis .
qed

end
