(* ===== verification/BlockingSend.thy ===== *)
theory BlockingSend
  imports CMem
begin

text \<open>
  \<open>internalBlockingSender\<close> of \<open>src/cc_conn.c\<close>: sending a whole buffer over a non-blocking socket. The
  answers of the kernel come from a script, one entry for each call of \<open>send\<close> (its result and
  \<open>errno\<close>), \<open>epoll_ctl\<close> and \<open>pthread_cond_timedwait\<close>, in the order of the calls; a script that ends
  or does not fit is \<open>None\<close>. The calls the function makes are the output.
\<close>

section \<open>The function\<close>

datatype sys_answer = Send_returns int int | Epoll_ctl_returns int | Timedwait_returns int

datatype sys_call = Send bytes | Epoll_ctl_add | Epoll_ctl_mod | Timedwait

definition EAGAIN :: int where "EAGAIN = 11"

text \<open>
  The loops of \<open>internalBlockingSender\<close>, from the test \<open>sum<nbs\<close>: \<open>ret\<close> is the last result of \<open>send\<close>,
  \<open>related\<close> is \<open>BSendEpollFDRelated\<close>. The results are the returned value, the number of bytes the
  kernel took, the new \<open>related\<close> and the calls.
\<close>

fun sender_loop ::
    "bytes \<Rightarrow> nat \<Rightarrow> int \<Rightarrow> bool \<Rightarrow> sys_answer list \<Rightarrow> (int \<times> nat \<times> bool \<times> sys_call list) option" where
  "sender_loop buf off ret related script =
    (if \<not> off < length buf then Some (ret, off, related, [])
     else
      case script of
        Send_returns r errno # script \<Rightarrow>
          map_option (\<lambda>(ret, off', related, calls). (ret, off', related, Send (drop off buf) # calls))
           (if r > 0 then sender_loop buf (off + nat r) r related script
            else if r = 0 then Some (0, off, related, [])
            else if r = - 1 \<and> errno = EAGAIN then
              (let ctl = (if related then Epoll_ctl_mod else Epoll_ctl_add) in
               case script of
                 Epoll_ctl_returns c # script \<Rightarrow>
                   if c \<noteq> 0 then Some (- 1, off, True, [ctl])
                   else (case script of
                           Timedwait_returns w # script \<Rightarrow>
                             if w \<noteq> 0 then Some (- 1, off, True, [ctl, Timedwait])
                             else map_option (\<lambda>(ret, off', related, calls). (ret, off', related, ctl # Timedwait # calls))
                                    (sender_loop buf off (- 1) True script)
                         | _ \<Rightarrow> None)
               | _ \<Rightarrow> None)
            else if r = - 1 then Some (- 1, off, related, [])
            else sender_loop buf off r related script)
      | _ \<Rightarrow> None)"

declare sender_loop.simps [simp del]

definition internalBlockingSender ::
    "bytes \<Rightarrow> bool \<Rightarrow> sys_answer list \<Rightarrow> (int \<times> nat \<times> bool \<times> sys_call list) option" where
  "internalBlockingSender buf related script = sender_loop buf 0 0 related script"

section \<open>What the kernel receives\<close>

text \<open>
  The kernel takes at most what it is given. The bytes it takes are, call by call, the first \<open>r\<close> bytes
  of the argument of the call.
\<close>

fun answers_ok :: "nat \<Rightarrow> sys_answer list \<Rightarrow> bool" where
  "answers_ok n [] = True"
| "answers_ok n (Send_returns r e # script) = (- 1 \<le> r \<and> r \<le> int n \<and> answers_ok (n - nat r) script)"
| "answers_ok n (_ # script) = answers_ok n script"

fun received :: "sys_call list \<Rightarrow> sys_answer list \<Rightarrow> bytes" where
  "received (Send bs # calls) (Send_returns r e # script) = take (nat r) bs @ received calls script"
| "received (Send bs # calls) (_ # script) = received (Send bs # calls) script"
| "received (c # calls) (_ # script) = received calls script"
| "received _ _ = []"

lemma received_send: "received (Send bs # calls) (Send_returns r e # script) = take (nat r) bs @ received calls script"
  by simp

lemma slice_add:
  assumes "off + k \<le> n" "n \<le> length buf"
  shows "take k (drop off buf) @ slice (off + k) (n - (off + k)) buf = slice off (n - off) buf"
proof -
  have "n - off = k + (n - (off + k))" using assms(1) by simp
  then show ?thesis by (simp only: slice_def take_add drop_drop add.commute)
qed

lemma sender_loop_end: "\<not> off < length buf \<Longrightarrow> sender_loop buf off ret related script = Some (ret, off, related, [])"
  by (simp add: sender_loop.simps)

lemma received_Nil [simp]: "received [] script = []"
  by (cases script) auto

lemma sender_loop_send:
  assumes "off < length buf"
  shows "r > 0 \<Longrightarrow> sender_loop buf off ret related (Send_returns r e # s) =
      map_option (\<lambda>(ret, off', related, calls). (ret, off', related, Send (drop off buf) # calls))
        (sender_loop buf (off + nat r) r related s)"
    "sender_loop buf off ret related (Send_returns 0 e # s) = Some (0, off, related, [Send (drop off buf)])"
    "e \<noteq> EAGAIN \<Longrightarrow>
      sender_loop buf off ret related (Send_returns (- 1) e # s) = Some (- 1, off, related, [Send (drop off buf)])"
    "c \<noteq> 0 \<Longrightarrow> sender_loop buf off ret related (Send_returns (- 1) EAGAIN # Epoll_ctl_returns c # s) =
      Some (- 1, off, True, [Send (drop off buf), if related then Epoll_ctl_mod else Epoll_ctl_add])"
    "w \<noteq> 0 \<Longrightarrow>
      sender_loop buf off ret related (Send_returns (- 1) EAGAIN # Epoll_ctl_returns 0 # Timedwait_returns w # s) =
      Some (- 1, off, True, [Send (drop off buf), if related then Epoll_ctl_mod else Epoll_ctl_add, Timedwait])"
    "sender_loop buf off ret related (Send_returns (- 1) EAGAIN # Epoll_ctl_returns 0 # Timedwait_returns 0 # s) =
      map_option (\<lambda>(ret, off', related', calls). (ret, off', related',
          Send (drop off buf) # (if related then Epoll_ctl_mod else Epoll_ctl_add) # Timedwait # calls))
        (sender_loop buf off (- 1) True s)"
  using assms by (subst sender_loop.simps; simp add: option.map_comp comp_def split_def)+

lemma sender_loop_again:
  assumes "off < length buf" "sender_loop buf off ret related (Send_returns (- 1) EAGAIN # s) = Some out"
  obtains c t where "s = Epoll_ctl_returns c # t" "c \<noteq> 0"
  | w t where "s = Epoll_ctl_returns 0 # Timedwait_returns w # t"
  using assms by (subst (asm) sender_loop.simps)
    (auto simp: Let_def split: list.splits sys_answer.splits if_splits)

lemma sender_loop_spec:
  assumes "sender_loop buf off ret related script = Some (r, sent, related', calls)"
    and "answers_ok (length buf - off) script" "off \<le> length buf"
  shows "off \<le> sent \<and> sent \<le> length buf \<and> received calls script = slice off (sent - off) buf \<and>
    (sent < length buf \<longrightarrow> r \<le> 0) \<and> (sent = length buf \<longrightarrow> off < sent \<longrightarrow> r > 0)"
  using assms
proof (induction "length script" arbitrary: off ret related script r sent related' calls rule: less_induct)
  case less
  show ?case
  proof (cases "off < length buf")
    case False
    with less.prems show ?thesis by (auto simp: sender_loop_end)
  next
    case True
    then obtain q e s where script: "script = Send_returns q e # s"
      using less.prems(1) by (auto simp: sender_loop.simps [of _ _ _ _ script] split: list.splits sys_answer.splits)
    have q: "- 1 \<le> q" "q \<le> int (length buf - off)" "answers_ok (length buf - off - nat q) s"
      using less.prems(2) script by auto
    note send = sender_loop_send [OF True]
    have run: "sender_loop buf off ret related (Send_returns q e # s) = Some (r, sent, related', calls)"
      using less.prems(1) script by simp
    consider "q > 0" | "q = 0" | "q = - 1" "e \<noteq> EAGAIN" | "q = - 1" "e = EAGAIN" using q(1) by linarith
    then show ?thesis
    proof cases
      case 1
      then obtain cs where rec: "sender_loop buf (off + nat q) q related s = Some (r, sent, related', cs)"
        "calls = Send (drop off buf) # cs" using run by (auto simp: send(1))
      have le: "off + nat q \<le> length buf" using q(2) True 1 by simp
      have "off + nat q \<le> sent \<and> sent \<le> length buf \<and> received cs s = slice (off + nat q) (sent - (off + nat q)) buf \<and>
          (sent < length buf \<longrightarrow> r \<le> 0) \<and> (sent = length buf \<longrightarrow> off + nat q < sent \<longrightarrow> r > 0)"
        by (rule less.hyps [OF _ rec(1)]) (use q(3) le script in \<open>simp_all add: diff_diff_left\<close>)
      moreover have "r > 0" if "sent = length buf" "off + nat q = sent"
        using rec(1) that 1 by (simp add: sender_loop.simps)
      ultimately show ?thesis using rec(2) script slice_add [of off "nat q" sent buf] by force
    next
      case 4
      from sender_loop_again [OF True run [unfolded 4]] consider
        c t where "s = Epoll_ctl_returns c # t" "c \<noteq> 0"
        | w t where "s = Epoll_ctl_returns 0 # Timedwait_returns w # t" "w \<noteq> 0"
        | t where "s = Epoll_ctl_returns 0 # Timedwait_returns 0 # t" by metis
      then show ?thesis
      proof cases
        case (3 t)
        let ?ctl = "if related then Epoll_ctl_mod else Epoll_ctl_add"
        obtain cs where rec: "sender_loop buf off (- 1) True t = Some (r, sent, related', cs)"
          "calls = Send (drop off buf) # ?ctl # Timedwait # cs"
          using run 3 4 by (auto simp: send(6))
        have "off \<le> sent \<and> sent \<le> length buf \<and> received cs t = slice off (sent - off) buf \<and>
            (sent < length buf \<longrightarrow> r \<le> 0) \<and> (sent = length buf \<longrightarrow> off < sent \<longrightarrow> r > 0)"
          by (rule less.hyps [OF _ rec(1)]) (use q(3) less.prems(3) script 3 4 in simp_all)
        then show ?thesis using rec(2) script 3 4 by simp
      qed (use run 4 True script in \<open>auto simp: send\<close>)
    qed (use run True script in \<open>auto simp: send\<close>)
  qed
qed

text \<open>
  A kernel that takes the buffer in pieces, each after any number of waits, one of them behind the
  other: the function ends and everything is sent.
\<close>

fun patient_script :: "(nat \<times> nat) list \<Rightarrow> sys_answer list" where
  "patient_script [] = []"
| "patient_script ((waits, k) # ps) =
     concat (replicate waits [Send_returns (- 1) EAGAIN, Epoll_ctl_returns 0, Timedwait_returns 0]) @
     Send_returns (int k) 0 # patient_script ps"

lemma sender_loop_waits:
  assumes "off < length buf"
  shows "(\<exists>rel calls. sender_loop buf off ret related
      (concat (replicate n [Send_returns (- 1) EAGAIN, Epoll_ctl_returns 0, Timedwait_returns 0]) @ s) = Some (r, sent, rel, calls))
    \<longleftrightarrow> (\<exists>rel calls. sender_loop buf off (if n = 0 then ret else - 1) (n > 0 \<or> related) s = Some (r, sent, rel, calls))"
proof (induction n arbitrary: ret related)
  case (Suc n)
  from Suc [of "- 1" True] assms show ?case
    by (simp add: sender_loop_send split_paired_Ex)
qed simp

lemma sender_loop_patient:
  assumes "\<forall>(w, k) \<in> set ps. 0 < k" "sum_list (map snd ps) = length buf - off" "off \<le> length buf"
  shows "\<exists>r rel calls. sender_loop buf off ret related (patient_script ps) = Some (r, length buf, rel, calls)"
  using assms
proof (induction ps arbitrary: off ret related)
  case Nil
  then show ?case by (simp add: sender_loop_end)
next
  case (Cons p ps)
  obtain w k where p: "p = (w, k)" by (cases p)
  with Cons.prems have k: "0 < k" "k \<le> length buf - off" "off < length buf" by auto
  have "\<exists>r rel calls. sender_loop buf (off + k) (int k) rl (patient_script ps) = Some (r, length buf, rel, calls)" for rl
    by (rule Cons.IH) (use Cons.prems p in auto)
  then have "\<exists>r rel calls. sender_loop buf off q rl (Send_returns (int k) 0 # patient_script ps) = Some (r, length buf, rel, calls)"
    for q rl using k by (simp add: sender_loop_send split_paired_Ex)
  then show ?case using p sender_loop_waits [OF k(3), of ret related w] by simp
qed

lemma answers_ok_waits:
  "answers_ok m (concat (replicate n [Send_returns (- 1) EAGAIN, Epoll_ctl_returns 0, Timedwait_returns 0]) @ s)
     = answers_ok m s"
  by (induction n) auto

lemma answers_ok_patient:
  "sum_list (map snd ps) \<le> n \<Longrightarrow> answers_ok n (patient_script ps)"
  by (induction ps arbitrary: n) (auto simp: answers_ok_waits)

section \<open>Property\<close>

text \<open>
  C21. Whatever the kernel answers, it has received a prefix of the buffer, in order and without gaps
  or repetitions; the result is positive exactly when it has received all of it (which for an empty
  buffer is never), and 0 or -1 otherwise. If the kernel keeps taking bytes, after any number of waits,
  the function ends and the kernel has received the whole buffer.
\<close>

theorem blocking_sender_sends:
  "(\<forall>script r sent related' calls. answers_ok (length buf) script \<longrightarrow>
      internalBlockingSender buf related script = Some (r, sent, related', calls) \<longrightarrow>
      received calls script = take sent buf \<and> sent \<le> length buf \<and> (r > 0 \<longleftrightarrow> sent = length buf \<and> buf \<noteq> [])) \<and>
   (\<forall>ps. (\<forall>(w, k) \<in> set ps. 0 < k) \<longrightarrow> sum_list (map snd ps) = length buf \<longrightarrow>
      answers_ok (length buf) (patient_script ps) \<and>
      (\<exists>r related' calls. internalBlockingSender buf related (patient_script ps) = Some (r, length buf, related', calls) \<and>
         received calls (patient_script ps) = buf \<and> (buf \<noteq> [] \<longrightarrow> r > 0)))"
proof -
  have prefix: "received calls script = take sent buf" "sent \<le> length buf" "r > 0 \<longleftrightarrow> sent = length buf \<and> buf \<noteq> []"
    if *: "answers_ok (length buf) script" "internalBlockingSender buf related script = Some (r, sent, related', calls)"
    for script r sent related' calls
  proof -
    have run: "sender_loop buf 0 0 related script = Some (r, sent, related', calls)"
      using *(2) by (simp add: internalBlockingSender_def)
    have spec: "0 \<le> sent \<and> sent \<le> length buf \<and> received calls script = slice 0 (sent - 0) buf \<and>
      (sent < length buf \<longrightarrow> r \<le> 0) \<and> (sent = length buf \<longrightarrow> 0 < sent \<longrightarrow> r > 0)"
      by (rule sender_loop_spec [OF run]) (use *(1) in simp_all)
    then show "received calls script = take sent buf" "sent \<le> length buf" by (simp_all add: slice_def)
    have "r = 0" if "buf = []" using run that by (simp add: sender_loop_end)
    with spec show "r > 0 \<longleftrightarrow> sent = length buf \<and> buf \<noteq> []" by force
  qed
  moreover have "answers_ok (length buf) (patient_script ps) \<and>
      (\<exists>r related' calls. internalBlockingSender buf related (patient_script ps) = Some (r, length buf, related', calls) \<and>
         received calls (patient_script ps) = buf \<and> (buf \<noteq> [] \<longrightarrow> r > 0))"
    if ps: "\<forall>(w, k) \<in> set ps. 0 < k" "sum_list (map snd ps) = length buf" for ps :: "(nat \<times> nat) list"
  proof -
    have ok: "answers_ok (length buf) (patient_script ps)" using answers_ok_patient [of ps "length buf"] ps(2) by simp
    have "sum_list (map snd ps) = length buf - 0" "0 \<le> length buf" using ps(2) by simp_all
    from sender_loop_patient [OF ps(1) this, of 0 related] obtain r rel calls where
      run: "internalBlockingSender buf related (patient_script ps) = Some (r, length buf, rel, calls)"
      by (auto simp: internalBlockingSender_def)
    with prefix [OF ok run] ok show ?thesis by simp
  qed
  ultimately show ?thesis by blast
qed

lemma blocking_sender_sends_witness:
  "(\<exists>r related' calls. internalBlockingSender [1, 2, 3] False (patient_script [(1, 2), (0, 1)]) = Some (r, 3, related', calls) \<and>
      received calls (patient_script [(1, 2), (0, 1)]) = [1, 2, 3] \<and> r > 0) \<and>
   received [Send [1, 2, 3], Send [3]] [Send_returns 2 0, Send_returns (- 1) 9] = [1, 2 :: u8]"
proof
  have "\<exists>r related' calls. internalBlockingSender [1, 2, 3] False (patient_script [(1, 2), (0, 1)])
        = Some (r, length [1, 2, 3 :: u8], related', calls) \<and>
      received calls (patient_script [(1, 2), (0, 1)]) = [1, 2, 3] \<and> ([1, 2, 3 :: u8] \<noteq> [] \<longrightarrow> r > 0)"
    by (rule conjunct2 [OF blocking_sender_sends [of "[1, 2, 3]" False], rule_format, THEN conjunct2]) auto
  then show "\<exists>r related' calls. internalBlockingSender [1, 2, 3] False (patient_script [(1, 2), (0, 1)]) = Some (r, 3, related', calls) \<and>
      received calls (patient_script [(1, 2), (0, 1)]) = [1, 2, 3] \<and> r > 0" by (simp add: numeral_3_eq_3)
  have "internalBlockingSender [1, 2, 3] False [Send_returns 2 0, Send_returns (- 1) 9]
      = Some (- 1, 2, False, [Send [1, 2, 3], Send [3]])" by code_simp
  moreover have "answers_ok (length [1, 2, 3 :: u8]) [Send_returns 2 0, Send_returns (- 1) 9]" by simp
  ultimately show "received [Send [1, 2, 3], Send [3]] [Send_returns 2 0, Send_returns (- 1) 9] = [1, 2 :: u8]"
    using blocking_sender_sends [of "[1, 2, 3]" False] by fastforce
qed

end
