(* ===== verification/Startup.thy ===== *)
theory Startup
  imports CMem Link
begin

text \<open>
  \<open>lib/cc_init.c\<close>: the command line, the listening socket and the acceptance of switches by child
  processes. The results of \<open>getopt_long\<close>, one option character with its argument for each call, and
  those of the system calls are arguments; what is tracked of the operating system is the set of open
  descriptors of the process.
\<close>

section \<open>Strings of the C library\<close>

text \<open>An argument is the list of its characters, without the terminator.\<close>

definition strcpy :: "bytes \<Rightarrow> bytes \<Rightarrow> bytes option" where
  "strcpy dst s = put_bytes 0 (s @ [0]) dst"

definition strncpy :: "bytes \<Rightarrow> bytes \<Rightarrow> nat \<Rightarrow> bytes option" where
  "strncpy dst s n = put_bytes 0 (take n (s @ replicate n 0)) dst"

definition c_string :: "bytes \<Rightarrow> bytes" where
  "c_string bs = takeWhile (\<lambda>c. c \<noteq> 0) bs"

fun digits_value :: "int \<Rightarrow> bytes \<Rightarrow> int" where
  "digits_value acc [] = acc"
| "digits_value acc (c # cs) =
    (if 48 \<le> c \<and> c \<le> 57 then digits_value (10 * acc + (uint c - 48)) cs else acc)"

text \<open>\<open>atoi\<close>: white space, a sign, digits; a value that is no \<open>int\<close> is undefined.\<close>

definition atoi :: "bytes \<Rightarrow> int option" where
  "atoi s =
    (let s = dropWhile (\<lambda>c. c = 32 \<or> 9 \<le> c \<and> c \<le> 13) s;
         v = (case s of
                [] \<Rightarrow> 0
              | c # cs \<Rightarrow> if c = 45 then - digits_value 0 cs else if c = 43 then digits_value 0 cs
                         else digits_value 0 (c # cs))
     in if - (2 ^ 31) \<le> v \<and> v < 2 ^ 31 then Some v else None)"

section \<open>The command line\<close>

definition CC_CMD_NULL :: int where "CC_CMD_NULL = - 1"
definition CC_CMD_OK :: int where "CC_CMD_OK = 0"
definition CC_STRING_MAX_LEN :: nat where "CC_STRING_MAX_LEN = 100"
definition CC_IP_ADDRESS_STRING_LEN :: nat where "CC_IP_ADDRESS_STRING_LEN = 20"
definition CC_CONTROLLER_PORT :: u16 where "CC_CONTROLLER_PORT = 6633"

record cc_config =
  cc_controller_ip_addr :: bytes
  cc_controller_port :: int
  cc_cmd_config_file :: bytes
  cc_cmd_set_controller_ip :: int
  cc_cmd_set_controller_port :: int
  cc_cmd_set_config_file :: int
  cc_cmd_auto_clear :: int
  cc_cmd_auto_reconnect :: int
  log_fp :: bool

text \<open>The initial values of the variables.\<close>

definition default_config :: cc_config where
  "default_config =
    \<lparr> cc_controller_ip_addr = [49, 50, 55, 46, 48, 46, 48, 46, 49] @ replicate 11 0,
      cc_controller_port = 6633, cc_cmd_config_file = replicate CC_STRING_MAX_LEN 0,
      cc_cmd_set_controller_ip = CC_CMD_NULL, cc_cmd_set_controller_port = CC_CMD_NULL,
      cc_cmd_set_config_file = CC_CMD_NULL, cc_cmd_auto_clear = CC_CMD_NULL,
      cc_cmd_auto_reconnect = CC_CMD_NULL, log_fp = False \<rparr>"

record init_env =
  euid :: int
  log_opens :: bool

datatype 'a outcome = Exits | Goes_on 'a

definition cc_check_root :: "init_env \<Rightarrow> int" where
  "cc_check_root E = (if euid E = 0 then CC_NO_ERROR else CC_ERROR)"

definition cc_set_controller_ip :: "bytes \<Rightarrow> cc_config \<Rightarrow> cc_config option" where
  "cc_set_controller_ip ip_str c =
    do { buf \<leftarrow> strcpy (cc_controller_ip_addr c) ip_str; Some (c\<lparr> cc_controller_ip_addr := buf \<rparr>) }"

definition cc_set_controller_port :: "u16 \<Rightarrow> cc_config \<Rightarrow> cc_config" where
  "cc_set_controller_port p c = c\<lparr> cc_controller_port := uint p \<rparr>"

text \<open>\<open>cc_set_log_file\<close> of \<open>lib/cc_log.c\<close>, called with the null pointer.\<close>

definition cc_set_log_file :: "init_env \<Rightarrow> cc_config \<Rightarrow> cc_config outcome" where
  "cc_set_log_file E c = (if log_opens E then Goes_on (c\<lparr> log_fp := True \<rparr>) else Exits)"

definition init_option :: "init_env \<Rightarrow> char \<Rightarrow> bytes \<Rightarrow> cc_config \<Rightarrow> cc_config outcome option" where
  "init_option E ch optarg c =
    (if ch = CHR ''?'' then Some Exits
     else if ch = CHR ''i'' then
       do { c \<leftarrow> cc_set_controller_ip optarg c; Some (Goes_on (c\<lparr> cc_cmd_set_controller_ip := CC_CMD_OK \<rparr>)) }
     else if ch = CHR ''p'' then
       do { v \<leftarrow> atoi optarg;
            Some (Goes_on ((cc_set_controller_port (word_of_int v) c)\<lparr> cc_cmd_set_controller_port := CC_CMD_OK \<rparr>)) }
     else if ch = CHR ''f'' then
       do { buf \<leftarrow> strncpy (cc_cmd_config_file c) optarg (CC_STRING_MAX_LEN - 1);
            Some (Goes_on (c\<lparr> cc_cmd_config_file := buf, cc_cmd_set_config_file := CC_CMD_OK \<rparr>)) }
     else if ch = CHR ''m'' then Some (Goes_on (c\<lparr> cc_cmd_auto_clear := CC_CMD_OK \<rparr>))
     else if ch = CHR ''r'' then Some (Goes_on (c\<lparr> cc_cmd_auto_reconnect := CC_CMD_OK \<rparr>))
     else if ch = CHR ''l'' then
       (if cc_check_root E \<noteq> CC_NO_ERROR then Some Exits else Some (cc_set_log_file E c))
     else if ch = CHR ''h'' then Some Exits
     else if ch = CHR ''v'' then Some Exits
     else Some (Goes_on c))"

fun cc_set_init_config ::
    "init_env \<Rightarrow> (char \<times> bytes) list \<Rightarrow> cc_config \<Rightarrow> (int \<times> cc_config) outcome option" where
  "cc_set_init_config E [] c = Some (Goes_on (CC_NO_ERROR, c))"
| "cc_set_init_config E ((ch, optarg) # opts) c =
    do { r \<leftarrow> init_option E ch optarg c;
         case r of Exits \<Rightarrow> Some Exits | Goes_on c \<Rightarrow> cc_set_init_config E opts c }"

section \<open>The listening socket\<close>

record server_info =
  si_fd :: int
  si_family :: u16
  si_addr :: u32
  si_port :: u16

record listen_answers =
  l_socket :: int
  l_reuse :: int
  l_nodelay :: int
  l_getfd :: int
  l_setfl :: int
  l_bind :: int
  l_listen :: int

definition O_NONBLOCK :: int where "O_NONBLOCK = 2048"

text \<open>The result and the flags the socket is asked to take.\<close>

definition cc_set_nonblocking :: "int \<Rightarrow> int \<Rightarrow> int \<times> int" where
  "cc_set_nonblocking getfd setfl = (if setfl = - 1 then - 1 else 0, getfd OR O_NONBLOCK)"

definition cc_set_nodelay :: "int \<Rightarrow> int" where
  "cc_set_nodelay ret = (if ret < 0 then CC_ERROR else CC_NO_ERROR)"

text \<open>\<open>AF_INET\<close>, and \<open>inet_addr\<close> of the address in the code as a number of the little-endian host.\<close>

definition AF_INET :: u16 where "AF_INET = 2"
definition loopback :: u32 where "loopback = 0x0100007F"

definition cc_server_conn_create ::
    "listen_answers \<Rightarrow> int set \<Rightarrow> server_info \<Rightarrow> int \<times> int set \<times> server_info" where
  "cc_server_conn_create a fds si =
    (let si = si\<lparr> si_fd := l_socket a \<rparr> in
     if si_fd si < 0 then (CC_ERROR, fds, si)
     else
       let fds = insert (si_fd si) fds;
           si = si\<lparr> si_family := AF_INET, si_addr := loopback, si_port := CC_CONTROLLER_PORT \<rparr> in
       if l_reuse a < 0 then (CC_ERROR, fds, si)
       else if cc_set_nodelay (l_nodelay a) < 0 then (CC_ERROR, fds, si)
       else if fst (cc_set_nonblocking (l_getfd a) (l_setfl a)) < 0 then (CC_ERROR, fds, si)
       else if l_bind a < 0 then (CC_ERROR, fds - {si_fd si}, si)
       else if l_listen a \<noteq> 0 then (CC_ERROR, fds - {si_fd si}, si)
       else (si_fd si, fds, si))"

section \<open>Accepting a switch\<close>

definition FD_SETSIZE :: int where "FD_SETSIZE = 1024"
definition CC_ACCEPT_FD :: int where "CC_ACCEPT_FD = 3"
definition EINTR :: int where "EINTR = 4"

text \<open>The loop of the child, over the results of \<open>select\<close> with \<open>errno\<close>.\<close>

fun select_loop :: "(int \<times> int) list \<Rightarrow> int option" where
  "select_loop [] = None"
| "select_loop ((ret, errno) # script) =
    (if ret = - 1 \<and> errno \<noteq> EINTR then Some CC_ERROR else select_loop script)"

record accept_answers =
  a_accept :: int
  a_fork :: int
  a_sw_info :: bool
  a_selects :: "(int \<times> int) list"

text \<open>
  The result is \<open>None\<close> inside when control reaches the end without a \<open>return\<close>; outside it stands for
  undefined behaviour (a descriptor that does not fit into an \<open>fd_set\<close>, a null pointer) and for a
  script that ends. \<open>a_fork\<close> says in which process the function goes on.
\<close>

definition cc_conn_accept :: "accept_answers \<Rightarrow> int set \<Rightarrow> (int option \<times> int set) option" where
  "cc_conn_accept a fds =
    (let accept_fd = a_accept a in
     if accept_fd < 0 then Some (Some CC_ERROR, fds)
     else if accept_fd > FD_SETSIZE then Some (None, insert accept_fd fds - {accept_fd})
     else
       let fds = insert accept_fd fds in
       if a_fork a < 0 then Some (Some CC_ERROR, fds - {accept_fd})
       else if a_fork a = 0 then
         (if \<not> a_sw_info a then None
          else
            let (fd, fds) = (if accept_fd < CC_ACCEPT_FD then (CC_ACCEPT_FD, insert CC_ACCEPT_FD fds - {accept_fd})
                             else (accept_fd, fds))
            in if fd \<ge> FD_SETSIZE then None
               else do { r \<leftarrow> select_loop (a_selects a); Some (Some r, fds) })
       else Some (Some CC_NO_ERROR, fds))"

text \<open>\<open>cc_polling\<close>, over the results of \<open>select\<close> with what the accepted connection meets.\<close>

fun cc_polling :: "(int \<times> int \<times> accept_answers) list \<Rightarrow> int set \<Rightarrow> (int \<times> int set) option" where
  "cc_polling [] fds = None"
| "cc_polling ((ret, errno, a) # script) fds =
    (if ret = - 1 then (if errno = EINTR then cc_polling script fds else Some (CC_ERROR, fds))
     else if ret = 0 then cc_polling script fds
     else do { (r, fds) \<leftarrow> cc_conn_accept a fds;
               r \<leftarrow> r;
               if r < 0 then Some (CC_ERROR, fds) else cc_polling script fds })"

section \<open>Strings\<close>

lemma c_string_upd:
  assumes "0 \<notin> set s" "length s < length buf"
  shows "c_string (upd 0 (s @ [0]) buf) = s"
proof -
  have "upd 0 (s @ [0]) buf = s @ 0 # drop (length s + 1) buf"
    using assms(2) by (intro nth_equalityI) (auto simp: nth_append nth_Cons intro!: arg_cong [of _ _ "(!) buf"] split: nat.splits)
  moreover have "takeWhile (\<lambda>c. c \<noteq> 0) s = s" using assms(1) by (intro takeWhile_eq_all_conv [THEN iffD2]) auto
  ultimately show ?thesis using assms(1) by (simp add: c_string_def takeWhile_append)
qed

lemma strcpy_fits:
  assumes "0 \<notin> set s" "length s < length buf"
  obtains buf' where "strcpy buf s = Some buf'" "length buf' = length buf" "c_string buf' = s"
  using assms c_string_upd [OF assms] by (auto simp: strcpy_def put_bytes_Some)

lemma strcpy_overflow: "length buf \<le> length s \<Longrightarrow> strcpy buf s = None"
  by (simp add: strcpy_def put_bytes_def)

lemma strncpy_fits:
  assumes "0 \<notin> set s" "length buf = Suc n" "buf ! n = 0"
  obtains buf' where "strncpy buf s n = Some buf'" "length buf' = Suc n" "buf' ! n = 0" "c_string buf' = take n s"
proof -
  let ?s = "take n (s @ replicate n 0)" and ?buf = "upd 0 (take n (s @ replicate n 0)) buf"
  have len: "length ?s = n" by simp
  have "strncpy buf s n = Some ?buf" using assms(2) by (simp add: strncpy_def put_bytes_Some)
  moreover have "?buf ! n = 0" using assms(2,3) len by simp
  moreover have "?buf = take n s @ replicate (Suc n - length (take n s)) 0"
  proof (rule nth_equalityI)
    show "length ?buf = length (take n s @ replicate (Suc n - length (take n s)) 0)" using assms(2) by simp
    fix i assume i: "i < length ?buf"
    show "?buf ! i = (take n s @ replicate (Suc n - length (take n s)) 0) ! i"
      using i assms(2,3) by (cases "i = n") (auto simp: nth_append less_Suc_eq)
  qed
  then have "c_string ?buf = take n s"
    using assms(1) by (auto simp: c_string_def takeWhile_append dest: in_set_takeD)
  ultimately show thesis using assms(2) by (intro that [of ?buf]) simp_all
qed

text \<open>Decimal notation, and that \<open>atoi\<close> reads it.\<close>

fun decimal :: "nat \<Rightarrow> bytes" where
  "decimal n = (if n < 10 then [of_nat (48 + n)] else decimal (n div 10) @ [of_nat (48 + n mod 10)])"

declare decimal.simps [simp del]

definition is_digit :: "u8 \<Rightarrow> bool" where
  "is_digit c \<longleftrightarrow> 48 \<le> c \<and> c \<le> 57"

lemma digit: "d < 10 \<Longrightarrow> is_digit (of_nat (48 + d)) \<and> uint (of_nat (48 + d) :: u8) = 48 + int d"
proof -
  assume "d < 10"
  then have "unat (of_nat (48 + d) :: u8) = 48 + d" by (intro unat_of_nat_small) simp
  then show ?thesis using \<open>d < 10\<close> by (simp add: is_digit_def word_le_nat_alt uint_nat)
qed

lemma digits_value_digit: "is_digit c \<Longrightarrow> digits_value acc (c # cs) = digits_value (10 * acc + (uint c - 48)) cs"
  by (simp add: is_digit_def)

lemma digits_value_append:
  "list_all is_digit xs \<Longrightarrow> digits_value acc (xs @ ys) = digits_value (digits_value acc xs) ys"
  by (induction xs arbitrary: acc) (auto simp: is_digit_def)

lemma decimal_digits: "list_all is_digit (decimal n) \<and> decimal n \<noteq> [] \<and> digits_value 0 (decimal n) = int n"
proof (induction n rule: decimal.induct)
  case (1 n)
  show ?case
  proof (cases "n < 10")
    case True
    then show ?thesis using digit [OF True] by (simp add: decimal.simps [of n] is_digit_def)
  next
    case False
    then have ih: "list_all is_digit (decimal (n div 10))" "digits_value 0 (decimal (n div 10)) = int (n div 10)"
      using 1 by simp_all
    have "n mod 10 < 10" by simp
    note d = digit [OF this]
    have "10 * int (n div 10) + int (n mod 10) = int n" by (simp add: zdiv_int zmod_int)
    with d ih False show ?thesis
      by (simp add: decimal.simps [of n] digits_value_append digits_value_digit del: digits_value.simps(2))
  qed
qed

lemma atoi_decimal:
  assumes "n < 2 ^ 31"
  shows "atoi (decimal n) = Some (int n)"
proof -
  obtain c cs where c: "decimal n = c # cs" using decimal_digits [of n] by (cases "decimal n") auto
  then have "is_digit c" using decimal_digits [of n] by simp
  then have "c \<noteq> 32" "\<not> c \<le> 13" "c \<noteq> 45" "c \<noteq> 43"
    by (auto simp: is_digit_def word_le_nat_alt)
  then show ?thesis
    using decimal_digits [of n] assms c by (simp add: atoi_def Let_def del: digits_value.simps)
qed

section \<open>The command line as a whole\<close>

text \<open>The argument of the last occurrence of an option.\<close>

fun last_arg :: "char \<Rightarrow> (char \<times> bytes) list \<Rightarrow> bytes option" where
  "last_arg ch [] = None"
| "last_arg ch ((k, a) # opts) = (case last_arg ch opts of None \<Rightarrow> if k = ch then Some a else None | Some b \<Rightarrow> Some b)"

text \<open>
  An option the program goes on after, with an argument the code can take: the results \<open>getopt_long\<close> has
  for the option string of the code, but for those that end the program.
\<close>

definition fine_option :: "init_env \<Rightarrow> char \<times> bytes \<Rightarrow> bool" where
  "fine_option E = (\<lambda>(ch, a). 0 \<notin> set a \<and>
     (ch = CHR ''i'' \<and> length a < CC_IP_ADDRESS_STRING_LEN \<or> ch = CHR ''p'' \<and> atoi a \<noteq> None \<or> ch = CHR ''f'' \<or>
      ch = CHR ''m'' \<or> ch = CHR ''l'' \<and> euid E = 0 \<and> log_opens E))"

definition config_ok :: "cc_config \<Rightarrow> bool" where
  "config_ok c \<longleftrightarrow> length (cc_controller_ip_addr c) = CC_IP_ADDRESS_STRING_LEN \<and>
     length (cc_cmd_config_file c) = CC_STRING_MAX_LEN \<and> cc_cmd_config_file c ! (CC_STRING_MAX_LEN - 1) = 0"

text \<open>What the options say of a configuration \<open>c\<close> that becomes \<open>c'\<close>.\<close>

definition configured :: "(char \<times> bytes) list \<Rightarrow> cc_config \<Rightarrow> cc_config \<Rightarrow> bool" where
  "configured opts c c' \<longleftrightarrow>
     c_string (cc_controller_ip_addr c') = (case last_arg CHR ''i'' opts of None \<Rightarrow> c_string (cc_controller_ip_addr c) | Some a \<Rightarrow> a) \<and>
     cc_controller_port c' = (case last_arg CHR ''p'' opts of None \<Rightarrow> cc_controller_port c | Some a \<Rightarrow> the (atoi a) mod 2 ^ 16) \<and>
     c_string (cc_cmd_config_file c') =
       (case last_arg CHR ''f'' opts of None \<Rightarrow> c_string (cc_cmd_config_file c) | Some a \<Rightarrow> take 99 a) \<and>
     cc_cmd_auto_clear c' = (if last_arg CHR ''m'' opts = None then cc_cmd_auto_clear c else CC_CMD_OK) \<and>
     log_fp c' = (log_fp c \<or> last_arg CHR ''l'' opts \<noteq> None) \<and> cc_cmd_auto_reconnect c' = cc_cmd_auto_reconnect c"

lemma init_option_fine:
  assumes "fine_option E (ch, a)" "config_ok c"
  obtains c' where "init_option E ch a c = Some (Goes_on c')" "config_ok c'" "configured [(ch, a)] c c'"
proof -
  have lens: "length (cc_controller_ip_addr c) = 20" "length (cc_cmd_config_file c) = Suc 99" "cc_cmd_config_file c ! 99 = 0"
    using assms(2) by (simp_all add: config_ok_def CC_IP_ADDRESS_STRING_LEN_def CC_STRING_MAX_LEN_def)
  note defs = init_option_def configured_def config_ok_def CC_IP_ADDRESS_STRING_LEN_def CC_STRING_MAX_LEN_def
    cc_set_controller_ip_def cc_set_controller_port_def cc_set_log_file_def cc_check_root_def
  from assms(1) consider "ch = CHR ''i''" "0 \<notin> set a" "length a < 20" | v where "ch = CHR ''p''" "atoi a = Some v"
    | "ch = CHR ''f''" "0 \<notin> set a" | "ch = CHR ''m''" | "ch = CHR ''l''" "euid E = 0" "log_opens E"
    by (auto simp: fine_option_def CC_IP_ADDRESS_STRING_LEN_def)
  then show thesis
  proof cases
    case 1
    obtain buf where "strcpy (cc_controller_ip_addr c) a = Some buf" "length buf = 20" "c_string buf = a"
      using 1 lens by (metis strcpy_fits)
    then show thesis using lens 1(1)
      by (intro that [of "c\<lparr> cc_controller_ip_addr := buf, cc_cmd_set_controller_ip := CC_CMD_OK \<rparr>"]) (simp_all add: defs)
  next
    case 2
    then show thesis using lens
      by (intro that [of "c\<lparr> cc_controller_port := v mod 2 ^ 16, cc_cmd_set_controller_port := CC_CMD_OK \<rparr>"])
        (simp_all add: defs uint_word_of_int take_bit_eq_mod)
  next
    case 3
    obtain buf where "strncpy (cc_cmd_config_file c) a 99 = Some buf" "length buf = Suc 99" "buf ! 99 = 0" "c_string buf = take 99 a"
      using 3 lens by (metis strncpy_fits)
    then show thesis using lens 3(1)
      by (intro that [of "c\<lparr> cc_cmd_config_file := buf, cc_cmd_set_config_file := CC_CMD_OK \<rparr>"]) (simp_all add: defs)
  next
    case 4
    then show thesis using lens by (intro that [of "c\<lparr> cc_cmd_auto_clear := CC_CMD_OK \<rparr>"]) (simp_all add: defs)
  next
    case 5
    then show thesis using lens by (intro that [of "c\<lparr> log_fp := True \<rparr>"]) (simp_all add: defs)
  qed
qed

lemma configured_Cons:
  "configured [(ch, a)] c c1 \<Longrightarrow> configured opts c1 c' \<Longrightarrow> configured ((ch, a) # opts) c c'"
  by (auto simp: configured_def split: option.splits if_splits)

lemma config_append:
  assumes "config_ok c" "list_all (fine_option E) opts"
  obtains c' where "config_ok c'" "configured opts c c'"
    "\<And>more. cc_set_init_config E (opts @ more) c = cc_set_init_config E more c'"
  using assms
proof (induction opts arbitrary: c thesis)
  case Nil
  then show thesis by (simp add: configured_def)
next
  case (Cons x opts)
  obtain ch a where x: "x = (ch, a)" by (cases x)
  then obtain c1 where c1: "init_option E ch a c = Some (Goes_on c1)" "config_ok c1" "configured [(ch, a)] c c1"
    using Cons.prems by (auto elim: init_option_fine)
  obtain c' where "config_ok c'" "configured opts c1 c'"
    "\<And>more. cc_set_init_config E (opts @ more) c1 = cc_set_init_config E more c'"
    using Cons.IH [of c1] c1(2) Cons.prems(3) by auto
  then show thesis using c1 x by (intro Cons.prems(1) [of c']) (auto intro: configured_Cons)
qed

section \<open>Properties\<close>

text \<open>
  The command line. After any sequence of options that does not end the program and whose arguments the
  code can take, the configuration is what the last occurrence of each option says and otherwise what it
  was; the port is cut to 16 bits and the name of the file to 99 characters, and the flag for
  reconnecting is never set. An address of 20 or more characters is written over the end of its
  variable, whatever came before.
\<close>

theorem init_config_last_wins:
  assumes "config_ok c" "list_all (fine_option E) opts"
  shows "(\<exists>c'. cc_set_init_config E opts c = Some (Goes_on (CC_NO_ERROR, c')) \<and> config_ok c' \<and> configured opts c c') \<and>
    (\<forall>a more. 20 \<le> length a \<longrightarrow> cc_set_init_config E (opts @ (CHR ''i'', a) # more) c = None)"
proof -
  obtain c' where c': "config_ok c'" "configured opts c c'"
    "\<And>more. cc_set_init_config E (opts @ more) c = cc_set_init_config E more c'"
    using assms by (rule config_append) blast
  have "init_option E CHR ''i'' a c' = None" if "20 \<le> length a" for a
    using that c'(1) strcpy_overflow [of "cc_controller_ip_addr c'" a]
    by (simp add: init_option_def cc_set_controller_ip_def config_ok_def CC_IP_ADDRESS_STRING_LEN_def)
  then show ?thesis using c'(1,2) c'(3) [of "[]"] by (auto simp: c'(3))
qed

definition root_env :: init_env where
  "root_env = \<lparr> euid = 0, log_opens = True \<rparr>"

lemma default_ok: "config_ok default_config"
  by (simp add: config_ok_def default_config_def CC_IP_ADDRESS_STRING_LEN_def CC_STRING_MAX_LEN_def)

lemma init_config_last_wins_witness:
  "\<exists>c'. cc_set_init_config root_env [(CHR ''p'', decimal 80), (CHR ''i'', [49, 46, 50]), (CHR ''p'', decimal 72169)] default_config =
      Some (Goes_on (CC_NO_ERROR, c')) \<and>
    cc_controller_port c' = 6633 \<and> c_string (cc_controller_ip_addr c') = [49, 46, 50]"
proof -
  have at: "atoi (decimal 80) = Some 80" "atoi (decimal 72169) = Some 72169" by (simp_all add: atoi_decimal)
  have "0 \<notin> set (decimal n)" for n
    using decimal_digits [of n] by (auto simp: list_all_iff is_digit_def dest: bspec [of _ _ 0])
  then have "list_all (fine_option root_env) [(CHR ''p'', decimal 80), (CHR ''i'', [49, 46, 50]), (CHR ''p'', decimal 72169)]"
    using at by (simp add: fine_option_def CC_IP_ADDRESS_STRING_LEN_def)
  from conjunct1 [OF init_config_last_wins [OF default_ok this]] show ?thesis
    using at by (elim exE conjE) (auto simp: configured_def)
qed

text \<open>
  Round trip of the port. A port number given in decimal is the port the controller stores; larger
  numbers are cut to 16 bits without notice.
\<close>

theorem init_config_port:
  assumes "n < 2 ^ 31"
  shows "cc_set_init_config E [(CHR ''p'', decimal n)] c =
    Some (Goes_on (CC_NO_ERROR, c\<lparr> cc_controller_port := int (n mod 2 ^ 16), cc_cmd_set_controller_port := CC_CMD_OK \<rparr>))"
  using atoi_decimal [OF assms]
  by (simp add: init_option_def cc_set_controller_port_def uint_word_of_int take_bit_eq_mod zmod_int)

lemma init_config_port_witness:
  "cc_set_init_config root_env [(CHR ''p'', decimal 6653)] default_config =
    Some (Goes_on (CC_NO_ERROR, default_config\<lparr> cc_controller_port := 6653, cc_cmd_set_controller_port := CC_CMD_OK \<rparr>))"
  using init_config_port [of 6653 root_env default_config] by simp

text \<open>Every system call succeeds.\<close>

definition listen_well :: "listen_answers \<Rightarrow> bool" where
  "listen_well a \<longleftrightarrow> l_socket a \<ge> 0 \<and> l_reuse a \<ge> 0 \<and> l_nodelay a \<ge> 0 \<and> l_setfl a \<noteq> - 1 \<and> l_bind a \<ge> 0 \<and> l_listen a = 0"

lemma swapped_port: "ntohs CC_CONTROLLER_PORT = 59673"
  by (simp add: CC_CONTROLLER_PORT_def) code_simp

text \<open>
  C35. Making the listening socket. It succeeds exactly when every system call does. The port is stored
  without \<open>htons\<close>, so that the socket listens on port 59673 and not on 6633, whatever the command line
  said. When a call after \<open>socket\<close> and before \<open>bind\<close> fails the socket remains open; when \<open>bind\<close> or
  \<open>listen\<close> fails it is closed.
\<close>

theorem server_conn_create:
  assumes "l_socket a \<notin> fds" "cc_server_conn_create a fds si = (r, fds', si')"
  shows "(r \<noteq> CC_ERROR \<longleftrightarrow> listen_well a) \<and>
    (listen_well a \<longrightarrow> r = l_socket a \<and> fds' = insert (l_socket a) fds \<and> si_fd si' = r \<and> ntohs (si_port si') = 59673) \<and>
    (r = CC_ERROR \<longrightarrow>
      fds' = (if l_socket a \<ge> 0 \<and> (l_reuse a < 0 \<or> l_nodelay a < 0 \<or> l_setfl a = - 1) then insert (l_socket a) fds else fds))"
proof -
  have "r = (if listen_well a then l_socket a else CC_ERROR)"
    "listen_well a \<longrightarrow> fds' = insert (l_socket a) fds \<and> si_fd si' = r \<and> si_port si' = CC_CONTROLLER_PORT"
    "\<not> listen_well a \<longrightarrow>
      fds' = (if l_socket a \<ge> 0 \<and> (l_reuse a < 0 \<or> l_nodelay a < 0 \<or> l_setfl a = - 1) then insert (l_socket a) fds else fds)"
    using assms by (auto simp: cc_server_conn_create_def Let_def listen_well_def cc_set_nodelay_def cc_set_nonblocking_def
        CC_ERROR_def CC_NO_ERROR_def split: if_splits)
  moreover have "l_socket a \<noteq> CC_ERROR" if "listen_well a" using that by (simp add: listen_well_def CC_ERROR_def)
  ultimately show ?thesis by (auto simp: swapped_port)
qed

definition listen0 :: "int \<Rightarrow> listen_answers" where
  "listen0 reuse = \<lparr> l_socket = 3, l_reuse = reuse, l_nodelay = 0, l_getfd = 0, l_setfl = 0, l_bind = 0, l_listen = 0 \<rparr>"

definition server_info0 :: server_info where
  "server_info0 = \<lparr> si_fd = 0, si_family = 0, si_addr = 0, si_port = 0 \<rparr>"

lemma server_conn_create_witness:
  "\<exists>si. cc_server_conn_create (listen0 0) {0, 1, 2} server_info0 = (3, {0, 1, 2, 3}, si) \<and> ntohs (si_port si) = 59673 \<and>
    fst (cc_server_conn_create (listen0 (- 1)) {0, 1, 2} server_info0) = CC_ERROR \<and>
    3 \<in> fst (snd (cc_server_conn_create (listen0 (- 1)) {0, 1, 2} server_info0))"
proof -
  have fresh: "l_socket (listen0 c) \<notin> {0, 1, 2}" for c by (simp add: listen0_def)
  obtain r fds si where "cc_server_conn_create (listen0 0) {0, 1, 2} server_info0 = (r, fds, si)" by (cases rule: prod_cases3)
  moreover obtain r' fds' si' where "cc_server_conn_create (listen0 (- 1)) {0, 1, 2} server_info0 = (r', fds', si')"
    by (cases rule: prod_cases3)
  moreover have "listen_well (listen0 0)" "\<not> listen_well (listen0 (- 1))" "l_socket (listen0 c) = 3" "l_reuse (listen0 c) = c" for c
    by (simp_all add: listen_well_def listen0_def)
  moreover have "insert 3 {0, 1, 2} = {0, 1, 2, 3 :: int}" by auto
  ultimately show ?thesis
    using server_conn_create [OF fresh, of 0 server_info0 r fds si]
      server_conn_create [OF fresh, of "- 1" server_info0 r' fds' si'] by simp
qed

text \<open>
  The parent never closes a connection it hands to a child: after any number of accepted switches all
  their descriptors are open in it, until \<open>accept\<close> fails and polling ends.
\<close>

lemma polling_leaks:
  assumes "\<forall>a \<in> set as. 0 \<le> a_accept a \<and> a_accept a \<le> FD_SETSIZE \<and> 0 < a_fork a"
  shows "cc_polling (map (\<lambda>a. (1, 0, a)) as @ script) fds = cc_polling script (fds \<union> a_accept ` set as)"
  using assms by (induction as arbitrary: fds) (auto simp: cc_conn_accept_def Let_def CC_NO_ERROR_def)

end
