(* ===== verification/ServerIO.thy ===== *)
theory ServerIO
  imports BlockingSend Startup
begin

text \<open>
  The rest of \<open>src/cc_conn.c\<close>: which sockets \<open>shutdownSocketServer\<close> shuts down, the handler a server has
  by default, and the thread that passes on the writability of connections.
\<close>

section \<open>Shutting down the sockets\<close>

text \<open>\<open>regcomp\<close> is whether the pattern could be compiled; the pattern matches non-empty strings of digits.\<close>

definition isDigitStr :: "bool \<Rightarrow> bytes \<Rightarrow> int" where
  "isDigitStr regcomp str = (if regcomp then if str \<noteq> [] \<and> list_all is_digit str then 1 else 0 else - 1)"

text \<open>The loop over the entries of \<open>/proc/<pid>/fd\<close>; \<open>isfdtype\<close> answers for sockets.\<close>

fun shutdown_sockets :: "bool \<Rightarrow> (int \<Rightarrow> int) \<Rightarrow> bytes list \<Rightarrow> int list option" where
  "shutdown_sockets regcomp isfdtype [] = Some []"
| "shutdown_sockets regcomp isfdtype (name # names) =
    (if isDigitStr regcomp name \<noteq> 0 then
       do { sockFD \<leftarrow> atoi name;
            rest \<leftarrow> shutdown_sockets regcomp isfdtype names;
            Some (if isfdtype sockFD \<noteq> 0 then sockFD # rest else rest) }
     else shutdown_sockets regcomp isfdtype names)"

text \<open>
  The entries are the descriptors of the process and the two directories: every socket of the process is
  shut down, whether it is the server's or not, and nothing else.
\<close>

lemma shutdown_sockets_all:
  assumes "\<forall>d \<in> set fds. d < 2 ^ 31"
  shows "shutdown_sockets True isfdtype ([46] # [46, 46] # map decimal fds) =
    Some (filter (\<lambda>d. isfdtype d \<noteq> 0) (map int fds))"
proof -
  have "shutdown_sockets True isfdtype (map decimal fds) = Some (filter (\<lambda>d. isfdtype d \<noteq> 0) (map int fds))"
    using assms decimal_digits by (induction fds) (simp_all add: isDigitStr_def atoi_decimal)
  then show ?thesis by (simp add: isDigitStr_def is_digit_def)
qed

section \<open>The default handler\<close>

text \<open>It sends back what it received; \<open>ret\<close> is the result of \<open>recv\<close>, \<open>buf\<close> what it wrote.\<close>

definition InternalProtocolHandler ::
    "int \<Rightarrow> bytes \<Rightarrow> bool \<Rightarrow> sys_answer list \<Rightarrow> (int \<times> sys_call list) option" where
  "InternalProtocolHandler ret buf related script =
    (if ret > 0 then
       do { (ret, _, _, calls) \<leftarrow> internalBlockingSender (take (nat ret) buf) related script; Some (ret, calls) }
     else Some (ret, []))"

text \<open>
  The connection is kept exactly when something was received and the peer got all of it back; it never
  gets anything else.
\<close>

lemma default_handler_echoes:
  assumes "InternalProtocolHandler ret buf related script = Some (r, calls)" "ret \<le> int (length buf)"
    and "answers_ok (nat ret) script"
  shows "(r > 0 \<longleftrightarrow> ret > 0 \<and> received calls script = take (nat ret) buf) \<and>
    (\<exists>n \<le> nat ret. received calls script = take n buf)"
proof (cases "ret > 0")
  case False
  then show ?thesis using assms(1) by (auto simp: InternalProtocolHandler_def)
next
  case True
  let ?b = "take (nat ret) buf"
  have len: "length ?b = nat ret" "?b \<noteq> []" using True assms(2) by auto
  obtain sent related' where run: "sender_loop ?b 0 0 related script = Some (r, sent, related', calls)"
    using assms(1) True by (auto simp: InternalProtocolHandler_def internalBlockingSender_def)
  have spec: "0 \<le> sent \<and> sent \<le> length ?b \<and> received calls script = slice 0 (sent - 0) ?b \<and>
    (sent < length ?b \<longrightarrow> r \<le> 0) \<and> (sent = length ?b \<longrightarrow> 0 < sent \<longrightarrow> r > 0)"
    by (rule sender_loop_spec [OF run]) (use assms(3) len in simp_all)
  then have got: "received calls script = take sent buf" "sent \<le> nat ret" using len by (auto simp: slice_def min_def)
  have "take sent buf = take (nat ret) buf \<longleftrightarrow> sent = nat ret"
    using got(2) assms(2) True by (auto dest: arg_cong [of _ _ length])
  with spec got len True show ?thesis by (metis less_le nat_less_le not_less zero_less_nat_eq)
qed

section \<open>Passing on writability\<close>

definition EPOLLOUT :: u32 where "EPOLLOUT = 4"

text \<open>
  The loop of \<open>blockingSendEpollerRoutine\<close> over the results of \<open>epoll_wait\<close>, each with the events it
  stored: the connections whose monitors are signalled, in order, when the loop ends.
\<close>

fun blockingSendEpollerRoutine :: "(int \<times> (nat \<times> u32) list) list \<Rightarrow> nat list option" where
  "blockingSendEpollerRoutine [] = None"
| "blockingSendEpollerRoutine ((pollRes, epEvents) # script) =
    (if pollRes \<ge> 1 then
       do { rest \<leftarrow> blockingSendEpollerRoutine script;
            Some (map fst (filter (\<lambda>e. snd e AND EPOLLOUT \<noteq> 0) (take (nat pollRes) epEvents)) @ rest) }
     else if pollRes = - 1 then Some []
     else blockingSendEpollerRoutine script)"

text \<open>The thread ends at the first error of \<open>epoll_wait\<close>, an interrupted call included, and not before.\<close>

lemma epoller_ends_on_error:
  "blockingSendEpollerRoutine script = None \<longleftrightarrow> \<not> list_ex (\<lambda>e. fst e = - 1) script"
  by (induction script rule: blockingSendEpollerRoutine.induct) auto

end
