(* ===== verification/Program.thy ===== *)
theory Program
  imports Startup
begin

text \<open>
  The program as a whole: the arguments of the command line as \<open>getopt_long\<close> takes them apart for the option
  tables of \<open>lib/cc_init.c\<close>, its help text and remaining helpers, the log file (\<open>lib/cc_log.c\<close>) and \<open>main\<close>
  (\<open>src/cc_main.c\<close>).
\<close>

section \<open>The option tables and getopt\<close>

definition str :: "string \<Rightarrow> bytes" where
  "str s = map (\<lambda>c. of_nat (of_char c)) s"

definition opt :: string where "opt = ''i:p:f:mlhv''"

definition long_options :: "(string \<times> char) list" where
  "long_options = [(''man-clear'', CHR ''m''), (''log-file'', CHR ''l''), (''help'', CHR ''h''), (''version'', CHR ''v'')]"

text \<open>The options of an option string, with whether they take an argument.\<close>

fun short_options :: "string \<Rightarrow> (char \<times> bool) list" where
  "short_options [] = []"
| "short_options [c] = [(c, False)]"
| "short_options (c # d # s) = (if d = CHR '':'' then (c, True) # short_options s else (c, False) # short_options (d # s))"

text \<open>A long option without an argument: its exact name or an abbreviation of one name.\<close>

definition long_option :: "bytes \<Rightarrow> char" where
  "long_option name =
    (case map_of (map (\<lambda>(n, c). (str n, c)) long_options) name of
       Some c \<Rightarrow> c
     | None \<Rightarrow> (case filter (\<lambda>(n, c). take (length name) (str n) = name) long_options of
                 [(n, c)] \<Rightarrow> c
               | _ \<Rightarrow> CHR ''?''))"

text \<open>
  \<open>getopt_long\<close> of the C library, called until it returns \<open>-1\<close>. \<open>cs\<close> are the letters left of the argument
  that is taken apart; arguments that are no options are passed over, \<open>--\<close> ends the options.
\<close>

fun getopt_long :: "bytes \<Rightarrow> bytes list \<Rightarrow> (char \<times> bytes) list" where
  "getopt_long (c # cs) args =
    (let ch = char_of (unat c) in
     case map_of (short_options opt) ch of
       None \<Rightarrow> (CHR ''?'', []) # getopt_long cs args
     | Some False \<Rightarrow> (ch, []) # getopt_long cs args
     | Some True \<Rightarrow>
         if cs \<noteq> [] then (ch, cs) # getopt_long [] args
         else (case args of [] \<Rightarrow> [(CHR ''?'', [])] | a # args \<Rightarrow> (ch, a) # getopt_long [] args))"
| "getopt_long [] [] = []"
| "getopt_long [] (a # args) =
    (if a = str ''--'' then []
     else if take 2 a = str ''--'' then
       (let name = takeWhile (\<lambda>c. c \<noteq> 61) (drop 2 a) in
        (if name = drop 2 a then long_option name else CHR ''?'', []) # getopt_long [] args)
     else if take 1 a = str ''-'' then getopt_long (drop 1 a) args
     else getopt_long [] args)"

text \<open>\<open>cc_set_init_config\<close> with its arguments; the first is the name of the program.\<close>

definition set_init_config_argv :: "init_env \<Rightarrow> bytes list \<Rightarrow> cc_config \<Rightarrow> (int \<times> cc_config) outcome option" where
  "set_init_config_argv E argv c = cc_set_init_config E (getopt_long [] (tl argv)) c"

section \<open>The help text\<close>

definition COMMAND_STR_LEN :: nat where "COMMAND_STR_LEN = 30"
definition HELP_STR_LEN :: nat where "HELP_STR_LEN = 50"

definition cmds :: "(string \<times> string) list" where
  "cmds =
    [(''-i'', ''IP address of the eth0.''),
     (''-p'', ''Connection port number. Default is 6633.''),
     (''-f'', ''Set config file.''),
     (''-m, --man-clear'', ''Don'' @ [CHR 39] @ ''t auto clear the resource when disconnect.''),
     (''-l, --log-file'', ''Create log file:''),
     (''              '', ''/usr/local/var/log/cc_controller.log.''),
     (''-h, --help'', ''Print help message.''),
     (''-v, --version'', ''Print the version number of c_controller_for_pof.'')]"

text \<open>The conversion \<open>%-ns\<close> of \<open>printf\<close>, and the lines that are printed.\<close>

definition pad_right :: "nat \<Rightarrow> string \<Rightarrow> string" where
  "pad_right n s = s @ replicate (n - length s) CHR '' ''"

definition cc_disp_help :: "string list" where
  "cc_disp_help =
    [''Usage: cc_main [options] [target] ...'', ''Options:''] @
    map (\<lambda>(c, h). ''  '' @ pad_right 30 c @ pad_right 50 h) cmds @
    [CHR 10 # ''Report bugs to <wqlxx@aliyun.com>'']"

lemma cmds_fit: "list_all (\<lambda>(c, h). length c < COMMAND_STR_LEN \<and> length h < HELP_STR_LEN) cmds"
  by (simp add: cmds_def COMMAND_STR_LEN_def HELP_STR_LEN_def)

text \<open>The lines of the table have one width, since no string is longer than its column.\<close>

lemma help_columns: "list_all (\<lambda>l. length l = 82) (map (\<lambda>(c, h). ''  '' @ pad_right 30 c @ pad_right 50 h) cmds)"
  by (simp add: cmds_def pad_right_def)

section \<open>Arguments and options\<close>

lemma short_options_opt:
  "map_of (short_options opt) ch =
    (if ch \<in> {CHR ''i'', CHR ''p'', CHR ''f''} then Some True
     else if ch \<in> {CHR ''m'', CHR ''l'', CHR ''h'', CHR ''v''} then Some False else None)"
  by (simp add: opt_def)

text \<open>
  An option the user writes, in its two forms: with its argument behind it or in the same word, with its
  short or with its long name.
\<close>

definition takes_arg :: "char \<Rightarrow> bool" where
  "takes_arg ch \<longleftrightarrow> ch \<in> {CHR ''i'', CHR ''p'', CHR ''f''}"

definition long_name :: "char \<Rightarrow> string" where
  "long_name ch = the (map_of (map (\<lambda>(n, c). (c, n)) long_options) ch)"

definition option_words :: "bool \<Rightarrow> char \<times> bytes \<Rightarrow> bytes list" where
  "option_words other = (\<lambda>(ch, arg).
    if takes_arg ch then (if other \<and> arg \<noteq> [] then [str [CHR ''-'', ch] @ arg] else [str [CHR ''-'', ch], arg])
    else if other then [str (''--'' @ long_name ch)] else [str [CHR ''-'', ch]])"

definition written_option :: "char \<times> bytes \<Rightarrow> bool" where
  "written_option = (\<lambda>(ch, arg). takes_arg ch \<or> ch \<in> snd ` set long_options \<and> arg = [])"

lemma letters:
  "char_of (105 :: nat) = CHR ''i''" "char_of (112 :: nat) = CHR ''p''" "char_of (102 :: nat) = CHR ''f''"
  "char_of (109 :: nat) = CHR ''m''" "char_of (108 :: nat) = CHR ''l''" "char_of (104 :: nat) = CHR ''h''"
  "char_of (118 :: nat) = CHR ''v''"
  by code_simp+

lemma getopt_words:
  assumes "written_option x"
  shows "getopt_long [] (option_words other x @ rest) = x # getopt_long [] rest"
proof -
  obtain ch arg where x: "x = (ch, arg)" by (cases x)
  from assms consider "ch = CHR ''i''" | "ch = CHR ''p''" | "ch = CHR ''f''" | "ch = CHR ''m''" "arg = []"
    | "ch = CHR ''l''" "arg = []" | "ch = CHR ''h''" "arg = []" | "ch = CHR ''v''" "arg = []"
    by (auto simp: x written_option_def takes_arg_def long_options_def)
  then show ?thesis
    by cases (simp_all add: x option_words_def takes_arg_def long_name_def long_options_def str_def short_options_opt
        long_option_def letters Let_def)
qed

lemma getopt_all_words:
  "list_all (\<lambda>(b, x). written_option x) ws \<Longrightarrow>
    getopt_long [] (concat (map (\<lambda>(b, x). option_words b x) ws) @ rest) = map snd ws @ getopt_long [] rest"
  by (induction ws) (auto simp: getopt_words)

definition known_option :: "char \<times> bytes \<Rightarrow> bool" where
  "known_option = (\<lambda>(ch, a). ch \<in> {CHR ''?'', CHR ''i'', CHR ''p'', CHR ''f'', CHR ''m'', CHR ''l'', CHR ''h'', CHR ''v''})"

lemma long_option_known: "known_option (long_option name, a)"
  by (auto simp: known_option_def long_option_def long_options_def split: option.split list.split prod.split)

lemma short_option_known: "map_of (short_options opt) ch = Some b \<Longrightarrow> known_option (ch, a)" "known_option (CHR ''?'', a)"
  by (auto simp: known_option_def short_options_opt split: if_splits)

lemma getopt_known: "list_all known_option (getopt_long cs args)"
proof (induction cs args rule: getopt_long.induct)
  case (1 c cs args)
  then show ?case
    by (auto simp: Let_def short_option_known(2) simp del: getopt_long.simps(2,3) split: list.split option.split
        bool.split intro: short_option_known(1))
next
  case (3 a args)
  then show ?case by (auto simp: Let_def long_option_known short_option_known(2))
qed simp

lemma init_option_keeps:
  assumes "init_option E ch a c = Some (Goes_on c')" "known_option (ch, a)" "config_ok c"
  shows "config_ok c' \<and> cc_cmd_auto_reconnect c' = cc_cmd_auto_reconnect c"
proof -
  have len: "length (cc_controller_ip_addr c) = 20" "length (cc_cmd_config_file c) = 100" "cc_cmd_config_file c ! 99 = 0"
    using assms(3) by (simp_all add: config_ok_def CC_IP_ADDRESS_STRING_LEN_def CC_STRING_MAX_LEN_def)
  have "ch \<noteq> CHR ''r''" using assms(2) by (auto simp: known_option_def)
  with assms(1) len show ?thesis
    by (auto simp: init_option_def config_ok_def CC_IP_ADDRESS_STRING_LEN_def CC_STRING_MAX_LEN_def
        cc_set_controller_ip_def cc_set_controller_port_def cc_set_log_file_def strcpy_def strncpy_def put_bytes_def
        split: if_split_asm bind_split_asm)
qed

lemma init_config_keeps:
  assumes "cc_set_init_config E opts c = Some (Goes_on (r, c'))" "list_all known_option opts" "config_ok c"
  shows "r = CC_NO_ERROR \<and> config_ok c' \<and> cc_cmd_auto_reconnect c' = cc_cmd_auto_reconnect c"
  using assms
proof (induction opts arbitrary: c)
  case (Cons x opts)
  obtain ch a where x: "x = (ch, a)" by (cases x)
  from Cons.prems(1) obtain c1 where c1: "init_option E ch a c = Some (Goes_on c1)"
    "cc_set_init_config E opts c1 = Some (Goes_on (r, c'))"
  proof (cases "init_option E ch a c")
    case (Some q)
    with Cons.prems(1) that show ?thesis by (cases q) (auto simp: x)
  qed (auto simp: x)
  with init_option_keeps [OF c1(1)] Cons.prems(2,3) Cons.IH [OF c1(2)] show ?case by (simp add: x)
qed simp

text \<open>
  C34. The command line, from the arguments of the program. Options the program can take (\<open>fine_option\<close>:
  an address below 20 characters, a number \<open>atoi\<close> can hold, a log file that opens), written with the short
  name or the full long one and with their argument in the next word or in the same one, in any order and
  number, have the effect of the last occurrence of each. An address of 20 or more characters behind them
  is written over the end of its variable. And whatever the arguments are, if the program goes on its
  configuration is well-formed (the name of the file is terminated) and the flag for reconnecting is as it
  was: the code handles the option \<open>r\<close>, which the option string does not contain.
\<close>

theorem command_line:
  assumes "config_ok c" "list_all (\<lambda>(b, x). fine_option E x \<and> written_option x) ws"
  shows "(\<exists>c'. set_init_config_argv E (prog # concat (map (\<lambda>(b, x). option_words b x) ws)) c
        = Some (Goes_on (CC_NO_ERROR, c')) \<and> configured (map snd ws) c c') \<and>
    (\<forall>a rest. 20 \<le> length a \<longrightarrow>
        set_init_config_argv E (prog # concat (map (\<lambda>(b, x). option_words b x) ws) @ [str ''-i'', a] @ rest) c = None) \<and>
    (\<forall>argv r c'. set_init_config_argv E argv c = Some (Goes_on (r, c')) \<longrightarrow>
        r = CC_NO_ERROR \<and> config_ok c' \<and> cc_cmd_auto_reconnect c' = cc_cmd_auto_reconnect c)"
proof -
  have ws: "list_all (\<lambda>(b, x). written_option x) ws" "list_all (fine_option E) (map snd ws)"
    using assms(2) by (auto simp: list_all_iff)
  obtain c' where c': "config_ok c'" "configured (map snd ws) c c'"
    "\<And>more. cc_set_init_config E (map snd ws @ more) c = cc_set_init_config E more c'"
    using assms(1) ws(2) by (rule config_append) blast
  have "set_init_config_argv E (prog # concat (map (\<lambda>(b, x). option_words b x) ws)) c
      = Some (Goes_on (CC_NO_ERROR, c'))"
    using getopt_all_words [OF ws(1), of "[]"] c'(3) [of "[]"] by (simp add: set_init_config_argv_def)
  moreover have "set_init_config_argv E (prog # concat (map (\<lambda>(b, x). option_words b x) ws) @ [str ''-i'', a] @ rest) c = None"
    if "20 \<le> length a" for a rest
  proof -
    have "[str ''-i'', a] = option_words False (CHR ''i'', a)" by (simp add: option_words_def takes_arg_def)
    moreover have "written_option (CHR ''i'', a)" by (simp add: written_option_def takes_arg_def)
    moreover have "init_option E (CHR ''i'') a c' = None"
      using that c'(1) by (simp add: init_option_def cc_set_controller_ip_def strcpy_overflow config_ok_def CC_IP_ADDRESS_STRING_LEN_def)
    ultimately show ?thesis
      using getopt_all_words [OF ws(1), of "option_words False (CHR ''i'', a) @ rest"] c'(3)
      by (simp add: set_init_config_argv_def getopt_words)
  qed
  ultimately show ?thesis using c'(2) init_config_keeps [OF _ getopt_known assms(1), of E]
    by (auto simp: set_init_config_argv_def)
qed

lemma command_line_witness:
  "\<exists>c'. set_init_config_argv root_env
      [str ''cc_main'', str ''-p6653'', str ''--man-clear'', str ''-i'', str ''10.0.0.1''] default_config
        = Some (Goes_on (CC_NO_ERROR, c')) \<and>
    cc_controller_port c' = 6653 \<and> c_string (cc_controller_ip_addr c') = str ''10.0.0.1'' \<and> cc_cmd_auto_clear c' = CC_CMD_OK"
proof -
  define ws where "ws = [(True, (CHR ''p'', str ''6653'')), (True, (CHR ''m'', [])), (False, (CHR ''i'', str ''10.0.0.1''))]"
  have at: "atoi (str ''6653'') = Some 6653" by code_simp
  have "list_all (\<lambda>(b, x). fine_option root_env x \<and> written_option x) ws"
    using at by (simp add: ws_def fine_option_def written_option_def takes_arg_def long_options_def str_def
        CC_IP_ADDRESS_STRING_LEN_def)
  from conjunct1 [OF command_line [OF default_ok this, of "str ''cc_main''"]]
  obtain c' where c': "set_init_config_argv root_env (str ''cc_main'' # concat (map (\<lambda>(b, x). option_words b x) ws)) default_config
      = Some (Goes_on (CC_NO_ERROR, c'))" "configured (map snd ws) default_config c'"
    by blast
  have "str ''cc_main'' # concat (map (\<lambda>(b, x). option_words b x) ws) =
      [str ''cc_main'', str ''-p6653'', str ''--man-clear'', str ''-i'', str ''10.0.0.1'']"
    by (simp add: ws_def option_words_def takes_arg_def long_name_def long_options_def str_def)
  with c' at show ?thesis by (intro exI [of _ c']) (simp add: ws_def configured_def)
qed

section \<open>The log file\<close>

text \<open>What \<open>log_fp\<close> points to: nothing, an open file, or a file that was closed.\<close>

datatype log_file = Log_null | Log_open | Log_closed

definition CC_NO_LOG_FILE :: int where "CC_NO_LOG_FILE = 2"

definition CC_OUTPUT_LOG_FILE :: "log_file \<Rightarrow> log_file option" where
  "CC_OUTPUT_LOG_FILE l = (if l = Log_closed then None else Some l)"

definition set_log_file :: "bool \<Rightarrow> log_file \<Rightarrow> log_file outcome" where
  "set_log_file opens l = (if opens then Goes_on Log_open else Exits)"

definition cc_empty_log_file :: "log_file \<Rightarrow> int" where
  "cc_empty_log_file l = (if l = Log_null then CC_NO_LOG_FILE else CC_NO_ERROR)"

definition cc_delete_log_file :: "log_file \<Rightarrow> (int \<times> log_file) option" where
  "cc_delete_log_file l =
    (case l of Log_null \<Rightarrow> Some (CC_NO_LOG_FILE, l) | Log_open \<Rightarrow> Some (CC_NO_ERROR, Log_closed) | Log_closed \<Rightarrow> None)"

text \<open>
  After the file is closed \<open>log_fp\<close> still points to it: the next output and the next attempt to close it are
  undefined, until a new file is opened.
\<close>

lemma log_stale:
  assumes "cc_delete_log_file l = Some (CC_NO_ERROR, l')"
  shows "cc_delete_log_file l' = None" "CC_OUTPUT_LOG_FILE l' = None"
    "set_log_file opens l' = Goes_on l'' \<Longrightarrow> CC_OUTPUT_LOG_FILE l'' \<noteq> None \<and> cc_delete_log_file l'' \<noteq> None"
  using assms by (auto simp: cc_delete_log_file_def CC_OUTPUT_LOG_FILE_def set_log_file_def CC_NO_LOG_FILE_def
      CC_NO_ERROR_def split: log_file.splits if_splits)

section \<open>The test handler\<close>

definition MAXBUF :: nat where "MAXBUF = 1024"

text \<open>
  \<open>handle_message\<close>: \<open>data\<close> is what \<open>recv\<close> stores, at most \<open>MAXBUF\<close> bytes, or \<open>None\<close> when it fails. The result is
  the value returned, the text that is printed for the message and the open descriptors.
\<close>

definition handle_message :: "bytes option \<Rightarrow> int \<Rightarrow> int set \<Rightarrow> (int \<times> bytes \<times> int set) option" where
  "handle_message data new_fd fds =
    (let buf = replicate (MAXBUF + 1) 0;
         len = (case data of None \<Rightarrow> - 1 | Some d \<Rightarrow> int (length d))
     in do { buf \<leftarrow> (case data of None \<Rightarrow> Some buf | Some d \<Rightarrow> put_bytes 0 (take MAXBUF d) buf);
             Some (if len > 0 then (len, c_string buf, fds) else (- 1, [], fds - {new_fd})) })"

text \<open>The text is what was received up to the first zero: the byte behind the buffer stays zero.\<close>

lemma handle_message_text:
  assumes "length d \<le> MAXBUF" "d \<noteq> []"
  shows "handle_message (Some d) fd fds = Some (int (length d), takeWhile (\<lambda>c. c \<noteq> 0) d, fds)"
proof -
  have "upd 0 d (replicate (MAXBUF + 1) 0) = d @ replicate (MAXBUF + 1 - length d) 0"
    using assms(1) by (intro nth_equalityI) (auto simp: nth_append nth_Cons split: nat.split)
  moreover have "MAXBUF + 1 - length d = Suc (MAXBUF - length d)" using assms(1) by simp
  moreover have "takeWhile (\<lambda>c. c \<noteq> 0) (d @ 0 # xs) = takeWhile (\<lambda>c. c \<noteq> (0 :: u8)) d" for xs
    by (induction d) auto
  ultimately show ?thesis using assms by (simp add: handle_message_def put_bytes_Some c_string_def Let_def)
qed

section \<open>main\<close>

text \<open>
  \<open>finish\<close> stands for \<open>cc_finish_init\<close>, which is called but only defined in a part of \<open>lib/cc_init.c\<close> that is
  not compiled. \<open>cc_conn_accept\<close> goes on in the parent or in the child, as \<open>a_fork\<close> says. The result is the
  status of the process and its open descriptors.
\<close>

definition cc_main ::
    "init_env \<Rightarrow> bytes list \<Rightarrow> (cc_config \<Rightarrow> int set \<Rightarrow> (int \<times> int set) option) \<Rightarrow> listen_answers \<Rightarrow> accept_answers \<Rightarrow>
     int set \<Rightarrow> (int \<times> int set) option" where
  "cc_main E argv finish la aa fds =
    do { r \<leftarrow> set_init_config_argv E argv default_config;
         (case r of
            Exits \<Rightarrow> Some (0, fds)
          | Goes_on (ret, c) \<Rightarrow>
              do { (ret, fds) \<leftarrow> finish c fds;
                   let (ret, fds, si) = cc_server_conn_create la fds server_info0;
                   (ret, fds) \<leftarrow> cc_conn_accept aa fds;
                   Some (0, fds) }) }"

text \<open>
  What becomes of the controller: once the options are read it makes its socket, accepts one connection,
  hands it to a child and ends, with status zero. When the socket cannot be made the results are ignored: it
  accepts from a socket that does not exist, which fails, and ends with the same status.
\<close>

theorem main_outcome:
  assumes "set_init_config_argv E argv default_config = Some (Goes_on (r, c))" "finish c fds = Some (ret, fds)"
    and "l_socket la \<notin> fds" "l_socket la \<ge> 0" "a_fork aa > 0" "a_accept aa \<le> FD_SETSIZE"
    and "listen_well la \<or> a_accept aa < 0"
  shows "\<exists>fds'. cc_main E argv finish la aa fds = Some (0, fds') \<and> fds' \<subseteq> insert (l_socket la) (insert (a_accept aa) fds) \<and>
    (listen_well la \<and> a_accept aa \<ge> 0 \<longrightarrow> fds' = insert (l_socket la) (insert (a_accept aa) fds))"
proof -
  obtain r' fds1 si where create: "cc_server_conn_create la fds server_info0 = (r', fds1, si)" by (cases rule: prod_cases3)
  then have fds1: "fds1 \<subseteq> insert (l_socket la) fds" "listen_well la \<Longrightarrow> fds1 = insert (l_socket la) fds"
    by (auto simp: cc_server_conn_create_def Let_def listen_well_def cc_set_nodelay_def cc_set_nonblocking_def
        CC_ERROR_def CC_NO_ERROR_def split: if_splits)
  have "\<exists>ret. cc_conn_accept aa fds1 = Some (ret, if a_accept aa < 0 then fds1 else insert (a_accept aa) fds1)"
    using assms(5,6) by (auto simp: cc_conn_accept_def Let_def)
  then show ?thesis
    using assms(1,2,7) create fds1 by (auto simp: cc_main_def)
qed

end
