(* ===== verification/Spec2Isabelle.thy ===== *)
theory Spec2Isabelle
  imports Codec ParseResult OflEnums MemPoolUse SlabUse ThreadPool ServerRun ServerIO Program
begin

text \<open>
  A verification development for cc_for_pof, an OpenFlow 1.3 controller in C.

  The program. Its core turns the messages of the controller into the bytes of the OpenFlow protocol
  and back: \<open>ofl_msg_pack\<close> (\<open>src/cc_create_msg.c\<close>) allocates and fills a buffer, with the actions of
  \<open>src/cc_action.c\<close>; \<open>ofl_msg_unpack\<close> (\<open>src/cc_parse_msg.c\<close>) checks a received buffer and builds the
  message; both rest on the packed structures of \<open>include/cc_openflow_13.c\<close>. Around it are a linked
  list (\<open>lib/cc_link.c\<close>), a memory pool (\<open>lib/cc_mem_pool.c\<close>), a slab allocator
  (\<open>src/cc_ncx_slab.c\<close>), a thread pool (\<open>lib/cc_thread_pool.c\<close>) and a
  socket server (\<open>src/cc_conn.c\<close>).

  The theories.
  \<^item> \<open>Prelude\<close>: the widths of the integers, the collections of facts (\<open>layout_simps\<close>, \<open>mem_simps\<close>,
    \<open>pack_simps\<close>, \<open>unpack_simps\<close>, \<open>wire_simps\<close>), lemmas on lists and words.
  \<^item> \<open>CMem\<close>: buffers as lists of bytes. A load or a store outside the buffer is \<open>None\<close>; \<open>malloc\<close> takes
    from a parameter either the null pointer or the bytes the block happens to hold. The locale
    \<open>scalar\<close> is the interface of a fixed-width encoding, interpreted at 1, 2, 4 and 8 bytes.
  \<^item> \<open>Layout\<close>: C structures as data (\<open>ctype\<close>), with size, alignment and member offsets by the rules of
    the ABI. \<open>Openflow13\<close>: all structures of \<open>include/cc_openflow_13.c\<close>, the enumerations the code
    switches on and the \<open>OFP_ASSERT\<close>s. Offsets are computed from them (\<open>offsetof\<close>), never written out.
  \<^item> \<open>OflTypes\<close>: messages and actions by the members the code reads and writes, errors, and the record
    \<open>ofl_ext\<close> of everything the code calls and the repository does not contain.
  \<^item> \<open>Action\<close>, \<open>CreateMsg\<close>, \<open>ParseMsg\<close>: one definition per C function, with its name, in the order of
    the file; loops (\<open>pack_loop\<close>, \<open>unpack_loop\<close>) and switches (\<open>pack_switch\<close>, \<open>unpack_switch\<close>) are
    definitions of their own. \<open>CreateMsg\<close> holds the locale \<open>element\<close>, the contract of a packed element
    (its length and that it writes its image and nothing else), interpreted on the actions.
  \<^item> \<open>Wire\<close>: the abstract specification, each message as the concatenation of its members in network
    byte order. It shares no definition with the packing or the unpacking code.
  \<^item> \<open>Codec\<close>: the refinement. The locale \<open>packer\<close> says that a function writes the specified image
    whatever the memory held before; \<open>codec\<close> extends it by the inverse the parser promises. They are
    interpreted on every message the repository converts itself; \<open>pack_wire\<close> and \<open>unpack_wire\<close> collect
    the interpretations along the two dispatches.
  \<^item> \<open>Safety\<close>: the parser on arbitrary input. \<open>library_safe\<close> is what is asked of the library (it stays
    inside the bytes it is handed), \<open>unguarded\<close> lists the message types whose checks do not suffice.
  \<^item> \<open>ErrorCodes\<close>, \<open>OflEnums\<close>: the enumerations of \<open>include/cc_openflow_13.c\<close> that give members their meaning, first the
    codes of error messages with what a receiver reads from a type and a code (\<open>ofp_error_of\<close>), then the rest with the
    members that hold them. \<open>HostExt\<close>: a concrete library for the witnesses.
  \<^item> \<open>ParseResult\<close>: what unpacking can answer. \<open>returns E Q\<close> says that a parser fails with an error of \<open>E\<close> or gives a
    result with \<open>Q\<close>; its rules (collection \<open>outcome\<close>) follow the structure of a definition. \<open>errors_of\<close> lists the errors of
    each message type, \<open>valid_body\<close> the messages that can come out.
  \<^item> \<open>Link\<close>: \<open>lib/cc_link.c\<close> on a store of elements. \<open>chain\<close> relates a pointer to the list of its
    elements; loops over pointers are partial functions, so that a result proves that they end.
  \<^item> \<open>Transition\<close>: programs as labelled step relations. The locale \<open>invariant_system\<close> gives an invariant of
    all reachable states, \<open>simulation\<close> the refinement of an abstract machine along runs; \<open>count_at\<close> counts
    the threads at a kind of place. The systems below interpret them.
  \<^item> \<open>MemPool\<close>: \<open>lib/cc_mem_pool.c\<close> on a heap of nodes and blocks, its loops over nodes as partial
    functions, with the shape of one list (\<open>pool_shape\<close>). \<open>MemPoolUse\<close>: the lists of all types together
    (\<open>pools_ok\<close>), the calls of clients as steps and what a client may rely on. Each call is one step: the code
    locks only the release, and with a function that does not exist, so the calls are assumed not to overlap.
  \<^item> \<open>ThreadPool\<close>: \<open>lib/cc_thread_pool.c\<close>. Each thread has a program counter; the code is cut where a
    thread takes or leaves the mutex, blocks, or reads what is written without the mutex. \<open>routine_step\<close>,
    \<open>add_step\<close> and \<open>destroy_step\<close> are the three functions, \<open>pool_thread_step\<close> their interleaving while the
    pool is allocated. \<open>pool_queue\<close> is the invariant, a list of jobs the abstract machine, both up to the
    point where \<open>pool_destroy\<close> gets behind its joins (\<open>tearing_down\<close>), which do not wait for detached threads;
    \<open>pool_destroy_frees\<close> follows it from there. What is undefined in C is no step; so no thread gets behind
    the end of a job, which frees its argument twice (\<open>thread_job_double_free\<close>).
  \<^item> \<open>BlockingSend\<close>: \<open>internalBlockingSender\<close> of \<open>src/cc_conn.c\<close> over a script of the kernel's answers.
  \<^item> \<open>SocketServer\<close>: the record of the server in \<open>src/cc_conn.c\<close>, its creation, start and stop as functions of
    the results of the system calls, and the arithmetic of \<open>addQSSWorker\<close>. \<open>ServerRun\<close>: the running server,
    any number of workers of \<open>epollWorkerRoutine\<close> with \<open>onAcceptRoutine\<close> as an executable step function;
    \<open>server_inv\<close> relates the three counters to the places of the workers and the life of the server to both.

  \<^item> \<open>SlabPages\<close>: the page descriptors of \<open>src/cc_ncx_slab.c\<close>, circular lists through them (\<open>ring\<close>), runs of pages as
    blocks (\<open>pages_inv\<close>) and the contract of the page allocator. \<open>Slab\<close>: the pool and its operations, one definition
    per function and per branch. \<open>SlabInv\<close>: the invariant \<open>slab_inv\<close>, with the blocks and the chunks of each page as
    ghosts, and the steps that keep it. \<open>SlabChunks\<close>: the bitmaps of the three kinds of pages. \<open>SlabAlloc\<close>: the regions
    handed out (\<open>live\<close>) and what every allocation and release does to them. \<open>SlabStat\<close>: the statistics. \<open>SlabUse\<close>: the
    initialisation, clients as a step relation, the properties.
  \<^item> \<open>Startup\<close>: \<open>lib/cc_init.c\<close>, the command line as a function of the results of \<open>getopt_long\<close>, with the
    functions of the C library on strings it uses, the listening socket, \<open>cc_conn_accept\<close> and \<open>cc_polling\<close>.
  \<^item> \<open>ServerIO\<close>: the loop of \<open>shutdownSocketServer\<close> over all descriptors, the default handler and
    \<open>blockingSendEpollerRoutine\<close> of \<open>src/cc_conn.c\<close>.
  \<^item> \<open>Program\<close>: the arguments of the program through \<open>getopt_long\<close> with the option tables of the code, the help text, the
    test handler, the log file (\<open>lib/cc_log.c\<close>) and \<open>main\<close> (\<open>src/cc_main.c\<close>).

  What the properties show. Of the messages: round trip, refinement of the wire format (so that no uninitialised
  memory is sent) and injectivity for the messages of \<open>msg_fits\<close>, safety of the parser on every input, the exact errors it
  reports and their meaning, well-typed results, rejection of bad headers, behaviour at the
  16-bit limit, and the defects found. Of the list, the pools, the slab allocator and the server: refinement of their
  abstract specifications, invariants under every interleaving, what is freed and when, progress, and again
  the defects, each as a theorem on the model of the code as it is.

  Bounds. The slab pool is treated for pages of 4096 bytes, chunks of 8 to 2048 bytes and addresses below \<open>2 ^ 64\<close>; the
  definitions take the page size from \<open>getpagesize\<close> as the code does. The loops over pointers and the walks over nodes are partial functions; that they return is part of
  the statements. The length of a memory pool is below \<open>2 ^ 31 - 1\<close> since the code counts to one more in an
  \<open>int\<close>. Counters of the server are unbounded integers: \<open>server_counters\<close> bounds the workers by a
  16-bit number. Fuel is not used.

  Modelled as a parameter: the results of \<open>malloc\<close>, of the system calls and of epoll, the elements that
  the library behind \<open>ofl_structs\<close> converts, the processing functions of jobs and connections. A spin lock or a
  mutex is modelled by making the section it guards one step, except in the thread pool, which has the mutex
  as state. \<open>pthread_create\<close> is taken to succeed: the code ignores its result and counts the thread all the same.
  Line 421 of \<open>src/cc_conn.c\<close>, which prints a member of a freed block, is left out.

  Not modelled:
  \<open>src/cc_init.c\<close> and \<open>src/cc_log.c\<close>, earlier copies of files that are modelled; \<open>cc_finish_init\<close>, which is compiled out
  (\<open>main\<close> gets it as a parameter); \<open>src/cc_routine.c\<close> and \<open>lib/cc_of_process.c\<close>, stubs without behaviour; the text that is
  printed, but for the help.
\<close>

section \<open>Packing and unpacking\<close>

definition wire_length :: "'x ofl_msg \<Rightarrow> nat" where
  "wire_length m = (case body_image (msg_body m) of None \<Rightarrow> 0 | Some img \<Rightarrow> sizeof ofp_header + length img)"

lemma wire_image_fits:
  assumes "msg_fits m"
  obtains bs where "wire_image m xid = Some bs" "length bs = wire_length m"
  using assms body_fits_image
  by (fastforce simp: msg_fits_def wire_image_def wire_length_def layout_simps split: option.splits)

text \<open>
  C1. Round trip. Take a message the repository converts itself whose members have the types and lengths
  their structure gives them (\<open>msg_fits\<close>), of a kind the parser accepts too (\<open>accepted\<close>: no packet-out,
  no description in a reply, no meter features, no bad port in a request), shorter than 2^16 bytes, and a library
  that converts 64-bit numbers. When \<open>malloc\<close> succeeds it is packed without error, and unpacking the
  bytes returns the same message and the same transaction id.
\<close>

theorem ofl_msg_roundtrip:
  assumes "msg_fits m" "accepted (msg_body m)" "swaps64 X" "wire_length m < 2 ^ 16"
    and "h (of_nat (wire_length m)) \<noteq> None"
  shows "\<exists>bs. ofl_msg_pack X h m xid = Some (Inr bs) \<and>
           ofl_msg_unpack X bs (of_nat (length bs)) (Some x) = Some (Some xid, Inr m)"
proof -
  obtain bs where bs: "wire_image m xid = Some bs" "length bs = wire_length m"
    using assms(1) by (rule wire_image_fits)
  with assms have "ofl_msg_pack X h m xid = Some (Inr bs)" by (simp add: pack_wire)
  with unpack_wire [OF assms(1,2,3) bs(1)] assms(4) bs(2) show ?thesis by simp
qed

lemma ofl_msg_roundtrip_witness:
  "\<exists>bs. ofl_msg_pack host_ext ready_heap (Ofl_msg 24 (Msg_role 3 0x0102030405060708)) 7 = Some (Inr bs) \<and>
     ofl_msg_unpack host_ext bs (of_nat (length bs)) (Some 0)
       = Some (Some 7, Inr (Ofl_msg 24 (Msg_role 3 0x0102030405060708)))"
  by (rule ofl_msg_roundtrip)
    (simp_all add: msg_fits_def wire_length_def wire_simps layout_simps)

text \<open>
  C2. Refinement of the wire format, for the messages the repository converts itself whose members have
  the types and lengths their structure gives them (\<open>msg_fits\<close>: among others no flow modification, no
  flow-removed message, no set-field action and no action of an unknown type, no description string
  below its wire length) and that are shorter than 2^64 bytes, with a library that converts 64-bit numbers. Packing such a message yields
  exactly the header and the members in network byte order with zero padding, whatever the allocated
  memory held before and whatever the transaction id; it fails only where \<open>malloc\<close> does, through the
  null pointer.
\<close>

theorem ofl_msg_pack_refines_wire:
  assumes "msg_fits m" "swaps64 X" "wire_length m < 2 ^ 64"
  shows "ofl_msg_pack X h m xid =
    (if h (of_nat (wire_length m)) = None then None else map_option Inr (wire_image m xid))"
proof -
  obtain bs where bs: "wire_image m xid = Some bs" "length bs = wire_length m"
    using assms(1) by (rule wire_image_fits)
  then show ?thesis using pack_wire [OF assms(1,2) bs(1), of h] assms(3) by simp
qed

lemma ofl_msg_pack_refines_wire_witness:
  "ofl_msg_pack host_ext ready_heap (Ofl_msg 17 (Msg_table_mod 5 0x01020304)) 9
     = Some (Inr [4, 17, 0, 16, 0, 0, 0, 9, 5, 0, 0, 0, 1, 2, 3, 4])"
proof -
  let ?m = "Ofl_msg 17 (Msg_table_mod 5 0x01020304) :: bytes ofl_msg"
  have "ofl_msg_pack host_ext ready_heap ?m 9 = map_option Inr (wire_image ?m 9)"
    using ofl_msg_pack_refines_wire [of ?m host_ext ready_heap 9]
    by (simp add: msg_fits_def wire_length_def wire_simps layout_simps)
  also have "\<dots> = Some (Inr [4, 17, 0, 16, 0, 0, 0, 9, 5, 0, 0, 0, 1, 2, 3, 4])"
    by code_simp
  finally show ?thesis .
qed

text \<open>
  C15. The header of every packed message, whatever its kind and whatever the library did: version,
  type, length and transaction id, the length modulo 2^16.
\<close>

theorem ofl_msg_pack_header:
  assumes "ofl_msg_pack X h m xid = Some (Inr bs)"
  shows "8 \<le> length bs \<and> take 8 bs = header_image (msg_type m) (length bs) xid"
proof -
  from assms obtain r where r: "pack_switch X h m = Some r" by (auto simp: ofl_msg_pack_def)
  with assms obtain buf where buf: "put_header (msg_type m) xid buf = Some bs"
    by (cases r) (auto simp: ofl_msg_pack_def)
  then have "8 \<le> length buf"
    by (auto simp: put_header_def Let_def store_defs put_bytes_def layout_simps split: if_splits)
  with buf show ?thesis by (auto simp: put_header_eq)
qed

lemma ofl_msg_pack_header_witness:
  "take 8 ([4, 0, 0, 8, 0, 0, 0, 9] :: bytes) = header_image 0 8 9"
proof -
  have "ofl_msg_pack host_ext ready_heap (Ofl_msg 0 Msg_header) 9 = Some (Inr [4, 0, 0, 8, 0, 0, 0, 9])"
    by code_simp
  from ofl_msg_pack_header [OF this] show ?thesis by (simp add: numeral_eq_Suc)
qed

text \<open>
  C3. Memory safety of the parser. For every sequence of bytes that has the length the caller gives,
  with a library that stays inside the bytes it is handed, unpacking does not read outside the
  buffer, except for the message types listed in \<open>unguarded\<close>.
\<close>

theorem ofl_msg_unpack_memory_safe:
  assumes "library_safe X" "unat len \<le> length buf" "\<not> unguarded buf"
  shows "\<exists>xid' r. ofl_msg_unpack X buf len xid = Some (xid', r)"
  using unpack_safe_msg [OF assms, of xid] by auto

lemma ofl_msg_unpack_memory_safe_witness:
  "\<exists>xid' r. ofl_msg_unpack host_ext [4, 15, 0, 17, 0, 0, 0, 9, 0, 0, 77, 0, 0, 0, 0, 1, 200] 17 (Some 0)
     = Some (xid', r)"
  by (rule ofl_msg_unpack_memory_safe) (simp_all add: unguarded_def wire_simps)

text \<open>
  C16. What the parser does with a bad header: a buffer shorter than a header sets the transaction id
  to zero; another version is reported before the transaction id is read; with the right version the
  id is returned even when the length does not match.
\<close>

theorem ofl_msg_unpack_rejects:
  "(len < 8 \<longrightarrow> ofl_msg_unpack X buf len (Some x) = Some (Some 0, Inl BAD_LEN)) \<and>
   (8 \<le> len \<and> unat len \<le> length buf \<and> buf ! 0 \<noteq> OFP_VERSION \<longrightarrow>
      ofl_msg_unpack X buf len (Some x)
        = Some (Some x, Inl (ofl_error OFPET_HELLO_FAILED OFPHFC_INCOMPATIBLE))) \<and>
   (8 \<le> len \<and> buf = header_image type n xid @ rest \<and> len \<noteq> ucast (of_nat n :: u16) \<longrightarrow>
      ofl_msg_unpack X buf len (Some x) = Some (Some xid, Inl BAD_LEN))"
proof (intro conjI impI)
  show "ofl_msg_unpack X buf len (Some x) = Some (Some 0, Inl BAD_LEN)" if "len < 8"
    using that by (simp add: ofl_msg_unpack_def layout_simps)
next
  assume len: "8 \<le> len \<and> unat len \<le> length buf \<and> buf ! 0 \<noteq> OFP_VERSION"
  then have 8: "8 \<le> length buf" by (simp add: word_le_nat_alt)
  then have "hd (slice 0 1 buf) = buf ! 0" by (cases buf) (simp_all add: slice_def)
  moreover have "\<not> len < 8" using len by (simp add: not_less)
  ultimately show "ofl_msg_unpack X buf len (Some x)
        = Some (Some x, Inl (ofl_error OFPET_HELLO_FAILED OFPHFC_INCOMPATIBLE))"
    using len 8 by (simp add: ofl_msg_unpack_def layout_simps mem_simps)
next
  assume "8 \<le> len \<and> buf = header_image type n xid @ rest \<and> len \<noteq> ucast (of_nat n :: u16)"
  then show "ofl_msg_unpack X buf len (Some x) = Some (Some xid, Inl BAD_LEN)"
    by (simp add: ofl_msg_unpack_def layout_simps header_fields not_less [symmetric])
qed

lemma ofl_msg_unpack_rejects_witness:
  "ofl_msg_unpack host_ext [] 7 (Some 1) = Some (Some 0, Inl BAD_LEN) \<and>
   ofl_msg_unpack host_ext [1, 0, 0, 8, 0, 0, 0, 9] 8 (Some 1)
     = Some (Some 1, Inl (ofl_error OFPET_HELLO_FAILED OFPHFC_INCOMPATIBLE)) \<and>
   ofl_msg_unpack host_ext (header_image 0 9 77 @ []) 8 (Some 1) = Some (Some 77, Inl BAD_LEN)"
  using ofl_msg_unpack_rejects [of 7 host_ext "[]" 1]
    ofl_msg_unpack_rejects [of 8 host_ext "[1, 0, 0, 8, 0, 0, 0, 9]" 1]
    ofl_msg_unpack_rejects [of 8 host_ext "header_image 0 9 77 @ []" 1 0 9 77 "[]"]
  by (simp add: OFP_VERSION_def)

text \<open>
  C17. Packing is injective on the messages of the round trip: two messages with members that fit
  (\<open>msg_fits\<close>), of kinds the parser accepts and shorter than 2^16 bytes, that are packed into the same bytes
  are the same message with the same transaction id.
\<close>

theorem ofl_msg_pack_injective:
  assumes "msg_fits m" "accepted (msg_body m)" "msg_fits m'" "accepted (msg_body m')"
    and "wire_length m < 2 ^ 16" "wire_length m' < 2 ^ 16" "swaps64 X"
    and "ofl_msg_pack X h m xid = Some (Inr bs)" "ofl_msg_pack X h' m' xid' = Some (Inr bs)"
  shows "m = m' \<and> xid = xid'"
proof -
  obtain w where w: "wire_image m xid = Some w" "length w = wire_length m"
    using assms(1) by (rule wire_image_fits)
  obtain w' where w': "wire_image m' xid' = Some w'" "length w' = wire_length m'"
    using assms(3) by (rule wire_image_fits)
  from assms w w' pack_wire [OF assms(1,7) w(1), of h] pack_wire [OF assms(3,7) w'(1), of h']
  have "w = bs" "w' = bs" by (auto split: if_splits)
  with unpack_wire [OF assms(1,2,7) w(1), of "Some 0"] unpack_wire [OF assms(3,4,7) w'(1), of "Some 0"]
    assms(5,6) w(2) w'(2)
  show ?thesis by simp
qed

lemma ofl_msg_pack_injective_witness:
  "ofl_msg_pack host_ext ready_heap (Ofl_msg 24 (Msg_role 3 1)) 7
     \<noteq> ofl_msg_pack host_ext ready_heap (Ofl_msg 24 (Msg_role 3 2)) 7"
proof
  assume eq: "ofl_msg_pack host_ext ready_heap (Ofl_msg 24 (Msg_role 3 1)) 7
     = ofl_msg_pack host_ext ready_heap (Ofl_msg 24 (Msg_role 3 2)) 7"
  have a: "ofl_msg_pack host_ext ready_heap (Ofl_msg 24 (Msg_role 3 1)) 7
      = Some (Inr [4, 24, 0, 24, 0, 0, 0, 7, 0, 0, 0, 3, 0, 0, 0, 0, 0, 0, 0, 0, 0, 0, 0, 1])"
    by code_simp
  have "(Ofl_msg 24 (Msg_role 3 1) :: bytes ofl_msg) = Ofl_msg 24 (Msg_role 3 2) \<and> (7 :: u32) = 7"
    by (rule ofl_msg_pack_injective [OF _ _ _ _ _ _ _ a a [unfolded eq]])
      (simp_all add: msg_fits_def wire_length_def wire_simps layout_simps)
  then show False by simp
qed



section \<open>Structures and actions\<close>

text \<open>
  Every \<open>OFP_ASSERT\<close> of the protocol header holds, with the x86-64 and with the i386 alignment
  rules, and no structure contains padding of the compiler.
\<close>

lemma ofp_asserts_hold:
  "list_all (\<lambda>(t, n). csize 8 t = n \<and> csize 4 t = n \<and> leaf_bytes t = n) ofp_asserts"
  by (simp add: ofp_asserts_def ofp_struct_defs align_up_def numeral_2_eq_2 [symmetric])

text \<open>
  C22. Packing an action that has a wire image (one of a type of the protocol, without set-field and
  experimenter actions), at any place of the buffer that has room for it, replaces exactly the bytes of
  the action by its image, leaves every other byte alone and returns the length that
  \<open>ofl_actions_ofp_len\<close> announced.
\<close>

theorem ofl_actions_pack_image:
  assumes "action_image a = Some img" "dst + length img \<le> length bs"
  shows "ofl_actions_pack X a dst data bs = Some (upd dst img bs, of_nat (length img)) \<and>
         ofl_actions_ofp_len X a = Some (of_nat (length img))"
proof -
  let ?pre = "take dst bs" and ?mid = "take (length img) (drop dst bs)"
    and ?post = "drop (dst + length img) bs"
  have bs: "bs = ?pre @ ?mid @ ?post"
    by (metis append_take_drop_id drop_drop add.commute)
  have "ofl_actions_pack X a (length ?pre) data (?pre @ ?mid @ ?post)
      = Some (?pre @ img @ ?post, of_nat (length img))"
    by (rule action_pack_at [OF assms(1)]) (use assms(2) in simp)
  moreover have "length ?pre = dst" using assms(2) by simp
  ultimately have "ofl_actions_pack X a dst data bs = Some (?pre @ img @ ?post, of_nat (length img))"
    unfolding bs [symmetric] by (simp only:)
  with assms show ?thesis by (simp add: upd_append action_image_len)
qed

lemma ofl_actions_pack_image_witness:
  "ofl_actions_pack host_ext (Ofl_action 22 (Act_group 0x01020304)) 1 0 (replicate 10 0xaa)
     = Some (upd 1 (be16 22 @ be16 8 @ be32 0x01020304) (replicate 10 0xaa), 8)"
  using ofl_actions_pack_image [of "Ofl_action 22 (Act_group 0x01020304)"
      "be16 22 @ be16 8 @ be32 0x01020304" 1 "replicate 10 0xaa" host_ext 0]
  by (simp add: wire_simps)

text \<open>
  C23. A list of actions that all have a wire image (of types of the protocol, without set-field and
  experimenter actions), together below 2^64 bytes, fills the space its total length reserves: the images lie one behind the other
  and the pointer ends right behind the last.
\<close>

theorem ofl_actions_fill_space:
  assumes "those (map action_image actions) = Some imgs" "length (concat imgs) < 2 ^ 64"
    and "ofl_actions_ofp_total_len X actions = Some n" "length mid = unat n"
  shows "pack_loop (\<lambda>a ptr. ofl_actions_pack X a ptr 0) actions (length pre) (pre @ mid @ post)
           = Some (pre @ concat imgs @ post, length pre + unat n)"
proof -
  from assms(3) total_len_images [OF assms(1), of X] have "n = of_nat (length (concat imgs))" by simp
  then have "unat n = length (concat imgs)" by (simp only: unat_of_nat64 [OF assms(2)])
  with actions.pack_loop_at [OF assms(1), of mid X 0 pre post] assms(2,4) show ?thesis by simp
qed

lemma ofl_actions_fill_space_witness:
  "pack_loop (\<lambda>a ptr. ofl_actions_pack host_ext a ptr 0)
     [Ofl_action 22 (Act_group 1), Ofl_action 24 Act_header] (length [7 :: u8]) ([7] @ replicate 16 0 @ [9])
     = Some ([7] @ concat [be16 22 @ be16 8 @ be32 1, be16 24 @ be16 8 @ zeros 4] @ [9],
             length [7 :: u8] + unat (16 :: size_t))"
  by (rule ofl_actions_fill_space)
    (simp_all add: wire_simps ofl_actions_ofp_len_def layout_simps)

text \<open>
  An action of an unknown type is counted with no bytes, but packing it writes eight (its type
  and the padding): at the end of a packet-out this is a write behind the buffer.
\<close>

theorem packet_out_unknown_action:
  assumes "ofp_action_type_of (unat type) = None" "h 24 = Some junk"
  shows "ofl_actions_ofp_len X (Ofl_action type body) = Some 0 \<and>
         ofl_msg_pack_packet_out X h buffer_id (Some port) [Ofl_action type body] [] = None"
  using assms
  by (simp add: ofl_actions_ofp_len_def ofl_msg_pack_packet_out_def ofl_actions_pack_def pack_simps)
    (simp add: put16_def put_bytes_None)

lemma packet_out_unknown_action_witness:
  "ofl_actions_ofp_len host_ext (Ofl_action 3 Act_header) = Some 0 \<and>
   ofl_msg_pack_packet_out host_ext ready_heap 1 (Some 2) [Ofl_action 3 Act_header] [] = None"
  by (rule packet_out_unknown_action) (simp_all add: ofp_action_type_of_def ofp_action_type_list_def)

text \<open>
  A set-field action of a packet-out whose OXM value has six bytes (a MAC address): the value is
  written at the start of the message, over \<open>buffer_id\<close> and \<open>in_port\<close>, and the value bytes of the
  action itself are left as they were.
\<close>

theorem set_field_overwrites_message:
  assumes "OXM_LENGTH X header = 6" "6 \<le> length value" "rounds_up X"
    and "16 \<le> dst" "dst + 16 \<le> length bs"
  shows "\<exists>bs'. ofl_actions_pack X (Ofl_action 25 (Act_set_field header value)) dst 0 bs = Some (bs', 16) \<and>
           slice 8 6 bs' = take 6 value \<and> slice (dst + 8) 8 bs' = slice (dst + 8) 8 bs"
proof -
  have up: "ROUND_UP X 6 8 = 8" using assms(3) by (simp add: rounds_up_def)
  have htons: "ntohs (htons 16) = 16" by simp
  show ?thesis
    using assms
    by (simp add: ofl_actions_pack_def pack_set_field_def pack_set_field_value_def wire_simps up mem_simps
        layout_simps Let_def)
      (simp add: slice_def)
qed

lemma set_field_overwrites_message_witness:
  "\<exists>bs'. ofl_actions_pack host_ext (Ofl_action 25 (Act_set_field 6 [1, 2, 3, 4, 5, 6])) 24 0 (replicate 40 0)
       = Some (bs', 16) \<and>
     slice 8 6 bs' = take 6 [1, 2, 3, 4, 5, 6] \<and>
     slice (24 + 8) 8 bs' = slice (24 + 8) 8 (replicate 40 0)"
  by (rule set_field_overwrites_message [OF _ _ host_rounds_up]) (simp_all add: host_ext_def)

section \<open>Particular messages\<close>

text \<open>
  The short features reply. The parser logs that the message is too short and reads on: every
  well-formed header of type 6 with fewer than 20 bytes behind it makes it read outside the buffer.
\<close>

theorem features_reply_over_read:
  assumes "buf = header_image 6 (8 + length rest) xid @ rest" "length rest < 20"
  shows "ofl_msg_unpack X buf (of_nat (length buf)) x = None"
proof -
  have "get32 24 buf = None" using assms by (simp add: get32_None)
  then have "ofl_msg_unpack_features_reply X buf n = None" for n
    by (auto simp: ofl_msg_unpack_features_reply_def layout_simps Let_def bind_eq_None_conv)
  with ofl_msg_unpack_framed [OF assms(1), of X x] assms show ?thesis
    by (simp add: unpack_switch_def wire_simps)
qed

lemma features_reply_over_read_witness:
  "ofl_msg_unpack host_ext (header_image 6 8 7 @ []) (of_nat (length (header_image 6 8 7 @ []))) (Some 0) = None"
  by (rule features_reply_over_read [where rest = "[]"]) simp_all

text \<open>
  The queue configuration request is checked against the size of another structure: with fewer
  than four bytes behind the header the port is read outside the buffer, and with exactly four a
  message without its padding is accepted.
\<close>

theorem queue_get_config_request_short:
  "(length rest < 4 \<longrightarrow>
      ofl_msg_unpack X (header_image 22 (8 + length rest) xid @ rest) (of_nat (8 + length rest)) x = None) \<and>
   (port \<noteq> 0 \<and> port \<le> OFPP_MAX \<longrightarrow>
      ofl_msg_unpack X (header_image 22 12 xid @ be32 port) 12 x
        = Some (map_option (\<lambda>_. xid) x, Inr (Ofl_msg 22 (Msg_queue_get_config_request port))))"
proof (intro conjI impI)
  assume short: "length rest < 4"
  let ?buf = "header_image 22 (8 + length rest) xid @ rest"
  have "get32 8 ?buf = None" using short by (simp add: get32_None)
  with short ofl_msg_unpack_framed [OF refl, of 22 rest xid X x]
  show "ofl_msg_unpack X ?buf (of_nat (8 + length rest)) x = None"
    by (simp add: unpack_switch_def wire_simps ofl_msg_unpack_queue_get_config_request_def layout_simps
        word_less_nat_alt unat_word_ariths)
next
  assume "port \<noteq> 0 \<and> port \<le> OFPP_MAX"
  moreover have "get32 8 (header_image 22 12 xid @ be32 port) = Some (le_word (be32 port))"
    by (simp add: get32_Some slice_def)
  ultimately show "ofl_msg_unpack X (header_image 22 12 xid @ be32 port) 12 x
        = Some (map_option (\<lambda>_. xid) x, Inr (Ofl_msg 22 (Msg_queue_get_config_request port)))"
    using ofl_msg_unpack_framed [OF refl, of 22 "be32 port" xid X x]
    by (simp add: unpack_switch_def wire_simps ofl_msg_unpack_queue_get_config_request_def layout_simps
        not_less)
qed

lemma queue_get_config_request_short_witness:
  "ofl_msg_unpack host_ext (header_image 22 8 7 @ []) 8 (Some 0) = None \<and>
   ofl_msg_unpack host_ext (header_image 22 12 7 @ be32 5) 12 (Some 0)
     = Some (Some 7, Inr (Ofl_msg 22 (Msg_queue_get_config_request 5)))"
  using queue_get_config_request_short [of "[]" host_ext 7 "Some 0" 5] by (simp add: OFPP_MAX_def)

definition match_packs_behind :: "'x ofl_ext \<Rightarrow> bool" where
  "match_packs_behind X \<longleftrightarrow>
     (\<forall>m order dst fields buf buf'. match_pack X m order dst fields buf = Some buf' \<longrightarrow>
        dst \<le> fields \<longrightarrow> take dst buf' = take dst buf)"

lemma slice_take: "k + n \<le> l \<Longrightarrow> slice k n (take l xs) = slice k n xs"
  by (simp add: slice_def drop_take)

lemma bswap8_low_zero:
  assumes "unat (v :: u64) < 2 ^ 16"
  shows "(ucast (bswap 8 v) :: u16) = 0"
proof (rule bit_word_eqI)
  fix k assume "k < LENGTH(16)"
  then have k: "k < 16" by simp
  have v: "\<not> bit v j" if "16 \<le> j" for j
    using assms that by (metis bit_take_bit_iff not_le take_bit_nat_eq_self unsigned_take_bit_eq word_unat_eq_iff)
  have "bit (bswap 8 v) k = bit (le_word (rev (le_bytes 8 v)) :: u64) k" by (simp add: bswap_def)
  also have "\<dots> = bit (rev (le_bytes 8 v) ! (k div 8)) (k mod 8)"
    using k by (simp add: bit_le_word)
  also have "\<dots> = bit v (8 * (7 - k div 8) + k mod 8)"
    using k by (simp add: rev_nth bit_simps)
  also have "\<dots> = False" using k by (intro iffD2 [OF eq_False] v) linarith
  finally show "bit (ucast (bswap 8 v) :: u16) k = bit (0 :: u16) k" by (simp add: bit_simps)
qed

text \<open>
  A packed flow-removed message carries neither of two of its members: the priority, a 16-bit
  value, is swapped as a 64-bit one and cut, which leaves zero, and the hard timeout is whatever the
  allocated memory held. The library is asked to write the match at its place and not before it.
\<close>

theorem flow_removed_loses_members:
  assumes "ofl_msg_pack_flow_removed X h m = Some bs" "swaps64 X" "match_packs_behind X"
    and "unat (fr_priority m) < 2 ^ 16"
    and "h (of_int (ROUND_UP X (52 + uint (match_length X (fr_match m))) 8)) = Some junk"
  shows "slice 16 2 bs = [0, 0] \<and> slice 30 2 bs = [junk 30, junk 31]"
proof -
  let ?n = "unat (of_int (ROUND_UP X (52 + uint (match_length X (fr_match m))) 8) :: size_t)"
  have pr: "ucast (hton64 X (fr_priority m)) = (0 :: u16)"
    using assms(2,4) by (simp add: swaps64_def bswap8_low_zero)
  have big: "48 \<le> ?n" 
    using assms(1,5)
    by (auto simp: ofl_msg_pack_flow_removed_def layout_simps malloc_eq store_defs put_bytes_def split: if_splits)
  define buf where "buf = upd 40 (le_bytes 8 (hton64 X (fr_byte_count m)))
    (upd 32 (le_bytes 8 (hton64 X (fr_packet_count m))) (upd 28 (be16 (fr_idle_timeout m))
    (upd 24 (be32 (fr_duration_nsec m)) (upd 20 (be32 (fr_duration_sec m)) (upd 19 [fr_table_id m]
    (upd 18 [fr_reason m] (upd 16 (zeros 2) (upd 8 (le_bytes 8 (hton64 X (fr_cookie m)))
    (map junk [0..<?n])))))))))"
  have mp: "match_pack X (fr_match m) HOST_ORDER 48 52 buf = Some bs"
    using assms(1,5) big pr
    by (simp add: ofl_msg_pack_flow_removed_def layout_simps malloc_eq mem_simps buf_def)
  have sl: "slice 16 2 buf = zeros 2" "slice 30 2 buf = slice 30 2 (map junk [0..<?n])"
    using big by (simp_all add: buf_def mem_simps)
  have junk: "slice 30 2 (map junk [0..<?n]) = [junk 30, junk 31]"
    using big by (intro nth_equalityI) (auto simp: less_Suc_eq numeral_2_eq_2)
  have "take 48 bs = take 48 buf" using assms(3) mp by (simp add: match_packs_behind_def)
  then have "slice k 2 bs = slice k 2 buf" if "k + 2 \<le> 48" for k
    using that by (metis slice_take)
  with sl junk show ?thesis by (simp add: numeral_2_eq_2)
qed

lemma flow_removed_loses_members_witness:
  "\<exists>bs. ofl_msg_pack_flow_removed host_ext ready_heap
       \<lparr> fr_reason = 0, fr_table_id = 1, fr_duration_sec = 2, fr_duration_nsec = 3, fr_priority = 4,
         fr_idle_timeout = 5, fr_hard_timeout = 6, fr_cookie = 7, fr_packet_count = 8,
         fr_byte_count = 9, fr_match = [] \<rparr> = Some bs \<and>
     slice 16 2 bs = [0, 0] \<and> slice 30 2 bs = [0xaa, 0xaa]"
proof -
  let ?m = "\<lparr> fr_reason = 0, fr_table_id = 1, fr_duration_sec = 2, fr_duration_nsec = 3, fr_priority = 4,
         fr_idle_timeout = 5, fr_hard_timeout = 6, fr_cookie = 7, fr_packet_count = 8,
         fr_byte_count = 9, fr_match = [] \<rparr> :: bytes ofl_flow_removed"
  have X: "match_packs_behind host_ext"
    by (auto simp: match_packs_behind_def host_ext_def put_bytes_def upd_append split: if_splits)
  have "match_pack host_ext [] HOST_ORDER 48 52 buf = Some buf" if "52 \<le> length buf" for buf
    using that by (simp add: host_ext_def put_bytes_Some)
  moreover have len: "match_length host_ext [] = 0" "ROUND_UP host_ext 52 8 = 56"
    by (simp_all add: host_ext_def)
  ultimately obtain bs where "ofl_msg_pack_flow_removed host_ext ready_heap ?m = Some bs"
    by (auto simp: ofl_msg_pack_flow_removed_def layout_simps malloc_eq mem_simps)
  with flow_removed_loses_members [OF this _ X] len show ?thesis by simp
qed

text \<open>
  The check of the group type never fires: the one-byte member is swapped as if it had two, so
  that a group modification without buckets is accepted with every type but \<open>OFPGT_INDIRECT\<close>,
  also with the types 4 to 127 the check means to refuse.
\<close>

theorem group_mod_any_type:
  assumes "type \<noteq> OFPGT_INDIRECT" "command \<le> OFPGC_DELETE" "gid \<le> OFPG_MAX"
    and "length hdr = 8" "buf = hdr @ be16 command @ [type, 0] @ be32 gid"
    and "e_count (x_bucket X) buf 16 0 = ok 0"
  shows "ofl_msg_unpack_group_mod X buf 16 = ok (Msg_group_mod command type gid [], 0)"
proof -
  note group_type_check [of type]
  moreover have "get16 8 buf = Some (le_word (be16 command))" "get8 10 buf = Some type"
    "get32 12 buf = Some (le_word (be32 gid))"
    using assms(4,5) by (simp_all add: unpack_simps)
  ultimately show ?thesis using assms
    by (simp add: ofl_msg_unpack_group_mod_def layout_simps not_less)
qed

lemma group_mod_any_type_witness:
  "ofl_msg_unpack_group_mod host_ext (replicate 8 0 @ be16 0 @ [77, 0] @ be32 1) 16
     = ok (Msg_group_mod 0 77 1 [], 0)"
  by (rule group_mod_any_type) (simp_all add: wire_simps host_ext_def no_elem_def)

text \<open>
  The parser has no case for the meter features, which the packer writes: a request or a reply
  of that type is refused.
\<close>

theorem meter_features_not_parsed:
  assumes "type = 18 \<or> type = 19" "bs = header_image type (16 + length body) xid @ mp_image 11 flags body"
    and "length bs < 2 ^ 16"
  shows "ofl_msg_unpack X bs (of_nat (length bs)) x = Some (map_option (\<lambda>_. xid) x, Inl BAD_MULTIPART)"
proof -
  have bs: "bs = header_image type (8 + length (mp_image 11 flags body)) xid @ mp_image 11 flags body"
    using assms(2) by (simp add: mp_image_def)
  have "get16 8 bs = Some (le_word (be16 11))"
    using assms(2) by (simp add: mp_image_def mp_fields)
  moreover have "length bs = 16 + length body" using assms(2) by (simp add: mp_image_def)
  ultimately show ?thesis
    using ofl_msg_unpack_framed [OF bs assms(3), of X x] assms(1,3)
    by (auto simp: unpack_switch_def wire_simps ofl_msg_unpack_multipart_request_def
        ofl_msg_unpack_multipart_reply_def unpack_request_switch_def unpack_reply_switch_def layout_simps
        word_less_nat_alt unat_word_ariths)
qed

lemma meter_features_not_parsed_witness:
  "ofl_msg_unpack host_ext (header_image 18 16 7 @ mp_image 11 0 [])
     (of_nat (length (header_image 18 16 7 @ mp_image 11 0 []))) (Some 0) = Some (Some 7, Inl BAD_MULTIPART)"
  using meter_features_not_parsed [of 18 "header_image 18 16 7 @ mp_image 11 0 []" "[]" 7 0 host_ext "Some 0"]
  by (simp add: mp_image_def)

text \<open>
  A message of an unknown type is refused with a code from another enumeration, which among the
  codes of its error type means that the controller is a slave.
\<close>

theorem unknown_type_reported_as_slave:
  assumes "ofp_type_of (unat (ucast type :: u8)) = None"
    and "bs = header_image type (8 + length body) xid @ body" "length bs < 2 ^ 16"
  shows "ofl_msg_unpack X bs (of_nat (length bs)) x
    = Some (map_option (\<lambda>_. xid) x, Inl (ofl_error OFPET_BAD_REQUEST OFPBRC_IS_SLAVE))"
  using ofl_msg_unpack_framed [OF assms(2,3), of X x] assms(1)
  by (simp add: unpack_switch_def OFPGMFC_BAD_TYPE_def OFPBRC_IS_SLAVE_def)

lemma unknown_type_reported_as_slave_witness:
  "ofl_msg_unpack host_ext (header_image 99 8 7 @ []) (of_nat (length (header_image 99 8 7 @ []))) (Some 0)
     = Some (Some 7, Inl (ofl_error OFPET_BAD_REQUEST OFPBRC_IS_SLAVE))"
  using unknown_type_reported_as_slave [of 99 "header_image 99 8 7 @ []" "[]" 7 host_ext "Some 0"]
  by (simp add: ofp_type_of_def ofp_type_list_def)

text \<open>
  Bytes behind a message that has no body are not noticed: any payload is accepted.
\<close>

theorem trailing_bytes_accepted:
  assumes "type \<in> {0, 5, 7, 20, 21, 26}"
    and "bs = header_image type (8 + length body) xid @ body" "length bs < 2 ^ 16"
  shows "ofl_msg_unpack X bs (of_nat (length bs)) x
    = Some (map_option (\<lambda>_. xid) x, Inr (Ofl_msg type Msg_header))"
  using ofl_msg_unpack_framed [OF assms(2,3), of X x] assms(1)
  by (auto simp: unpack_switch_def wire_simps ofl_msg_unpack_empty_def)

lemma trailing_bytes_accepted_witness:
  "ofl_msg_unpack host_ext (header_image 0 11 7 @ [1, 2, 3])
     (of_nat (length (header_image 0 11 7 @ [1, 2, 3]))) (Some 0)
     = Some (Some 7, Inr (Ofl_msg 0 Msg_header))"
  using trailing_bytes_accepted [of 0 "header_image 0 11 7 @ [1, 2, 3]" "[1, 2, 3]" 7 host_ext "Some 0"]
  by simp

text \<open>
  A description reply cannot be sent on: the parser copies each string up to its terminator,
  and packing reads the full wire length from the copy. If the manufacturer string ends within its
  field, the read is outside the copy.
\<close>

theorem description_not_repackable:
  assumes "ofl_msg_unpack_reply_desc buf len = ok (Rep_desc d, len')"
    and "0 \<in> set (slice 16 255 buf)" "16 + 255 \<le> length buf"
  shows "ofl_msg_pack_multipart_reply_desc h d = None"
proof -
  let ?tail = "drop 16 buf"
  have "de_mfr_desc d = takeWhile (\<lambda>c. c \<noteq> 0) ?tail @ [0]"
    using assms(1)
    by (auto simp: ofl_msg_unpack_reply_desc_def copy_string_def Let_def rep_body_def layout_simps
        split: if_splits)
  moreover have "length (takeWhile (\<lambda>c. c \<noteq> 0) ?tail) < 255"
  proof -
    obtain i where "i < 255" "?tail ! i = 0" "i < length ?tail"
      using assms(2,3) by (auto simp: in_set_conv_nth)
    then have "length (takeWhile (\<lambda>c. c \<noteq> 0) ?tail) \<le> i"
      by (metis (mono_tags, lifting) not_le nth_mem nth_length_takeWhile set_takeWhileD takeWhile_nth)
    with \<open>i < 255\<close> show ?thesis by simp
  qed
  ultimately have "get_bytes 0 256 (de_mfr_desc d) = None" by (simp add: get_bytes_None)
  then show ?thesis
    by (auto simp: ofl_msg_pack_multipart_reply_desc_def DESC_STR_LEN_def bind_eq_None_conv)
qed

lemma description_not_repackable_witness:
  "ofl_msg_pack_multipart_reply_desc ready_heap
     \<lparr> de_mfr_desc = [0], de_hw_desc = [0], de_sw_desc = [0], de_serial_num = [0], de_dp_desc = [0] \<rparr> = None"
proof -
  let ?buf = "replicate 1072 0 :: bytes"
  have "drop k ?buf = 0 # replicate (1071 - k) 0" if "k < 1072" for k
    using that by (simp add: Suc_diff_le flip: replicate_Suc)
  then have "copy_string k ?buf = Some [0]" if "k < 1072" for k
    using that by (simp add: copy_string_def Let_def)
  then have "ofl_msg_unpack_reply_desc ?buf 1056 = (ok (Rep_desc
      \<lparr> de_mfr_desc = [0], de_hw_desc = [0], de_sw_desc = [0], de_serial_num = [0], de_dp_desc = [0] \<rparr>, 0)
      :: (bytes mp_reply \<times> size_t) parsed)"
    by (simp add: ofl_msg_unpack_reply_desc_def rep_body_def layout_simps)
  from description_not_repackable [OF this] show ?thesis by (simp add: slice_def)
qed

end
